(* ===== verification/Prelude.thy ===== *)
theory Prelude
  imports Complex_Main "HOL-Library.Code_Target_Nat" "HOL-Library.AList" "HOL-Library.Char_ord" "HOL-Library.List_Lexorder"
begin

text \<open>
  What every component shares: Python's errors as sums, strings and their methods,
  dictionaries as insertion-ordered association lists, floats with their non-finite values,
  and messages. The lemma collections \<open>str_simps\<close> and \<open>dict_simps\<close> carry the facts about
  strings and dictionaries that the component theories use again and again.

  Python's \<open>str\<close> is a list of code points; the model's \<open>string\<close> is a list of 8-bit
  \<open>char\<close>, so it covers the code points below 256. A dictionary keeps insertion order and
  updates a present key in place, which is what \<^const>\<open>AList.update\<close> does. A message of the
  code is an f-string; the model keeps it as the list of its literal pieces and formatted
  values (\<open>msg\<close>) and leaves the formatting of floats to Python.
\<close>

named_theorems str_simps "facts about the model's string functions"
named_theorems dict_simps "facts about dictionaries as association lists"

section \<open>Results: a value or an exception\<close>

definition rbind :: "'e + 'a \<Rightarrow> ('a \<Rightarrow> 'e + 'b) \<Rightarrow> 'e + 'b" where
  "rbind m f = (case m of Inl e \<Rightarrow> Inl e | Inr x \<Rightarrow> f x)"

lemma rbind_simps [simp]:
  "rbind (Inl e) f = Inl e" "rbind (Inr x) f = f x"
  by (simp_all add: rbind_def)

lemma rbind_cong [fundef_cong]:
  "m = m' \<Longrightarrow> (\<And>x. m' = Inr x \<Longrightarrow> f x = f' x) \<Longrightarrow> rbind m f = rbind m' f'"
  by (cases m') auto

lemma rbind_Inr_iff: "rbind m f = Inr y \<longleftrightarrow> (\<exists>x. m = Inr x \<and> f x = Inr y)"
  by (cases m) auto

lemma rbind_Inl_iff: "rbind m f = Inl e \<longleftrightarrow> m = Inl e \<or> (\<exists>x. m = Inr x \<and> f x = Inl e)"
  by (cases m) auto

text \<open>A comprehension whose element expression may raise: the first exception ends it.\<close>

fun rmap :: "('a \<Rightarrow> 'e + 'b) \<Rightarrow> 'a list \<Rightarrow> 'e + 'b list" where
  "rmap f [] = Inr []"
| "rmap f (x # xs) = rbind (f x) (\<lambda>y. rbind (rmap f xs) (\<lambda>ys. Inr (y # ys)))"

lemma rmap_cong [fundef_cong]:
  "xs = ys \<Longrightarrow> (\<And>x. x \<in> set ys \<Longrightarrow> f x = g x) \<Longrightarrow> rmap f xs = rmap g ys"
proof (induction ys arbitrary: xs)
  case (Cons y ys)
  then have "rmap f ys = rmap g ys" "f y = g y" by auto
  with Cons.prems show ?case by simp
qed simp

lemma rmap_Inr_iff: "rmap f xs = Inr ys \<longleftrightarrow> list_all2 (\<lambda>x y. f x = Inr y) xs ys"
  by (induction xs arbitrary: ys) (auto simp: rbind_Inr_iff list_all2_Cons1)

lemma rmap_total: "(\<And>x. x \<in> set xs \<Longrightarrow> \<exists>y. f x = Inr y) \<Longrightarrow> \<exists>ys. rmap f xs = Inr ys"
proof (induction xs)
  case (Cons x xs)
  then obtain y ys where "f x = Inr y" "rmap f xs = Inr ys" by (metis list.set_intros)
  then show ?case by simp
qed simp

lemma rmap_Inr_map: "(\<And>x. x \<in> set xs \<Longrightarrow> f x = Inr (g x)) \<Longrightarrow> rmap f xs = Inr (map g xs)"
  by (induction xs) auto

text \<open>\<open>None\<close> where the code raises.\<close>

fun rfold :: "('a \<Rightarrow> 's \<Rightarrow> 'e + 's) \<Rightarrow> 'a list \<Rightarrow> 's \<Rightarrow> 'e + 's" where
  "rfold f [] s = Inr s"
| "rfold f (x # xs) s = rbind (f x s) (rfold f xs)"

lemma rfold_append: "rfold f (xs @ ys) s = rbind (rfold f xs s) (rfold f ys)"
  by (induction xs arbitrary: s) (auto simp: rbind_def split: sum.splits)

text \<open>A relation between the states before and after a step, kept by loops of steps that keep it.\<close>

locale state_relation =
  fixes rel :: "'s \<Rightarrow> 's \<Rightarrow> bool"
  assumes related_refl: "rel s s"
    and related_trans: "rel s t \<Longrightarrow> rel t u \<Longrightarrow> rel s u"
begin

lemma rfold_related:
  assumes "\<And>x s s'. f x s = Inr s' \<Longrightarrow> rel s s'" "rfold f xs s = Inr s'"
  shows "rel s s'"
  using assms(2)
proof (induction xs arbitrary: s)
  case (Cons x xs)
  then obtain t where "f x s = Inr t" "rfold f xs t = Inr s'" by (auto simp: rbind_Inr_iff)
  with assms(1) Cons.IH show ?case by (blast intro: related_trans)
qed (simp add: related_refl)

end

definition or_raise :: "'e \<Rightarrow> 'a option \<Rightarrow> 'e + 'a" where
  "or_raise e x = (case x of None \<Rightarrow> Inl e | Some y \<Rightarrow> Inr y)"

lemma or_raise_Inr [simp]: "or_raise e x = Inr y \<longleftrightarrow> x = Some y"
  by (cases x) (auto simp: or_raise_def)

lemma rmap_filtered:
  assumes "rmap f xs = Inr ys" "\<And>x y. x \<in> set xs \<Longrightarrow> f x = Inr y \<Longrightarrow> (P y \<longleftrightarrow> Q x) \<and> g y = h x"
  shows "map g (filter P ys) = map h (filter Q xs)"
  using assms
proof (induction xs arbitrary: ys)
  case (Cons x xs)
  from Cons.prems(1) obtain y zs where y: "f x = Inr y" "rmap f xs = Inr zs" "ys = y # zs" by (auto simp: rbind_Inr_iff)
  from Cons.prems(2)[of x y] y(1) have "P y \<longleftrightarrow> Q x" "g y = h x" by simp_all
  moreover from Cons.IH[OF y(2)] Cons.prems(2) have "map g (filter P zs) = map h (filter Q xs)" by simp
  ultimately show ?case by (simp add: y(3))
qed simp

lemma rmap_each: "rmap f xs = Inr ys \<Longrightarrow> x \<in> set xs \<Longrightarrow> \<exists>y\<in>set ys. f x = Inr y"
  by (induction xs arbitrary: ys) (auto simp: rbind_Inr_iff)

lemma rmap_projected:
  assumes "rmap f xs = Inr ys" "\<And>x y. x \<in> set xs \<Longrightarrow> f x = Inr y \<Longrightarrow> g y = h x"
  shows "map g ys = map h xs"
  using rmap_filtered[OF assms(1), of "\<lambda>_. True" "\<lambda>_. True" g h] assms(2) by simp

lemma rmap_in:
  assumes "rmap f xs = Inr ys" "y \<in> set ys"
  shows "\<exists>x\<in>set xs. f x = Inr y"
  using assms by (fastforce simp: rmap_Inr_iff list_all2_conv_all_nth in_set_conv_nth)

lemma rmap_Inl: "rmap f xs = Inl e \<Longrightarrow> \<exists>x\<in>set xs. f x = Inl e"
  by (induction xs) (auto simp: rbind_Inl_iff)

lemma rmap_keyed:
  "rmap (\<lambda>x. rbind (f x) (\<lambda>y. Inr (g x, y))) xs = Inr kvs \<Longrightarrow> map fst kvs = map g xs"
  by (induction xs arbitrary: kvs) (auto simp: rbind_Inr_iff)

section \<open>Strings\<close>

definition digit_char :: "nat \<Rightarrow> char" where
  "digit_char n = char_of (48 + n)"

definition is_digit :: "char \<Rightarrow> bool" where
  "is_digit c \<longleftrightarrow> 48 \<le> (of_char c :: nat) \<and> (of_char c :: nat) \<le> 57"

fun show_nat :: "nat \<Rightarrow> string" where
  "show_nat n = (if n < 10 then [digit_char n] else show_nat (n div 10) @ [digit_char (n mod 10)])"

declare show_nat.simps [simp del]

definition show_int :: "int \<Rightarrow> string" where
  "show_int i = (if i < 0 then ''-'' @ show_nat (nat (- i)) else show_nat (nat i))"

definition read_nat :: "string \<Rightarrow> nat" where
  "read_nat s = foldl (\<lambda>a c. a * 10 + (of_char c - 48)) 0 s"

text \<open>\<open>s.split(c)\<close> for a single character, \<open>sep.join(parts)\<close>, \<open>s.partition(c)\<close>
  (the part before the first \<open>c\<close>, whether there is one, the part after),
  \<open>s.rpartition(c)\<close> (the parts around the last \<open>c\<close>), \<open>s.replace(c, r)\<close>.\<close>

fun split_on :: "char \<Rightarrow> string \<Rightarrow> string list" where
  "split_on c [] = [[]]"
| "split_on c (x # xs) =
     (if x = c then [] # split_on c xs
      else case split_on c xs of [] \<Rightarrow> [[x]] | p # ps \<Rightarrow> (x # p) # ps)"

fun join_with :: "string \<Rightarrow> string list \<Rightarrow> string" where
  "join_with sep [] = []"
| "join_with sep [x] = x"
| "join_with sep (x # xs) = x @ sep @ join_with sep xs"

definition partition_on :: "char \<Rightarrow> string \<Rightarrow> string \<times> bool \<times> string" where
  "partition_on c s =
     (takeWhile (\<lambda>x. x \<noteq> c) s, c \<in> set s, drop 1 (dropWhile (\<lambda>x. x \<noteq> c) s))"

definition rpartition_on :: "char \<Rightarrow> string \<Rightarrow> string \<times> bool \<times> string" where
  "rpartition_on c s =
     (if c \<in> set s
      then (rev (drop 1 (dropWhile (\<lambda>x. x \<noteq> c) (rev s))), True,
            rev (takeWhile (\<lambda>x. x \<noteq> c) (rev s)))
      else ([], False, s))"

definition replace_char :: "char \<Rightarrow> string \<Rightarrow> string \<Rightarrow> string" where
  "replace_char c r s = concat (map (\<lambda>x. if x = c then r else [x]) s)"

definition starts_with :: "string \<Rightarrow> string \<Rightarrow> bool" where
  "starts_with p s \<longleftrightarrow> take (length p) s = p"

definition ends_with :: "string \<Rightarrow> string \<Rightarrow> bool" where
  "ends_with p s \<longleftrightarrow> starts_with (rev p) (rev s)"

text \<open>\<open>repr\<close> of a string: single quotes unless the text holds one and no double quote;
  backslash, the quote and control characters escaped.\<close>

definition hex_digit :: "nat \<Rightarrow> char" where
  "hex_digit n = (if n < 10 then char_of (48 + n) else char_of (87 + n))"

definition repr_char :: "char \<Rightarrow> char \<Rightarrow> string" where
  "repr_char q c =
     (let n = (of_char c :: nat) in
      if c = q \<or> c = CHR 0x5C then [CHR 0x5C, c]
      else if n = 9 then [CHR 0x5C, CHR ''t'']
      else if n = 10 then [CHR 0x5C, CHR ''n'']
      else if n = 13 then [CHR 0x5C, CHR ''r'']
      else if n < 32 \<or> (127 \<le> n \<and> n < 161) \<or> n = 173
        then [CHR 0x5C, CHR ''x'', hex_digit (n div 16), hex_digit (n mod 16)]
      else [c])"

definition repr_str :: "string \<Rightarrow> string" where
  "repr_str s =
     (let q = (if CHR 0x27 \<in> set s \<and> CHR 0x22 \<notin> set s then CHR 0x22 else CHR 0x27)
      in [q] @ concat (map (repr_char q) s) @ [q])"

text \<open>\<open>sorted(set(xs))\<close>.\<close>

definition sorted_set :: "'a::linorder list \<Rightarrow> 'a list" where
  "sorted_set xs = sort (remdups xs)"

lemma set_sorted_set [simp]: "set (sorted_set xs) = set xs"
  by (simp add: sorted_set_def)

lemma distinct_sorted_set [simp]: "distinct (sorted_set xs)"
  by (simp add: sorted_set_def)

lemma sorted_set_Nil_iff [simp]: "sorted_set xs = [] \<longleftrightarrow> xs = []"
  by (metis set_empty set_sorted_set)


subsection \<open>Lemmas on strings\<close>

lemma digit_char_is_digit [simp]: "n < 10 \<Longrightarrow> is_digit (digit_char n)"
  by (simp add: is_digit_def digit_char_def)

lemma of_char_digit_char [simp]: "n < 10 \<Longrightarrow> of_char (digit_char n) = 48 + n"
  by (simp add: digit_char_def)

lemma show_nat_digits: "c \<in> set (show_nat n) \<Longrightarrow> is_digit c"
proof (induction n rule: show_nat.induct)
  case (1 n)
  then show ?case by (cases "n < 10") (auto simp: show_nat.simps[of n])
qed

lemma show_nat_not_Nil [simp]: "show_nat n \<noteq> []"
  by (subst show_nat.simps) auto

lemma read_nat_snoc: "read_nat (s @ [c]) = read_nat s * 10 + (of_char c - 48)"
  by (simp add: read_nat_def)

lemma read_show_nat [simp, str_simps]: "read_nat (show_nat n) = n"
proof (induction n rule: show_nat.induct)
  case (1 n)
  show ?case
  proof (cases "n < 10")
    case True
    then show ?thesis by (simp add: show_nat.simps[of n] read_nat_def)
  next
    case False
    with 1 show ?thesis by (simp add: show_nat.simps[of n] read_nat_snoc)
  qed
qed

lemma show_nat_inj [simp, str_simps]: "show_nat m = show_nat n \<longleftrightarrow> m = n"
  by (metis read_show_nat)

lemma digit_not_special [simp]:
  "\<not> is_digit CHR ''/''" "\<not> is_digit CHR ''[''" "\<not> is_digit CHR '']''" "\<not> is_digit CHR ''.''"
  "\<not> is_digit CHR '':''" "\<not> is_digit CHR ''-''" "\<not> is_digit CHR ''#''"
  by (simp_all add: is_digit_def)

lemma show_nat_no_special [simp, str_simps]:
  "CHR ''/'' \<notin> set (show_nat n)" "CHR ''['' \<notin> set (show_nat n)" "CHR '']'' \<notin> set (show_nat n)"
  "CHR ''.'' \<notin> set (show_nat n)" "CHR '':'' \<notin> set (show_nat n)" "CHR ''#'' \<notin> set (show_nat n)"
  using show_nat_digits digit_not_special by blast+

lemma split_on_not_Nil [simp]: "split_on c s \<noteq> []"
  by (induction s) (auto split: list.splits)

lemma split_on_no_sep: "c \<notin> set s \<Longrightarrow> split_on c s = [s]"
  by (induction s) auto

lemma split_on_append: "c \<notin> set p \<Longrightarrow> split_on c (p @ c # s) = p # split_on c s"
  by (induction p) auto

lemma split_on_join:
  "ps \<noteq> [] \<Longrightarrow> \<forall>p\<in>set ps. c \<notin> set p \<Longrightarrow> split_on c (join_with [c] ps) = ps"
proof (induction ps)
  case (Cons p ps)
  then show ?case
    by (cases ps) (auto simp: split_on_no_sep split_on_append)
qed simp

lemma join_split_on: "join_with [c] (split_on c s) = s"
proof (induction s)
  case (Cons x xs)
  show ?case
  proof (cases "split_on c xs")
    case (Cons p ps)
    with Cons.IH show ?thesis by (cases ps) auto
  qed simp
qed simp

lemma takeWhile_until: "c \<notin> set p \<Longrightarrow> takeWhile (\<lambda>x. x \<noteq> c) (p @ c # s) = p"
  by (induction p) auto

lemma dropWhile_until: "c \<notin> set p \<Longrightarrow> dropWhile (\<lambda>x. x \<noteq> c) (p @ c # s) = c # s"
  by (induction p) auto

lemma takeWhile_absent: "c \<notin> set p \<Longrightarrow> takeWhile (\<lambda>x. x \<noteq> c) p = p"
  by (induction p) auto

lemma dropWhile_absent: "c \<notin> set p \<Longrightarrow> dropWhile (\<lambda>x. x \<noteq> c) p = []"
  by (induction p) auto

lemma partition_on_append: "c \<notin> set p \<Longrightarrow> partition_on c (p @ c # s) = (p, True, s)"
  by (simp add: partition_on_def takeWhile_until dropWhile_until)

lemma partition_on_none: "c \<notin> set s \<Longrightarrow> partition_on c s = (s, False, [])"
  by (simp add: partition_on_def takeWhile_absent dropWhile_absent)

lemma rpartition_on_append: "c \<notin> set s \<Longrightarrow> rpartition_on c (p @ c # s) = (p, True, s)"
  by (simp add: rpartition_on_def takeWhile_until dropWhile_until)

lemma starts_with_append [simp]: "starts_with p (p @ s)"
  by (simp add: starts_with_def)

lemma starts_with_iff: "starts_with p s \<longleftrightarrow> (\<exists>t. s = p @ t)"
  unfolding starts_with_def by (metis append_eq_conv_conj append_take_drop_id)

text \<open>A text splits uniquely at the last occurrence of a character.\<close>

lemma last_split_inj:
  assumes "(c :: char) \<notin> set s" "c \<notin> set t" "p @ c # s = q @ c # t"
  shows "p = q \<and> s = t"
proof -
  have "(p, True, s) = (q, True, t)"
    using rpartition_on_append[OF assms(1), of p] rpartition_on_append[OF assms(2), of q]
    unfolding assms(3) by (rule trans[OF sym])
  then show ?thesis by simp
qed

section \<open>Dictionaries\<close>

type_synonym ('k, 'v) dict = "('k \<times> 'v) list"

abbreviation dget :: "('k, 'v) dict \<Rightarrow> 'k \<Rightarrow> 'v option" where
  "dget d k \<equiv> map_of d k"

abbreviation dset :: "'k \<Rightarrow> 'v \<Rightarrow> ('k, 'v) dict \<Rightarrow> ('k, 'v) dict" where
  "dset k v d \<equiv> AList.update k v d"

definition dkeys :: "('k, 'v) dict \<Rightarrow> 'k list" where
  "dkeys d = map fst d"

definition dvalues :: "('k, 'v) dict \<Rightarrow> 'v list" where
  "dvalues d = map snd d"

text \<open>\<open>d.get(k, default)\<close>; \<open>{k: v for ...}\<close>, where a later pair overwrites the value of an
  earlier one and keeps its place; \<open>d.setdefault(k, []).append(v)\<close>.\<close>

definition dget_or :: "('k, 'v) dict \<Rightarrow> 'k \<Rightarrow> 'v \<Rightarrow> 'v" where
  "dget_or d k v = (case dget d k of Some x \<Rightarrow> x | None \<Rightarrow> v)"

definition dict_of :: "('k \<times> 'v) list \<Rightarrow> ('k, 'v) dict" where
  "dict_of kvs = fold (\<lambda>(k, v) d. dset k v d) kvs []"

definition dappend :: "'k \<Rightarrow> 'v \<Rightarrow> ('k, 'v list) dict \<Rightarrow> ('k, 'v list) dict" where
  "dappend k v d = dset k (dget_or d k [] @ [v]) d"

definition dict_ok :: "('k, 'v) dict \<Rightarrow> bool" where
  "dict_ok d \<longleftrightarrow> distinct (map fst d)"

lemma dget_dset [simp, dict_simps]: "dget (dset k v d) k' = (if k' = k then Some v else dget d k')"
  by (simp add: update_conv)

lemma set_dkeys: "set (dkeys d) = dom (dget d)"
  by (simp add: dkeys_def dom_map_of_conv_image_fst)

lemma dkeys_dset: "dkeys (dset k v d) = (if k \<in> set (dkeys d) then dkeys d else dkeys d @ [k])"
  by (simp add: dkeys_def update_keys)

lemma dict_ok_Nil [simp]: "dict_ok []"
  by (simp add: dict_ok_def)

lemma dict_ok_dset [simp]: "dict_ok d \<Longrightarrow> dict_ok (dset k v d)"
  by (simp add: dict_ok_def distinct_update)

lemma dget_or_dset [simp, dict_simps]:
  "dget_or (dset k v d) k' w = (if k' = k then v else dget_or d k' w)"
  by (simp add: dget_or_def)

lemma dict_fold_get:
  "dget (fold (\<lambda>(k, v) d. dset k v d) kvs d0) k =
     (case dget (rev kvs) k of Some v \<Rightarrow> Some v | None \<Rightarrow> dget d0 k)"
  by (induction kvs arbitrary: d0) (auto split: option.splits simp: map_add_def)

lemma dget_dict_of: "dget (dict_of kvs) k = dget (rev kvs) k"
  by (simp add: dict_of_def dict_fold_get split: option.splits)

lemma dict_fold_ok: "dict_ok d0 \<Longrightarrow> dict_ok (fold (\<lambda>(k, v) d. dset k v d) kvs d0)"
  by (induction kvs arbitrary: d0) auto

lemma dict_ok_dict_of [simp]: "dict_ok (dict_of kvs)"
  by (simp add: dict_of_def dict_fold_ok)

lemma dom_dict_of: "dom (dget (dict_of kvs)) = fst ` set kvs"
  by (auto simp: dget_dict_of dom_map_of_conv_image_fst fun_eq_iff)

lemma set_dkeys_dict_of [simp, dict_simps]: "set (dkeys (dict_of kvs)) = fst ` set kvs"
  by (simp add: set_dkeys dom_dict_of)

lemma dset_fresh: "k \<notin> fst ` set d \<Longrightarrow> dset k v d = d @ [(k, v)]"
  by (induction d) auto

lemma dict_fold_distinct:
  "distinct (map fst (d0 @ kvs)) \<Longrightarrow> fold (\<lambda>(k, v) d. dset k v d) kvs d0 = d0 @ kvs"
proof (induction kvs arbitrary: d0)
  case (Cons kv kvs)
  obtain k v where kv: "kv = (k, v)" by force
  from Cons.prems kv have "dset k v d0 = d0 @ [(k, v)]" by (auto intro: dset_fresh)
  with Cons.IH[of "d0 @ [(k, v)]"] Cons.prems kv show ?case by simp
qed simp

lemma dict_of_distinct: "distinct (map fst kvs) \<Longrightarrow> dict_of kvs = kvs"
  by (simp add: dict_of_def dict_fold_distinct)

lemma dget_Some_in: "dget d k = Some v \<Longrightarrow> (k, v) \<in> set d"
  by (rule map_of_SomeD)

lemma dget_in_iff: "dict_ok d \<Longrightarrow> (k, v) \<in> set d \<longleftrightarrow> dget d k = Some v"
  by (auto simp: dict_ok_def intro: map_of_is_SomeI map_of_SomeD)

lemma dict_of_in: "(k, v) \<in> set (dict_of kvs) \<Longrightarrow> (k, v) \<in> set kvs"
  using dget_in_iff[OF dict_ok_dict_of, of k v kvs] by (auto simp: dget_dict_of dest: dget_Some_in)

lemma dget_None_iff: "dget d k = None \<longleftrightarrow> k \<notin> fst ` set d"
  by (simp add: map_of_eq_None_iff)

lemma dget_or_dappend [dict_simps]:
  "dget_or (dappend k v d) k' [] = (if k' = k then dget_or d k [] @ [v] else dget_or d k' [])"
  by (simp add: dappend_def)

lemma dict_ok_dappend: "dict_ok d \<Longrightarrow> dict_ok (dappend k v d)"
  by (simp add: dappend_def dict_ok_dset)

lemma grouped_ok: "dict_ok d \<Longrightarrow> dict_ok (fold (\<lambda>(k, v) d. dappend k v d) xs d)"
  by (induction xs arbitrary: d) (auto simp: dict_ok_dappend)

lemma grouped_get: "dget_or (fold (\<lambda>(k, v) d. dappend k v d) xs d) key [] = dget_or d key [] @ map snd (filter (\<lambda>x. fst x = key) xs)"
  by (induction xs arbitrary: d) (auto simp: dget_or_dappend)

lemma grouped_keys: "fst ` set (fold (\<lambda>(k, v) d. dappend k v d) xs d) = fst ` set d \<union> fst ` set xs"
proof (induction xs arbitrary: d)
  case (Cons x xs)
  then show ?case by (cases x) (auto simp: dappend_def dom_update[unfolded dom_map_of_conv_image_fst] simp flip: dom_map_of_conv_image_fst)
qed simp

lemma grouped_entry:
  assumes "(k, vs) \<in> set (fold (\<lambda>(k, v) d. dappend k v d) xs [])"
  shows "vs = map snd (filter (\<lambda>x. fst x = k) xs)"
proof -
  have "dict_ok (fold (\<lambda>(k, v) d. dappend k v d) xs ([] :: ('a, 'b list) dict))" by (rule grouped_ok) (simp add: dict_ok_def)
  with assms have "dget (fold (\<lambda>(k, v) d. dappend k v d) xs []) k = Some vs" by (simp add: dget_in_iff)
  with grouped_get[of xs "[]" k] show ?thesis by (simp add: dget_or_def)
qed

section \<open>Floats\<close>

text \<open>
  A float is an exact rational or one of the three non-finite values. The comparisons are
  Python's: every comparison with a NaN is false. Rounding is not modelled: finite arithmetic
  is exact.
\<close>

datatype pyfloat = Fin rat | PInf | NInf | NaN

fun fl_isfinite :: "pyfloat \<Rightarrow> bool" where
  "fl_isfinite (Fin _) = True"
| "fl_isfinite _ = False"

fun fl_lt :: "pyfloat \<Rightarrow> pyfloat \<Rightarrow> bool" where
  "fl_lt NaN _ = False"
| "fl_lt _ NaN = False"
| "fl_lt (Fin a) (Fin b) = (a < b)"
| "fl_lt NInf y = (y \<noteq> NInf)"
| "fl_lt x NInf = False"
| "fl_lt PInf y = False"
| "fl_lt x PInf = True"

fun fl_eq :: "pyfloat \<Rightarrow> pyfloat \<Rightarrow> bool" where
  "fl_eq NaN _ = False"
| "fl_eq _ NaN = False"
| "fl_eq x y = (x = y)"

definition fl_le :: "pyfloat \<Rightarrow> pyfloat \<Rightarrow> bool" where
  "fl_le x y \<longleftrightarrow> fl_lt x y \<or> fl_eq x y"

fun fl_add :: "pyfloat \<Rightarrow> pyfloat \<Rightarrow> pyfloat" where
  "fl_add NaN _ = NaN"
| "fl_add _ NaN = NaN"
| "fl_add (Fin a) (Fin b) = Fin (a + b)"
| "fl_add PInf NInf = NaN"
| "fl_add NInf PInf = NaN"
| "fl_add PInf _ = PInf"
| "fl_add _ PInf = PInf"
| "fl_add NInf _ = NInf"
| "fl_add _ NInf = NInf"

fun fl_neg :: "pyfloat \<Rightarrow> pyfloat" where
  "fl_neg (Fin a) = Fin (- a)"
| "fl_neg PInf = NInf"
| "fl_neg NInf = PInf"
| "fl_neg NaN = NaN"

fun fl_abs :: "pyfloat \<Rightarrow> pyfloat" where
  "fl_abs (Fin a) = Fin \<bar>a\<bar>"
| "fl_abs NaN = NaN"
| "fl_abs _ = PInf"

definition fl_sub :: "pyfloat \<Rightarrow> pyfloat \<Rightarrow> pyfloat" where
  "fl_sub x y = fl_add x (fl_neg y)"

definition fl_sum :: "pyfloat list \<Rightarrow> pyfloat" where
  "fl_sum xs = fold fl_add xs (Fin 0)"

lemma fl_le_Fin [simp]: "fl_le (Fin a) (Fin b) \<longleftrightarrow> a \<le> b"
  by (auto simp: fl_le_def)

lemma fl_sub_Fin [simp]: "fl_sub (Fin a) (Fin b) = Fin (a - b)"
  by (simp add: fl_sub_def)

lemma fl_add_fold_Fin: "fold fl_add (map Fin xs) (Fin a) = Fin (a + sum_list xs)"
  by (induction xs arbitrary: a) (auto simp: add.assoc)

lemma fl_sum_Fin: "fl_sum (map Fin xs) = Fin (sum_list xs)"
  by (simp add: fl_sum_def fl_add_fold_Fin)

section \<open>Messages\<close>

text \<open>
  The pieces of an f-string: \<open>L\<close> literal text, \<open>S\<close> a string as it is (\<open>{x}\<close>), \<open>R\<close> a
  string's repr (\<open>{x!r}\<close>), \<open>I\<close> an integer, \<open>FG\<close>, \<open>FR\<close> and \<open>FP\<close> a float formatted with
  \<open>:g\<close>, as its repr and with \<open>:.0%\<close>.
\<close>

datatype frag = L string | S string | R string | I int | FG pyfloat | FR pyfloat | FP pyfloat

type_synonym msg = "frag list"

fun join_msg :: "string \<Rightarrow> msg list \<Rightarrow> msg" where
  "join_msg sep [] = []"
| "join_msg sep [x] = x"
| "join_msg sep (x # xs) = x @ [L sep] @ join_msg sep xs"

definition join_str :: "string \<Rightarrow> string list \<Rightarrow> msg" where
  "join_str sep xs = join_msg sep (map (\<lambda>x. [S x]) xs)"

section \<open>Loops over lists\<close>

text \<open>\<open>enumerate(xs)\<close>, \<open>next((x for x in xs if p(x)), None)\<close>, \<open>xs.index(x)\<close>.\<close>

definition enumerate0 :: "'a list \<Rightarrow> (nat \<times> 'a) list" where
  "enumerate0 xs = zip [0..<length xs] xs"

definition first_such :: "('a \<Rightarrow> bool) \<Rightarrow> 'a list \<Rightarrow> 'a option" where
  "first_such p xs = List.find p xs"

fun index_of :: "'a \<Rightarrow> 'a list \<Rightarrow> nat" where
  "index_of x [] = 0"
| "index_of x (y # ys) = (if y = x then 0 else Suc (index_of x ys))"

lemma in_enumerate0 [simp]: "(i, x) \<in> set (enumerate0 xs) \<longleftrightarrow> i < length xs \<and> xs ! i = x"
  by (force simp: enumerate0_def in_set_zip)

lemma enumerate0_ex: "x \<in> set xs \<Longrightarrow> \<exists>k. (k, x) \<in> set (enumerate0 xs)"
  unfolding in_enumerate0 by (metis in_set_conv_nth)

lemma enumerate0_Nil [simp]: "enumerate0 [] = []"
  by (simp add: enumerate0_def)

lemma map_snd_enumerate0 [simp]: "map snd (enumerate0 xs) = xs"
  by (simp add: enumerate0_def)

lemma first_such_Some: "first_such p xs = Some x \<Longrightarrow> x \<in> set xs \<and> p x"
  by (auto simp: first_such_def find_Some_iff)

lemma first_such_None [simp]: "first_such p xs = None \<longleftrightarrow> (\<forall>x\<in>set xs. \<not> p x)"
  by (auto simp: first_such_def find_None_iff)

lemma first_such_unique:
  "x \<in> set xs \<Longrightarrow> p x \<Longrightarrow> (\<And>y. y \<in> set xs \<Longrightarrow> p y \<Longrightarrow> y = x) \<Longrightarrow> first_such p xs = Some x"
proof (induction xs)
  case (Cons y ys)
  show ?case
  proof (cases "p y")
    case True
    with Cons.prems(3)[of y] show ?thesis by (simp add: first_such_def)
  next
    case False
    with Cons.prems(1,2) have "x \<in> set ys" by auto
    then have "first_such p ys = Some x"
      using Cons.prems(2)
    proof (rule Cons.IH)
      fix z assume "z \<in> set ys" "p z"
      then show "z = x" by (intro Cons.prems(3)) simp_all
    qed
    with False show ?thesis by (simp add: first_such_def)
  qed
qed simp

lemma first_such_ex: "x \<in> set xs \<Longrightarrow> p x \<Longrightarrow> \<exists>y. first_such p xs = Some y"
  using first_such_None[of p xs] by (cases "first_such p xs") auto

lemma index_of_nth: "x \<in> set xs \<Longrightarrow> index_of x xs < length xs \<and> xs ! index_of x xs = x"
  by (induction xs) auto

text \<open>An invariant of a loop over a list, stated on the part already done.\<close>

lemma fold_done:
  assumes "Q [] s" "\<And>done x s. Q done s \<Longrightarrow> Q (done @ [x]) (f x s)"
  shows "Q xs (fold f xs s)"
  using assms(1) by (induction xs rule: rev_induct) (simp_all add: assms(2))

lemma fold_done_in:
  assumes "Q [] s" "\<And>done x s. Q done s \<Longrightarrow> x \<in> set xs \<Longrightarrow> Q (done @ [x]) (f x s)"
  shows "Q xs (fold f xs s)"
proof -
  have "set ys \<subseteq> set xs \<Longrightarrow> Q ys (fold f ys s)" for ys
    using assms(1) by (induction ys rule: rev_induct) (simp_all add: assms(2))
  then show ?thesis by simp
qed

end
