(* ===== verification/IR.thy ===== *)
theory IR
  imports Prelude
begin

text \<open>
  The scenario IR (\<open>core/tiergen/core/ir.py\<close>): each frozen dataclass is a record whose
  fields carry the class's prefix, each \<open>Literal\<close> type a datatype with one constructor per
  value, each union of an inline value and a resource name the datatype \<open>ref\<close>. The
  invocation records (\<open>records.py\<close>), the common event model (\<open>events.py\<close>) and the labels
  and flags (\<open>labels.py\<close>) are here too: they are data every later component shares.
\<close>

section \<open>Literals and scalars\<close>

datatype multiplicity = Single | Optional | Multiple
datatype transport = Tcp | Udp
datatype platform = Linux | Windows
datatype host_type = Container | Vm
datatype egress_policy = EgressStub | EgressAllowlist | EgressNone
datatype schedule_op = OpStart | OpStop | OpSetRate | OpRunSequence
datatype sensor_mode = Offline | Live
datatype sensor_role = RoleLabel | RoleFit | RoleBoth
datatype plane = DataPlane | ManagementPlane
datatype select_mode = SelAll | SelOne
datatype scalar = SStr string | SInt int | SFloat pyfloat | SBool bool

fun transport_str :: "transport \<Rightarrow> string" where
  "transport_str Tcp = ''tcp''"
| "transport_str Udp = ''udp''"

fun platform_str :: "platform \<Rightarrow> string" where
  "platform_str Linux = ''linux''"
| "platform_str Windows = ''windows''"

fun host_type_str :: "host_type \<Rightarrow> string" where
  "host_type_str Container = ''container''"
| "host_type_str Vm = ''vm''"

fun multiplicity_str :: "multiplicity \<Rightarrow> string" where
  "multiplicity_str Single = ''single''"
| "multiplicity_str Optional = ''optional''"
| "multiplicity_str Multiple = ''multiple''"

fun egress_str :: "egress_policy \<Rightarrow> string" where
  "egress_str EgressStub = ''stub''"
| "egress_str EgressAllowlist = ''allowlist''"
| "egress_str EgressNone = ''none''"

fun op_str :: "schedule_op \<Rightarrow> string" where
  "op_str OpStart = ''start''"
| "op_str OpStop = ''stop''"
| "op_str OpSetRate = ''set_rate''"
| "op_str OpRunSequence = ''run_sequence''"

fun mode_str :: "sensor_mode \<Rightarrow> string" where
  "mode_str Offline = ''offline''"
| "mode_str Live = ''live''"

text \<open>A field typed \<open>T | str\<close>: the value inline, or the name of a resource.\<close>

datatype 'a ref = Inline 'a | Res string

section \<open>Kinds and their behaviour\<close>

record endpoint =
  ep_protocol :: string
  ep_port :: int
  ep_transport :: transport

record tie =
  tie_name :: string
  tie_target_kind :: string
  tie_multiplicity :: multiplicity

record distribution =
  dist_family :: string
  dist_params :: "pyfloat list ref"

record semi_markov =
  sm_states :: "string list ref"
  sm_initial :: "pyfloat list ref"
  sm_transitions :: "pyfloat list list ref"
  sm_dwell :: "distribution list ref"
  sm_rate :: "string option"

record choice =
  ch_options :: "scalar list"
  ch_weights :: "pyfloat list"

datatype param_value = PScalar scalar | PChoice choice | PChoiceRef (cr_resource: string)

record action =
  act_signature :: string
  act_tie :: string
  act_params :: "(string, param_value) dict"
  act_select :: "select_mode option"

record behaviour =
  beh_name :: string
  beh_process :: semi_markov
  beh_action_map :: "(string, action option) dict ref"

record actor_kind =
  kd_name :: string
  kd_serves :: "endpoint list"
  kd_ties :: "tie list"
  kd_behaviours :: "behaviour list"
  kd_platforms :: "platform list"
  kd_forwards :: bool

section \<open>Hosts and bindings\<close>

datatype host_ref_kind = HDefault | HImage | HTemplate

record host_ref =
  hr_kind :: host_ref_kind
  hr_ref :: string

definition host_ref_parse :: "string \<Rightarrow> host_ref option" where
  "host_ref_parse text =
     (if text = ''default'' then Some \<lparr>hr_kind = HDefault, hr_ref = ''''\<rparr>
      else case partition_on CHR '':'' text of (kind, _, ref) \<Rightarrow>
        if kind = ''image'' \<and> ref \<noteq> [] then Some \<lparr>hr_kind = HImage, hr_ref = ref\<rparr>
        else if kind = ''template'' \<and> ref \<noteq> [] then Some \<lparr>hr_kind = HTemplate, hr_ref = ref\<rparr>
        else None)"

record host =
  ho_platform :: platform
  ho_host_type :: host_type
  ho_backend :: string
  ho_ref :: string
  ho_manifest :: "string option"

record impl_selection =
  sel_signature :: string
  sel_choices :: "(string, pyfloat) dict ref"

record binding =
  bi_kind :: string
  bi_host :: host
  bi_impls :: "impl_selection list"
  bi_mac_oui :: "string option"
  bi_credentials :: "string option"

section \<open>Schedule, sensors, topology, groups\<close>

text \<open>\<open>ScheduleEvent.arg\<close> is \<open>str | float | None\<close>; an \<open>int\<close> written there is kept.\<close>

datatype event_arg = AStr string | ANum pyfloat | ANone

record schedule_event =
  ev_at_s :: pyfloat
  ev_target :: string
  ev_op :: schedule_op
  ev_arg :: event_arg

record sensor_spec =
  ss_name :: string
  ss_impl :: string
  ss_version :: string
  ss_config :: string
  ss_mode :: sensor_mode
  ss_capabilities :: "string list"
  ss_role :: sensor_role

record fit_provenance =
  fp_sensor :: string
  fp_capabilities_used :: "string list"
  fp_coverage :: "(string, pyfloat) dict"

record segment =
  seg_name :: string
  seg_cidr :: string
  seg_plane :: plane
  seg_vlan :: "int option"

record capture_point =
  cp_name :: string
  cp_segments :: "string list"
  cp_tagged :: bool

record topology =
  top_segments :: "segment list"
  top_capture_points :: "capture_point list"
  top_addresses :: "(string, string) dict"

record group =
  gr_name :: string
  gr_parent :: "string option"
  gr_instances :: "(string, int) dict"
  gr_attachments :: "(string, string list) dict"
  gr_wiring :: "(string, string list) dict"

definition gr_path :: "group \<Rightarrow> string" where
  "gr_path g = (case gr_parent g of None \<Rightarrow> gr_name g | Some p \<Rightarrow> p @ ''/'' @ gr_name g)"

text \<open>\<open>fit_provenance\<close> is inline, a resource name, or \<open>None\<close>.\<close>

record scenario =
  sc_name :: string
  sc_kinds :: "actor_kind list"
  sc_groups :: "group list"
  sc_bindings :: "binding list"
  sc_topology :: "topology ref"
  sc_egress :: egress_policy
  sc_egress_overrides :: "(string, string) dict"
  sc_schedule :: "schedule_event list"
  sc_start :: string
  sc_duration_s :: pyfloat
  sc_capture_points :: "string list"
  sc_sensors :: "sensor_spec list"
  sc_fit_provenance :: "fit_provenance ref option"
  sc_seed :: int
  sc_coverage_floor :: pyfloat

section \<open>Invocation records, events, labels\<close>

datatype outcome = Succeeded | Failed

definition invocation_id :: "string \<Rightarrow> string \<Rightarrow> nat \<Rightarrow> string" where
  "invocation_id instnc behaviour n = instnc @ ''/'' @ behaviour @ ''#'' @ show_nat n"

record peer =
  pe_instance :: string
  pe_address :: string
  pe_served :: "endpoint list"

record label_key =
  lk_scenario :: string
  lk_instance :: string
  lk_behaviour :: string
  lk_action :: string
  lk_invocation :: string
  lk_impl :: string
  lk_variant :: "string option"
  lk_targets :: "string list"

record attribution_key =
  ak_platform :: platform
  ak_principal :: string

record clock_stamp =
  cs_wall :: rat
  cs_monotonic :: rat
  cs_offset :: rat

record invocation_record =
  ir_key :: label_key
  ir_principal :: attribution_key
  ir_start :: rat
  ir_end :: rat
  ir_outcome :: outcome
  ir_clock :: clock_stamp

lemma host_ref_parse_default [simp]:
  "host_ref_parse ''default'' = Some \<lparr>hr_kind = HDefault, hr_ref = ''''\<rparr>"
  by (simp add: host_ref_parse_def)

lemma host_ref_parse_custom:
  assumes "host_ref_parse text = Some r" "hr_kind r \<noteq> HDefault"
  shows "hr_ref r \<noteq> [] \<and> text = (if hr_kind r = HImage then ''image:'' else ''template:'') @ hr_ref r"
proof -
  obtain k f ref where p: "partition_on CHR '':'' text = (k, f, ref)" by (metis prod_cases3)
  from assms p have k: "k = (if hr_kind r = HImage then ''image'' else ''template'')"
    and ref: "ref \<noteq> []" "hr_ref r = ref"
    by (auto simp: host_ref_parse_def split: if_splits)
  from p have *: "text = k @ dropWhile (\<lambda>x. x \<noteq> CHR '':'') text"
    and d: "ref = drop 1 (dropWhile (\<lambda>x. x \<noteq> CHR '':'') text)"
    by (auto simp: partition_on_def takeWhile_dropWhile_id)
  have "dropWhile (\<lambda>x. x \<noteq> CHR '':'') text = CHR '':'' # ref"
  proof (cases "dropWhile (\<lambda>x. x \<noteq> CHR '':'') text")
    case Nil
    with d ref(1) show ?thesis by simp
  next
    case (Cons c cs)
    then have "c = CHR '':''" by (metis (full_types) hd_dropWhile list.discI list.sel(1))
    with Cons d show ?thesis by simp
  qed
  with * k ref show ?thesis by auto
qed

end
