(* ===== verification/Demo.thy ===== *)
theory Demo
  imports IR
begin

text \<open>
  One small scenario the witnesses evaluate: two clients in group \<open>o\<close> browse one server in
  group \<open>d\<close>, on two data segments joined by one forwarder, with a management segment.
\<close>

definition demo_process :: semi_markov where
  "demo_process = \<lparr>sm_states = Inline [''a'', ''b''], sm_initial = Inline [Fin 1, Fin 0],
     sm_transitions = Inline [[Fin 0, Fin 1], [Fin 1, Fin 0]],
     sm_dwell = Inline [\<lparr>dist_family = ''exponential'', dist_params = Inline [Fin 1]\<rparr>,
                        \<lparr>dist_family = ''exponential'', dist_params = Inline [Fin 2]\<rparr>],
     sm_rate = None\<rparr>"

definition demo_action :: action where
  "demo_action = \<lparr>act_signature = ''h.g'', act_tie = ''t'',
     act_params = [(''p'', PScalar (SStr ''/''))], act_select = None\<rparr>"

definition demo_kinds :: "actor_kind list" where
  "demo_kinds =
     [\<lparr>kd_name = ''c'', kd_serves = [], kd_ties = [\<lparr>tie_name = ''t'', tie_target_kind = ''s'',
         tie_multiplicity = Single\<rparr>],
       kd_behaviours = [\<lparr>beh_name = ''u'', beh_process = demo_process,
         beh_action_map = Inline [(''a'', Some demo_action), (''b'', None)]\<rparr>],
       kd_platforms = [Linux], kd_forwards = False\<rparr>,
      \<lparr>kd_name = ''s'', kd_serves = [\<lparr>ep_protocol = ''http'', ep_port = 80, ep_transport = Tcp\<rparr>],
       kd_ties = [], kd_behaviours = [], kd_platforms = [Linux], kd_forwards = False\<rparr>,
      \<lparr>kd_name = ''r'', kd_serves = [], kd_ties = [], kd_behaviours = [], kd_platforms = [Linux],
       kd_forwards = True\<rparr>]"

definition demo_groups :: "group list" where
  "demo_groups =
     [\<lparr>gr_name = ''o'', gr_parent = None, gr_instances = [(''c'', 2)],
       gr_attachments = [(''c'', [''x''])], gr_wiring = [(''c.t'', [''d''])]\<rparr>,
      \<lparr>gr_name = ''d'', gr_parent = None, gr_instances = [(''s'', 1), (''r'', 1)],
       gr_attachments = [(''s'', [''y'']), (''r'', [''x'', ''y''])], gr_wiring = []\<rparr>]"

definition demo_topology :: topology where
  "demo_topology = \<lparr>top_segments =
       [\<lparr>seg_name = ''x'', seg_cidr = ''10.0.0.0/29'', seg_plane = DataPlane, seg_vlan = None\<rparr>,
        \<lparr>seg_name = ''y'', seg_cidr = ''10.0.1.0/29'', seg_plane = DataPlane, seg_vlan = None\<rparr>,
        \<lparr>seg_name = ''m'', seg_cidr = ''10.0.2.0/29'', seg_plane = ManagementPlane, seg_vlan = None\<rparr>],
     top_capture_points = [\<lparr>cp_name = ''p'', cp_segments = [''x''], cp_tagged = False\<rparr>],
     top_addresses = [(''d/s[0]'', ''10.0.1.5'')]\<rparr>"

definition demo_host :: host where
  "demo_host = \<lparr>ho_platform = Linux, ho_host_type = Container, ho_backend = ''k'',
     ho_ref = ''default'', ho_manifest = None\<rparr>"

definition demo_bindings :: "binding list" where
  "demo_bindings =
     [\<lparr>bi_kind = ''c'', bi_host = demo_host,
       bi_impls = [\<lparr>sel_signature = ''h.g'', sel_choices = Inline [(''i'', Fin 1)]\<rparr>],
       bi_mac_oui = Some ''02:aa:bb'', bi_credentials = None\<rparr>,
      \<lparr>bi_kind = ''s'', bi_host = demo_host,
       bi_impls = [\<lparr>sel_signature = ''h.s'', sel_choices = Inline [(''j'', Fin 1)]\<rparr>],
       bi_mac_oui = Some ''02:aa:bb'', bi_credentials = None\<rparr>,
      \<lparr>bi_kind = ''r'', bi_host = demo_host, bi_impls = [], bi_mac_oui = Some ''02:aa:bb'',
       bi_credentials = None\<rparr>]"

definition demo_scenario :: scenario where
  "demo_scenario = \<lparr>sc_name = ''demo'', sc_kinds = demo_kinds, sc_groups = demo_groups,
     sc_bindings = demo_bindings, sc_topology = Inline demo_topology, sc_egress = EgressNone,
     sc_egress_overrides = [],
     sc_schedule = [\<lparr>ev_at_s = Fin 0, ev_target = ''o/c'', ev_op = OpStart, ev_arg = AStr ''u''\<rparr>],
     sc_start = ''2026-01-05T08:00:00+00:00'', sc_duration_s = Fin 60, sc_capture_points = [''p''],
     sc_sensors = [\<lparr>ss_name = ''z'', ss_impl = ''zeek'', ss_version = ''7'', ss_config = ''cfg'',
       ss_mode = Offline, ss_capabilities = [], ss_role = RoleLabel\<rparr>],
     sc_fit_provenance = None, sc_seed = 1, sc_coverage_floor = Fin 0\<rparr>"

end
