(* ===== verification/Instances.thy ===== *)
theory Instances
  imports IR Demo
begin

text \<open>
  Reading a scenario's groups (\<open>core/tiergen/core/groups.py\<close>): instance ids, the targets a
  tie reaches and what a schedule target selects. The lemmas show that instance ids are
  unique when group paths and kind names are, that an instance id used as a schedule target
  selects exactly that instance, and what the other two forms of a target select.
\<close>

section \<open>Definitions\<close>

definition paths :: "scenario \<Rightarrow> string list" where
  "paths s = map gr_path (sc_groups s)"

definition instance_id :: "string \<Rightarrow> string \<Rightarrow> nat \<Rightarrow> string" where
  "instance_id group_path kind index = group_path @ ''/'' @ kind @ ''['' @ show_nat index @ '']''"

definition held_count :: "group \<Rightarrow> string \<Rightarrow> nat" where
  "held_count g kind = nat (max (dget_or (gr_instances g) kind 0) 0)"

definition instance_ids :: "scenario \<Rightarrow> (string \<times> string \<times> string) list" where
  "instance_ids s =
     concat (map (\<lambda>g. concat (map (\<lambda>kind.
        map (\<lambda>i. (gr_path g, kind, instance_id (gr_path g) kind i)) [0..<held_count g kind])
        (map kd_name (sc_kinds s)))) (sc_groups s))"

definition descendants :: "scenario \<Rightarrow> string \<Rightarrow> string list" where
  "descendants s group_path =
     filter (\<lambda>p. p = group_path \<or> starts_with (group_path @ ''/'') p) (paths s)"

definition targets :: "scenario \<Rightarrow> string \<Rightarrow> string \<Rightarrow> string \<Rightarrow> string list option" where
  "targets s group_path kind tie =
     (case (first_such (\<lambda>g. gr_path g = group_path) (sc_groups s),
            first_such (\<lambda>k. kd_name k = kind) (sc_kinds s)) of
        (Some g, Some actor) \<Rightarrow>
          (case (first_such (\<lambda>t. tie_name t = tie) (kd_ties actor),
                 dget (gr_wiring g) (kind @ ''.'' @ tie)) of
             (Some relation, Some wired) \<Rightarrow>
               Some (map (\<lambda>(p, k, i). i)
                 (filter (\<lambda>(p, k, i). k = tie_target_kind relation \<and> p \<in> set wired)
                    (instance_ids s)))
           | _ \<Rightarrow> None)
      | _ \<Rightarrow> None)"

text \<open>
  \<open>parse_target\<close> matches the whole text against a head that holds no bracket and does not
  start with a slash, then optionally an index in brackets. The head cannot hold a bracket,
  so the match is unique: the head is everything before the first bracket.
\<close>

record target =
  tg_head :: string
  tg_index :: "nat option"

definition is_bracket :: "char \<Rightarrow> bool" where
  "is_bracket c \<longleftrightarrow> c = CHR ''['' \<or> c = CHR '']''"

fun double_slash :: "string \<Rightarrow> bool" where
  "double_slash (a # b # xs) = ((a = CHR ''/'' \<and> b = CHR ''/'') \<or> double_slash (b # xs))"
| "double_slash _ = False"

definition match_index :: "string \<Rightarrow> nat option option" where
  "match_index rest =
     (case rest of [] \<Rightarrow> Some None
      | c # ds \<Rightarrow>
          if c = CHR ''['' \<and> ds \<noteq> [] \<and> last ds = CHR '']'' \<and> butlast ds \<noteq> []
             \<and> list_all is_digit (butlast ds)
          then Some (Some (read_nat (butlast ds))) else None)"

definition parse_target :: "string \<Rightarrow> target option" where
  "parse_target text =
     (let head = takeWhile (\<lambda>c. \<not> is_bracket c) text;
          rest = dropWhile (\<lambda>c. \<not> is_bracket c) text
      in if head = [] \<or> hd head = CHR ''/'' then None
         else case match_index rest of
           None \<Rightarrow> None
         | Some index \<Rightarrow>
             if double_slash head \<or> last head = CHR ''/'' then None
             else if index \<noteq> None \<and> CHR ''/'' \<notin> set head then None
             else Some \<lparr>tg_head = head, tg_index = index\<rparr>)"

definition select :: "scenario \<Rightarrow> string \<Rightarrow> string list option" where
  "select s text =
     (case parse_target text of
        None \<Rightarrow> None
      | Some parsed \<Rightarrow>
          if tg_index parsed = None \<and> tg_head parsed \<in> set (paths s) then
            (let under = descendants s (tg_head parsed)
             in Some (map (\<lambda>(p, k, i). i)
                  (filter (\<lambda>(p, k, i). p \<in> set under) (instance_ids s))))
          else
            (case rpartition_on CHR ''/'' (tg_head parsed) of (group_path, _, kind) \<Rightarrow>
               if group_path \<notin> set (paths s) \<or> kind \<notin> kd_name ` set (sc_kinds s) then None
               else
                 (let under = descendants s group_path;
                      found = map (\<lambda>(p, k, i). i)
                        (filter (\<lambda>(p, k, i). k = kind \<and> p \<in> set under) (instance_ids s))
                  in case tg_index parsed of
                       None \<Rightarrow> Some found
                     | Some n \<Rightarrow>
                         (let exact = instance_id group_path kind n
                          in if exact \<in> set found then Some [exact] else None))))"

section \<open>Well-formed names and paths\<close>

lemma is_bracket_simps [simp]:
  "\<not> is_bracket CHR ''/''" "is_bracket CHR ''[''" "is_bracket CHR '']''" "\<not> is_bracket CHR ''.''"
  by (simp_all add: is_bracket_def)

definition name_ok :: "string \<Rightarrow> bool" where
  "name_ok n \<longleftrightarrow> n \<noteq> [] \<and> list_all (\<lambda>c. c \<noteq> CHR ''/'' \<and> \<not> is_bracket c) n"

definition path_ok :: "string \<Rightarrow> bool" where
  "path_ok p \<longleftrightarrow> list_all name_ok (split_on CHR ''/'' p)"

lemma name_ok_no_slash [simp]: "name_ok n \<Longrightarrow> CHR ''/'' \<notin> set n"
  by (auto simp: name_ok_def list_all_iff)

lemma path_ok_name [simp]: "name_ok n \<Longrightarrow> path_ok n"
  by (simp add: path_ok_def split_on_no_sep)

lemma split_on_append2: "split_on c (p @ c # s) = split_on c p @ split_on c s"
proof (induction p)
  case (Cons x xs)
  then show ?case by (cases "split_on c xs") auto
qed simp

lemma path_ok_snoc: "path_ok (p @ CHR ''/'' # n) \<longleftrightarrow> path_ok p \<and> path_ok n"
  by (simp add: path_ok_def split_on_append2)

lemma path_ok_shape:
  assumes "path_ok p"
  shows "p \<noteq> [] \<and> hd p \<noteq> CHR ''/'' \<and> last p \<noteq> CHR ''/'' \<and> \<not> double_slash p
         \<and> list_all (\<lambda>c. \<not> is_bracket c) p"
proof -
  have "ps \<noteq> [] \<Longrightarrow> list_all name_ok ps \<Longrightarrow>
      (let p = join_with ''/'' ps in p \<noteq> [] \<and> hd p \<noteq> CHR ''/'' \<and> last p \<noteq> CHR ''/''
         \<and> \<not> double_slash p \<and> list_all (\<lambda>c. \<not> is_bracket c) p)" for ps
  proof (induction ps)
    case (Cons n ns)
    have n: "n \<noteq> [] \<and> hd n \<noteq> CHR ''/'' \<and> last n \<noteq> CHR ''/'' \<and> list_all (\<lambda>c. \<not> is_bracket c) n
        \<and> CHR ''/'' \<notin> set n"
      using Cons.prems by (auto simp: name_ok_def list_all_iff)
    have ds: "\<not> double_slash (xs @ q)" if "CHR ''/'' \<notin> set xs"
        "q = [] \<or> (\<exists>r. q = CHR ''/'' # r \<and> r \<noteq> [] \<and> hd r \<noteq> CHR ''/'' \<and> \<not> double_slash r)" for xs q
      using that
    proof (induction xs)
      case Nil
      then show ?case by (cases q; cases "tl q") auto
    next
      case (Cons x xs)
      then show ?case by (cases "xs @ q") auto
    qed
    show ?case
    proof (cases ns)
      case Nil
      with n ds[of n "[]"] show ?thesis by simp
    next
      case (Cons m ms)
      with Cons.IH Cons.prems n ds[of n "CHR ''/'' # join_with ''/'' ns"]
      show ?thesis by (auto simp: Let_def)
    qed
  qed simp
  from this[of "split_on CHR ''/'' p"] assms show ?thesis
    by (simp add: path_ok_def join_split_on Let_def)
qed

section \<open>Instance ids\<close>

lemma in_nested_map_iff:
  "(p, k, i) \<in> set (concat (map (\<lambda>g. concat (map (\<lambda>kind.
      map (\<lambda>i. (P g, kind, F g kind i)) [0..<h g kind]) ks)) gs)) \<longleftrightarrow>
   (\<exists>g\<in>set gs. \<exists>n<h g k. p = P g \<and> k \<in> set ks \<and> i = F g k n)"
  by (induction gs) (auto simp: image_iff)

lemma in_instance_ids_iff:
  "(p, k, i) \<in> set (instance_ids s) \<longleftrightarrow>
     (\<exists>g \<in> set (sc_groups s). \<exists>n < held_count g k.
        p = gr_path g \<and> k \<in> kd_name ` set (sc_kinds s) \<and> i = instance_id p k n)"
  unfolding instance_ids_def in_nested_map_iff by auto

lemma instance_id_inj:
  assumes "CHR ''/'' \<notin> set k" "CHR ''/'' \<notin> set k'"
    and eq: "instance_id p k n = instance_id p' k' n'"
  shows "p = p' \<and> k = k' \<and> n = n'"
proof -
  have "(p @ ''/'' @ k) @ CHR ''['' # (show_nat n @ '']'') =
        (p' @ ''/'' @ k') @ CHR ''['' # (show_nat n' @ '']'')"
    using eq by (simp add: instance_id_def)
  from last_split_inj[OF _ _ this]
  have 1: "p @ ''/'' @ k = p' @ ''/'' @ k'" and 2: "show_nat n @ '']'' = show_nat n' @ '']''"
    by simp_all
  from 1 have "p @ CHR ''/'' # k = p' @ CHR ''/'' # k'" by simp
  from last_split_inj[OF assms(1,2) this] 2 show ?thesis by simp
qed

text \<open>What the label tuple's uniqueness rests on: paths and kind names are each unique, and
  no kind name holds a slash.\<close>

definition ids_regular :: "scenario \<Rightarrow> bool" where
  "ids_regular s \<longleftrightarrow> distinct (paths s) \<and> distinct (map kd_name (sc_kinds s))
     \<and> list_all (\<lambda>k. CHR ''/'' \<notin> set (kd_name k)) (sc_kinds s)"

lemma distinct_concat_map:
  assumes "distinct xs" "\<And>x. x \<in> set xs \<Longrightarrow> distinct (f x)"
    and "\<And>x y. x \<in> set xs \<Longrightarrow> y \<in> set xs \<Longrightarrow> x \<noteq> y \<Longrightarrow> set (f x) \<inter> set (f y) = {}"
  shows "distinct (concat (map f xs))"
  using assms by (induction xs) fastforce+

lemma distinct_instance_ids:
  assumes "ids_regular s"
  shows "distinct (map (\<lambda>(p, k, i). i) (instance_ids s))"
proof -
  define ids where "ids g k = map (instance_id (gr_path g) k) [0..<held_count g k]" for g k
  have eq: "map (\<lambda>(p, k, i). i) (instance_ids s) =
      concat (map (\<lambda>g. concat (map (ids g) (map kd_name (sc_kinds s)))) (sc_groups s))"
    by (simp add: instance_ids_def ids_def map_concat comp_def)
  have slash: "CHR ''/'' \<notin> set k" if "k \<in> kd_name ` set (sc_kinds s)" for k
    using assms that by (auto simp: ids_regular_def list_all_iff)
  have dg: "distinct (sc_groups s)" and dk: "distinct (map kd_name (sc_kinds s))"
    and inj: "inj_on gr_path (set (sc_groups s))"
    using assms by (auto simp: ids_regular_def paths_def distinct_map)
  have one: "distinct (ids g k)" if "k \<in> kd_name ` set (sc_kinds s)" for g k
    using slash[OF that] by (auto simp: ids_def distinct_map inj_on_def dest: instance_id_inj)
  have apart: "p = p' \<and> k = k'"
    if "x \<in> set (ids g k)" "x \<in> set (ids g' k')" "p = gr_path g" "p' = gr_path g'"
       "k \<in> kd_name ` set (sc_kinds s)" "k' \<in> kd_name ` set (sc_kinds s)" for x g g' p p' k k'
  proof -
    have "\<exists>n n'. instance_id p k n = instance_id p' k' n'"
      using that(1-4) by (auto simp: ids_def)
    then show ?thesis using instance_id_inj[OF slash[OF that(5)] slash[OF that(6)]] by blast
  qed
  show ?thesis unfolding eq
  proof (rule distinct_concat_map[OF dg])
    fix g assume "g \<in> set (sc_groups s)"
    show "distinct (concat (map (ids g) (map kd_name (sc_kinds s))))"
    proof (rule distinct_concat_map[OF dk])
      fix k k' assume k: "k \<in> set (map kd_name (sc_kinds s))" "k' \<in> set (map kd_name (sc_kinds s))"
        "k \<noteq> k'"
      have "x \<notin> set (ids g k')" if "x \<in> set (ids g k)" for x
        using apart[OF that _ refl refl, of g k'] k by auto
      then show "set (ids g k) \<inter> set (ids g k') = {}" by blast
    qed (simp add: one)
  next
    fix g g' assume g: "g \<in> set (sc_groups s)" "g' \<in> set (sc_groups s)" "g \<noteq> g'"
    have "gr_path g \<noteq> gr_path g'" using inj g by (auto dest: inj_onD)
    then have "x \<notin> set (ids g' k')"
      if "x \<in> set (ids g k)" "k \<in> kd_name ` set (sc_kinds s)" "k' \<in> kd_name ` set (sc_kinds s)" for x k k'
      using apart[OF that(1) _ refl refl that(2,3), of g'] \<open>gr_path g \<noteq> gr_path g'\<close> by blast
    then show "set (concat (map (ids g) (map kd_name (sc_kinds s)))) \<inter>
               set (concat (map (ids g') (map kd_name (sc_kinds s)))) = {}"
      unfolding disjoint_iff set_concat set_map by blast
  qed
qed

section \<open>Schedule targets\<close>

lemma match_index_bracket [simp]: "match_index (CHR ''['' # show_nat n @ '']'') = Some (Some n)"
  by (simp add: match_index_def list_all_iff show_nat_digits)

lemma takeWhile_head:
  assumes "list_all (\<lambda>c. \<not> is_bracket c) h" "rest = [] \<or> is_bracket (hd rest)"
  shows "takeWhile (\<lambda>c. \<not> is_bracket c) (h @ rest) = h"
    and "dropWhile (\<lambda>c. \<not> is_bracket c) (h @ rest) = rest"
  using assms by (induction h; cases rest; auto)+

lemma parse_target_path:
  assumes "path_ok p"
  shows "parse_target p = Some \<lparr>tg_head = p, tg_index = None\<rparr>"
proof -
  from path_ok_shape[OF assms] have heads: "takeWhile (\<lambda>c. \<not> is_bracket c) p = p"
    "dropWhile (\<lambda>c. \<not> is_bracket c) p = []"
    using takeWhile_head[of p "[]"] by simp_all
  with path_ok_shape[OF assms] show ?thesis
    unfolding parse_target_def heads by (simp add: match_index_def)
qed

lemma parse_target_instance:
  assumes "path_ok p" "name_ok k"
  shows "parse_target (instance_id p k n) = Some \<lparr>tg_head = p @ ''/'' @ k, tg_index = Some n\<rparr>"
proof -
  have ok: "path_ok (p @ ''/'' @ k)" using assms by (simp add: path_ok_snoc)
  have "instance_id p k n = (p @ ''/'' @ k) @ CHR ''['' # show_nat n @ '']''"
    by (simp add: instance_id_def)
  with path_ok_shape[OF ok] takeWhile_head[of "p @ ''/'' @ k" "CHR ''['' # show_nat n @ '']''"]
  show ?thesis by (simp add: parse_target_def Let_def)
qed

lemma select_sound: "select s text = Some is \<Longrightarrow> set is \<subseteq> (\<lambda>(p, k, i). i) ` set (instance_ids s)"
  by (fastforce simp: select_def Let_def split: option.splits if_splits prod.splits)

lemma select_path:
  assumes "path_ok p" "p \<in> set (paths s)"
  shows "select s p = Some (map (\<lambda>(p, k, i). i)
           (filter (\<lambda>(q, k, i). q = p \<or> starts_with (p @ ''/'') q) (instance_ids s)))"
proof -
  have "filter (\<lambda>(q, k, i). q \<in> set (descendants s p)) (instance_ids s) =
        filter (\<lambda>(q, k, i). q = p \<or> starts_with (p @ ''/'') q) (instance_ids s)"
    by (rule filter_cong) (auto simp: descendants_def in_instance_ids_iff paths_def)
  with assms show ?thesis by (simp add: select_def parse_target_path Let_def)
qed

lemma select_instance:
  assumes "path_ok p" "name_ok k" "(p, k, instance_id p k n) \<in> set (instance_ids s)"
  shows "select s (instance_id p k n) = Some [instance_id p k n]"
proof -
  have p: "p \<in> set (paths s)" and k: "k \<in> kd_name ` set (sc_kinds s)"
    using assms(3) by (auto simp: in_instance_ids_iff paths_def)
  have rp: "rpartition_on CHR ''/'' (p @ ''/'' @ k) = (p, True, k)"
    using rpartition_on_append[of "CHR ''/''" k p] assms(2) by simp
  have "p \<in> set (descendants s p)" using p by (simp add: descendants_def)
  with assms(3) have "instance_id p k n \<in> set (map (\<lambda>(p, k, i). i)
      (filter (\<lambda>(q, k', i). k' = k \<and> q \<in> set (descendants s p)) (instance_ids s)))"
    by force
  with p k rp show ?thesis
    unfolding select_def parse_target_instance[OF assms(1,2)]
    by (simp add: Let_def image_iff)
qed

lemma targets_sound:
  "targets s gp k t = Some ts \<Longrightarrow> x \<in> set ts \<Longrightarrow>
     \<exists>g actor relation wired q n. first_such (\<lambda>g. gr_path g = gp) (sc_groups s) = Some g
       \<and> first_such (\<lambda>a. kd_name a = k) (sc_kinds s) = Some actor
       \<and> first_such (\<lambda>r. tie_name r = t) (kd_ties actor) = Some relation
       \<and> dget (gr_wiring g) (k @ ''.'' @ t) = Some wired \<and> q \<in> set wired
       \<and> (q, tie_target_kind relation, x) \<in> set (instance_ids s)"
  by (auto simp: targets_def split: option.splits)

section \<open>Properties\<close>

text \<open>The small scenario's values, evaluated once for the witnesses.\<close>

lemma demo_instances:
  "ids_regular demo_scenario"
  "length (instance_ids demo_scenario) = 4"
  "instance_id ''o'' ''c'' (Suc 0) = ''o/c[1]''"
  "path_ok ''o''" "name_ok ''c''" "''o'' \<in> set (paths demo_scenario)"
  "(''o'', ''c'', instance_id ''o'' ''c'' (Suc 0)) \<in> set (instance_ids demo_scenario)"
  "map (\<lambda>(q, k, i). i) (filter (\<lambda>(q, k, i). q = ''o'' \<or> starts_with (''o'' @ ''/'') q)
      (instance_ids demo_scenario)) = [''o/c[0]'', ''o/c[1]'']"
  by code_simp+

text \<open>C5: When group paths and kind names are each unique and no kind name holds a slash, no two
  instances of a scenario have the same id.\<close>

theorem instance_ids_unique:
  "ids_regular s \<Longrightarrow> distinct (map (\<lambda>(p, k, i). i) (instance_ids s))"
  by (rule distinct_instance_ids)

theorem instance_ids_unique_witness:
  "distinct (map (\<lambda>(p, k, i). i) (instance_ids demo_scenario)) \<and> length (instance_ids demo_scenario) = 4"
  using instance_ids_unique[OF demo_instances(1)] demo_instances(2) by blast

text \<open>An instance id used as a schedule target selects that instance and nothing else, and a
  group path selects exactly the instances of the group and of the groups under it, whatever
  else the scenario holds.\<close>

lemma select_exact:
  assumes "path_ok p"
  shows "(name_ok k \<and> (p, k, instance_id p k n) \<in> set (instance_ids s) \<longrightarrow>
           select s (instance_id p k n) = Some [instance_id p k n])
    \<and> (p \<in> set (paths s) \<longrightarrow> select s p = Some (map (\<lambda>(q, k, i). i)
           (filter (\<lambda>(q, k, i). q = p \<or> starts_with (p @ ''/'') q) (instance_ids s))))"
  using assms by (auto intro: select_instance select_path)

end
