(* ===== verification/Ipaddr.thy ===== *)
theory Ipaddr
  imports Prelude
begin

text \<open>
  What the code uses of Python's \<open>ipaddress\<close>: \<open>ip_network(text, strict=True)\<close>,
  \<open>ip_address(text)\<close>, \<open>hosts()\<close>, membership, \<open>overlaps\<close> and \<open>str\<close>, for both IP
  versions. An address is its integer (and, for IPv6, its scope id); a network is its address
  and prefix length. The lemmas bound what \<open>hosts()\<close> yields and show that the dotted text of
  an IPv4 address determines it.
\<close>

datatype ip = V4 nat | V6 nat "string option"

record ip_net =
  net_v6 :: bool
  net_addr :: nat
  net_scope :: "string option"
  net_prefix :: nat

section \<open>Reading and printing addresses\<close>

definition read_octet :: "string \<Rightarrow> nat option" where
  "read_octet s =
     (if s = [] \<or> \<not> list_all is_digit s \<or> length s > 3 then None
      else if s \<noteq> ''0'' \<and> hd s = CHR ''0'' then None
      else if read_nat s > 255 then None else Some (read_nat s))"

definition ip4_int_of_string :: "string \<Rightarrow> nat option" where
  "ip4_int_of_string s =
     (case map read_octet (split_on CHR ''.'' s) of
        [Some a, Some b, Some c, Some d] \<Rightarrow> Some (((a * 256 + b) * 256 + c) * 256 + d)
      | _ \<Rightarrow> None)"

definition ip4_str :: "nat \<Rightarrow> string" where
  "ip4_str n = join_with ''.'' (map show_nat
     [n div 16777216 mod 256, n div 65536 mod 256, n div 256 mod 256, n mod 256])"

definition hex_value :: "char \<Rightarrow> nat option" where
  "hex_value c =
     (let n = (of_char c :: nat) in
      if 48 \<le> n \<and> n \<le> 57 then Some (n - 48)
      else if 97 \<le> n \<and> n \<le> 102 then Some (n - 87)
      else if 65 \<le> n \<and> n \<le> 70 then Some (n - 55) else None)"

definition read_hextet :: "string \<Rightarrow> nat option" where
  "read_hextet s =
     (if s = [] \<or> length s > 4 then None
      else foldl (\<lambda>a c. case (a, hex_value c) of (Some x, Some v) \<Rightarrow> Some (16 * x + v) | _ \<Rightarrow> None)
             (Some 0) s)"

fun show_hex :: "nat \<Rightarrow> string" where
  "show_hex n = (if n < 16 then [hex_digit n] else show_hex (n div 16) @ [hex_digit (n mod 16)])"

declare show_hex.simps [simp del]

definition hextets_value :: "string list \<Rightarrow> nat option" where
  "hextets_value ps =
     foldl (\<lambda>a p. case (a, read_hextet p) of (Some x, Some v) \<Rightarrow> Some (65536 * x + v) | _ \<Rightarrow> None)
       (Some 0) ps"

definition ip6_int_of_parts :: "string list \<Rightarrow> nat option" where
  "ip6_int_of_parts parts =
     (let n = length parts;
          skips = filter (\<lambda>i. parts ! i = []) [1..<n - 1]
      in if n > 9 then None
         else case skips of
           [] \<Rightarrow> if n \<noteq> 8 then None else hextets_value parts
         | [skip] \<Rightarrow>
             (let hi = (if hd parts = [] then skip - 1 else skip);
                  lo = (if last parts = [] then n - skip - 2 else n - skip - 1)
              in if (hd parts = [] \<and> hi \<noteq> 0) \<or> (last parts = [] \<and> lo \<noteq> 0) then None
                 else if hi + lo \<ge> 8 then None
                 else case (hextets_value (take hi parts), hextets_value (drop (n - lo) parts)) of
                   (Some a, Some b) \<Rightarrow> Some (a * 65536 ^ (8 - hi) + b)
                 | _ \<Rightarrow> None)
         | _ \<Rightarrow> None)"

definition ip6_int_of_string :: "string \<Rightarrow> nat option" where
  "ip6_int_of_string s =
     (let parts = split_on CHR '':'' s
      in if s = [] \<or> length parts < 3 then None
         else if CHR ''.'' \<in> set (last parts) then
           (case ip4_int_of_string (last parts) of
              None \<Rightarrow> None
            | Some v \<Rightarrow> ip6_int_of_parts
                (butlast parts @ [show_hex (v div 65536), show_hex (v mod 65536)]))
         else ip6_int_of_parts parts)"

definition ip6_addr_of_string :: "string \<Rightarrow> ip option" where
  "ip6_addr_of_string s =
     (if CHR ''/'' \<in> set s then None
      else case partition_on CHR ''%'' s of (addr, found, scope) \<Rightarrow>
        if found \<and> (scope = [] \<or> CHR ''%'' \<in> set scope) then None
        else map_option (\<lambda>n. V6 n (if found then Some scope else None)) (ip6_int_of_string addr))"

definition ip_address :: "string \<Rightarrow> ip option" where
  "ip_address s =
     (case (if CHR ''/'' \<in> set s then None else ip4_int_of_string s) of
        Some n \<Rightarrow> Some (V4 n)
      | None \<Rightarrow> ip6_addr_of_string s)"

text \<open>The longest run of zero hextets, the first of equals, is written as \<open>::\<close>.\<close>

fun best_zeros :: "string list \<Rightarrow> nat \<Rightarrow> nat \<Rightarrow> nat \<Rightarrow> nat \<Rightarrow> nat \<times> nat" where
  "best_zeros [] i len bs bl = (bs, bl)"
| "best_zeros (h # hs) i len bs bl =
     (if h = ''0'' then
        (if len + 1 > bl then best_zeros hs (i + 1) (len + 1) (i - len) (len + 1)
         else best_zeros hs (i + 1) (len + 1) bs bl)
      else best_zeros hs (i + 1) 0 bs bl)"

definition compress_hextets :: "string list \<Rightarrow> string list" where
  "compress_hextets hs =
     (case best_zeros hs 0 0 0 0 of (start, len) \<Rightarrow>
        if len > 1 then
          (if start = 0 then [[]] else []) @ take start hs @ [[]] @ drop (start + len) hs
            @ (if start + len = length hs then [[]] else [])
        else hs)"

definition ip6_str :: "nat \<Rightarrow> string" where
  "ip6_str n = join_with '':'' (compress_hextets
     (map (\<lambda>i. show_hex (n div 65536 ^ (7 - i) mod 65536)) [0..<8]))"

fun ip_str :: "ip \<Rightarrow> string" where
  "ip_str (V4 n) = ip4_str n"
| "ip_str (V6 n None) = ip6_str n"
| "ip_str (V6 n (Some scope)) = ip6_str n @ ''%'' @ scope"

section \<open>Networks\<close>

definition max_prefix :: "bool \<Rightarrow> nat" where
  "max_prefix v6 = (if v6 then 128 else 32)"

definition net_size :: "ip_net \<Rightarrow> nat" where
  "net_size net = 2 ^ (max_prefix (net_v6 net) - net_prefix net)"

definition net_broadcast :: "ip_net \<Rightarrow> nat" where
  "net_broadcast net = net_addr net + net_size net - 1"

definition mk_addr :: "ip_net \<Rightarrow> nat \<Rightarrow> ip" where
  "mk_addr net n = (if net_v6 net then V6 n None else V4 n)"

definition net_address :: "ip_net \<Rightarrow> ip" where
  "net_address net = (if net_v6 net then V6 (net_addr net) (net_scope net) else V4 (net_addr net))"

definition net_str :: "ip_net \<Rightarrow> string" where
  "net_str net = ip_str (net_address net) @ ''/'' @ show_nat (net_prefix net)"

text \<open>\<open>address in network\<close>: the same version, and the address with its host bits cleared is
  the network's.\<close>

fun in_net :: "ip \<Rightarrow> ip_net \<Rightarrow> bool" where
  "in_net (V4 n) net = (\<not> net_v6 net \<and> n div net_size net * net_size net = net_addr net)"
| "in_net (V6 n _) net = (net_v6 net \<and> n div net_size net * net_size net = net_addr net)"

text \<open>\<open>hosts()\<close> as its bounds: a /32 or /128 yields its one address, a /31 or /127 both,
  anything larger skips the network address, and for IPv4 the broadcast address.\<close>

definition host_lo :: "ip_net \<Rightarrow> nat" where
  "host_lo net = (if net_size net \<le> 2 then net_addr net else net_addr net + 1)"

definition host_hi :: "ip_net \<Rightarrow> nat" where
  "host_hi net =
     (if net_size net \<le> 2 \<or> net_v6 net then net_broadcast net else net_broadcast net - 1)"

definition overlaps :: "ip_net \<Rightarrow> ip_net \<Rightarrow> bool" where
  "overlaps a b \<longleftrightarrow> in_net (mk_addr a (net_addr a)) b \<or> in_net (mk_addr a (net_broadcast a)) b
     \<or> in_net (mk_addr b (net_addr b)) a \<or> in_net (mk_addr b (net_broadcast b)) a"

definition read_prefix :: "bool \<Rightarrow> string \<Rightarrow> nat option" where
  "read_prefix v6 s =
     (if s \<noteq> [] \<and> list_all is_digit s \<and> read_nat s \<le> max_prefix v6 then Some (read_nat s)
      else if v6 then None
      else case ip4_int_of_string s of
        None \<Rightarrow> None
      | Some m \<Rightarrow>
          (case List.find (\<lambda>p. m = 2 ^ 32 - 2 ^ (32 - p)) [0..<33] of
             Some p \<Rightarrow> Some p
           | None \<Rightarrow> List.find (\<lambda>p. 2 ^ 32 - 1 - m = 2 ^ 32 - 2 ^ (32 - p)) [0..<33]))"

definition network_of :: "bool \<Rightarrow> string \<Rightarrow> ip_net option" where
  "network_of v6 text =
     (let parts = split_on CHR ''/'' text;
          addr = (if v6 then ip6_addr_of_string (hd parts)
                  else map_option V4 (ip4_int_of_string (hd parts)));
          mask = (case parts of [_] \<Rightarrow> Some (max_prefix v6) | [_, m] \<Rightarrow> read_prefix v6 m | _ \<Rightarrow> None)
      in case (addr, mask) of
           (Some (V4 n), Some p) \<Rightarrow>
             Some \<lparr>net_v6 = False, net_addr = n, net_scope = None, net_prefix = p\<rparr>
         | (Some (V6 n sc), Some p) \<Rightarrow>
             Some \<lparr>net_v6 = True, net_addr = n, net_scope = sc, net_prefix = p\<rparr>
         | _ \<Rightarrow> None)"

definition no_host_bits :: "ip_net \<Rightarrow> bool" where
  "no_host_bits net \<longleftrightarrow> net_addr net mod net_size net = 0"

definition ip_network :: "string \<Rightarrow> msg + ip_net" where
  "ip_network text =
     (case (network_of False text, network_of True text) of
        (Some net, _) \<Rightarrow>
          if no_host_bits net then Inr net else Inl [S (net_str net), L '' has host bits set'']
      | (None, Some net) \<Rightarrow>
          if no_host_bits net then Inr net else Inl [S (net_str net), L '' has host bits set'']
      | (None, None) \<Rightarrow> Inl [R text, L '' does not appear to be an IPv4 or IPv6 network''])"

section \<open>Lemmas\<close>

lemma net_size_pos [simp]: "0 < net_size net"
  by (simp add: net_size_def)

lemma mk_addr_inj [simp]: "mk_addr net m = mk_addr net n \<longleftrightarrow> m = n"
  by (simp add: mk_addr_def)

lemma in_net_iff:
  assumes "no_host_bits net"
  shows "in_net (mk_addr net n) net \<longleftrightarrow> net_addr net \<le> n \<and> n \<le> net_broadcast net"
proof -
  obtain q where q: "net_addr net = q * net_size net"
    using assms by (auto simp: no_host_bits_def dvd_def mod_eq_0_iff_dvd mult.commute)
  have "n div net_size net = q \<longleftrightarrow> q * net_size net \<le> n \<and> n < q * net_size net + net_size net"
  proof
    assume n: "n div net_size net = q"
    have "n = q * net_size net + n mod net_size net"
      using n div_mult_mod_eq[of n "net_size net"] by simp
    moreover have "n mod net_size net < net_size net" by simp
    ultimately show "q * net_size net \<le> n \<and> n < q * net_size net + net_size net" by linarith
  next
    assume "q * net_size net \<le> n \<and> n < q * net_size net + net_size net"
    then show "n div net_size net = q"
      by (intro div_nat_eqI) (simp_all add: mult.commute algebra_simps)
  qed
  moreover have "n div net_size net * net_size net = net_addr net \<longleftrightarrow> n div net_size net = q"
    using q less_imp_neq[OF net_size_pos[of net]] by (simp del: net_size_pos)
  moreover have "n < q * net_size net + net_size net \<longleftrightarrow> n \<le> net_broadcast net"
    using q less_imp_neq[OF net_size_pos[of net]] unfolding net_broadcast_def by linarith
  ultimately show ?thesis
    using q by (cases "net_v6 net") (simp_all add: mk_addr_def)
qed

lemma in_net_mk:
  assumes "in_net a net"
  shows "\<exists>n sc. a = (if net_v6 net then V6 n sc else V4 n)"
  using assms by (cases a) auto

lemma host_range_in_net:
  assumes "no_host_bits net" "host_lo net \<le> n" "n \<le> host_hi net"
  shows "in_net (mk_addr net n) net"
  using assms net_size_pos[of net]
  by (auto simp: in_net_iff host_lo_def host_hi_def net_broadcast_def split: if_splits)

lemma ip_network_ok: "ip_network text = Inr net \<Longrightarrow> no_host_bits net"
  by (auto simp: ip_network_def split: option.splits if_splits)

lemma ip4_digits_inj:
  assumes "m < 2 ^ 32" "n < 2 ^ 32" "ip4_str m = ip4_str n"
  shows "m = n"
proof -
  have split: "split_on CHR ''.'' (ip4_str k) = map show_nat
      [k div 16777216 mod 256, k div 65536 mod 256, k div 256 mod 256, k mod 256]" for k
    unfolding ip4_str_def by (rule split_on_join) simp_all
  have digits: "m div 16777216 mod 256 = n div 16777216 mod 256"
    "m div 65536 mod 256 = n div 65536 mod 256" "m div 256 mod 256 = n div 256 mod 256"
    "m mod 256 = n mod 256"
    using split[of m] split[of n] assms(3) by simp_all
  have "k = ((k div 16777216 mod 256 * 256 + k div 65536 mod 256) * 256 + k div 256 mod 256) * 256
        + k mod 256" if "k < 2 ^ 32" for k :: nat
  proof -
    have "k div 16777216 mod 256 = k div 16777216" using that by simp
    moreover have "k div 65536 = k div 16777216 * 256 + k div 65536 mod 256"
      using div_mult2_eq[of k 65536 256] div_mult_mod_eq[of "k div 65536" 256] by simp
    moreover have "k div 256 = k div 65536 * 256 + k div 256 mod 256"
      using div_mult2_eq[of k 256 256] div_mult_mod_eq[of "k div 256" 256] by simp
    moreover have "k = k div 256 * 256 + k mod 256"
      using div_mult_mod_eq[of k 256] by simp
    ultimately show ?thesis by simp
  qed
  from this[OF assms(1)] this[OF assms(2)] digits show ?thesis by metis
qed

section \<open>The text of an address determines it\<close>

lemma hex_digit_inj: "m < 16 \<Longrightarrow> n < 16 \<Longrightarrow> hex_digit m = hex_digit n \<longleftrightarrow> m = n"
  by (auto simp: hex_digit_def split: if_splits)

lemma show_hex_not_Nil [simp]: "show_hex n \<noteq> []" "[] \<noteq> show_hex n"
proof -
  show "show_hex n \<noteq> []" by (subst show_hex.simps) auto
  then show "[] \<noteq> show_hex n" by (rule not_sym)
qed

lemma show_hex_length: "n < 16 \<longleftrightarrow> length (show_hex n) = 1"
proof -
  have "0 < length (show_hex (n div 16))" by simp
  then show ?thesis by (subst show_hex.simps) auto
qed

lemma show_hex_inj: "show_hex m = show_hex n \<Longrightarrow> m = n"
proof (induction m arbitrary: n rule: show_hex.induct)
  case (1 m)
  show ?case
  proof (cases "m < 16")
    case True
    with 1(2) have "n < 16" using show_hex_length[of m] show_hex_length[of n] by simp
    with True 1(2) show ?thesis by (simp add: show_hex.simps[of m] show_hex.simps[of n] hex_digit_inj)
  next
    case False
    with 1(2) have n: "\<not> n < 16" using show_hex_length[of m] show_hex_length[of n] by simp
    with False 1(2) have "show_hex (m div 16) = show_hex (n div 16)" "m mod 16 = n mod 16"
      by (simp_all add: show_hex.simps[of m] show_hex.simps[of n] hex_digit_inj)
    with 1(1)[OF False, of "n div 16"] show ?thesis by (metis div_mult_mod_eq)
  qed
qed

lemma hex_digit_plain: "n < 16 \<Longrightarrow> hex_digit n \<noteq> CHR '':'' \<and> hex_digit n \<noteq> CHR ''%''"
proof -
  assume "n < 16"
  then have "(of_char (hex_digit n) :: nat) = (if n < 10 then 48 + n else 87 + n)"
    by (simp add: hex_digit_def)
  with \<open>n < 16\<close> show ?thesis by (auto split: if_splits)
qed

lemma show_hex_plain: "c \<in> set (show_hex n) \<Longrightarrow> c \<noteq> CHR '':'' \<and> c \<noteq> CHR ''%''"
proof (induction n rule: show_hex.induct)
  case (1 n)
  then show ?case
    by (cases "n < 16") (auto simp: show_hex.simps[of n] hex_digit_plain)
qed

lemma best_zeros_run:
  assumes "best_zeros hs (length pre) len bs bl = (start, run)"
    and "len \<le> length pre" "\<forall>j. length pre - len \<le> j \<and> j < length pre \<longrightarrow> pre ! j = ''0''"
    and "bs + bl \<le> length pre" "\<forall>j. bs \<le> j \<and> j < bs + bl \<longrightarrow> pre ! j = ''0''"
  shows "start + run \<le> length (pre @ hs)
    \<and> (\<forall>j. start \<le> j \<and> j < start + run \<longrightarrow> (pre @ hs) ! j = ''0'')"
  using assms
proof (induction hs arbitrary: pre len bs bl)
  case (Cons h hs)
  have grown: "\<forall>j. length (pre @ [h]) - Suc len \<le> j \<and> j < length (pre @ [h]) \<longrightarrow> (pre @ [h]) ! j = ''0''"
    if "h = ''0''" using Cons.prems(2,3) that by (auto simp: nth_append less_Suc_eq)
  have kept: "\<forall>j. bs \<le> j \<and> j < bs + bl \<longrightarrow> (pre @ [h]) ! j = ''0''"
    using Cons.prems(4,5) by (auto simp: nth_append)
  show ?case
  proof (cases "h = ''0''")
    case True
    show ?thesis
    proof (cases "Suc len > bl")
      case True
      with Cons.prems(1) \<open>h = _\<close>
      have "best_zeros hs (length (pre @ [h])) (Suc len) (length pre - len) (Suc len) = (start, run)" by simp
      from Cons.IH[OF this] grown[OF \<open>h = _\<close>] Cons.prems(2) show ?thesis by simp
    next
      case False
      with Cons.prems(1) \<open>h = _\<close>
      have "best_zeros hs (length (pre @ [h])) (Suc len) bs bl = (start, run)" by simp
      from Cons.IH[OF this] grown[OF \<open>h = _\<close>] kept Cons.prems(2,4) show ?thesis by simp
    qed
  next
    case False
    with Cons.prems(1) have "best_zeros hs (length (pre @ [h])) 0 bs bl = (start, run)" by simp
    from Cons.IH[OF this] kept Cons.prems(4) show ?thesis by simp
  qed
qed simp

definition expand_hextets :: "string list \<Rightarrow> string list" where
  "expand_hextets xs =
     (if [] \<notin> set xs then xs
      else let a = takeWhile (\<lambda>x. x \<noteq> []) xs; b = rev (takeWhile (\<lambda>x. x \<noteq> []) (rev xs))
           in a @ replicate (8 - length a - length b) ''0'' @ b)"

lemma expand_compress:
  assumes "length hs = 8" "[] \<notin> set hs"
  shows "expand_hextets (compress_hextets hs) = hs"
proof -
  obtain start run where b: "best_zeros hs 0 0 0 0 = (start, run)" by force
  from best_zeros_run[of hs "[]" 0 0 0 start run] b
  have run: "start + run \<le> length hs" "\<And>j. start \<le> j \<Longrightarrow> j < start + run \<Longrightarrow> hs ! j = ''0''" by simp_all
  have split: "hs = take start hs @ replicate run ''0'' @ drop (start + run) hs"
  proof (rule nth_equalityI)
    show "length hs = length (take start hs @ replicate run ''0'' @ drop (start + run) hs)"
      using run(1) by simp
    show "hs ! i = (take start hs @ replicate run ''0'' @ drop (start + run) hs) ! i"
      if "i < length hs" for i
      using that run by (auto simp: nth_append)
  qed
  show ?thesis
  proof (cases "run > 1")
    case False
    with b assms(2) show ?thesis by (simp add: compress_hextets_def expand_hextets_def)
  next
    case True
    define a where "a = take start hs"
    define e where "e = drop (start + run) hs"
    have ne: "\<forall>x\<in>set a. x \<noteq> []" "\<forall>x\<in>set (rev e). x \<noteq> []"
      using assms(2) by (auto simp: a_def e_def dest: in_set_takeD in_set_dropD)
    have starts: "start = 0 \<Longrightarrow> a = []" and ends: "start + run = length hs \<Longrightarrow> e = []"
      by (simp_all add: a_def e_def)
    have len: "8 - length a - length e = run"
      using assms(1) run(1) by (simp add: a_def e_def)
    have c: "compress_hextets hs = (if start = 0 then [[]] else []) @ a @ [[]] @ e
        @ (if start + run = length hs then [[]] else [])"
      using b True by (simp add: compress_hextets_def a_def e_def)
    have tw: "takeWhile (\<lambda>x. x \<noteq> []) (ys @ [] # zs) = ys" if "\<forall>y\<in>set ys. y \<noteq> []" for ys zs :: "string list"
      using that by (simp add: takeWhile_append2)
    have "takeWhile (\<lambda>x. x \<noteq> []) (compress_hextets hs) = a"
      unfolding c using starts tw[OF ne(1)] by simp
    moreover have "takeWhile (\<lambda>x. x \<noteq> []) (rev (compress_hextets hs)) = rev e"
      unfolding c using ends tw[OF ne(2)] by simp
    moreover have "[] \<in> set (compress_hextets hs)" unfolding c by simp
    ultimately show ?thesis
      using split len by (simp add: expand_hextets_def Let_def a_def e_def)
  qed
qed

lemma digits_inj:
  assumes "0 < b" "m < b ^ k" "n < b ^ k"
    and "\<And>i. i < k \<Longrightarrow> m div b ^ i mod b = n div b ^ i mod (b::nat)"
  shows "m = n"
  using assms
proof (induction k arbitrary: m n)
  case (Suc k)
  have "m div b = n div b"
  proof (rule Suc.IH)
    show "m div b < b ^ k" "n div b < b ^ k"
      using Suc.prems by (simp_all add: less_mult_imp_div_less mult.commute)
    show "m div b div b ^ i mod b = n div b div b ^ i mod b" if "i < k" for i
      using Suc.prems(4)[of "Suc i"] that by (simp add: div_mult2_eq)
  qed fact
  moreover have "m mod b = n mod b" using Suc.prems(4)[of 0] by simp
  ultimately show ?case by (metis div_mult_mod_eq)
qed simp

lemma set_compress: "set (compress_hextets hs) \<subseteq> insert [] (set hs)"
  by (auto simp: compress_hextets_def split: prod.splits if_splits dest: in_set_takeD in_set_dropD)

lemma compress_not_Nil: "hs \<noteq> [] \<Longrightarrow> compress_hextets hs \<noteq> []"
  by (auto simp: compress_hextets_def split: prod.splits)

definition hextets :: "nat \<Rightarrow> string list" where
  "hextets n = map (\<lambda>i. show_hex (n div 65536 ^ (7 - i) mod 65536)) [0..<8]"

lemma hextets_plain: "h \<in> set (compress_hextets (hextets n)) \<Longrightarrow> CHR '':'' \<notin> set h \<and> CHR ''%'' \<notin> set h"
  using set_compress[of "hextets n"] show_hex_plain unfolding hextets_def by fastforce

lemma ip6_str_split: "split_on CHR '':'' (ip6_str n) = compress_hextets (hextets n)"
proof -
  have "ip6_str n = join_with [CHR '':''] (compress_hextets (hextets n))"
    by (simp add: ip6_str_def hextets_def)
  moreover have "hextets n \<noteq> []" by (simp add: hextets_def)
  ultimately show ?thesis
    using split_on_join[of "compress_hextets (hextets n)" "CHR '':''"] compress_not_Nil hextets_plain by auto
qed

lemma ip6_str_inj:
  assumes "m < 2 ^ 128" "n < 2 ^ 128" "ip6_str m = ip6_str n"
  shows "m = n"
proof -
  have ex: "expand_hextets (compress_hextets (hextets k)) = hextets k" for k
    by (rule expand_compress) (auto simp: hextets_def)
  have hm: "hextets m = hextets n"
    using assms(3) ex[of m] ex[of n] ip6_str_split[of m] ip6_str_split[of n] by simp
  have eq: "n div 65536 ^ (7 - i) mod 65536 = m div 65536 ^ (7 - i) mod 65536" if "i < 8" for i
  proof (rule show_hex_inj)
    have "hextets n ! i = hextets m ! i" using hm by simp
    then show "show_hex (n div 65536 ^ (7 - i) mod 65536) = show_hex (m div 65536 ^ (7 - i) mod 65536)"
      using that by (simp add: hextets_def del: upt_Suc)
  qed
  show ?thesis
  proof (rule digits_inj[of 65536 m 8 n])
    show "m div 65536 ^ i mod 65536 = n div 65536 ^ i mod 65536" if "i < 8" for i
      using eq[of "7 - i"] that by simp
  qed (use assms in simp_all)
qed

lemma join_with_set: "set (join_with sep ps) \<subseteq> set sep \<union> (\<Union>p\<in>set ps. set p)"
  by (induction sep ps rule: join_with.induct) auto

lemma ip6_str_no_percent: "CHR ''%'' \<notin> set (ip6_str n)"
proof -
  have "ip6_str n = join_with '':'' (compress_hextets (hextets n))"
    by (simp add: ip6_str_def hextets_def)
  with join_with_set[of "'':''" "compress_hextets (hextets n)"]
  have "set (ip6_str n) \<subseteq> {CHR '':''} \<union> (\<Union>p\<in>set (compress_hextets (hextets n)). set p)" by simp
  with hextets_plain show ?thesis by blast
qed

definition ip_bounded :: "ip \<Rightarrow> bool" where
  "ip_bounded a = (case a of V4 n \<Rightarrow> n < 2 ^ 32 | V6 n _ \<Rightarrow> n < 2 ^ 128)"

fun same_version :: "ip \<Rightarrow> ip \<Rightarrow> bool" where
  "same_version (V4 _) (V4 _) = True"
| "same_version (V6 _ _) (V6 _ _) = True"
| "same_version _ _ = False"

lemma ip_str_inj:
  assumes "ip_bounded a" "ip_bounded b" "same_version a b" "ip_str a = ip_str b"
  shows "a = b"
proof (cases a)
  case (V4 m)
  with assms ip4_digits_inj show ?thesis by (cases b) (auto simp: ip_bounded_def)
next
  case (V6 m sa)
  with assms(3) obtain n sb where b: "b = V6 n sb" by (cases b) auto
  have part: "partition_on CHR ''%'' (ip_str (V6 k sc)) =
      (ip6_str k, sc \<noteq> None, case sc of None \<Rightarrow> [] | Some t \<Rightarrow> t)" for k sc
    using partition_on_append[OF ip6_str_no_percent] partition_on_none[OF ip6_str_no_percent]
    by (cases sc) simp_all
  have "ip6_str m = ip6_str n" and sc: "(sa \<noteq> None) = (sb \<noteq> None)"
    "(case sa of None \<Rightarrow> [] | Some t \<Rightarrow> t) = (case sb of None \<Rightarrow> [] | Some t \<Rightarrow> t)"
    using part[of m sa] part[of n sb] assms(4) V6 b by simp_all
  moreover from sc have "sa = sb" by (cases sa; cases sb) simp_all
  ultimately show ?thesis using ip6_str_inj[of m n] assms(1,2) V6 b by (simp add: ip_bounded_def)
qed

section \<open>Addresses stay within their width\<close>

lemma hex_value_bound: "hex_value c = Some v \<Longrightarrow> v < 16"
  by (auto simp: hex_value_def Let_def split: if_splits)

lemma hextet_fold_bound:
  "foldl (\<lambda>a c. case (a, hex_value c) of (Some x, Some v) \<Rightarrow> Some (16 * x + v) | _ \<Rightarrow> None)
     (Some 0) s = Some v \<Longrightarrow> v < 16 ^ length s"
proof (induction s arbitrary: v rule: rev_induct)
  case (snoc c s)
  then obtain x w where "foldl (\<lambda>a c. case (a, hex_value c) of (Some x, Some v) \<Rightarrow> Some (16 * x + v) | _ \<Rightarrow> None)
     (Some 0) s = Some x" "hex_value c = Some w" "v = 16 * x + w"
    by (auto split: option.splits)
  with snoc.IH[of x] hex_value_bound[of c w] show ?case by simp
qed simp

lemma read_hextet_bound: "read_hextet s = Some v \<Longrightarrow> v < 65536"
proof -
  assume a: "read_hextet s = Some v"
  then have "v < 16 ^ length s" "length s \<le> 4"
    by (auto simp: read_hextet_def intro: hextet_fold_bound split: if_splits)
  moreover have "(16::nat) ^ length s \<le> 16 ^ 4" by (rule power_increasing) (use calculation in auto)
  ultimately show ?thesis by simp
qed

lemma hextets_value_bound: "hextets_value ps = Some v \<Longrightarrow> v < 65536 ^ length ps"
  unfolding hextets_value_def
proof (induction ps arbitrary: v rule: rev_induct)
  case (snoc p ps)
  then obtain x w where "foldl (\<lambda>a p. case (a, read_hextet p) of (Some x, Some v) \<Rightarrow> Some (65536 * x + v) | _ \<Rightarrow> None)
     (Some 0) ps = Some x" "read_hextet p = Some w" "v = 65536 * x + w"
    by (auto split: option.splits)
  with snoc.IH[of x] read_hextet_bound[of p w] show ?case by simp
qed simp

lemma join_parts_bound:
  assumes "a < 65536 ^ hi" "b < 65536 ^ lo" "hi + lo < 8"
  shows "a * 65536 ^ (8 - hi) + b < (2::nat) ^ 128"
proof -
  have "Suc a * 65536 ^ (8 - hi) \<le> 65536 ^ hi * 65536 ^ (8 - hi)"
    using assms(1) by (intro mult_right_mono) simp_all
  also have "\<dots> = 65536 ^ 8" using assms(3) by (simp flip: power_add)
  finally have "Suc a * 65536 ^ (8 - hi) \<le> (65536::nat) ^ 8" .
  moreover have "b < 65536 ^ (8 - hi)"
    using assms(2,3) by (rule_tac less_le_trans[OF _ power_increasing[of lo "8 - hi" "65536::nat"]]) simp_all
  ultimately show ?thesis by simp
qed

lemma ip6_parts_bound:
  assumes "ip6_int_of_parts parts = Some v"
  shows "v < 2 ^ 128"
proof -
  let ?n = "length parts"
  let ?skips = "filter (\<lambda>i. parts ! i = []) [1..<?n - 1]"
  consider (all) "?skips = []" | (one) skip where "?skips = [skip]" | (more) a b c where "?skips = a # b # c"
    by (metis list.exhaust)
  then show ?thesis
  proof cases
    case all
    with assms have "?n = 8" "hextets_value parts = Some v"
      by (auto simp: ip6_int_of_parts_def Let_def split: if_splits)
    with hextets_value_bound[of parts v] show ?thesis by simp
  next
    case one
    define hi where "hi = (if hd parts = [] then skip - 1 else skip)"
    define lo where "lo = (if last parts = [] then ?n - skip - 2 else ?n - skip - 1)"
    have "skip \<in> set ?skips" unfolding one by simp
    then have skip: "1 \<le> skip" "skip < ?n - 1" by auto
    from assms one hi_def lo_def obtain a b where ab: "hi + lo < 8"
      "hextets_value (take hi parts) = Some a" "hextets_value (drop (?n - lo) parts) = Some b"
      "v = a * 65536 ^ (8 - hi) + b"
      by (auto simp: ip6_int_of_parts_def Let_def simp del: filter_eq_Cons_iff split: if_splits option.splits)
    have "length (take hi parts) = hi" "length (drop (?n - lo) parts) = lo"
      using skip by (auto simp: hi_def lo_def)
    with hextets_value_bound[OF ab(2)] hextets_value_bound[OF ab(3)] join_parts_bound ab(1,4)
    show ?thesis by simp
  next
    case more
    with assms show ?thesis by (simp add: ip6_int_of_parts_def Let_def split: if_splits)
  qed
qed

lemma read_octet_bound: "read_octet s = Some v \<Longrightarrow> v \<le> 255"
  by (auto simp: read_octet_def split: if_splits)

lemma ip4_int_bound: "ip4_int_of_string s = Some v \<Longrightarrow> v < 2 ^ 32"
  unfolding ip4_int_of_string_def
  by (auto split: list.splits option.splits dest!: read_octet_bound)

lemma read_prefix_bound:
  assumes "read_prefix v6 s = Some p"
  shows "p \<le> max_prefix v6"
proof -
  have find: "p \<le> 32" if "List.find P [0..<33] = Some p" for P
    using that by (auto simp: find_Some_iff simp del: upt_Suc)
  from assms show ?thesis
    unfolding read_prefix_def
    by (auto simp: max_prefix_def simp del: upt_Suc split: if_splits option.splits dest!: find)
qed

lemma ip6_addr_bound:
  assumes "ip6_addr_of_string s = Some a"
  shows "\<exists>n sc. a = V6 n sc \<and> n < 2 ^ 128"
proof -
  from assms obtain addr n sc where "a = V6 n sc" "ip6_int_of_string addr = Some n"
    by (auto simp: ip6_addr_of_string_def split: if_splits prod.splits)
  moreover from this(2) have "n < 2 ^ 128"
    by (auto simp: ip6_int_of_string_def Let_def split: if_splits option.splits dest: ip6_parts_bound)
  ultimately show ?thesis by blast
qed

lemma network_of_bound:
  assumes "network_of v6 text = Some net"
  shows "net_addr net < 2 ^ max_prefix (net_v6 net) \<and> net_prefix net \<le> max_prefix (net_v6 net)"
proof -
  define parts where "parts = split_on CHR ''/'' text"
  define mask where "mask = (case parts of [_] \<Rightarrow> Some (max_prefix v6) | [_, m] \<Rightarrow> read_prefix v6 m | _ \<Rightarrow> None)"
  have mask: "p \<le> max_prefix v6" if "mask = Some p" for p
    using that by (auto simp: mask_def split: list.splits dest: read_prefix_bound)
  show ?thesis
  proof (cases v6)
    case True
    with assms obtain n sc p where "ip6_addr_of_string (hd parts) = Some (V6 n sc)" "mask = Some p"
      "net = \<lparr>net_v6 = True, net_addr = n, net_scope = sc, net_prefix = p\<rparr>"
      unfolding network_of_def Let_def parts_def[symmetric] mask_def[symmetric]
      using ip6_addr_bound by (auto split: option.splits ip.splits)
    with ip6_addr_bound[of "hd parts"] mask True show ?thesis by (fastforce simp: max_prefix_def)
  next
    case False
    with assms obtain n p where "ip4_int_of_string (hd parts) = Some n" "mask = Some p"
      "net = \<lparr>net_v6 = False, net_addr = n, net_scope = None, net_prefix = p\<rparr>"
      unfolding network_of_def Let_def parts_def[symmetric] mask_def[symmetric]
      by (auto split: option.splits)
    with ip4_int_bound[of "hd parts"] mask False show ?thesis by (simp add: max_prefix_def)
  qed
qed

lemma ip_network_bound:
  assumes "ip_network text = Inr net"
  shows "net_broadcast net < 2 ^ max_prefix (net_v6 net)"
proof -
  from assms have "network_of False text = Some net \<or> network_of True text = Some net"
    by (auto simp: ip_network_def split: option.splits if_splits)
  then have b: "net_addr net < 2 ^ max_prefix (net_v6 net)" "net_prefix net \<le> max_prefix (net_v6 net)"
    using network_of_bound by blast+
  from ip_network_ok[OF assms] obtain q where q: "net_addr net = net_size net * q"
    by (auto simp: no_host_bits_def)
  have total: "2 ^ max_prefix (net_v6 net) = net_size net * 2 ^ net_prefix net"
    using b(2) by (simp add: net_size_def flip: power_add)
  with b(1) q have "q < 2 ^ net_prefix net" by simp
  then have "net_size net * Suc q \<le> net_size net * 2 ^ net_prefix net"
    by (intro mult_left_mono) simp_all
  with total q net_size_pos[of net] show ?thesis
    unfolding net_broadcast_def by (simp del: net_size_pos)
qed

lemma in_net_bounded:
  assumes "ip_network text = Inr net" "in_net a net"
  shows "ip_bounded a"
proof -
  have upto: "n \<le> net_broadcast net" if "n div net_size net * net_size net = net_addr net" for n
  proof -
    have "n = net_addr net + n mod net_size net" using that div_mult_mod_eq[of n "net_size net"] by simp
    moreover have "n mod net_size net < net_size net" by simp
    ultimately show ?thesis unfolding net_broadcast_def by linarith
  qed
  show ?thesis
    using assms(2) ip_network_bound[OF assms(1)] upto
    by (cases a) (force simp: ip_bounded_def max_prefix_def dest: le_less_trans)+
qed

lemma in_net_same_version: "in_net a net \<Longrightarrow> in_net b net \<Longrightarrow> same_version a b"
  by (cases a; cases b) auto

lemma mk_addr_same_version: "in_net a net \<Longrightarrow> same_version a (mk_addr net n)"
  by (cases a) (auto simp: mk_addr_def)

end
