(* ===== verification/Addressing.thy ===== *)
theory Addressing
  imports Instances Ipaddr
begin

text \<open>
  The address plan (\<open>core/tiergen/core/addressing.py\<close>): segments are parsed and their members
  listed, the first host address of each is reserved for the gateway, pins are placed, and
  every other member takes the next free host address. The generator of free hosts is an
  interface (locale \<open>host_supply\<close>): the allocation loop is proved against its laws and the
  model's own generator discharges them. The plan's lemmas: two instances never share an
  address on a segment, none is the gateway's, every address is a host of its network, and a
  plan without problems is complete and honours every pin.
\<close>

section \<open>Definitions\<close>

record problem =
  pr_path :: string
  pr_message :: msg

record address_plan =
  pl_addresses :: "(string, (string, string) dict) dict"
  pl_gateways :: "(string, string) dict"
  pl_hostnames :: "(string, string) dict"
  pl_macs :: "(string, (string, string) dict) dict"

definition hostname :: "string \<Rightarrow> string" where
  "hostname i =
     replace_char CHR '']'' '''' (replace_char CHR ''['' ''-''
       (replace_char CHR ''_'' ''-'' (replace_char CHR ''/'' ''-'' i)))"

definition lower_char :: "char \<Rightarrow> char" where
  "lower_char c =
     (let n = (of_char c :: nat) in
      if (65 \<le> n \<and> n \<le> 90) \<or> (192 \<le> n \<and> n \<le> 222 \<and> n \<noteq> 215) then char_of (n + 32) else c)"

text \<open>\<open>digest\<close> is BLAKE2b with a three-octet digest: the octets it gives a text.\<close>

definition mac_address :: "(string \<Rightarrow> nat list) \<Rightarrow> string \<Rightarrow> string \<Rightarrow> string \<Rightarrow> string" where
  "mac_address digest oui instnc segment =
     join_with '':'' (map lower_char oui
       # map (\<lambda>b. [hex_digit (b div 16), hex_digit (b mod 16)])
           (digest (instnc @ ''@'' @ segment)))"

type_synonym assigned = "(string, (string, ip) dict) dict"

definition attached_to :: "scenario \<Rightarrow> string \<Rightarrow> string \<Rightarrow> string list" where
  "attached_to s path kind =
     dget_or (dget_or (dict_of (map (\<lambda>g. (gr_path g, gr_attachments g)) (sc_groups s))) path []) kind []"

definition segment_members :: "scenario \<Rightarrow> segment \<Rightarrow> string list" where
  "segment_members s seg =
     (if seg_plane seg = ManagementPlane then map (\<lambda>(p, k, i). i) (instance_ids s)
      else map (\<lambda>(p, k, i). i)
        (filter (\<lambda>(p, k, i). seg_name seg \<in> set (attached_to s p k)) (instance_ids s)))"

text \<open>The first loop: what is wrong, the parsed networks, the members of each segment.\<close>

type_synonym seg_state = "problem list \<times> (string, ip_net) dict \<times> (string, string list) dict"

definition read_segment :: "scenario \<Rightarrow> nat \<times> segment \<Rightarrow> seg_state \<Rightarrow> seg_state" where
  "read_segment s nseg st =
     (case (nseg, st) of ((n, seg), (problems, parsed, members)) \<Rightarrow>
        if seg_name seg \<in> set (dkeys members) then
          (problems @ [\<lparr>pr_path = ''segments['' @ show_nat n @ ''].name'',
             pr_message = [L ''segment '', R (seg_name seg), L '' is defined twice'']\<rparr>], parsed, members)
        else
          (let members' = dset (seg_name seg) (segment_members s seg) members
           in case ip_network (seg_cidr seg) of
                Inr net \<Rightarrow> (problems, dset (seg_name seg) net parsed, members')
              | Inl err \<Rightarrow>
                  (problems @ [\<lparr>pr_path = ''segments['' @ show_nat n @ ''].cidr'',
                     pr_message = [R (seg_cidr seg), L '' is not a prefix: ''] @ err\<rparr>],
                   parsed, members')))"

definition read_segments :: "scenario \<Rightarrow> topology \<Rightarrow> seg_state" where
  "read_segments s topo = fold (read_segment s) (enumerate0 (top_segments topo)) ([], [], [])"

text \<open>The gateway is the first host; a network of fewer than four addresses has no room.\<close>

definition first_host :: "ip_net \<Rightarrow> ip option" where
  "first_host net = (if host_lo net \<le> host_hi net then Some (mk_addr net (host_lo net)) else None)"

definition gateway_of :: "ip_net \<Rightarrow> ip option" where
  "gateway_of net = (if net_size net < 4 then None else first_host net)"

definition no_room :: "string \<Rightarrow> ip_net \<Rightarrow> problem" where
  "no_room name net = \<lparr>pr_path = ''segments'',
     pr_message = [L ''segment '', R name, L '' ('', S (net_str net), L '') has no room for hosts'']\<rparr>"

fun reserve_gateway ::
    "string \<times> ip_net \<Rightarrow> problem list \<times> (string, ip) dict \<Rightarrow> problem list \<times> (string, ip) dict" where
  "reserve_gateway (name, net) (problems, gateways) =
     (case gateway_of net of
        None \<Rightarrow> (problems @ [no_room name net], gateways)
      | Some first \<Rightarrow> (problems, dset name first gateways))"

definition reserve_gateways :: "(string, ip_net) dict \<Rightarrow> problem list \<times> (string, ip) dict" where
  "reserve_gateways parsed = fold reserve_gateway parsed ([], [])"

definition addr_at :: "assigned \<Rightarrow> string \<Rightarrow> string \<Rightarrow> ip option" where
  "addr_at A i n = dget (dget_or A i []) n"

definition set_addr :: "string \<Rightarrow> string \<Rightarrow> ip \<Rightarrow> assigned \<Rightarrow> assigned" where
  "set_addr i n a A = dset i (dset n a (dget_or A i [])) A"

text \<open>One pin. \<open>usable\<close> is in the order the segments were read.\<close>

type_synonym pin_state = "problem list \<times> assigned \<times> (string, ip list) dict"

definition place_pin ::
    "(string, ip_net) dict \<Rightarrow> (string, string list) dict \<Rightarrow> string \<times> string \<Rightarrow> pin_state \<Rightarrow> pin_state" where
  "place_pin usable members pin st =
     (case (pin, st) of ((key, addr), (problems, A, taken)) \<Rightarrow>
        let path = ''addresses['' @ repr_str key @ '']'';
            bad = (\<lambda>m. (problems @ [\<lparr>pr_path = path, pr_message = m\<rparr>], A, taken))
        in if key \<notin> set (dkeys A) then bad [R key, L '' is not an instance of this scenario'']
           else case ip_address addr of
             None \<Rightarrow> bad [R addr, L '' is not an address'']
           | Some a \<Rightarrow>
             (case first_such (\<lambda>(n, net). key \<in> set (dget_or members n []) \<and> in_net a net) usable of
                None \<Rightarrow> bad [S addr, L '' is on none of the networks '', S key, L '' joins'']
              | Some (home, net) \<Rightarrow>
                  if a = net_address net \<or> a = mk_addr net (net_broadcast net)
                  then bad [S addr, L '' is not a host address of '', R home]
                  else if a \<in> set (dget_or taken home [])
                  then bad [S addr, L '' is already taken on '', R home]
                  else (problems, set_addr key home a A,
                        dset home (dget_or taken home [] @ [a]) taken)))"

text \<open>The generator of free hosts, at position \<open>k\<close> of \<open>hosts()\<close>: the next one not taken.\<close>

function next_free :: "ip_net \<Rightarrow> ip list \<Rightarrow> nat \<Rightarrow> (ip \<times> nat) option" where
  "next_free net taken k =
     (if host_hi net < host_lo net + k then None
      else if mk_addr net (host_lo net + k) \<in> set taken then next_free net taken (Suc k)
      else Some (mk_addr net (host_lo net + k), Suc k))"
  by pat_completeness auto
termination
  by (relation "measure (\<lambda>(net, taken, k). Suc (host_hi net) - (host_lo net + k))") auto

declare next_free.simps [simp del]

text \<open>Every waiting instance takes the next one; the loop breaks when there is none.\<close>

fun allocate ::
    "('st \<Rightarrow> (ip \<times> 'st) option) \<Rightarrow> string \<Rightarrow> 'st \<Rightarrow> string list \<Rightarrow> assigned \<Rightarrow> bool \<times> assigned" where
  "allocate free name st [] A = (True, A)"
| "allocate free name st (i # is) A =
     (case free st of
        None \<Rightarrow> (False, A)
      | Some (a, st') \<Rightarrow> allocate free name st' is (set_addr i name a A))"

definition fill_segment ::
    "(string, string list) dict \<Rightarrow> (string, ip list) dict \<Rightarrow> string \<times> ip_net
      \<Rightarrow> problem list \<times> assigned \<Rightarrow> problem list \<times> assigned" where
  "fill_segment members taken seg st =
     (case (seg, st) of ((name, net), (problems, A)) \<Rightarrow>
        let attached = dget_or members name [];
            waiting = filter (\<lambda>i. addr_at A i name = None) attached
        in case allocate (next_free net (dget_or taken name [])) name 0 waiting A of
             (True, A') \<Rightarrow> (problems, A')
           | (False, A') \<Rightarrow>
               (problems @ [\<lparr>pr_path = ''segments'',
                  pr_message = [L ''segment '', R name, L '' ('', S (net_str net), L '') has room for '',
                    I (int (net_size net) - 3), L '' hosts; '', I (int (length attached)),
                    L '' are attached'']\<rparr>], A'))"

definition assign_addresses :: "scenario \<Rightarrow> topology \<Rightarrow> problem list \<times> (string, ip) dict \<times> assigned" where
  "assign_addresses s topo =
     (case read_segments s topo of (p1, parsed, members) \<Rightarrow>
      case reserve_gateways parsed of (p2, gateways) \<Rightarrow>
      let usable = filter (\<lambda>(n, net). n \<in> set (dkeys gateways)) parsed;
          A0 = dict_of (map (\<lambda>(p, k, i). (i, [])) (instance_ids s));
          taken0 = dict_of (concat (map (\<lambda>(n, net).
                     case dget gateways n of Some g \<Rightarrow> [(n, [g])] | None \<Rightarrow> []) usable))
      in case fold (place_pin usable members) (top_addresses topo) (p1 @ p2, A0, taken0) of
           (p3, A1, taken) \<Rightarrow>
             (case fold (fill_segment members taken) usable (p3, A1) of
                (p4, A2) \<Rightarrow> (p4, gateways, A2)))"

definition plan_addresses ::
    "(string \<Rightarrow> nat list) \<Rightarrow> scenario \<Rightarrow> topology \<Rightarrow> address_plan \<times> problem list" where
  "plan_addresses digest s topo =
     (case assign_addresses s topo of (problems, gateways, A) \<Rightarrow>
        let ouis = dict_of (concat (map (\<lambda>b. case bi_mac_oui b of None \<Rightarrow> [] | Some oui \<Rightarrow> [(bi_kind b, oui)])
                     (sc_bindings s)));
            macs = concat (map (\<lambda>(p, kind, i).
                     case dget ouis kind of None \<Rightarrow> []
                     | Some oui \<Rightarrow> [(i, map (\<lambda>n. (n, mac_address digest oui i n)) (dkeys (dget_or A i [])))])
                     (instance_ids s))
        in (\<lparr>pl_addresses = map (\<lambda>(i, nets). (i, map (\<lambda>(n, a). (n, ip_str a)) nets)) A,
             pl_gateways = map (\<lambda>(n, a). (n, ip_str a)) gateways,
             pl_hostnames = dict_of (map (\<lambda>(p, k, i). (i, hostname i)) (instance_ids s)),
             pl_macs = dict_of macs\<rparr>, problems))"

section \<open>The generator as an interface\<close>

lemma addr_at_set_addr [simp]:
  "addr_at (set_addr i n a A) j m = (if j = i \<and> m = n then Some a else addr_at A j m)"
  by (simp add: addr_at_def set_addr_def)

locale host_supply =
  fixes free :: "'st \<Rightarrow> (ip \<times> 'st) option"
    and used :: "'st \<Rightarrow> ip \<Rightarrow> bool"
    and candidate :: "ip \<Rightarrow> bool"
  assumes fresh: "free st = Some (a, st') \<Longrightarrow> candidate a \<and> \<not> used st a"
    and used_step: "free st = Some (a, st') \<Longrightarrow> used st' b \<longleftrightarrow> used st b \<or> b = a"
    and exhausted: "free st = None \<Longrightarrow> candidate a \<Longrightarrow> used st a"
begin

lemma allocate_keeps:
  assumes "allocate free name st is A = (ok, A')" "n \<noteq> name \<or> i \<notin> set is"
  shows "addr_at A' i n = addr_at A i n"
  using assms by (induction free name st "is" A rule: allocate.induct) (auto split: option.splits)

lemma allocate_source:
  assumes "allocate free name st is A = (ok, A')" "addr_at A' i name = Some a"
  shows "addr_at A i name = Some a \<or> (i \<in> set is \<and> candidate a \<and> \<not> used st a)"
  using assms
proof (induction "is" arbitrary: st A)
  case (Cons j js)
  show ?case
  proof (cases "free st")
    case (Some p)
    obtain b st' where p: "p = (b, st')" by force
    from Cons.IH[of st' "set_addr j name b A"] Cons.prems Some p
    have "addr_at (set_addr j name b A) i name = Some a
        \<or> (i \<in> set js \<and> candidate a \<and> \<not> used st' a)" by simp
    with fresh[of st b st'] used_step[of st b st' a] Some p show ?thesis by (auto split: if_splits)
  qed (use Cons.prems in auto)
qed simp

lemma allocate_unique:
  assumes "allocate free name st is A = (ok, A')"
    and "\<And>i a. addr_at A i name = Some a \<Longrightarrow> used st a"
    and "\<And>i j a. addr_at A i name = Some a \<Longrightarrow> addr_at A j name = Some a \<Longrightarrow> i = j"
    and "addr_at A' i name = Some a" "addr_at A' j name = Some a"
  shows "i = j"
  using assms
proof (induction "is" arbitrary: st A)
  case (Cons k ks)
  show ?case
  proof (cases "free st")
    case (Some p)
    obtain b st' where p: "p = (b, st')" by force
    note step = used_step[of st b st'] and new = fresh[of st b st']
    show ?thesis
    proof (rule Cons.IH[of st' "set_addr k name b A"])
      show "allocate free name st' ks (set_addr k name b A) = (ok, A')"
        using Cons.prems(1) Some p by simp
      show "used st' a" if "addr_at (set_addr k name b A) i name = Some a" for i a
        using that Cons.prems(2) step Some p by (auto split: if_splits)
      show "i = j" if "addr_at (set_addr k name b A) i name = Some a"
        "addr_at (set_addr k name b A) j name = Some a" for i j a
        using that Cons.prems(2,3) new Some p by (auto split: if_splits)
    qed (use Cons.prems in auto)
  qed (use Cons.prems in auto)
qed auto

lemma allocate_complete:
  assumes "allocate free name st is A = (True, A')" "i \<in> set is"
  shows "addr_at A' i name \<noteq> None"
  using assms
proof (induction "is" arbitrary: st A)
  case (Cons j js)
  then obtain b st' where p: "free st = Some (b, st')" by (auto split: option.splits)
  with Cons.prems have run: "allocate free name st' js (set_addr j name b A) = (True, A')" by simp
  show ?case
  proof (cases "i \<in> set js")
    case False
    with Cons.prems allocate_keeps[OF run, of name i] show ?thesis by simp
  qed (use Cons.IH run in blast)
qed simp

lemma allocate_exhausted:
  assumes "allocate free name st is A = (False, A')" "candidate a" "distinct is"
  shows "used st a \<or> (\<exists>i\<in>set is. addr_at A' i name = Some a)"
  using assms
proof (induction "is" arbitrary: st A)
  case (Cons j js)
  show ?case
  proof (cases "free st")
    case None
    with exhausted Cons.prems show ?thesis by blast
  next
    case (Some p)
    obtain b st' where p: "p = (b, st')" by force
    with Cons.prems Some have run: "allocate free name st' js (set_addr j name b A) = (False, A')"
      by simp
    from allocate_keeps[OF run, of name j] Cons.prems have "addr_at A' j name = Some b" by simp
    with Cons.IH[OF run] Cons.prems used_step[of st b st' a] Some p show ?thesis by auto
  qed
qed simp

end

text \<open>The model's generator keeps the laws.\<close>

definition host_used :: "ip_net \<Rightarrow> ip list \<Rightarrow> nat \<Rightarrow> ip \<Rightarrow> bool" where
  "host_used net taken k a \<longleftrightarrow> a \<in> set taken \<or> (\<exists>m<k. a = mk_addr net (host_lo net + m))"

definition is_host :: "ip_net \<Rightarrow> ip \<Rightarrow> bool" where
  "is_host net a \<longleftrightarrow> (\<exists>n. host_lo net \<le> n \<and> n \<le> host_hi net \<and> a = mk_addr net n)"

lemma next_free_Some:
  "next_free net taken k = Some (a, k') \<Longrightarrow>
     \<exists>m\<ge>k. k' = Suc m \<and> a = mk_addr net (host_lo net + m) \<and> a \<notin> set taken
       \<and> host_lo net + m \<le> host_hi net
       \<and> (\<forall>l\<ge>k. l < m \<longrightarrow> mk_addr net (host_lo net + l) \<in> set taken)"
proof (induction net taken k rule: next_free.induct)
  case (1 net taken k)
  note step = 1(2)[unfolded next_free.simps[of net taken k]]
  show ?case
  proof (cases "mk_addr net (host_lo net + k) \<in> set taken")
    case True
    with step have here: "\<not> host_hi net < host_lo net + k"
      and "next_free net taken (Suc k) = Some (a, k')" by (auto split: if_splits)
    from 1(1)[OF here True this(2)] obtain m where m: "m \<ge> Suc k" "k' = Suc m"
      "a = mk_addr net (host_lo net + m)" "a \<notin> set taken" "host_lo net + m \<le> host_hi net"
      "\<forall>l\<ge>Suc k. l < m \<longrightarrow> mk_addr net (host_lo net + l) \<in> set taken" by blast
    have "\<forall>l\<ge>k. l < m \<longrightarrow> mk_addr net (host_lo net + l) \<in> set taken"
      using m(6) True by (metis Suc_leI le_neq_implies_less)
    with m show ?thesis by (intro exI[of _ m]) auto
  next
    case False
    with step show ?thesis by (intro exI[of _ k]) (auto split: if_splits)
  qed
qed

lemma next_free_None:
  "next_free net taken k = None \<Longrightarrow> k \<le> m \<Longrightarrow> host_lo net + m \<le> host_hi net \<Longrightarrow>
     mk_addr net (host_lo net + m) \<in> set taken"
proof (induction net taken k rule: next_free.induct)
  case (1 net taken k)
  note step = 1(2)[unfolded next_free.simps[of net taken k]]
  from step 1(3,4) have here: "\<not> host_hi net < host_lo net + k"
    and yes: "mk_addr net (host_lo net + k) \<in> set taken"
    and rest: "next_free net taken (Suc k) = None" by (auto split: if_splits)
  show ?case
  proof (cases "m = k")
    case False
    with 1(3) 1(1)[OF here yes rest] 1(4) show ?thesis by simp
  qed (use yes in simp)
qed

interpretation hosts: host_supply "next_free net taken" "host_used net taken" "is_host net"
  for net taken
proof (unfold_locales, goal_cases)
  case (1 st a st')
  then show ?case
    by (force dest!: next_free_Some simp: host_used_def is_host_def)
next
  case (2 st a st' b)
  then obtain m where m: "m \<ge> st" "st' = Suc m" "a = mk_addr net (host_lo net + m)"
    "\<forall>l\<ge>st. l < m \<longrightarrow> mk_addr net (host_lo net + l) \<in> set taken"
    using next_free_Some by blast
  have "(\<exists>l<st'. b = mk_addr net (host_lo net + l)) \<longrightarrow> host_used net taken st b \<or> b = a"
    using m by (metis host_used_def less_Suc_eq not_le_imp_less)
  moreover have "host_used net taken st b \<or> b = a \<longrightarrow> host_used net taken st' b"
    using m by (auto simp: host_used_def intro: less_le_trans)
  ultimately show ?case by (auto simp: host_used_def)
next
  case (3 st a)
  then obtain n where n: "host_lo net \<le> n" "n \<le> host_hi net" "a = mk_addr net n"
    by (auto simp: is_host_def)
  from next_free_None[OF 3(1), of "n - host_lo net"] n
  show ?case
  proof (cases "st \<le> n - host_lo net")
    case False
    then have "n - host_lo net < st \<and> a = mk_addr net (host_lo net + (n - host_lo net))"
      using n by simp
    then show ?thesis unfolding host_used_def by blast
  qed (use n next_free_None[OF 3(1), of "n - host_lo net"] in \<open>auto simp: host_used_def\<close>)
qed

section \<open>Reading the segments\<close>

definition segments_read :: "scenario \<Rightarrow> (nat \<times> segment) list \<Rightarrow> seg_state \<Rightarrow> bool" where
  "segments_read s nsegs st \<longleftrightarrow>
     (case st of (ps, parsed, members) \<Rightarrow>
        dict_ok parsed
        \<and> set (dkeys members) = (\<lambda>(n, seg). seg_name seg) ` set nsegs
        \<and> (\<forall>name net. dget parsed name = Some net \<longrightarrow>
             (\<exists>(n, seg)\<in>set nsegs. seg_name seg = name \<and> ip_network (seg_cidr seg) = Inr net
                \<and> dget members name = Some (segment_members s seg)))
        \<and> (ps = [] \<longrightarrow> (\<forall>(n, seg)\<in>set nsegs.
             (\<exists>net. dget parsed (seg_name seg) = Some net \<and> ip_network (seg_cidr seg) = Inr net)
             \<and> dget members (seg_name seg) = Some (segment_members s seg))))"

lemma segments_readD:
  assumes "segments_read s nsegs (ps, parsed, members)"
  shows "dict_ok parsed"
    and "set (dkeys members) = (\<lambda>(n, seg). seg_name seg) ` set nsegs"
    and "dget parsed name = Some net \<Longrightarrow> \<exists>(n, seg)\<in>set nsegs. seg_name seg = name
      \<and> ip_network (seg_cidr seg) = Inr net \<and> dget members name = Some (segment_members s seg)"
    and "ps = [] \<Longrightarrow> (n, seg) \<in> set nsegs \<Longrightarrow>
      (\<exists>net. dget parsed (seg_name seg) = Some net \<and> ip_network (seg_cidr seg) = Inr net)
      \<and> dget members (seg_name seg) = Some (segment_members s seg)"
  using assms unfolding segments_read_def by blast+

lemma segments_readI:
  assumes "st = (ps, parsed, members)" "dict_ok parsed"
    and "set (dkeys members) = (\<lambda>(n, seg). seg_name seg) ` set nsegs"
    and "\<And>name net. dget parsed name = Some net \<Longrightarrow> \<exists>(n, seg)\<in>set nsegs. seg_name seg = name
      \<and> ip_network (seg_cidr seg) = Inr net \<and> dget members name = Some (segment_members s seg)"
    and "\<And>n seg. ps = [] \<Longrightarrow> (n, seg) \<in> set nsegs \<Longrightarrow>
      (\<exists>net. dget parsed (seg_name seg) = Some net \<and> ip_network (seg_cidr seg) = Inr net)
      \<and> dget members (seg_name seg) = Some (segment_members s seg)"
  shows "segments_read s nsegs st"
  using assms unfolding segments_read_def by blast

lemma segments_read_step:
  assumes "segments_read s done st"
  shows "segments_read s (done @ [nseg]) (read_segment s nseg st)"
proof -
  obtain ps parsed members n seg where st: "st = (ps, parsed, members)" "nseg = (n, seg)"
    by (metis prod_cases3 surj_pair)
  note inv = segments_readD[OF assms[unfolded st]]
  show ?thesis
  proof (cases "seg_name seg \<in> set (dkeys members)")
    case True
    with inv(2) have keys: "set (dkeys members) = (\<lambda>(n, seg). seg_name seg) ` set (done @ [nseg])"
      by (auto simp: st)
    have old: "\<exists>(n, seg)\<in>set (done @ [nseg]). seg_name seg = name
        \<and> ip_network (seg_cidr seg) = Inr net \<and> dget members name = Some (segment_members s seg)"
      if "dget parsed name = Some net" for name net
      using inv(3)[OF that] by auto
    show ?thesis
      using True inv(1) keys old unfolding segments_read_def read_segment_def st by simp
  next
    case False
    then have new: "seg_name seg \<noteq> seg_name seg'" if "(m, seg') \<in> set done" for m seg'
      using inv(2) that by force
    have absent: "dget parsed (seg_name seg) = None"
      using inv(3)[of "seg_name seg"] new by (cases "dget parsed (seg_name seg)") force+
    define members' where "members' = dset (seg_name seg) (segment_members s seg) members"
    have keys: "set (dkeys members') = (\<lambda>(n, seg). seg_name seg) ` set (done @ [nseg])"
      using False inv(2) by (auto simp: members'_def dkeys_dset st)
    have old: "\<exists>(n, seg)\<in>set (done @ [nseg]). seg_name seg = name
        \<and> ip_network (seg_cidr seg) = Inr net \<and> dget members' name = Some (segment_members s seg)"
      if "dget parsed name = Some net" for name net
    proof -
      from inv(3)[OF that] obtain m seg' where m: "(m, seg') \<in> set done" "seg_name seg' = name"
        "ip_network (seg_cidr seg') = Inr net" "dget members name = Some (segment_members s seg')"
        by blast
      with new[OF m(1)] show ?thesis by (force simp: members'_def)
    qed
    show ?thesis
    proof (cases "ip_network (seg_cidr seg)")
      case (Inl err)
      with False inv(1) keys old show ?thesis
        unfolding segments_read_def read_segment_def st members'_def by (simp add: Let_def)
    next
      case (Inr net)
      have all: "(\<exists>net'. dget (dset (seg_name seg) net parsed) (seg_name seg') = Some net'
            \<and> ip_network (seg_cidr seg') = Inr net')
          \<and> dget members' (seg_name seg') = Some (segment_members s seg')"
        if "ps = []" "(m, seg') \<in> set (done @ [nseg])" for m seg'
        using that inv(4)[of m seg'] new[of m seg'] Inr by (auto simp: st members'_def)
      have src: "\<exists>(n, seg)\<in>set (done @ [nseg]). seg_name seg = name
          \<and> ip_network (seg_cidr seg) = Inr net' \<and> dget members' name = Some (segment_members s seg)"
        if "dget (dset (seg_name seg) net parsed) name = Some net'" for name net'
        using that old[of name net'] Inr by (auto simp: st members'_def split: if_splits)
      have "read_segment s nseg st = (ps, dset (seg_name seg) net parsed, members')"
        using False Inr by (simp add: read_segment_def st members'_def)
      moreover have "dict_ok (dset (seg_name seg) net parsed)" using inv(1) by simp
      ultimately show ?thesis by (rule segments_readI[OF _ _ keys src all])
    qed
  qed
qed

lemma segments_read: "segments_read s (enumerate0 (top_segments topo)) (read_segments s topo)"
  unfolding read_segments_def
  by (rule fold_done[where Q = "segments_read s"])
     (simp_all add: segments_read_step, simp add: segments_read_def dkeys_def)

lemma reserve_gateways_step:
  "dict_ok parsed \<Longrightarrow> dget (snd (fold reserve_gateway parsed (ps, gws))) n =
     (case dget parsed n of None \<Rightarrow> dget gws n
      | Some net \<Rightarrow> (case gateway_of net of None \<Rightarrow> dget gws n | Some g \<Rightarrow> Some g))"
proof (induction parsed arbitrary: ps gws)
  case (Cons e parsed)
  obtain m net where e: "e = (m, net)" by force
  with Cons.prems have "dget parsed m = None" "dict_ok parsed"
    by (auto simp: dict_ok_def dget_None_iff)
  with Cons.IH e show ?case
    by (cases "gateway_of net") (auto split: option.splits)
qed simp

lemma dget_reserve_gateways:
  "dict_ok parsed \<Longrightarrow> dget (snd (reserve_gateways parsed)) n = Option.bind (dget parsed n) gateway_of"
  unfolding reserve_gateways_def by (subst reserve_gateways_step) (auto split: option.splits)

lemma reserve_gateways_silent_step:
  "fst (fold reserve_gateway parsed (ps, gws)) = [] \<Longrightarrow>
     ps = [] \<and> (\<forall>e\<in>set parsed. gateway_of (snd e) \<noteq> None)"
proof (induction parsed arbitrary: ps gws)
  case (Cons e parsed)
  obtain m net where e: "e = (m, net)" by force
  show ?case
  proof (cases "gateway_of net")
    case None
    with Cons.prems e have "fst (fold reserve_gateway parsed (ps @ [no_room m net], gws)) = []"
      by simp
    from Cons.IH[OF this] show ?thesis by simp
  next
    case (Some g)
    with Cons.prems e have "fst (fold reserve_gateway parsed (ps, dset m g gws)) = []"
      by simp
    from Cons.IH[OF this] Some e show ?thesis by simp
  qed
qed simp

lemma reserve_gateways_silent:
  assumes "reserve_gateways parsed = ([], gws)" "(n, net) \<in> set parsed"
  shows "gateway_of net \<noteq> None"
  using reserve_gateways_silent_step[of parsed "[]" "[]"] assms by (force simp: reserve_gateways_def)

section \<open>The invariant of the plan\<close>

text \<open>On one segment: every address belongs to a member, is a host address of the network and
  not the gateway's, and no two instances have the same one.\<close>

definition host_of :: "ip_net \<Rightarrow> ip \<Rightarrow> bool" where
  "host_of net a \<longleftrightarrow> in_net a net \<and> a \<noteq> net_address net
     \<and> (net_v6 net \<or> a \<noteq> mk_addr net (net_broadcast net))"

definition seg_sound :: "ip_net \<Rightarrow> ip option \<Rightarrow> string list \<Rightarrow> assigned \<Rightarrow> string \<Rightarrow> bool" where
  "seg_sound net gw mem A n \<longleftrightarrow>
     (\<forall>i a. addr_at A i n = Some a \<longrightarrow> i \<in> set mem \<and> host_of net a \<and> gw \<noteq> Some a)
     \<and> (\<forall>i j a. addr_at A i n = Some a \<longrightarrow> addr_at A j n = Some a \<longrightarrow> i = j)"

definition plan_sound ::
    "(string, ip_net) dict \<Rightarrow> (string, ip) dict \<Rightarrow> (string, string list) dict \<Rightarrow> assigned \<Rightarrow> bool" where
  "plan_sound usable gws members A \<longleftrightarrow>
     (\<forall>n. case dget usable n of
        None \<Rightarrow> \<forall>i. addr_at A i n = None
      | Some net \<Rightarrow> seg_sound net (dget gws n) (dget_or members n []) A n)"

definition taken_covers :: "(string, ip) dict \<Rightarrow> (string, ip list) dict \<Rightarrow> assigned \<Rightarrow> string \<Rightarrow> bool" where
  "taken_covers gws taken A n \<longleftrightarrow>
     (\<forall>g. dget gws n = Some g \<longrightarrow> g \<in> set (dget_or taken n []))
     \<and> (\<forall>i a. addr_at A i n = Some a \<longrightarrow> a \<in> set (dget_or taken n []))"

definition pins_ok ::
    "(string, ip_net) dict \<Rightarrow> (string, ip) dict \<Rightarrow> (string, string list) dict \<Rightarrow> pin_state \<Rightarrow> bool" where
  "pins_ok usable gws members st \<longleftrightarrow>
     (case st of (ps, A, taken) \<Rightarrow>
        plan_sound usable gws members A \<and> (\<forall>n\<in>fst ` set usable. taken_covers gws taken A n))"

lemma plan_soundI:
  assumes "\<And>n net. dget usable n = Some net \<Longrightarrow> seg_sound net (dget gws n) (dget_or members n []) A n"
    and "\<And>n i. dget usable n = None \<Longrightarrow> addr_at A i n = None"
  shows "plan_sound usable gws members A"
  using assms by (auto simp: plan_sound_def split: option.splits)

lemma plan_soundD:
  assumes "plan_sound usable gws members A"
  shows "dget usable n = Some net \<Longrightarrow> seg_sound net (dget gws n) (dget_or members n []) A n"
    and "dget usable n = None \<Longrightarrow> addr_at A i n = None"
  using assms[unfolded plan_sound_def, rule_format, of n] by auto

lemma place_pin_cases:
  assumes "dict_ok usable"
  obtains (bad) m where "place_pin usable members (key, addr) (ps, A, taken) = (ps @ [m], A, taken)"
  | (placed) a home net where "ip_address addr = Some a" "key \<in> set (dkeys A)"
      "dget usable home = Some net" "key \<in> set (dget_or members home [])" "in_net a net"
      "a \<noteq> net_address net" "a \<noteq> mk_addr net (net_broadcast net)" "a \<notin> set (dget_or taken home [])"
      "place_pin usable members (key, addr) (ps, A, taken) =
         (ps, set_addr key home a A, dset home (dget_or taken home [] @ [a]) taken)"
proof (cases "key \<in> set (dkeys A)")
  case False
  then show thesis using bad by (simp add: place_pin_def Let_def)
next
  case key: True
  show thesis
  proof (cases "ip_address addr")
    case None
    with key show thesis using bad by (simp add: place_pin_def Let_def)
  next
    case (Some a)
    show thesis
    proof (cases "first_such (\<lambda>(n, net). key \<in> set (dget_or members n []) \<and> in_net a net) usable")
      case None
      with key Some show thesis using bad by (simp add: place_pin_def Let_def del: first_such_None)
    next
      case home: (Some hn)
      obtain h net where hn: "hn = (h, net)" by force
      from first_such_Some[OF home] hn assms
      have h: "dget usable h = Some net" "key \<in> set (dget_or members h [])" "in_net a net"
        by (auto simp: dget_in_iff)
      show thesis
        using key Some home hn h placed bad
        by (cases "a = net_address net \<or> a = mk_addr net (net_broadcast net)";
            cases "a \<in> set (dget_or taken h [])") (auto simp: place_pin_def Let_def)
    qed
  qed
qed

lemma place_pin_ok:
  assumes "dict_ok usable" "pins_ok usable gws members st"
  shows "pins_ok usable gws members (place_pin usable members pin st)"
proof -
  obtain key addr ps A taken where st: "pin = (key, addr)" "st = (ps, A, taken)"
    by (metis prod_cases3 surj_pair)
  from assms(1) show ?thesis
  proof (cases rule: place_pin_cases[where key = key and addr = addr and ps = ps and A = A
        and taken = taken and members = members])
    case (bad m)
    with assms(2) show ?thesis by (simp add: st pins_ok_def)
  next
    case (placed a home net)
    have covers: "taken_covers gws taken A n" if "n \<in> fst ` set usable" for n
      using assms(2) that placed(3) by (auto simp: st pins_ok_def)
    have home: "home \<in> fst ` set usable"
      using placed(3) by (metis dget_None_iff option.distinct(1))
    have sound: "plan_sound usable gws members A" using assms(2) by (simp add: st pins_ok_def)
    have "plan_sound usable gws members (set_addr key home a A)"
    proof (rule plan_soundI)
      fix n net' assume n: "dget usable n = Some net'"
      show "seg_sound net' (dget gws n) (dget_or members n []) (set_addr key home a A) n"
        using plan_soundD(1)[OF sound n] covers[OF home] n placed
        by (auto simp: seg_sound_def taken_covers_def host_of_def split: if_splits)
    next
      fix n i assume "dget usable n = None"
      then show "addr_at (set_addr key home a A) i n = None"
        using plan_soundD(2)[OF sound] placed(3) by auto
    qed
    moreover have "taken_covers gws (dset home (dget_or taken home [] @ [a]) taken) (set_addr key home a A) n"
      if "n \<in> fst ` set usable" for n
      using covers[OF that] by (auto simp: taken_covers_def)
    ultimately show ?thesis using placed(9) by (simp add: st pins_ok_def)
  qed
qed

lemma place_pins_ok:
  "dict_ok usable \<Longrightarrow> pins_ok usable gws members st \<Longrightarrow>
     pins_ok usable gws members (fold (place_pin usable members) pins st)"
  by (rule fold_done[where Q = "\<lambda>_. pins_ok usable gws members"]) (auto simp: place_pin_ok)

lemma is_host_host_of:
  assumes "is_host net a" "no_host_bits net" "4 \<le> net_size net"
  shows "host_of net a"
proof -
  from assms(1) obtain n where n: "host_lo net \<le> n" "n \<le> host_hi net" "a = mk_addr net n"
    by (auto simp: is_host_def)
  have "in_net a net" using host_range_in_net[OF assms(2) n(1,2)] n(3) by simp
  moreover have "net_addr net < n" "net_v6 net \<or> n < net_broadcast net"
    using n assms(3) by (auto simp: host_lo_def host_hi_def net_broadcast_def split: if_splits)
  ultimately show ?thesis
    using n(3) by (auto simp: host_of_def mk_addr_def net_address_def)
qed

lemma fill_segment_cases:
  assumes "fill_segment members taken (name, net) (ps, A) = (ps', A')"
  obtains ok where
    "allocate (next_free net (dget_or taken name [])) name 0
       (filter (\<lambda>i. addr_at A i name = None) (dget_or members name [])) A = (ok, A')"
    and "ps' = [] \<Longrightarrow> ok \<and> ps = []"
  using assms by (auto simp: fill_segment_def Let_def split: prod.splits bool.splits)

lemma fill_segment_ok:
  assumes sound: "plan_sound usable gws members A"
    and net: "dget usable name = Some net" "no_host_bits net" "4 \<le> net_size net"
    and covers: "taken_covers gws taken A name"
    and fill: "fill_segment members taken (name, net) (ps, A) = (ps', A')"
  shows "plan_sound usable gws members A'"
    and "n \<noteq> name \<or> addr_at A i n \<noteq> None \<Longrightarrow> addr_at A' i n = addr_at A i n"
    and "ps' = [] \<Longrightarrow> ps = [] \<and> (\<forall>i\<in>set (dget_or members name []). addr_at A' i name \<noteq> None)"
proof -
  let ?tk = "dget_or taken name []" and ?mem = "dget_or members name []"
  let ?wait = "filter (\<lambda>i. addr_at A i name = None) ?mem"
  from fill obtain ok where run: "allocate (next_free net ?tk) name 0 ?wait A = (ok, A')"
    and ok: "ps' = [] \<Longrightarrow> ok \<and> ps = []" by (rule fill_segment_cases) blast
  show keeps: "addr_at A' i n = addr_at A i n" if "n \<noteq> name \<or> addr_at A i n \<noteq> None" for n i
    using hosts.allocate_keeps[OF run, of n i] that by auto
  have before: "seg_sound net (dget gws name) ?mem A name" by (rule plan_soundD(1)[OF sound net(1)])
  have used: "host_used net ?tk 0 a" if "addr_at A i name = Some a" for i a
    using covers that by (auto simp: taken_covers_def host_used_def)
  have apart: "i = j" if "addr_at A i name = Some a" "addr_at A j name = Some a" for i j a
    using before that by (auto simp: seg_sound_def)
  have after: "seg_sound net (dget gws name) ?mem A' name"
    unfolding seg_sound_def
  proof (intro conjI allI impI)
    fix i a assume a: "addr_at A' i name = Some a"
    from hosts.allocate_source[OF run a] have "addr_at A i name = Some a
        \<or> (i \<in> set ?mem \<and> host_of net a \<and> \<not> host_used net ?tk 0 a)"
      using is_host_host_of[OF _ net(2,3)] by auto
    then show "i \<in> set ?mem" "host_of net a" "dget gws name \<noteq> Some a"
      using before covers by (auto simp: seg_sound_def taken_covers_def host_used_def)
  next
    fix i j a assume new: "addr_at A' i name = Some a" "addr_at A' j name = Some a"
    show "i = j"
      by (rule hosts.allocate_unique[OF run _ _ new]) (blast intro: used apart)+
  qed
  show "plan_sound usable gws members A'"
  proof (rule plan_soundI)
    fix n net' assume n: "dget usable n = Some net'"
    show "seg_sound net' (dget gws n) (dget_or members n []) A' n"
    proof (cases "n = name")
      case False
      with plan_soundD(1)[OF sound n] keeps[of n] show ?thesis by (simp add: seg_sound_def)
    qed (use after n net in simp)
  next
    fix n i assume n: "dget usable n = None"
    with net(1) have "n \<noteq> name" by auto
    with n keeps[of n i] plan_soundD(2)[OF sound n, of i] show "addr_at A' i n = None" by simp
  qed
  show "ps = [] \<and> (\<forall>i\<in>set ?mem. addr_at A' i name \<noteq> None)" if "ps' = []"
  proof -
    have "addr_at A' i name \<noteq> None" if "i \<in> set ?mem" for i
      using hosts.allocate_complete[of net ?tk name 0 ?wait A A' i] run ok[OF \<open>ps' = []\<close>] that
        keeps[of name i] by (cases "addr_at A i name") auto
    with ok[OF that] show ?thesis by blast
  qed
qed

lemma fill_segments_ok:
  assumes "plan_sound usable gws members A" "distinct (map fst segs)"
    and "\<And>n net. (n, net) \<in> set segs \<Longrightarrow>
      dget usable n = Some net \<and> no_host_bits net \<and> 4 \<le> net_size net \<and> taken_covers gws taken A n"
    and "fold (fill_segment members taken) segs (ps, A) = (ps', A')"
  shows "plan_sound usable gws members A'
    \<and> (\<forall>i n. n \<notin> fst ` set segs \<or> addr_at A i n \<noteq> None \<longrightarrow> addr_at A' i n = addr_at A i n)
    \<and> (ps' = [] \<longrightarrow> ps = [] \<and> (\<forall>(n, net)\<in>set segs. \<forall>i\<in>set (dget_or members n []). addr_at A' i n \<noteq> None))"
  using assms
proof (induction segs arbitrary: ps A)
  case (Cons e segs)
  obtain name net where e: "e = (name, net)" by force
  obtain ps1 A1 where fill: "fill_segment members taken (name, net) (ps, A) = (ps1, A1)" by force
  from Cons.prems(3)[of name net] e have net: "dget usable name = Some net" "no_host_bits net"
    "4 \<le> net_size net" "taken_covers gws taken A name" by auto
  note one = fill_segment_ok[OF Cons.prems(1) net fill]
  have rest: "dget usable n = Some net' \<and> no_host_bits net' \<and> 4 \<le> net_size net'
      \<and> taken_covers gws taken A1 n" if "(n, net') \<in> set segs" for n net'
  proof -
    have "n \<noteq> name" using that Cons.prems(2) e by force
    with Cons.prems(3)[of n net'] that one(2)[of n] show ?thesis
      by (simp add: taken_covers_def)
  qed
  have run: "fold (fill_segment members taken) segs (ps1, A1) = (ps', A')"
    using Cons.prems(4) e fill by simp
  from Cons.prems(2) have d: "distinct (map fst segs)" "name \<notin> fst ` set segs" using e by auto
  note IH = Cons.IH[OF one(1) d(1) rest run]
  have "addr_at A' i n = addr_at A i n" if "n \<notin> fst ` set (e # segs) \<or> addr_at A i n \<noteq> None" for i n
  proof -
    from that e have "n \<noteq> name \<or> addr_at A i n \<noteq> None" by auto
    then have "addr_at A1 i n = addr_at A i n" by (rule one(2))
    moreover have "n \<notin> fst ` set segs \<or> addr_at A1 i n \<noteq> None" using that e calculation by auto
    ultimately show ?thesis using IH by metis
  qed
  moreover have "ps = [] \<and> (\<forall>(n, net)\<in>set (e # segs). \<forall>i\<in>set (dget_or members n []).
      addr_at A' i n \<noteq> None)" if "ps' = []"
    using IH one(3) that e d(2) by auto
  ultimately show ?case using IH by blast
qed auto

section \<open>The whole plan\<close>

lemma place_pins_silent:
  assumes "dict_ok usable" "fold (place_pin usable members) pins (ps, A, taken) = ([], A', taken')"
  shows "ps = []"
  using assms(2)
proof (induction pins arbitrary: ps A taken)
  case (Cons pin pins)
  obtain key addr where pin: "pin = (key, addr)" by force
  from assms(1) show ?case
  proof (cases rule: place_pin_cases[where key = key and addr = addr and ps = ps and A = A
        and taken = taken and members = members])
    case (bad m)
    with Cons.prems pin
    have "fold (place_pin usable members) pins (ps @ [m], A, taken) = ([], A', taken')" by simp
    from Cons.IH[OF this] show ?thesis by simp
  next
    case (placed a home net)
    with Cons.prems pin Cons.IH show ?thesis by auto
  qed
qed simp

lemma place_pins_clean:
  assumes "dict_ok usable" "distinct (map fst pins)"
    and "fold (place_pin usable members) pins (ps, A, taken) = ([], A', taken')"
  shows "ps = [] \<and> (\<forall>(key, addr)\<in>set pins. \<exists>a n. ip_address addr = Some a \<and> addr_at A' key n = Some a)
    \<and> (\<forall>key n. key \<notin> fst ` set pins \<longrightarrow> addr_at A' key n = addr_at A key n)"
  using assms(2,3)
proof (induction pins arbitrary: ps A taken)
  case (Cons pin pins)
  obtain key addr where pin: "pin = (key, addr)" by force
  from assms(1) show ?case
  proof (cases rule: place_pin_cases[where key = key and addr = addr and ps = ps and A = A
        and taken = taken and members = members])
    case (bad m)
    with Cons.prems pin
    have "fold (place_pin usable members) pins (ps @ [m], A, taken) = ([], A', taken')" by simp
    from Cons.IH[OF _ this] Cons.prems(1) show ?thesis by simp
  next
    case (placed a home net)
    with Cons.prems pin have "fold (place_pin usable members) pins
        (ps, set_addr key home a A, dset home (dget_or taken home [] @ [a]) taken) = ([], A', taken')"
      by simp
    note IH = Cons.IH[OF _ this]
    from Cons.prems(1) pin have d: "distinct (map fst pins)" "key \<notin> fst ` set pins" by auto
    with IH have "addr_at A' key home = Some a" by simp
    with IH d placed(1) pin show ?thesis by (auto 4 3)
  qed
qed simp

lemma usable_segments:
  assumes read: "read_segments s topo = (p1, parsed, members)"
    and gws: "reserve_gateways parsed = (p2, gws)"
    and usable: "usable = filter (\<lambda>(n, net). n \<in> set (dkeys gws)) parsed"
  shows "dict_ok usable"
    and "dget usable n = Some net \<longleftrightarrow> dget parsed n = Some net \<and> gateway_of net \<noteq> None"
    and "dget usable n = Some net \<Longrightarrow> dget gws n = gateway_of net"
    and "dget usable n = Some net \<Longrightarrow> \<exists>seg\<in>set (top_segments topo). seg_name seg = n
      \<and> ip_network (seg_cidr seg) = Inr net \<and> dget_or members n [] = segment_members s seg"
proof -
  note inv = segments_readD[OF segments_read[of s topo, unfolded read]]
  from inv(1) usable show ok: "dict_ok usable"
    by (auto simp: dict_ok_def distinct_map_filter)
  have gw: "dget gws m = Option.bind (dget parsed m) gateway_of" for m
    using dget_reserve_gateways[OF inv(1), of m] gws by simp
  have "(n, net) \<in> set usable \<longleftrightarrow> (n, net) \<in> set parsed \<and> dget gws n \<noteq> None"
    using usable by (auto simp: set_dkeys)
  with ok inv(1) gw show iff: "dget usable n = Some net \<longleftrightarrow> dget parsed n = Some net \<and> gateway_of net \<noteq> None"
    by (auto simp: dget_in_iff)
  show "dget gws n = gateway_of net" if "dget usable n = Some net"
    using that iff gw by simp
  show "\<exists>seg\<in>set (top_segments topo). seg_name seg = n \<and> ip_network (seg_cidr seg) = Inr net
      \<and> dget_or members n [] = segment_members s seg" if "dget usable n = Some net"
    using inv(3)[of n net] that iff by (fastforce simp: dget_or_def)
qed

lemma gateway_of_Some:
  "gateway_of net = Some g \<Longrightarrow> 4 \<le> net_size net \<and> g = mk_addr net (net_addr net + 1)"
  by (auto simp: gateway_of_def first_host_def host_lo_def split: if_splits)

lemma assign_addresses_run:
  assumes "assign_addresses s topo = (ps, gws, A)"
  obtains p1 parsed members p2 usable A0 taken0 p3 A1 taken where
    "read_segments s topo = (p1, parsed, members)" "reserve_gateways parsed = (p2, gws)"
    "usable = filter (\<lambda>(n, net). n \<in> set (dkeys gws)) parsed"
    "\<And>i n. addr_at A0 i n = None"
    "\<And>n net. dget usable n = Some net \<Longrightarrow> dget gws n \<noteq> None \<Longrightarrow> dget taken0 n = Some [the (dget gws n)]"
    "fold (place_pin usable members) (top_addresses topo) (p1 @ p2, A0, taken0) = (p3, A1, taken)"
    "fold (fill_segment members taken) usable (p3, A1) = (ps, A)"
proof -
  obtain p1 parsed members where 1: "read_segments s topo = (p1, parsed, members)" by (metis prod_cases3)
  obtain p2 gws' where 2: "reserve_gateways parsed = (p2, gws')" by force
  define usable where "usable = filter (\<lambda>(n, net). n \<in> set (dkeys gws')) parsed"
  define A0 :: assigned where "A0 = dict_of (map (\<lambda>(p, k, i). (i, [])) (instance_ids s))"
  define gs where "gs = concat (map (\<lambda>(n, net).
      case dget gws' n of Some g \<Rightarrow> [(n, [g])] | None \<Rightarrow> []) usable)"
  obtain p3 A1 taken where 3: "fold (place_pin usable members) (top_addresses topo)
      (p1 @ p2, A0, dict_of gs) = (p3, A1, taken)" by (metis prod_cases3)
  from assms 1 2 3 have gws: "gws' = gws" and 4: "fold (fill_segment members taken) usable (p3, A1) = (ps, A)"
    by (auto simp: assign_addresses_def usable_def A0_def gs_def Let_def split: prod.splits)
  have A0: "addr_at A0 i n = None" for i n
  proof -
    have "x = []" if "dget A0 i = Some x" for x
      using that by (auto simp: A0_def dget_dict_of dest!: map_of_SomeD)
    then show ?thesis by (cases "dget A0 i") (auto simp: addr_at_def dget_or_def)
  qed
  have gs: "dget (dict_of gs) n = Some [the (dget gws n)]"
    if n: "dget usable n = Some net" "dget gws n \<noteq> None" for n net
  proof -
    from n dget_Some_in[OF n(1)] have "(n, [the (dget gws n)]) \<in> set gs"
      by (force simp: gs_def gws)
    then have "n \<in> set (dkeys (dict_of gs))" by force
    then obtain v where v: "dget (dict_of gs) n = Some v" by (auto simp: set_dkeys)
    then have "(n, v) \<in> set gs" by (auto simp: dget_dict_of dest!: map_of_SomeD)
    with v show ?thesis by (fastforce simp: gs_def gws split: option.splits dest: sym[of "Some _"])
  qed
  from that[OF 1 2[unfolded gws] usable_def[unfolded gws] A0 gs 3 4] show thesis .
qed

lemma assigned_facts:
  assumes "assign_addresses s topo = (ps, gws, A)"
  shows "addr_at A i n = Some a \<Longrightarrow> \<exists>seg\<in>set (top_segments topo). \<exists>net. seg_name seg = n
      \<and> ip_network (seg_cidr seg) = Inr net \<and> i \<in> set (segment_members s seg) \<and> host_of net a \<and> 4 \<le> net_size net
      \<and> dget gws n = Some (mk_addr net (net_addr net + 1)) \<and> a \<noteq> mk_addr net (net_addr net + 1)"
    and "addr_at A i n = Some a \<Longrightarrow> addr_at A j n = Some a \<Longrightarrow> i = j"
    and "ps = [] \<Longrightarrow> seg \<in> set (top_segments topo) \<Longrightarrow> i \<in> set (segment_members s seg) \<Longrightarrow>
      addr_at A i (seg_name seg) \<noteq> None"
    and "ps = [] \<Longrightarrow> dict_ok (top_addresses topo) \<Longrightarrow> dget (top_addresses topo) i = Some addr \<Longrightarrow>
      \<exists>b m. ip_address addr = Some b \<and> addr_at A i m = Some b"
proof -
  from assms obtain p1 parsed members p2 usable A0 taken0 p3 A1 taken where
    read: "read_segments s topo = (p1, parsed, members)" and res: "reserve_gateways parsed = (p2, gws)"
    and usable: "usable = filter (\<lambda>(n, net). n \<in> set (dkeys gws)) parsed"
    and A0: "\<And>i n. addr_at A0 i n = None"
    and taken0: "\<And>n net. dget usable n = Some net \<Longrightarrow> dget gws n \<noteq> None \<Longrightarrow>
        dget taken0 n = Some [the (dget gws n)]"
    and pins: "fold (place_pin usable members) (top_addresses topo) (p1 @ p2, A0, taken0) = (p3, A1, taken)"
    and fill: "fold (fill_segment members taken) usable (p3, A1) = (ps, A)"
    by (rule assign_addresses_run) blast
  note us = usable_segments[OF read res usable]
  have gw: "4 \<le> net_size net \<and> dget gws n = Some (mk_addr net (net_addr net + 1))"
    if "dget usable n = Some net" for n net
    using us(2)[of n net] us(3)[OF that] gateway_of_Some that by auto
  have dom: "\<exists>net. dget usable n = Some net" if "n \<in> fst ` set usable" for n
    using that dget_None_iff[of usable n] by (cases "dget usable n") auto
  have "taken_covers gws taken0 A0 n" if n: "n \<in> fst ` set usable" for n
  proof -
    from dom[OF n] obtain net where "dget usable n = Some net" ..
    with taken0[of n net] gw show ?thesis by (simp add: taken_covers_def A0 dget_or_def)
  qed
  then have "pins_ok usable gws members (p1 @ p2, A0, taken0)"
    by (auto simp: pins_ok_def A0 seg_sound_def intro!: plan_soundI)
  from place_pins_ok[OF us(1) this, of "top_addresses topo"] pins
  have A1: "plan_sound usable gws members A1"
    and covers: "\<And>n. n \<in> fst ` set usable \<Longrightarrow> taken_covers gws taken A1 n"
    by (auto simp: pins_ok_def)
  have ready: "dget usable n = Some net \<and> no_host_bits net \<and> 4 \<le> net_size net \<and> taken_covers gws taken A1 n"
    if "(n, net) \<in> set usable" for n net
  proof -
    from that us(1) have n: "dget usable n = Some net" by (simp add: dget_in_iff)
    with us(4)[OF n] gw[OF n] covers[of n] that show ?thesis by (force dest: ip_network_ok)
  qed
  have "distinct (map fst usable)" using us(1) by (simp add: dict_ok_def)
  note full = fill_segments_ok[OF A1 this ready fill]
  then have sound: "plan_sound usable gws members A" by blast
  show "\<exists>seg\<in>set (top_segments topo). \<exists>net. seg_name seg = n
      \<and> ip_network (seg_cidr seg) = Inr net \<and> i \<in> set (segment_members s seg) \<and> host_of net a \<and> 4 \<le> net_size net
      \<and> dget gws n = Some (mk_addr net (net_addr net + 1)) \<and> a \<noteq> mk_addr net (net_addr net + 1)"
    if a: "addr_at A i n = Some a"
  proof -
    obtain net where n: "dget usable n = Some net"
      using plan_soundD(2)[OF sound, of n i] a by (cases "dget usable n") auto
    with plan_soundD(1)[OF sound n] a gw[OF n] us(4)[OF n] show ?thesis
      by (fastforce simp: seg_sound_def)
  qed
  show "i = j" if "addr_at A i n = Some a" "addr_at A j n = Some a"
    using plan_soundD[OF sound, of n] that
    by (cases "dget usable n") (auto simp: seg_sound_def)
  show "addr_at A i (seg_name seg) \<noteq> None"
    if "ps = []" "seg \<in> set (top_segments topo)" "i \<in> set (segment_members s seg)"
  proof -
    from full that(1) have p3: "p3 = []"
      and all: "\<And>n net i. (n, net) \<in> set usable \<Longrightarrow> i \<in> set (dget_or members n []) \<Longrightarrow> addr_at A i n \<noteq> None"
      by auto
    from place_pins_silent[OF us(1) pins[unfolded p3]] have p12: "p1 = []" "p2 = []" by simp_all
    from enumerate0_ex[OF that(2)] obtain k where "(k, seg) \<in> set (enumerate0 (top_segments topo))" ..
    note seg = segments_readD(1,4)[OF segments_read[of s topo, unfolded read]]
    from seg(2)[OF p12(1) \<open>(k, seg) \<in> _\<close>] obtain net where
      parsed: "dget parsed (seg_name seg) = Some net" and
      mem: "dget members (seg_name seg) = Some (segment_members s seg)" by blast
    have "gateway_of net \<noteq> None"
      using reserve_gateways_silent[OF res[unfolded p12] dget_Some_in[OF parsed]] .
    with parsed us(2) have "(seg_name seg, net) \<in> set usable" by (auto intro: dget_Some_in)
    from all[OF this, of i] mem that(3) show ?thesis by (simp add: dget_or_def)
  qed
  show "\<exists>b m. ip_address addr = Some b \<and> addr_at A i m = Some b"
    if "ps = []" "dict_ok (top_addresses topo)" "dget (top_addresses topo) i = Some addr"
  proof -
    from full that(1) have p3: "p3 = []" by auto
    have "distinct (map fst (top_addresses topo))" using that(2) by (simp add: dict_ok_def)
    from place_pins_clean[OF us(1) this pins[unfolded p3]] dget_Some_in[OF that(3)]
    obtain b m where b: "ip_address addr = Some b" "addr_at A1 i m = Some b" by blast
    with full have "addr_at A i m = Some b" by auto
    with b(1) show ?thesis by blast
  qed
qed

section \<open>The plan as its readers see it\<close>

text \<open>\<open>plan.addresses.get(instance, {}).get(segment)\<close>.\<close>

definition plan_at :: "address_plan \<Rightarrow> string \<Rightarrow> string \<Rightarrow> string option" where
  "plan_at plan i n = dget (dget_or (pl_addresses plan) i []) n"

lemma plan_addresses_run:
  assumes "plan_addresses digest s topo = (plan, ps)"
  obtains gws A where "assign_addresses s topo = (ps, gws, A)"
    "\<And>i n. plan_at plan i n = map_option ip_str (addr_at A i n)"
    "\<And>n. dget (pl_gateways plan) n = map_option ip_str (dget gws n)"
proof -
  obtain ps' gws A where run: "assign_addresses s topo = (ps', gws, A)" by (metis prod_cases3)
  have val: "dget (map (\<lambda>(k, v). (k, f v)) d) n = map_option f (dget d n)" for f :: "'x \<Rightarrow> 'y" and d and n :: string
    by (induction d) auto
  from assms run have ps: "ps' = ps"
    and adr: "pl_addresses plan = map (\<lambda>(i, nets). (i, map (\<lambda>(n, a). (n, ip_str a)) nets)) A"
    and gw: "pl_gateways plan = map (\<lambda>(n, a). (n, ip_str a)) gws"
    by (auto simp: plan_addresses_def Let_def)
  have "plan_at plan i n = map_option ip_str (addr_at A i n)" for i n
    by (cases "dget A i") (simp_all add: plan_at_def addr_at_def dget_or_def adr val)
  moreover have "dget (pl_gateways plan) n = map_option ip_str (dget gws n)" for n
    by (simp add: gw val)
  ultimately show thesis using that run ps by blast
qed

lemma plan_at_host:
  assumes "plan_addresses digest s topo = (plan, ps)" "plan_at plan i n = Some t"
  shows "\<exists>seg\<in>set (top_segments topo). \<exists>net a g. seg_name seg = n \<and> ip_network (seg_cidr seg) = Inr net
    \<and> i \<in> set (segment_members s seg) \<and> t = ip_str a \<and> host_of net a
    \<and> dget (pl_gateways plan) n = Some g \<and> t \<noteq> g"
proof -
  from assms(1) obtain gws A where run: "assign_addresses s topo = (ps, gws, A)"
    and at: "\<And>i n. plan_at plan i n = map_option ip_str (addr_at A i n)"
    and gw: "\<And>n. dget (pl_gateways plan) n = map_option ip_str (dget gws n)"
    by (rule plan_addresses_run) blast
  from assms(2) at obtain a where a: "addr_at A i n = Some a" "t = ip_str a" by auto
  from assigned_facts(1)[OF run a(1)] obtain seg net where seg: "seg \<in> set (top_segments topo)"
    "seg_name seg = n" "ip_network (seg_cidr seg) = Inr net" "i \<in> set (segment_members s seg)"
    "host_of net a" "4 \<le> net_size net" and g: "dget gws n = Some (mk_addr net (net_addr net + 1))"
    "a \<noteq> mk_addr net (net_addr net + 1)" by blast
  have "in_net a net" using seg(5) by (simp add: host_of_def)
  have "a = mk_addr net (net_addr net + 1)" if "t = ip_str (mk_addr net (net_addr net + 1))"
  proof (rule ip_str_inj)
    show "ip_bounded a" using in_net_bounded[OF seg(3)] \<open>in_net a net\<close> by blast
    show "same_version a (mk_addr net (net_addr net + 1))" by (rule mk_addr_same_version) fact
    show "ip_str a = ip_str (mk_addr net (net_addr net + 1))" using that a(2) by simp
    have "in_net (mk_addr net (net_addr net + 1)) net"
      using seg(6) in_net_iff[OF ip_network_ok[OF seg(3)]] by (simp add: net_broadcast_def)
    then show "ip_bounded (mk_addr net (net_addr net + 1))" by (rule in_net_bounded[OF seg(3)])
  qed
  with g seg a gw show ?thesis by (intro bexI[of _ seg] exI[of _ net] exI[of _ a]) auto
qed

lemma plan_at_unique:
  assumes "plan_addresses digest s topo = (plan, ps)" "plan_at plan i n = Some t" "plan_at plan j n = Some t"
  shows "i = j"
proof -
  from assms(1) obtain gws A where run: "assign_addresses s topo = (ps, gws, A)"
    and at: "\<And>i n. plan_at plan i n = map_option ip_str (addr_at A i n)"
    by (rule plan_addresses_run) blast
  from assms(2,3) at obtain a b where a: "addr_at A i n = Some a" "t = ip_str a"
    and b: "addr_at A j n = Some b" "t = ip_str b" by fastforce
  have host: "\<exists>seg\<in>set (top_segments topo). \<exists>net. ip_network (seg_cidr seg) = Inr net \<and> in_net c net
      \<and> dget gws n = Some (mk_addr net (net_addr net + 1))" if "addr_at A k n = Some c" for k c
    using assigned_facts(1)[OF run that] by (auto simp: host_of_def)
  from host[OF a(1)] obtain net where na: "ip_bounded a" "in_net a net"
    "dget gws n = Some (mk_addr net (net_addr net + 1))" using in_net_bounded by blast
  from host[OF b(1)] obtain net' where nb: "ip_bounded b" "in_net b net'"
    "dget gws n = Some (mk_addr net' (net_addr net' + 1))" using in_net_bounded by blast
  from na(3) nb(3) have "net_v6 net = net_v6 net'" by (simp add: mk_addr_def split: if_splits)
  with na(2) nb(2) have "same_version a b" by (cases a; cases b) auto
  with na(1) nb(1) a(2) b(2) have "a = b" by (intro ip_str_inj) auto
  with a(1) b(1) show ?thesis using assigned_facts(2)[OF run] by blast
qed

section \<open>Properties\<close>

definition demo_plan :: "address_plan \<times> problem list" where
  "demo_plan = plan_addresses (\<lambda>_. [1, 2, 3]) demo_scenario demo_topology"

lemma demo_plan_run: "plan_addresses (\<lambda>_. [1, 2, 3]) demo_scenario demo_topology = (fst demo_plan, snd demo_plan)"
  by (simp add: demo_plan_def)

lemma demo_plan:
  "snd demo_plan = []"
  "plan_at (fst demo_plan) ''o/c[0]'' ''x'' = Some ''10.0.0.2''"
  "plan_at (fst demo_plan) ''d/s[0]'' ''y'' = Some ''10.0.1.5''"
  "dict_ok (top_addresses demo_topology)"
  "dget (top_addresses demo_topology) ''d/s[0]'' = Some ''10.0.1.5''"
  "''d/r[0]'' \<in> set (segment_members demo_scenario (top_segments demo_topology ! 1))"
  "fst (fill_segment [(''x'', [''a'', ''b''])] [(''x'', [V4 9])]
     (''x'', \<lparr>net_v6 = False, net_addr = 8, net_scope = None, net_prefix = 30\<rparr>) ([], [])) \<noteq> []"
  "host_lo \<lparr>net_v6 = False, net_addr = 8, net_scope = None, net_prefix = 30\<rparr> = 9"
  "host_hi \<lparr>net_v6 = False, net_addr = 8, net_scope = None, net_prefix = 30\<rparr> = 10"
  by code_simp+

lemma demo_segment: "top_segments demo_topology ! 1 \<in> set (top_segments demo_topology)"
  "seg_name (top_segments demo_topology ! 1) = ''y''"
  by (simp_all add: demo_topology_def)

text \<open>C1: On a segment the plan gives two different instances two different address texts, and
  neither is the gateway's, for IPv4 and IPv6 alike and whatever else is wrong with the
  scenario.\<close>

theorem plan_addresses_unique:
  assumes "plan_addresses digest s topo = (plan, ps)" "plan_at plan i n = Some t" "i \<noteq> j"
  shows "plan_at plan j n \<noteq> Some t \<and> dget (pl_gateways plan) n \<noteq> Some t"
  using plan_at_unique[OF assms(1,2)] plan_at_host[OF assms(1,2)] assms(3) by fastforce

theorem plan_addresses_unique_witness:
  "plan_at (fst demo_plan) ''o/c[1]'' ''x'' \<noteq> Some ''10.0.0.2''
   \<and> dget (pl_gateways (fst demo_plan)) ''x'' \<noteq> Some ''10.0.0.2''"
  by (rule plan_addresses_unique[OF demo_plan_run demo_plan(2)]) simp

text \<open>C6: Every address of the plan is a host address of its segment's network (inside it, not
  the network address, and for IPv4 not the broadcast address), its instance is attached to
  that segment, and the segment has a gateway with another address.\<close>

theorem plan_addresses_hosts:
  assumes "plan_addresses digest s topo = (plan, ps)" "plan_at plan i n = Some t"
  shows "\<exists>seg\<in>set (top_segments topo). \<exists>net a g. seg_name seg = n \<and> ip_network (seg_cidr seg) = Inr net
    \<and> i \<in> set (segment_members s seg) \<and> t = ip_str a \<and> host_of net a
    \<and> dget (pl_gateways plan) n = Some g \<and> t \<noteq> g"
  using assms by (rule plan_at_host)

theorem plan_addresses_hosts_witness:
  "\<exists>seg\<in>set (top_segments demo_topology). \<exists>net a g. seg_name seg = ''y''
     \<and> ip_network (seg_cidr seg) = Inr net \<and> ''d/s[0]'' \<in> set (segment_members demo_scenario seg)
     \<and> ''10.0.1.5'' = ip_str a \<and> host_of net a
     \<and> dget (pl_gateways (fst demo_plan)) ''y'' = Some g \<and> ''10.0.1.5'' \<noteq> g"
  by (rule plan_addresses_hosts[OF demo_plan_run demo_plan(3)])

text \<open>C7: A plan without problems is complete: every instance attached to a segment has an
  address there, and every pinned address is the one its instance has.\<close>

theorem plan_addresses_complete:
  assumes "plan_addresses digest s topo = (plan, [])"
  shows "(\<forall>seg\<in>set (top_segments topo). \<forall>i\<in>set (segment_members s seg). plan_at plan i (seg_name seg) \<noteq> None)
    \<and> (dict_ok (top_addresses topo) \<longrightarrow> (\<forall>i addr. dget (top_addresses topo) i = Some addr \<longrightarrow>
         (\<exists>a n. ip_address addr = Some a \<and> plan_at plan i n = Some (ip_str a))))"
proof -
  from assms obtain gws A where run: "assign_addresses s topo = ([], gws, A)"
    and at: "\<And>i n. plan_at plan i n = map_option ip_str (addr_at A i n)"
    by (rule plan_addresses_run) blast
  have "plan_at plan i (seg_name seg) \<noteq> None"
    if "seg \<in> set (top_segments topo)" "i \<in> set (segment_members s seg)" for seg i
    using assigned_facts(3)[OF run refl that] at by simp
  moreover have "\<exists>a n. ip_address addr = Some a \<and> plan_at plan i n = Some (ip_str a)"
    if "dict_ok (top_addresses topo)" "dget (top_addresses topo) i = Some addr" for i addr
    using assigned_facts(4)[OF run refl that] at by fastforce
  ultimately show ?thesis by blast
qed

theorem plan_addresses_complete_witness:
  "plan_at (fst demo_plan) ''d/r[0]'' ''y'' \<noteq> None
   \<and> (\<exists>a n. ip_address ''10.0.1.5'' = Some a \<and> plan_at (fst demo_plan) ''d/s[0]'' n = Some (ip_str a))"
proof -
  note c = plan_addresses_complete[OF demo_plan_run[unfolded demo_plan(1)]]
  from c demo_segment demo_plan(6) have "plan_at (fst demo_plan) ''d/r[0]'' ''y'' \<noteq> None"
    unfolding One_nat_def by metis
  with c demo_plan(4,5) show ?thesis by blast
qed

text \<open>When filling a segment reports that it has no room, it really has none: every host
  address of the network is taken by a pin or the gateway, or was given to a member.\<close>

lemma fill_segment_exhausted:
  assumes "fill_segment members taken (name, net) (ps, A) = (ps', A')" "ps' \<noteq> ps"
    and "distinct (dget_or members name [])" "is_host net a"
  shows "a \<in> set (dget_or taken name []) \<or> (\<exists>i\<in>set (dget_or members name []). addr_at A' i name = Some a)"
  using assms hosts.allocate_exhausted[of net "dget_or taken name []" name 0 _ A A' a]
  by (fastforce simp: fill_segment_def Let_def host_used_def split: prod.splits bool.splits)

end
