(* ===== verification/Routing.thy ===== *)
theory Routing
  imports Addressing
begin

text \<open>
  Routing (\<open>core/tiergen/core/routing.py\<close>): which hosts forward, the hop counts between data
  segments by breadth-first search, the static routes of every instance and the reachability
  question check 10 asks. The lemmas show that the search computes shortest distances, that a
  route exists exactly when forwarders connect an instance to a segment, and that following
  the routes of a problem-free plan delivers every packet.
\<close>

section \<open>Definitions\<close>

record route =
  rt_segment :: string
  rt_cidr :: string
  rt_via :: string
  rt_out :: string

record route_plan =
  rp_routes :: "(string, route list) dict"
  rp_forwarders :: "string list"

definition forwarders :: "scenario \<Rightarrow> string list" where
  "forwarders s =
     (let forwarding = map kd_name (filter kd_forwards (sc_kinds s))
      in map (\<lambda>(p, k, i). i) (filter (\<lambda>(p, k, i). k \<in> set forwarding) (instance_ids s)))"

definition segments_of :: "address_plan \<Rightarrow> string \<Rightarrow> string list \<Rightarrow> string list" where
  "segments_of plan i data = filter (\<lambda>s. s \<in> set data) (dkeys (dget_or (pl_addresses plan) i []))"

text \<open>\<open>_distances\<close>: \<open>seen\<close> and the queue. The neighbours of a segment are a set in the code,
  so their order is not fixed; the model takes them in the order of the adjacency.\<close>

definition unseen :: "(string, string list) dict \<Rightarrow> string \<Rightarrow> (string, nat) dict \<Rightarrow> string list" where
  "unseen adj here seen = remdups (filter (\<lambda>t. t \<notin> set (dkeys seen)) (dget_or adj here []))"

function bfs :: "(string, string list) dict \<Rightarrow> string list \<Rightarrow> (string, nat) dict \<Rightarrow> (string, nat) dict" where
  "bfs adj [] seen = seen"
| "bfs adj (here # queue) seen =
     bfs adj (queue @ unseen adj here seen)
       (seen @ map (\<lambda>t. (t, dget_or seen here 0 + 1)) (unseen adj here seen))"
  by pat_completeness auto

definition bfs_left :: "(string, string list) dict \<Rightarrow> (string, nat) dict \<Rightarrow> nat" where
  "bfs_left adj seen = card (set (concat (map snd adj)) - set (dkeys seen))"

lemma unseen_props:
  "distinct (unseen adj here seen)" "set (unseen adj here seen) \<inter> set (dkeys seen) = {}"
  "set (unseen adj here seen) \<subseteq> set (concat (map snd adj))"
  "t \<in> set (unseen adj here seen) \<longleftrightarrow> t \<in> set (dget_or adj here []) \<and> t \<notin> set (dkeys seen)"
proof -
  show "set (unseen adj here seen) \<subseteq> set (concat (map snd adj))"
  proof (cases "dget adj here")
    case (Some ts)
    with dget_Some_in[OF Some] show ?thesis by (force simp: unseen_def dget_or_def)
  qed (simp add: unseen_def dget_or_def)
qed (auto simp: unseen_def)

lemma bfs_left_less:
  "bfs_left adj (seen @ map (\<lambda>t. (t, f t)) (unseen adj here seen)) + length (unseen adj here seen)
     = bfs_left adj seen"
proof -
  let ?V = "set (concat (map snd adj))" and ?K = "set (dkeys seen)" and ?N = "set (unseen adj here seen)"
  have "set (dkeys (seen @ map (\<lambda>t. (t, f t)) (unseen adj here seen))) = ?K \<union> ?N"
    by (auto simp: dkeys_def)
  then have "bfs_left adj (seen @ map (\<lambda>t. (t, f t)) (unseen adj here seen)) = card ((?V - ?K) - ?N)"
    by (simp add: bfs_left_def Diff_eq Int_assoc)
  moreover have "card ?N = length (unseen adj here seen)"
    using unseen_props(1) by (rule distinct_card)
  moreover have "?N \<subseteq> ?V - ?K" using unseen_props(2,3)[where adj = adj and here = here and seen = seen] by blast
  moreover have "finite (?V - ?K)" by simp
  ultimately show ?thesis
    using card_mono[of "?V - ?K" ?N] card_Diff_subset[of ?N "?V - ?K"]
    by (simp add: bfs_left_def finite_subset)
qed

termination bfs
proof (relation "measure (\<lambda>(adj, queue, seen). length queue + 2 * bfs_left adj seen)")
  show "wf (measure (\<lambda>(adj, queue, seen). length queue + 2 * bfs_left adj seen))" by simp
next
  fix adj here queue seen
  show "((adj, queue @ unseen adj here seen,
      seen @ map (\<lambda>t. (t, dget_or seen here 0 + 1)) (unseen adj here seen)), adj, here # queue, seen)
      \<in> measure (\<lambda>(adj, queue, seen). length queue + 2 * bfs_left adj seen)"
    using bfs_left_less[of adj seen "\<lambda>_. dget_or seen here 0 + 1" here] by simp
qed

definition distances :: "string \<Rightarrow> (string, string list) dict \<Rightarrow> (string, nat) dict" where
  "distances start adj = bfs adj [start] [(start, 0)]"

text \<open>The route planner's tables: the data segments, what each forwarder is on, the
  neighbours of each segment, the distances from each.\<close>

definition data_segments :: "topology \<Rightarrow> string list" where
  "data_segments topo = remdups (map seg_name (filter (\<lambda>g. seg_plane g = DataPlane) (top_segments topo)))"

definition attached_forwarders :: "scenario \<Rightarrow> address_plan \<Rightarrow> string list \<Rightarrow> (string, string list) dict" where
  "attached_forwarders s plan data = dict_of (map (\<lambda>f. (f, segments_of plan f data)) (forwarders s))"

definition neighbours :: "string list list \<Rightarrow> string \<Rightarrow> string list" where
  "neighbours attached s =
     remdups (concat (map (\<lambda>segs. if s \<in> set segs then filter (\<lambda>x. x \<noteq> s) segs else []) attached))"

definition adjacency :: "string list \<Rightarrow> string list list \<Rightarrow> (string, string list) dict" where
  "adjacency data attached = map (\<lambda>s. (s, neighbours attached s)) data"

type_synonym distance_table = "(string, (string, nat) dict) dict"

definition distance_table :: "string list \<Rightarrow> (string, string list) dict \<Rightarrow> distance_table" where
  "distance_table data adj = map (\<lambda>s. (s, distances s adj)) data"

text \<open>The code's \<open>10**9\<close>, more hops than any network has.\<close>

definition far :: nat where
  "far = 10 ^ 9"

definition dist_at :: "distance_table \<Rightarrow> string \<Rightarrow> string \<Rightarrow> nat" where
  "dist_at table s dest = dget_or (dget_or table s []) dest far"

definition min_hops :: "distance_table \<Rightarrow> string \<Rightarrow> string list \<Rightarrow> nat" where
  "min_hops table dest segs =
     (case map (\<lambda>s. dist_at table s dest) segs of [] \<Rightarrow> far | xs \<Rightarrow> min_list xs)"

text \<open>\<open>best\<close>: forwarder to (my segment it is on, hops).\<close>

type_synonym best = "(string, string \<times> nat) dict"

definition consider_out ::
    "distance_table \<Rightarrow> string \<Rightarrow> string list \<Rightarrow> string \<Rightarrow> string list \<Rightarrow> string \<Rightarrow> best \<Rightarrow> best" where
  "consider_out table dest mine f segs out best =
     (if out \<notin> set mine then best
      else let hops = min_hops table dest segs
           in if hops < snd (dget_or best f ([], far)) then dset f (out, hops) best else best)"

definition first_hops ::
    "distance_table \<Rightarrow> (string, string list) dict \<Rightarrow> string \<Rightarrow> string list \<Rightarrow> string \<Rightarrow> best" where
  "first_hops table attached i mine dest =
     fold (\<lambda>(f, segs) best. if f = i then best
        else fold (consider_out table dest mine f segs) segs best) attached []"

definition route_to ::
    "address_plan \<Rightarrow> (string, string) dict \<Rightarrow> string \<Rightarrow> string \<Rightarrow> best
      \<Rightarrow> problem list \<times> route list \<Rightarrow> problem list \<times> route list" where
  "route_to plan cidr i dest best st =
     (case st of (problems, found) \<Rightarrow>
        if best = [] then st
        else
          let shortest = min_list (map (snd \<circ> snd) best);
              winners = sort (map fst (filter (\<lambda>(f, out, h). h = shortest) best))
          in if length winners > 1 then
               (problems @ [\<lparr>pr_path = ''routes['' @ repr_str i @ '']'',
                  pr_message = [S i, L '' has '', I (int (length winners)), L '' equally short next hops to '',
                    R dest, L '' (''] @ join_str '', '' winners @ [L ''); a route must be unique'']\<rparr>], found)
             else
               let via = hd winners; out = fst (the (dget best via))
               in (problems, found @ [\<lparr>rt_segment = dest, rt_cidr = dget_or cidr dest [],
                    rt_via = the (plan_at plan via out), rt_out = out\<rparr>]))"

definition reachable_segments :: "distance_table \<Rightarrow> string list \<Rightarrow> string list" where
  "reachable_segments table mine =
     sorted_set (filter (\<lambda>d. d \<notin> set mine) (concat (map (\<lambda>s. dkeys (dget_or table s [])) mine)))"

definition routes_of ::
    "address_plan \<Rightarrow> (string, string) dict \<Rightarrow> distance_table \<Rightarrow> (string, string list) dict
      \<Rightarrow> string \<Rightarrow> string list \<Rightarrow> problem list \<times> route list" where
  "routes_of plan cidr table attached i mine =
     fold (\<lambda>dest. route_to plan cidr i dest (first_hops table attached i mine dest))
       (reachable_segments table mine) ([], [])"

definition plan_routes :: "scenario \<Rightarrow> topology \<Rightarrow> address_plan \<Rightarrow> route_plan \<times> problem list" where
  "plan_routes s topo plan =
     (let data = data_segments topo;
          cidr = dict_of (map (\<lambda>g. (seg_name g, seg_cidr g)) (top_segments topo));
          attached = attached_forwarders s plan data;
          table = distance_table data (adjacency data (map snd attached))
      in case fold (\<lambda>(p, k, i) (problems, routes).
             case routes_of plan cidr table attached i (segments_of plan i data) of
               (ps, found) \<Rightarrow> (problems @ ps, dset i found routes)) (instance_ids s) ([], []) of
           (problems, routes) \<Rightarrow> (\<lparr>rp_routes = routes, rp_forwarders = forwarders s\<rparr>, problems))"

definition reachable :: "address_plan \<Rightarrow> route_plan \<Rightarrow> string \<Rightarrow> string \<Rightarrow> string list \<Rightarrow> bool" where
  "reachable plan routes source tgt data =
     (let mine = segments_of plan source data; theirs = segments_of plan tgt data
      in (\<exists>s\<in>set mine. s \<in> set theirs)
         \<or> (\<exists>r\<in>set (dget_or (rp_routes routes) source []). rt_segment r \<in> set theirs))"

section \<open>The search computes shortest distances\<close>

definition linked :: "(string, string list) dict \<Rightarrow> (string \<times> string) set" where
  "linked adj = {(u, v). v \<in> set (dget_or adj u [])}"

definition hop :: "(string, nat) dict \<Rightarrow> string \<Rightarrow> nat" where
  "hop seen t = dget_or seen t 0"

text \<open>What holds between two turns of the loop: every distance is that of a path, the queue
  is in order of distance and no known segment is more than one hop beyond its head, and
  every segment out of the queue has had its neighbours looked at.\<close>

definition bfs_inv :: "(string, string list) dict \<Rightarrow> string \<Rightarrow> string list \<Rightarrow> (string, nat) dict \<Rightarrow> bool" where
  "bfs_inv adj start queue seen \<longleftrightarrow>
     dict_ok seen \<and> dget seen start = Some 0 \<and> set queue \<subseteq> set (dkeys seen)
     \<and> (\<forall>t\<in>set (dkeys seen). (start, t) \<in> linked adj ^^ hop seen t)
     \<and> sorted (map (hop seen) queue)
     \<and> (\<forall>t\<in>set (dkeys seen). queue = [] \<or> hop seen t \<le> hop seen (hd queue) + 1)
     \<and> (\<forall>u\<in>set (dkeys seen). u \<notin> set queue \<longrightarrow>
          (\<forall>v\<in>set (dget_or adj u []). v \<in> set (dkeys seen) \<and> hop seen v \<le> hop seen u + 1))"

lemma bfs_step:
  assumes "bfs_inv adj start (here # queue) seen"
  shows "bfs_inv adj start (queue @ unseen adj here seen)
           (seen @ map (\<lambda>t. (t, dget_or seen here 0 + 1)) (unseen adj here seen))"
proof -
  define new where "new = unseen adj here seen"
  define seen' where "seen' = seen @ map (\<lambda>t. (t, dget_or seen here 0 + 1)) new"
  note new = unseen_props[where adj = adj and here = here and seen = seen, folded new_def]
  from assms have ok: "dict_ok seen" and start: "dget seen start = Some 0"
    and queue: "here \<in> set (dkeys seen)" "set queue \<subseteq> set (dkeys seen)"
    and path: "\<And>t. t \<in> set (dkeys seen) \<Longrightarrow> (start, t) \<in> linked adj ^^ hop seen t"
    and sorted: "\<And>t. t \<in> set queue \<Longrightarrow> hop seen here \<le> hop seen t" "sorted (map (hop seen) queue)"
    and near: "\<And>t. t \<in> set (dkeys seen) \<Longrightarrow> hop seen t \<le> hop seen here + 1"
    and closed: "\<And>u v. u \<in> set (dkeys seen) \<Longrightarrow> u \<noteq> here \<Longrightarrow> u \<notin> set queue \<Longrightarrow>
      v \<in> set (dget_or adj u []) \<Longrightarrow> v \<in> set (dkeys seen) \<and> hop seen v \<le> hop seen u + 1"
    by (auto simp: bfs_inv_def)
  have keys: "set (dkeys seen') = set (dkeys seen) \<union> set new"
    by (auto simp: seen'_def dkeys_def)
  have old: "hop seen' t = hop seen t" if "t \<in> set (dkeys seen)" for t
    using that by (auto simp: seen'_def hop_def dget_or_def set_dkeys map_add_def)
  have fresh: "hop seen' t = hop seen here + 1" if "t \<in> set new" for t
  proof -
    have "dget seen t = None" using that new(2) by (auto simp: set_dkeys)
    moreover have "dget (map (\<lambda>t. (t, k)) new) t = Some k" for k :: nat
      using that by (auto simp: map_of_map_restrict restrict_map_def)
    ultimately show ?thesis
      by (simp add: seen'_def hop_def dget_or_def map_add_def del: map_of_map)
  qed
  have "dict_ok seen'"
    using ok new(1,2) by (auto simp: dict_ok_def seen'_def dkeys_def comp_def)
  moreover have "dget seen' start = Some 0" using start by (simp add: seen'_def map_add_def)
  moreover have "set (queue @ new) \<subseteq> set (dkeys seen')" using queue keys by auto
  moreover have "(start, t) \<in> linked adj ^^ hop seen' t" if t: "t \<in> set (dkeys seen')" for t
  proof (cases "t \<in> set (dkeys seen)")
    case True
    with path old show ?thesis by simp
  next
    case False
    with t keys have "t \<in> set new" by blast
    with new(4)[of t] path[OF queue(1)] fresh[of t] show ?thesis
      by (auto simp: linked_def intro: relcompI)
  qed
  moreover have "sorted (map (hop seen') (queue @ new))"
  proof -
    have q: "map (hop seen') queue = map (hop seen) queue" using old queue by auto
    moreover have "map (hop seen') new = map (\<lambda>_. hop seen here + 1) new" using fresh by simp
    moreover have "hop seen x \<le> Suc (hop seen here)" if "x \<in> set queue" for x
      using near[of x] that queue(2) by auto
    ultimately show ?thesis using sorted(2)
      by (auto simp: sorted_append map_replicate_const simp del: map_eq_conv)
  qed
  moreover have "hop seen' t \<le> hop seen' (hd (queue @ new)) + 1"
    if t: "t \<in> set (dkeys seen')" and ne: "queue @ new \<noteq> []" for t
  proof -
    have "hop seen' t \<le> hop seen here + 1"
      using t keys old[of t] near[of t] fresh[of t] by auto
    moreover have "hop seen here \<le> hop seen' (hd (queue @ new))"
    proof (cases queue)
      case Nil
      with ne have "hd new \<in> set new" by simp
      with fresh Nil show ?thesis by simp
    next
      case (Cons q qs)
      with old[of q] sorted(1)[of q] queue(2) show ?thesis by simp
    qed
    ultimately show ?thesis by simp
  qed
  moreover have "v \<in> set (dkeys seen') \<and> hop seen' v \<le> hop seen' u + 1"
    if u: "u \<in> set (dkeys seen')" "u \<notin> set (queue @ new)" and v: "v \<in> set (dget_or adj u [])" for u v
  proof -
    from u keys have u': "u \<in> set (dkeys seen)" by auto
    show ?thesis
    proof (cases "u = here")
      case True
      then have "v \<in> set (dkeys seen) \<or> v \<in> set new" using new(4)[of v] v by blast
      then show ?thesis
        using True keys old[OF u'] old[of v] near[of v] fresh[of v] by auto
    next
      case False
      with closed[OF u' _ _ v] u have "v \<in> set (dkeys seen) \<and> hop seen v \<le> hop seen u + 1" by simp
      with keys old[of v] old[OF u'] show ?thesis by simp
    qed
  qed
  ultimately show ?thesis
    unfolding bfs_inv_def new_def[symmetric] seen'_def[symmetric] by blast
qed

lemma bfs_result: "bfs_inv adj start queue seen \<Longrightarrow> bfs_inv adj start [] (bfs adj queue seen)"
proof (induction adj queue seen rule: bfs.induct)
  case (2 adj here queue seen)
  from 2(1)[OF bfs_step[OF 2(2)]] show ?case by simp
qed simp

lemma distances_inv: "bfs_inv adj start [] (distances start adj)"
  unfolding distances_def
  by (rule bfs_result) (simp add: bfs_inv_def dict_ok_def dkeys_def hop_def dget_or_def)

lemma distances_path: "dget (distances s adj) t = Some d \<Longrightarrow> (s, t) \<in> linked adj ^^ d"
proof -
  assume d: "dget (distances s adj) t = Some d"
  then have "t \<in> set (dkeys (distances s adj))" "hop (distances s adj) t = d"
    by (auto simp: set_dkeys hop_def dget_or_def)
  with distances_inv[of adj s] show ?thesis unfolding bfs_inv_def by blast
qed

lemma distances_least: "(s, t) \<in> linked adj ^^ n \<Longrightarrow> \<exists>d\<le>n. dget (distances s adj) t = Some d"
proof (induction n arbitrary: t)
  case 0
  then show ?case using distances_inv[of adj s] by (simp add: bfs_inv_def)
next
  case (Suc n)
  from Suc.prems obtain u where u: "(s, u) \<in> linked adj ^^ n" and t: "t \<in> set (dget_or adj u [])"
    by (auto simp: linked_def)
  from Suc.IH[OF u] obtain d where d: "d \<le> n" "dget (distances s adj) u = Some d" by blast
  then have "u \<in> set (dkeys (distances s adj))" "hop (distances s adj) u = d"
    by (auto simp: set_dkeys hop_def dget_or_def)
  with distances_inv[of adj s] t
  have "t \<in> set (dkeys (distances s adj)) \<and> hop (distances s adj) t \<le> d + 1"
    by (fastforce simp: bfs_inv_def)
  then obtain e where "dget (distances s adj) t = Some e" "e \<le> d + 1"
    by (auto simp: set_dkeys hop_def dget_or_def)
  with d(1) show ?case by (intro exI[of _ e]) simp
qed

lemma distances_iff:
  "dget (distances s adj) t = Some d \<longleftrightarrow> (s, t) \<in> linked adj ^^ d \<and> (\<forall>k<d. (s, t) \<notin> linked adj ^^ k)"
proof
  assume d: "dget (distances s adj) t = Some d"
  show "(s, t) \<in> linked adj ^^ d \<and> (\<forall>k<d. (s, t) \<notin> linked adj ^^ k)"
    using distances_path[OF d] distances_least[of s t _ adj] d by fastforce
next
  assume r: "(s, t) \<in> linked adj ^^ d \<and> (\<forall>k<d. (s, t) \<notin> linked adj ^^ k)"
  with distances_least[of s t d adj] obtain e where e: "e \<le> d" "dget (distances s adj) t = Some e" by blast
  with distances_path[OF e(2)] r have "e = d" by (meson le_neq_implies_less)
  with e show "dget (distances s adj) t = Some d" by simp
qed

section \<open>The planner's tables as an interface\<close>

text \<open>What the planner relies on: the segments of every forwarder are data segments, and the
  adjacency and the distance table are built from them.\<close>

locale routing_tables =
  fixes data :: "string list" and attached :: "(string, string list) dict"
    and adj :: "(string, string list) dict" and table :: distance_table
  assumes data: "distinct data"
    and attached_ok: "dict_ok attached"
    and on_data: "dget attached f = Some segs \<Longrightarrow> set segs \<subseteq> set data"
    and adj_def: "adj = adjacency data (map snd attached)"
    and table_def: "table = distance_table data adj"
begin

lemma linked_iff:
  "(u, v) \<in> linked adj \<longleftrightarrow> u \<noteq> v \<and> (\<exists>f segs. dget attached f = Some segs \<and> u \<in> set segs \<and> v \<in> set segs)"
proof -
  have get: "dget adj u = (if u \<in> set data then Some (neighbours (map snd attached) u) else None)"
    by (simp add: adj_def adjacency_def map_of_map_restrict restrict_map_def)
  have "v \<in> set (neighbours (map snd attached) u) \<longleftrightarrow>
      u \<noteq> v \<and> (\<exists>f segs. (f, segs) \<in> set attached \<and> u \<in> set segs \<and> v \<in> set segs)"
    by (force simp: neighbours_def split: if_splits)
  with get show ?thesis
    using on_data by (auto simp: linked_def dget_or_def dget_in_iff[OF attached_ok] split: if_splits)
qed

lemma linked_sym: "(u, v) \<in> linked adj \<longleftrightarrow> (v, u) \<in> linked adj"
  by (auto simp: linked_iff)

lemma dist_at_eq:
  "s \<in> set data \<Longrightarrow> dist_at table s t = dget_or (distances s adj) t far"
  by (simp add: dist_at_def table_def distance_table_def dget_or_def map_of_map_restrict restrict_map_def)

lemma dist_at_path:
  assumes "s \<in> set data" "dist_at table s t < far"
  shows "(s, t) \<in> linked adj ^^ dist_at table s t"
  using assms distances_path[of s adj t]
  by (cases "dget (distances s adj) t") (auto simp: dist_at_eq dget_or_def)

lemma dist_at_least:
  assumes "s \<in> set data" "(s, t) \<in> linked adj ^^ n"
  shows "dist_at table s t \<le> n"
  using distances_least[OF assms(2)] assms(1) by (auto simp: dist_at_eq dget_or_def)

lemma min_hops_eq:
  "segs \<noteq> [] \<Longrightarrow> min_hops table dest segs = Min ((\<lambda>s. dist_at table s dest) ` set segs)"
  by (cases segs) (simp_all add: min_hops_def min_list_Min del: min_list.simps)

lemma min_hops_le: "s \<in> set segs \<Longrightarrow> min_hops table dest segs \<le> dist_at table s dest"
  by (subst min_hops_eq) auto

lemma min_hops_at:
  assumes "segs \<noteq> []"
  obtains s where "s \<in> set segs" "min_hops table dest segs = dist_at table s dest"
proof -
  have "Min ((\<lambda>s. dist_at table s dest) ` set segs) \<in> (\<lambda>s. dist_at table s dest) ` set segs"
    using assms by (intro Min_in) auto
  with that min_hops_eq[OF assms] show thesis by auto
qed

text \<open>A forwarder that is \<open>h > 0\<close> hops from a destination shares a segment with another one
  that is closer.\<close>

lemma closer_forwarder:
  assumes f: "dget attached f = Some segs" "segs \<noteq> []"
    and h: "0 < min_hops table dest segs" "min_hops table dest segs < far"
  obtains g gsegs s where "dget attached g = Some gsegs" "g \<noteq> f" "s \<in> set segs" "s \<in> set gsegs"
    "min_hops table dest gsegs < min_hops table dest segs"
proof -
  from min_hops_at[OF f(2)] obtain s where s: "s \<in> set segs"
    "min_hops table dest segs = dist_at table s dest" by metis
  obtain k where k: "dist_at table s dest = Suc k" using h(1) s(2) by (cases "dist_at table s dest") auto
  have sd: "s \<in> set data" using on_data[OF f(1)] s(1) by blast
  with dist_at_path h(2) s(2) k have "(s, dest) \<in> linked adj ^^ Suc k" by metis
  then obtain v where v: "(s, v) \<in> linked adj" "(v, dest) \<in> linked adj ^^ k"
    by (meson relpow_Suc_D2)
  from v(1) obtain g gsegs where g: "dget attached g = Some gsegs" "s \<in> set gsegs" "v \<in> set gsegs"
    by (auto simp: linked_iff)
  have vd: "v \<in> set data" using on_data[OF g(1)] g(3) by blast
  have close: "min_hops table dest xs \<le> k" if "v \<in> set xs" for xs
    using min_hops_le[OF that, of dest] dist_at_least[OF vd v(2)] by linarith
  with k s(2) have "v \<notin> set segs" by force
  with g f(1) have "g \<noteq> f" by auto
  with that g s(1) close[OF g(3)] k s(2) show thesis by simp
qed

text \<open>What \<open>first_hops\<close> holds for each forwarder: the first of its segments that is mine.\<close>

lemma consider_fold:
  assumes "dget best f = None"
  shows "dget (fold (consider_out table dest mine f segs) outs best) g =
    (if g = f \<and> min_hops table dest segs < far
     then map_option (\<lambda>out. (out, min_hops table dest segs)) (first_such (\<lambda>out. out \<in> set mine) outs)
     else dget best g)"
proof -
  define h where "h = min_hops table dest segs"
  have step: "consider_out table dest mine f segs out best =
      (if out \<in> set mine \<and> h < snd (dget_or best f ([], far)) then dset f (out, h) best else best)"
    for out best by (simp add: consider_out_def h_def Let_def)
  have kept: "fold (consider_out table dest mine f segs) outs best = best"
    if "\<exists>out. dget best f = Some (out, h)" for outs best
    using that by (induction outs) (auto simp: step dget_or_def)
  show ?thesis
    unfolding h_def[symmetric] using assms
  proof (induction outs)
    case (Cons out outs)
    show ?case
    proof (cases "out \<in> set mine \<and> h < far")
      case True
      with Cons.prems have "consider_out table dest mine f segs out best = dset f (out, h) best"
        by (simp add: step dget_or_def)
      with True kept[of "dset f (out, h) best" outs] show ?thesis by (simp add: first_such_def)
    next
      case False
      with Cons.prems have "consider_out table dest mine f segs out best = best"
        by (auto simp: step dget_or_def)
      with Cons.IH[OF Cons.prems] False show ?thesis
        by (cases "h < far") (simp_all add: first_such_def)
    qed
  qed (simp add: first_such_def)
qed

lemma first_hops_fold:
  assumes "dict_ok as" "\<And>g. g \<in> fst ` set as \<Longrightarrow> dget best g = None"
  shows "dget (fold (\<lambda>(f, segs) best. if f = i then best
        else fold (consider_out table dest mine f segs) segs best) as best) f =
      (case dget as f of None \<Rightarrow> dget best f
       | Some segs \<Rightarrow> if f \<noteq> i \<and> min_hops table dest segs < far
           then map_option (\<lambda>out. (out, min_hops table dest segs)) (first_such (\<lambda>out. out \<in> set mine) segs)
           else None)"
  using assms
proof (induction as arbitrary: best)
  case (Cons e as)
  obtain g segs where e: "e = (g, segs)" by force
  define best' where "best' = (if g = i then best
    else fold (consider_out table dest mine g segs) segs best)"
  from Cons.prems(2)[of g] e have g: "dget best g = None" by simp
  have get: "dget best' k = (if k = g \<and> g \<noteq> i \<and> min_hops table dest segs < far
      then map_option (\<lambda>out. (out, min_hops table dest segs)) (first_such (\<lambda>out. out \<in> set mine) segs)
      else dget best k)" for k
    using consider_fold[OF g, of dest mine segs segs k] by (cases "g = i") (simp_all add: best'_def)
  from Cons.prems(1) e have as: "dict_ok as" "g \<notin> fst ` set as" by (auto simp: dict_ok_def)
  have none: "dget best' k = None" if "k \<in> fst ` set as" for k
    using get[of k] Cons.prems(2)[of k] that as(2) by auto
  note IH = Cons.IH[OF as(1) none]
  have run: "fold (\<lambda>(f, segs) best. if f = i then best
      else fold (consider_out table dest mine f segs) segs best) (e # as) best =
    fold (\<lambda>(f, segs) best. if f = i then best
      else fold (consider_out table dest mine f segs) segs best) as best'"
    by (simp add: e best'_def)
  define val where "val segs = (if f \<noteq> i \<and> min_hops table dest segs < far
      then map_option (\<lambda>out. (out, min_hops table dest segs)) (first_such (\<lambda>out. out \<in> set mine) segs)
      else None)" for segs
  have "(case dget as f of None \<Rightarrow> dget best' f | Some segs \<Rightarrow> val segs) =
      (case dget (e # as) f of None \<Rightarrow> dget best f | Some segs \<Rightarrow> val segs)"
  proof (cases "f = g")
    case True
    have "dget as g = None" using as(2) by (simp add: dget_None_iff)
    with get[of g] True e g show ?thesis by (auto simp: val_def)
  next
    case False
    with get[of f] e show ?thesis by (simp split: option.split)
  qed
  moreover have "dget (fold (\<lambda>(f, segs) best. if f = i then best
      else fold (consider_out table dest mine f segs) segs best) as best') f =
    (case dget as f of None \<Rightarrow> dget best' f | Some segs \<Rightarrow> val segs)"
    using IH by (cases "dget as f") (simp_all add: val_def)
  ultimately have "dget (fold (\<lambda>(f, segs) best. if f = i then best
      else fold (consider_out table dest mine f segs) segs best) (e # as) best) f =
    (case dget (e # as) f of None \<Rightarrow> dget best f | Some segs \<Rightarrow> val segs)"
    unfolding run by simp
  then show ?case by (cases "dget (e # as) f") (simp_all only: val_def option.case)
qed simp

lemma first_hops_iff:
  "dget (first_hops table attached i mine dest) f = Some (out, h) \<longleftrightarrow>
     f \<noteq> i \<and> (\<exists>segs. dget attached f = Some segs \<and> h = min_hops table dest segs \<and> h < far
       \<and> first_such (\<lambda>out. out \<in> set mine) segs = Some out)"
  unfolding first_hops_def
  by (subst first_hops_fold[OF attached_ok]) (auto split: option.splits)

lemma first_hops_ok: "dict_ok (first_hops table attached i mine dest)"
proof -
  have inner: "dict_ok (fold (consider_out table dest mine f segs) outs best)" if "dict_ok best" for f segs outs best
    using that by (induction outs arbitrary: best) (auto simp: consider_out_def Let_def)
  have "dict_ok (fold (\<lambda>(f, segs) best. if f = i then best
        else fold (consider_out table dest mine f segs) segs best) as best)" if "dict_ok best" for as best
    using that by (induction as arbitrary: best) (auto simp: inner)
  then show ?thesis by (simp add: first_hops_def)
qed

text \<open>A segment the tables connect to one of mine has a first hop, and a first hop is one.\<close>

lemma first_hops_ex:
  assumes "s \<in> set mine" "set mine \<subseteq> set data" "dest \<notin> set mine" "(s, dest) \<in> linked adj ^^ n" "n < far"
    and own: "\<And>segs. dget attached i = Some segs \<Longrightarrow> set segs \<subseteq> set mine"
  shows "first_hops table attached i mine dest \<noteq> []"
  using assms(1,4,5)
proof (induction n arbitrary: s)
  case 0
  with assms(3) show ?case by auto
next
  case (Suc n)
  then obtain v where v: "(s, v) \<in> linked adj" "(v, dest) \<in> linked adj ^^ n" by (meson relpow_Suc_D2)
  show ?case
  proof (cases "v \<in> set mine")
    case True
    with Suc.IH[OF True v(2)] Suc.prems show ?thesis by simp
  next
    case False
    from v(1) obtain f segs where f: "dget attached f = Some segs" "s \<in> set segs" "v \<in> set segs"
      by (auto simp: linked_iff)
    have "f \<noteq> i" using own f False by blast
    moreover have "min_hops table dest segs < far"
    proof -
      have "v \<in> set data" using on_data[OF f(1)] f(3) by blast
      from min_hops_le[OF f(3), of dest] dist_at_least[OF this v(2)] Suc.prems(3)
      show ?thesis by linarith
    qed
    moreover obtain out where "first_such (\<lambda>out. out \<in> set mine) segs = Some out"
      using first_such_ex[where p = "\<lambda>out. out \<in> set mine", OF f(2) Suc.prems(1)] by blast
    ultimately have "dget (first_hops table attached i mine dest) f = Some (out, min_hops table dest segs)"
      using f(1) by (simp add: first_hops_iff)
    then show ?thesis by auto
  qed
qed

end

text \<open>The route goes through a forwarder on one of my segments that is strictly closest.\<close>

definition via_best :: "best \<Rightarrow> address_plan \<Rightarrow> route \<Rightarrow> bool" where
  "via_best best plan r \<longleftrightarrow>
     (\<exists>f h. dget best f = Some (rt_out r, h) \<and> rt_via r = the (plan_at plan f (rt_out r))
        \<and> (\<forall>g out k. dget best g = Some (out, k) \<longrightarrow> h \<le> k \<and> (k = h \<longrightarrow> g = f)))"

lemma route_to_best:
  assumes "dict_ok best" "route_to plan cidr i dest best (ps, found) = (ps', found')"
  shows "(ps' = [] \<longrightarrow> ps = [] \<and> (best \<noteq> [] \<longrightarrow> (\<exists>r\<in>set found'. rt_segment r = dest)))
    \<and> set found \<subseteq> set found'
    \<and> (\<forall>r\<in>set found'. r \<in> set found \<or> (rt_segment r = dest \<and> rt_cidr r = dget_or cidr dest []
         \<and> via_best best plan r))"
proof (cases "best = []")
  case True
  with assms(2) show ?thesis by (simp add: route_to_def)
next
  case False
  define shortest where "shortest = min_list (map (snd \<circ> snd) best)"
  define winners where "winners = sort (map fst (filter (\<lambda>(f, out, h). h = shortest) best))"
  have least: "shortest \<le> h" if "dget best g = Some (out, h)" for g out h
  proof -
    have "h \<in> set (map (snd \<circ> snd) best)" using dget_Some_in[OF that] by force
    moreover have "shortest = Min (set (map (snd \<circ> snd) best))"
      using False unfolding shortest_def by (simp add: min_list_Min del: set_map)
    ultimately show ?thesis by simp
  qed
  have "shortest \<in> set (map (snd \<circ> snd) best)"
    using False unfolding shortest_def by (simp add: min_list_Min del: set_map)
  then have ne: "winners \<noteq> []"
    unfolding winners_def by (force simp: filter_empty_conv simp flip: set_empty)
  have win: "g \<in> set winners \<longleftrightarrow> (\<exists>out. dget best g = Some (out, shortest))" for g
    using assms(1) by (force simp: winners_def dget_in_iff[symmetric])
  show ?thesis
  proof (cases "length winners > 1")
    case True
    with assms(2) False show ?thesis
      unfolding route_to_def Let_def shortest_def[symmetric] winners_def[symmetric] by auto
  next
    case False
    with ne have one: "winners = [hd winners]" by (cases winners) auto
    from win[of "hd winners"] one obtain out where out: "dget best (hd winners) = Some (out, shortest)"
      by (metis list.set_intros(1))
    define r where "r = \<lparr>rt_segment = dest, rt_cidr = dget_or cidr dest [],
      rt_via = the (plan_at plan (hd winners) out), rt_out = out\<rparr>"
    have res: "ps' = ps" "found' = found @ [r]"
      using assms(2) False \<open>best \<noteq> []\<close> out
      unfolding route_to_def Let_def shortest_def[symmetric] winners_def[symmetric] r_def by simp_all
    have "g = hd winners" if "dget best g = Some (o', shortest)" for g o'
      using win[of g] that one by (metis empty_iff list.set(1) set_ConsD)
    with out least have "via_best best plan r"
      unfolding via_best_def by (intro exI[of _ "hd winners"] exI[of _ shortest]) (fastforce simp: r_def)
    moreover have "rt_segment r = dest" "rt_cidr r = dget_or cidr dest []" by (simp_all add: r_def)
    ultimately show ?thesis unfolding res by (simp add: subset_insertI)
  qed
qed

lemma routes_fold:
  assumes "\<And>dest. dict_ok (B dest)"
    and "fold (\<lambda>dest. route_to plan cidr i dest (B dest)) dests (ps, found) = (ps', found')"
  shows "(ps' = [] \<longrightarrow> ps = [] \<and> (\<forall>dest\<in>set dests. B dest \<noteq> [] \<longrightarrow> (\<exists>r\<in>set found'. rt_segment r = dest)))
    \<and> set found \<subseteq> set found'
    \<and> (\<forall>r\<in>set found'. r \<in> set found \<or> (rt_segment r \<in> set dests
         \<and> rt_cidr r = dget_or cidr (rt_segment r) []
         \<and> via_best (B (rt_segment r)) plan r))"
  using assms(2)
proof (induction dests arbitrary: ps found)
  case (Cons dest dests)
  obtain ps1 found1 where one: "route_to plan cidr i dest (B dest) (ps, found) = (ps1, found1)" by force
  with Cons.prems have "fold (\<lambda>dest. route_to plan cidr i dest (B dest)) dests (ps1, found1) = (ps', found')"
    by simp
  note IH = Cons.IH[OF this] and here = route_to_best[OF assms(1) one]
  have "\<exists>r\<in>set found'. rt_segment r = d" if "ps' = []" "d \<in> set (dest # dests)" "B d \<noteq> []" for d
    using IH here that by (cases "d = dest") (blast, simp)
  moreover have "r \<in> set found \<or> (rt_segment r \<in> set (dest # dests)
         \<and> rt_cidr r = dget_or cidr (rt_segment r) []
         \<and> via_best (B (rt_segment r)) plan r)"
    if "r \<in> set found'" for r
  proof -
    from IH that consider "r \<in> set found1" | "rt_segment r \<in> set dests
         \<and> rt_cidr r = dget_or cidr (rt_segment r) []
         \<and> via_best (B (rt_segment r)) plan r"
      by blast
    then show ?thesis
    proof cases
      case 1
      with here show ?thesis by auto
    qed simp
  qed
  moreover have "ps' = [] \<longrightarrow> ps = []" "set found \<subseteq> set found'" using IH here by blast+
  ultimately show ?case by blast
qed simp

section \<open>The plan\<close>

abbreviation plan_attached :: "scenario \<Rightarrow> topology \<Rightarrow> address_plan \<Rightarrow> (string, string list) dict" where
  "plan_attached s topo plan \<equiv> attached_forwarders s plan (data_segments topo)"

abbreviation plan_adj :: "scenario \<Rightarrow> topology \<Rightarrow> address_plan \<Rightarrow> (string, string list) dict" where
  "plan_adj s topo plan \<equiv> adjacency (data_segments topo) (map snd (plan_attached s topo plan))"

abbreviation plan_table :: "scenario \<Rightarrow> topology \<Rightarrow> address_plan \<Rightarrow> distance_table" where
  "plan_table s topo plan \<equiv> distance_table (data_segments topo) (plan_adj s topo plan)"

lemma dget_attached:
  "dget (attached_forwarders s plan data) f =
     (if f \<in> set (forwarders s) then Some (segments_of plan f data) else None)"
proof -
  have "dget (rev (map (\<lambda>f. (f, g f)) fs)) f = (if f \<in> set fs then Some (g f) else None)" for g :: "string \<Rightarrow> 'a" and fs
    by (induction fs) (auto simp: map_add_def split: option.splits)
  from this[of "\<lambda>f. segments_of plan f data" "forwarders s"]
  show ?thesis unfolding attached_forwarders_def dget_dict_of .
qed

lemma segments_of_data: "set (segments_of plan i data) \<subseteq> set data"
  by (auto simp: segments_of_def)

lemma segments_of_at: "n \<in> set (segments_of plan i data) \<Longrightarrow> \<exists>t. plan_at plan i n = Some t"
  by (auto simp: segments_of_def plan_at_def set_dkeys)

interpretation tables: routing_tables "data_segments topo" "plan_attached s topo plan"
    "plan_adj s topo plan" "plan_table s topo plan"
  for s topo plan
proof (unfold_locales, goal_cases)
  case (3 f segs)
  then show ?case using segments_of_data by (auto simp: dget_attached split: if_splits)
qed (simp_all add: data_segments_def attached_forwarders_def)

abbreviation plan_cidr :: "topology \<Rightarrow> (string, string) dict" where
  "plan_cidr topo \<equiv> dict_of (map (\<lambda>g. (seg_name g, seg_cidr g)) (top_segments topo))"

abbreviation routes_for :: "scenario \<Rightarrow> topology \<Rightarrow> address_plan \<Rightarrow> string \<Rightarrow> problem list \<times> route list" where
  "routes_for s topo plan i \<equiv> routes_of plan (plan_cidr topo) (plan_table s topo plan)
     (plan_attached s topo plan) i (segments_of plan i (data_segments topo))"

lemma plan_routes_get:
  assumes "plan_routes s topo plan = (routes, ps)" "(p, k, i) \<in> set (instance_ids s)"
  shows "dget (rp_routes routes) i = Some (snd (routes_for s topo plan i))"
    and "ps = [] \<Longrightarrow> fst (routes_for s topo plan i) = []"
    and "rp_forwarders routes = forwarders s"
proof -
  have step: "(case fold (\<lambda>(p, k, i) (problems, routes). case F i of
      (ps, found) \<Rightarrow> (problems @ ps, dset i found routes)) ids (qs, rs) of
      (qs', rs') \<Rightarrow> (\<forall>i. dget rs' i = (if \<exists>p k. (p, k, i) \<in> set ids then Some (snd (F i)) else dget rs i))
        \<and> (qs' = [] \<longrightarrow> qs = [] \<and> (\<forall>(p, k, i)\<in>set ids. fst (F i) = [])))"
    for F :: "string \<Rightarrow> problem list \<times> route list" and ids :: "(string \<times> string \<times> string) list" and qs rs
  proof (induction ids arbitrary: qs rs)
    case (Cons e ids)
    obtain p k j where e: "e = (p, k, j)" by (metis prod_cases3)
    obtain ps found where F: "F j = (ps, found)" by force
    from Cons.IH[where qs = "qs @ ps" and rs = "dset j found rs"] show ?case
      by (auto simp: e F split: prod.splits if_splits)
  qed simp
  obtain qs rs where run: "fold (\<lambda>(p, k, i) (problems, routes). case routes_for s topo plan i of
      (ps, found) \<Rightarrow> (problems @ ps, dset i found routes)) (instance_ids s) ([], []) = (qs, rs)" by force
  with assms(1) have res: "routes = \<lparr>rp_routes = rs, rp_forwarders = forwarders s\<rparr>" "ps = qs"
    by (simp_all add: plan_routes_def Let_def)
  from step[where F = "routes_for s topo plan" and ids = "instance_ids s" and qs = "[]" and rs = "[]"] run assms(2) res
  show "dget (rp_routes routes) i = Some (snd (routes_for s topo plan i))"
    "ps = [] \<Longrightarrow> fst (routes_for s topo plan i) = []" "rp_forwarders routes = forwarders s"
    by auto
qed

lemma forwarder_is_instance: "f \<in> set (forwarders s) \<Longrightarrow> \<exists>p k. (p, k, f) \<in> set (instance_ids s)"
  by (auto simp: forwarders_def Let_def)

lemma routes_for_facts:
  assumes "fst (routes_for s topo plan i) = []"
  shows "dest \<in> set (reachable_segments (plan_table s topo plan) (segments_of plan i (data_segments topo))) \<Longrightarrow>
      first_hops (plan_table s topo plan) (plan_attached s topo plan) i (segments_of plan i (data_segments topo)) dest \<noteq> [] \<Longrightarrow>
      \<exists>r\<in>set (snd (routes_for s topo plan i)). rt_segment r = dest"
    and "r \<in> set (snd (routes_for s topo plan i)) \<Longrightarrow>
      rt_segment r \<in> set (reachable_segments (plan_table s topo plan) (segments_of plan i (data_segments topo)))
      \<and> rt_cidr r = dget_or (plan_cidr topo) (rt_segment r) []
      \<and> via_best (first_hops (plan_table s topo plan) (plan_attached s topo plan) i
            (segments_of plan i (data_segments topo)) (rt_segment r)) plan r"
proof -
  let ?B = "first_hops (plan_table s topo plan) (plan_attached s topo plan) i (segments_of plan i (data_segments topo))"
  have "fold (\<lambda>dest. route_to plan (plan_cidr topo) i dest (?B dest))
      (reachable_segments (plan_table s topo plan) (segments_of plan i (data_segments topo))) ([], []) =
      ([], snd (routes_for s topo plan i))"
    using assms unfolding routes_of_def by (intro prod_eqI) (simp_all only: fst_conv snd_conv)
  note facts = routes_fold[OF tables.first_hops_ok this]
  show "\<exists>r\<in>set (snd (routes_for s topo plan i)). rt_segment r = dest"
    if "dest \<in> set (reachable_segments (plan_table s topo plan) (segments_of plan i (data_segments topo)))"
      "?B dest \<noteq> []"
    by (rule facts[THEN conjunct1, THEN mp, OF refl, THEN conjunct2, THEN bspec, OF that(1), THEN mp, OF that(2)])
  show "rt_segment r \<in> set (reachable_segments (plan_table s topo plan) (segments_of plan i (data_segments topo)))
      \<and> rt_cidr r = dget_or (plan_cidr topo) (rt_segment r) [] \<and> via_best (?B (rt_segment r)) plan r"
    if "r \<in> set (snd (routes_for s topo plan i))"
    using facts[THEN conjunct2, THEN conjunct2, THEN bspec, OF that] by (simp only: list.set(1) empty_iff simp_thms)
qed

section \<open>Delivery\<close>

text \<open>A packet for a segment, at an instance: it has arrived when the instance is on the
  segment; otherwise it follows a route of the instance to the forwarder that has the
  route's address on the route's segment.\<close>

inductive delivers :: "address_plan \<Rightarrow> route_plan \<Rightarrow> string list \<Rightarrow> string \<Rightarrow> string \<Rightarrow> bool"
  for plan routes data where
  arrived: "dest \<in> set (segments_of plan i data) \<Longrightarrow> delivers plan routes data i dest"
| forwarded: "r \<in> set (dget_or (rp_routes routes) i []) \<Longrightarrow> rt_segment r = dest \<Longrightarrow>
    rt_out r \<in> set (segments_of plan i data) \<Longrightarrow> f \<in> set (rp_forwarders routes) \<Longrightarrow> f \<noteq> i \<Longrightarrow>
    plan_at plan f (rt_out r) = Some (rt_via r) \<Longrightarrow> delivers plan routes data f dest \<Longrightarrow>
    delivers plan routes data i dest"

inductive_cases delivers_elim: "delivers plan routes data i dest"

text \<open>One route, taken apart.\<close>

lemma route_next_hop:
  assumes "via_best (first_hops (plan_table s topo plan) (plan_attached s topo plan) i
      (segments_of plan i (data_segments topo)) dest) plan r"
  obtains f where "f \<in> set (forwarders s)" "f \<noteq> i" "plan_at plan f (rt_out r) = Some (rt_via r)"
    "rt_out r \<in> set (segments_of plan i (data_segments topo))"
    "segments_of plan f (data_segments topo) \<noteq> []"
    "min_hops (plan_table s topo plan) dest (segments_of plan f (data_segments topo)) < far"
    "\<And>g out. g \<in> set (forwarders s) \<Longrightarrow> g \<noteq> i \<Longrightarrow> out \<in> set (segments_of plan g (data_segments topo)) \<Longrightarrow>
       out \<in> set (segments_of plan i (data_segments topo)) \<Longrightarrow>
       min_hops (plan_table s topo plan) dest (segments_of plan g (data_segments topo)) < far \<Longrightarrow>
       min_hops (plan_table s topo plan) dest (segments_of plan f (data_segments topo))
         \<le> min_hops (plan_table s topo plan) dest (segments_of plan g (data_segments topo))"
proof -
  let ?mine = "segments_of plan i (data_segments topo)"
  let ?B = "first_hops (plan_table s topo plan) (plan_attached s topo plan) i ?mine dest"
  let ?h = "\<lambda>g. min_hops (plan_table s topo plan) dest (segments_of plan g (data_segments topo))"
  from assms obtain f h where f: "dget ?B f = Some (rt_out r, h)" "rt_via r = the (plan_at plan f (rt_out r))"
    and least: "\<And>g out k. dget ?B g = Some (out, k) \<Longrightarrow> h \<le> k"
    unfolding via_best_def by blast
  from f(1) have fs: "f \<noteq> i" "f \<in> set (forwarders s)" "h = ?h f" "h < far"
    and first: "first_such (\<lambda>out. out \<in> set ?mine) (segments_of plan f (data_segments topo)) = Some (rt_out r)"
    unfolding tables.first_hops_iff by (auto simp: dget_attached split: if_splits)
  from first_such_Some[OF first] have out: "rt_out r \<in> set (segments_of plan f (data_segments topo))"
    "rt_out r \<in> set ?mine" by simp_all
  from segments_of_at[OF out(1)] f(2) have via: "plan_at plan f (rt_out r) = Some (rt_via r)" by auto
  have "?h f \<le> ?h g" if g: "g \<in> set (forwarders s)" "g \<noteq> i" "?h g < far"
    "out \<in> set (segments_of plan g (data_segments topo))" "out \<in> set ?mine" for g out
  proof -
    obtain o' where "first_such (\<lambda>out. out \<in> set ?mine) (segments_of plan g (data_segments topo)) = Some o'"
      using first_such_ex[where p = "\<lambda>out. out \<in> set ?mine", OF g(4,5)] by blast
    then have "dget ?B g = Some (o', ?h g)"
      unfolding tables.first_hops_iff using g by (simp add: dget_attached)
    from least[OF this] fs(3) show ?thesis by simp
  qed
  with fs via out show thesis by (intro that[of f]) auto
qed

lemma in_reachable_segments:
  "dest \<in> set (reachable_segments (plan_table s topo plan) mine) \<longleftrightarrow>
     dest \<notin> set mine \<and> (\<exists>u\<in>set mine. u \<in> set (data_segments topo)
       \<and> (\<exists>n. (u, dest) \<in> linked (plan_adj s topo plan) ^^ n))"
proof -
  have "(\<exists>d. dget (distances u adj) dest = Some d) \<longleftrightarrow> (\<exists>n. (u, dest) \<in> linked adj ^^ n)" for u adj
    using distances_path[of u adj dest] distances_least[of u dest _ adj] by blast
  moreover have "set (dkeys (dget_or (plan_table s topo plan) u [])) =
      (if u \<in> set (data_segments topo) then dom (dget (distances u (plan_adj s topo plan))) else {})" for u
    by (auto simp: distance_table_def dget_or_def set_dkeys map_of_map_restrict restrict_map_def)
  ultimately show ?thesis by (auto simp: reachable_segments_def dom_def)
qed

lemma forwarder_delivers:
  assumes run: "plan_routes s topo plan = (routes, [])"
    and f: "f \<in> set (forwarders s)" "segments_of plan f (data_segments topo) \<noteq> []"
    and near: "min_hops (plan_table s topo plan) dest (segments_of plan f (data_segments topo)) < far"
  shows "delivers plan routes (data_segments topo) f dest"
  using f near
proof (induction "min_hops (plan_table s topo plan) dest (segments_of plan f (data_segments topo))"
    arbitrary: f rule: less_induct)
  case less
  let ?data = "data_segments topo" and ?table = "plan_table s topo plan"
  let ?segs = "\<lambda>g. segments_of plan g ?data"
  let ?h = "\<lambda>g. min_hops ?table dest (?segs g)"
  from less.prems(1) forwarder_is_instance obtain p k where inst: "(p, k, f) \<in> set (instance_ids s)" by blast
  note get = plan_routes_get[OF run inst]
  from tables.min_hops_at[OF less.prems(2)] obtain u where u: "u \<in> set (?segs f)" "?h f = dist_at ?table u dest"
    by metis
  have ud: "u \<in> set ?data" using u(1) segments_of_data by blast
  have path: "(u, dest) \<in> linked (plan_adj s topo plan) ^^ ?h f"
    using tables.dist_at_path[OF ud, of s plan dest] less.prems(3) u(2) by simp
  show ?case
  proof (cases "dest \<in> set (?segs f)")
    case True
    then show ?thesis by (rule delivers.arrived)
  next
    case False
    then have pos: "0 < ?h f" using path u(1) by (cases "?h f") auto
    have fa: "dget (plan_attached s topo plan) f = Some (?segs f)"
      using less.prems(1) by (simp add: dget_attached)
    from tables.closer_forwarder[OF fa less.prems(2) pos less.prems(3)] obtain g gsegs w where
      g: "dget (plan_attached s topo plan) g = Some gsegs" "g \<noteq> f" "w \<in> set (?segs f)" "w \<in> set gsegs"
        "min_hops ?table dest gsegs < ?h f" by metis
    then have gs: "gsegs = ?segs g" "g \<in> set (forwarders s)" by (auto simp: dget_attached split: if_splits)
    have reach: "dest \<in> set (reachable_segments ?table (?segs f))"
      using False u(1) ud path by (auto simp: in_reachable_segments)
    have "first_hops ?table (plan_attached s topo plan) f (?segs f) dest \<noteq> []"
      by (rule tables.first_hops_ex[OF u(1) segments_of_data False path less.prems(3)]) (simp add: fa)
    from routes_for_facts(1)[OF get(2)[OF refl] reach this] obtain r where
      r: "r \<in> set (snd (routes_for s topo plan f))" "rt_segment r = dest" by blast
    from routes_for_facts(2)[OF get(2)[OF refl] r(1)] r(2)
    have vb: "via_best (first_hops ?table (plan_attached s topo plan) f (?segs f) dest) plan r" by simp
    from vb obtain n where n: "n \<in> set (forwarders s)" "n \<noteq> f" "plan_at plan n (rt_out r) = Some (rt_via r)"
      "rt_out r \<in> set (?segs f)" "?segs n \<noteq> []" "?h n < far"
      and best: "\<And>g out. g \<in> set (forwarders s) \<Longrightarrow> g \<noteq> f \<Longrightarrow> out \<in> set (?segs g) \<Longrightarrow> out \<in> set (?segs f) \<Longrightarrow>
        ?h g < far \<Longrightarrow> ?h n \<le> ?h g"
      by (rule route_next_hop) blast
    have "?h n < ?h f" using best[OF gs(2) g(2) _ g(3)] g(4,5) gs(1) less.prems(3) by simp
    from less.hyps[OF this n(1,5,6)] have rest: "delivers plan routes ?data n dest" .
    show ?thesis
    proof (rule delivers.forwarded[OF _ r(2) n(4) _ n(2,3) rest])
      show "r \<in> set (dget_or (rp_routes routes) f [])" using r(1) get(1) by (simp add: dget_or_def)
      show "n \<in> set (rp_forwarders routes)" using n(1) get(3) by simp
    qed
  qed
qed

lemma route_delivers:
  assumes run: "plan_routes s topo plan = (routes, [])"
    and i: "(p, k, i) \<in> set (instance_ids s)" and r: "r \<in> set (dget_or (rp_routes routes) i [])"
  shows "delivers plan routes (data_segments topo) i (rt_segment r)"
proof -
  note get = plan_routes_get[OF run i]
  from r get(1) have r': "r \<in> set (snd (routes_for s topo plan i))" by (simp add: dget_or_def)
  from routes_for_facts(2)[OF get(2)[OF refl] r'] have vb: "via_best (first_hops (plan_table s topo plan)
      (plan_attached s topo plan) i (segments_of plan i (data_segments topo)) (rt_segment r)) plan r" by blast
  from vb obtain n where n: "n \<in> set (forwarders s)" "n \<noteq> i" "plan_at plan n (rt_out r) = Some (rt_via r)"
    "rt_out r \<in> set (segments_of plan i (data_segments topo))" "segments_of plan n (data_segments topo) \<noteq> []"
    "min_hops (plan_table s topo plan) (rt_segment r) (segments_of plan n (data_segments topo)) < far"
    by (rule route_next_hop) blast
  show ?thesis
    by (rule delivers.forwarded[OF r refl n(4) _ n(2,3) forwarder_delivers[OF run n(1,5,6)]])
       (simp add: get(3) n(1))
qed

section \<open>Reachability\<close>

text \<open>Two data segments are joined when some forwarder is on both.\<close>

definition joined :: "scenario \<Rightarrow> topology \<Rightarrow> address_plan \<Rightarrow> (string \<times> string) set" where
  "joined s topo plan = {(u, v). \<exists>f\<in>set (forwarders s).
     u \<in> set (segments_of plan f (data_segments topo)) \<and> v \<in> set (segments_of plan f (data_segments topo))}"

lemma linked_joined: "(linked (plan_adj s topo plan))\<^sup>* = (joined s topo plan)\<^sup>*"
proof -
  have "linked (plan_adj s topo plan) = joined s topo plan - Id"
    by (auto simp: tables.linked_iff joined_def dget_attached split: if_splits)
  then show ?thesis by (simp add: rtrancl_r_diff_Id)
qed

lemma linked_bounded:
  assumes "(u, v) \<in> (linked (plan_adj s topo plan))\<^sup>*"
  shows "\<exists>n\<le>length (data_segments topo) ^ 2. (u, v) \<in> linked (plan_adj s topo plan) ^^ n"
proof -
  let ?E = "linked (plan_adj s topo plan)" and ?D = "set (data_segments topo)"
  have sub: "?E \<subseteq> ?D \<times> ?D"
    using segments_of_data by (fastforce simp: tables.linked_iff dget_attached split: if_splits)
  then have fin: "finite ?E" by (rule finite_subset) simp
  have "card ?E \<le> card (?D \<times> ?D)" using sub by (intro card_mono) simp_all
  also have "\<dots> = length (data_segments topo) ^ 2"
    by (simp add: card_cartesian_product power2_eq_square distinct_card[OF tables.data])
  finally have "card ?E \<le> length (data_segments topo) ^ 2" .
  moreover obtain k where "(u, v) \<in> ?E ^^ k" using assms rtrancl_imp_relpow by blast
  with relpow_finite_bounded[OF fin, of k] obtain n where "n \<le> card ?E" "(u, v) \<in> ?E ^^ n" by blast
  ultimately show ?thesis by (intro exI[of _ n]) simp
qed

lemma reachable_joined:
  assumes run: "plan_routes s topo plan = (routes, [])" and i: "(p, k, i) \<in> set (instance_ids s)"
    and small: "length (data_segments topo) ^ 2 < far"
  shows "reachable plan routes i j (data_segments topo) \<longleftrightarrow>
    (\<exists>u\<in>set (segments_of plan i (data_segments topo)). \<exists>v\<in>set (segments_of plan j (data_segments topo)).
       (u, v) \<in> (joined s topo plan)\<^sup>*)"
proof -
  let ?mine = "segments_of plan i (data_segments topo)"
  note get = plan_routes_get[OF run i]
  have routes: "dget_or (rp_routes routes) i [] = snd (routes_for s topo plan i)"
    using get(1) by (simp add: dget_or_def)
  have has: "(\<exists>r\<in>set (dget_or (rp_routes routes) i []). rt_segment r = v) \<longleftrightarrow>
      v \<in> set (reachable_segments (plan_table s topo plan) ?mine)" for v
  proof
    assume "\<exists>r\<in>set (dget_or (rp_routes routes) i []). rt_segment r = v"
    then show "v \<in> set (reachable_segments (plan_table s topo plan) ?mine)"
      unfolding routes using routes_for_facts(2)[OF get(2)[OF refl]] by blast
  next
    assume v: "v \<in> set (reachable_segments (plan_table s topo plan) ?mine)"
    then obtain u n where u: "v \<notin> set ?mine" "u \<in> set ?mine" "(u, v) \<in> linked (plan_adj s topo plan) ^^ n"
      by (auto simp: in_reachable_segments)
    from linked_bounded[OF relpow_imp_rtrancl[OF u(3)]] small obtain m where
      m: "(u, v) \<in> linked (plan_adj s topo plan) ^^ m" "m < far" by (meson le_less_trans)
    have "first_hops (plan_table s topo plan) (plan_attached s topo plan) i ?mine v \<noteq> []"
      by (rule tables.first_hops_ex[OF u(2) segments_of_data u(1) m])
         (auto simp: dget_attached split: if_splits)
    from routes_for_facts(1)[OF get(2)[OF refl] v this] show "\<exists>r\<in>set (dget_or (rp_routes routes) i []). rt_segment r = v"
      unfolding routes .
  qed
  have "reachable plan routes i j (data_segments topo) \<longleftrightarrow>
      (\<exists>v\<in>set (segments_of plan j (data_segments topo)).
         v \<in> set ?mine \<or> v \<in> set (reachable_segments (plan_table s topo plan) ?mine))"
    unfolding reachable_def Let_def has[symmetric] by blast
  also have "\<dots> \<longleftrightarrow> (\<exists>u\<in>set ?mine. \<exists>v\<in>set (segments_of plan j (data_segments topo)).
      (u, v) \<in> (linked (plan_adj s topo plan))\<^sup>*)"
    using segments_of_data[of plan i "data_segments topo"]
    unfolding in_reachable_segments rtrancl_power[symmetric] by (blast intro: rtrancl_refl)
  finally show ?thesis by (simp add: linked_joined)
qed

section \<open>Properties\<close>

definition demo_routes :: "route_plan \<times> problem list" where
  "demo_routes = plan_routes demo_scenario demo_topology (fst demo_plan)"

lemma demo_routes_run: "plan_routes demo_scenario demo_topology (fst demo_plan) = (fst demo_routes, snd demo_routes)"
  by (simp add: demo_routes_def)

lemma demo_routes:
  "snd demo_routes = []"
  "(''o'', ''c'', ''o/c[0]'') \<in> set (instance_ids demo_scenario)"
  "\<lparr>rt_segment = ''y'', rt_cidr = ''10.0.1.0/29'', rt_via = ''10.0.0.4'', rt_out = ''x''\<rparr>
     \<in> set (dget_or (rp_routes (fst demo_routes)) ''o/c[0]'' [])"
  "reachable (fst demo_plan) (fst demo_routes) ''o/c[0]'' ''d/s[0]'' (data_segments demo_topology)"
  "length (data_segments demo_topology) ^ 2 < far"
  by code_simp+

text \<open>C3: The breadth-first search computes shortest distances: a segment gets the number of hops
  of a shortest walk through the adjacency, and no entry exactly when there is no walk.\<close>

theorem distances_shortest:
  "dget (distances s adj) t =
     (if \<exists>n. (s, t) \<in> linked adj ^^ n then Some (LEAST n. (s, t) \<in> linked adj ^^ n) else None)"
proof (cases "dget (distances s adj) t")
  case None
  with distances_least[of s t _ adj] show ?thesis by fastforce
next
  case (Some d)
  then have "(s, t) \<in> linked adj ^^ d" "\<forall>k<d. (s, t) \<notin> linked adj ^^ k"
    by (simp_all add: distances_iff)
  then have "(LEAST n. (s, t) \<in> linked adj ^^ n) = d"
    by (intro Least_equality) (auto simp: not_less[symmetric])
  with Some \<open>(s, t) \<in> linked adj ^^ d\<close> show ?thesis by auto
qed

text \<open>C2: Following the static routes of a problem-free plan delivers: from any instance, the
  packets for a routed segment go from forwarder to forwarder, each at the address the route
  names on the segment it names, until they are on that segment. No route loops or ends at a
  forwarder that has none.\<close>

theorem routes_deliver:
  assumes "plan_routes s topo plan = (routes, [])"
    and "(p, k, i) \<in> set (instance_ids s)" "r \<in> set (dget_or (rp_routes routes) i [])"
  shows "delivers plan routes (data_segments topo) i (rt_segment r)"
  using assms by (rule route_delivers)

theorem routes_deliver_witness:
  "delivers (fst demo_plan) (fst demo_routes) (data_segments demo_topology) ''o/c[0]'' ''y''"
  using routes_deliver[OF demo_routes_run[unfolded demo_routes(1)] demo_routes(2,3)] by simp

text \<open>C4: What check 10 asks is right: on a problem-free plan the source can reach the target
  exactly when a chain of forwarders joins a data segment of the one to a data segment of the
  other (for at most 31622 data segments, where the code's stand-in for "no route",
  \<open>10**9\<close> hops, is beyond every distance).\<close>

theorem reachable_iff_joined:
  assumes "plan_routes s topo plan = (routes, [])" "(p, k, i) \<in> set (instance_ids s)"
    and "length (data_segments topo) ^ 2 < far"
  shows "reachable plan routes i j (data_segments topo) \<longleftrightarrow>
    (\<exists>u\<in>set (segments_of plan i (data_segments topo)). \<exists>v\<in>set (segments_of plan j (data_segments topo)).
       (u, v) \<in> (joined s topo plan)\<^sup>*)"
  using assms by (rule reachable_joined)

theorem reachable_iff_joined_witness:
  "\<exists>u\<in>set (segments_of (fst demo_plan) ''o/c[0]'' (data_segments demo_topology)).
   \<exists>v\<in>set (segments_of (fst demo_plan) ''d/s[0]'' (data_segments demo_topology)).
     (u, v) \<in> (joined demo_scenario demo_topology (fst demo_plan))\<^sup>*"
  using reachable_iff_joined[OF demo_routes_run[unfolded demo_routes(1)] demo_routes(2,5), of "''d/s[0]''"]
    demo_routes(4) by blast

end
