(* ===== verification/Codec.thy ===== *)
theory Codec
  imports IR
begin

text \<open>
  The JSON codec (\<open>core/tiergen/core/codec.py\<close>): encoding a value, and decoding JSON driven by
  a type annotation. An annotation is a value of the datatype \<open>ann\<close> (a dataclass carries its
  name and its fields with their defaults), a Python value one of \<open>pyval\<close>. The lemmas show
  that what decodes has the annotated type and no non-finite float, and that a well-typed
  value decodes back from its encoding when every union's arms can be told apart. How a type
  reads in an error message (\<open>_describe\<close>) follows Python's \<open>__name__\<close> and \<open>repr\<close>.
\<close>

section \<open>JSON, annotations and values\<close>

datatype json = JNull | JBool bool | JInt int | JFloat pyfloat | JStr string
  | JArr "json list" | JObj "(string \<times> json) list"

datatype pyval = VNone | VBool bool | VInt int | VFloat pyfloat | VStr string
  | VTuple "pyval list" | VList "pyval list" | VDict "(string \<times> pyval) list"
  | VObj string "(string \<times> pyval) list"

text \<open>\<open>TSeq t\<close> is \<open>tuple[t, ...]\<close>, \<open>TFixed ts\<close> a fixed-length tuple, \<open>TData\<close> a dataclass: its
  name, and for each field its name, annotation and default if it has one.\<close>

datatype ann = TNull | TBool | TInt | TFloat | TStr | TLit "json list" | TSeq ann
  | TFixed "ann list" | TDict ann | TUnion "ann list" | TJson
  | TData string "(string \<times> ann \<times> pyval option) list"

datatype shape = ShNull | ShBool | ShNumber | ShString | ShArray | ShObject

record codec_error =
  er_path :: string
  er_message :: msg

definition codec_error :: "string \<Rightarrow> msg \<Rightarrow> codec_error" where
  "codec_error path m = \<lparr>er_path = path, er_message = m\<rparr>"

definition field_path :: "string \<Rightarrow> string \<Rightarrow> string" where
  "field_path path name = (if path = [] then name else path @ ''.'' @ name)"

definition index_path :: "string \<Rightarrow> nat \<Rightarrow> string" where
  "index_path path i = path @ ''['' @ show_nat i @ '']''"

definition key_path :: "string \<Rightarrow> string \<Rightarrow> string" where
  "key_path path key = path @ ''['' @ repr_str key @ '']''"

section \<open>Encoding\<close>

fun encode :: "pyval \<Rightarrow> string \<Rightarrow> codec_error + json"
  and encode_items :: "pyval list \<Rightarrow> nat \<Rightarrow> string \<Rightarrow> codec_error + json list"
  and encode_entries :: "(string \<times> pyval) list \<Rightarrow> (string \<Rightarrow> string) \<Rightarrow> codec_error + (string \<times> json) list" where
  "encode VNone path = Inr JNull"
| "encode (VBool b) path = Inr (JBool b)"
| "encode (VInt i) path = Inr (JInt i)"
| "encode (VStr s) path = Inr (JStr s)"
| "encode (VFloat x) path =
     (if \<not> fl_isfinite x then Inl (codec_error path [L ''non-finite float '', FR x, L '' has no JSON form''])
      else Inr (JFloat x))"
| "encode (VObj cls fs) path = rbind (encode_entries fs (field_path path)) (\<lambda>es. Inr (JObj es))"
| "encode (VTuple vs) path = rbind (encode_items vs 0 path) (\<lambda>js. Inr (JArr js))"
| "encode (VList vs) path = rbind (encode_items vs 0 path) (\<lambda>js. Inr (JArr js))"
| "encode (VDict kvs) path = rbind (encode_entries kvs (key_path path)) (\<lambda>es. Inr (JObj es))"
| "encode_items [] i path = Inr []"
| "encode_items (v # vs) i path =
     rbind (encode v (index_path path i)) (\<lambda>j. rbind (encode_items vs (Suc i) path) (\<lambda>js. Inr (j # js)))"
| "encode_entries [] loc = Inr []"
| "encode_entries (kv # kvs) loc =
     rbind (encode (snd kv) (loc (fst kv))) (\<lambda>j. rbind (encode_entries kvs loc) (\<lambda>js. Inr ((fst kv, j) # js)))"

definition to_json :: "pyval \<Rightarrow> codec_error + json" where
  "to_json v = encode v []"

section \<open>Shapes and descriptions\<close>

fun shape_of :: "json \<Rightarrow> shape" where
  "shape_of JNull = ShNull"
| "shape_of (JBool _) = ShBool"
| "shape_of (JInt _) = ShNumber"
| "shape_of (JFloat _) = ShNumber"
| "shape_of (JStr _) = ShString"
| "shape_of (JArr _) = ShArray"
| "shape_of (JObj _) = ShObject"

fun shape_str :: "shape \<Rightarrow> string" where
  "shape_str ShNull = ''null''"
| "shape_str ShBool = ''bool''"
| "shape_str ShNumber = ''number''"
| "shape_str ShString = ''string''"
| "shape_str ShArray = ''array''"
| "shape_str ShObject = ''object''"

fun shapes :: "ann \<Rightarrow> shape list" where
  "shapes TJson = [ShNull, ShBool, ShNumber, ShString, ShArray, ShObject]"
| "shapes TNull = [ShNull]"
| "shapes TBool = [ShBool]"
| "shapes TInt = [ShNumber]"
| "shapes TFloat = [ShNumber]"
| "shapes TStr = [ShString]"
| "shapes (TUnion arms) = concat (map shapes arms)"
| "shapes (TLit values) = map shape_of values"
| "shapes (TSeq t) = [ShArray]"
| "shapes (TFixed ts) = [ShArray]"
| "shapes (TDict t) = [ShObject]"
| "shapes (TData name fds) = [ShObject]"

fun repr_json :: "json \<Rightarrow> msg" where
  "repr_json JNull = [L ''None'']"
| "repr_json (JBool b) = [L (if b then ''True'' else ''False'')]"
| "repr_json (JInt i) = [I i]"
| "repr_json (JFloat x) = [FR x]"
| "repr_json (JStr s) = [R s]"
| "repr_json (JArr js) = [L ''[''] @ join_msg '', '' (map repr_json js) @ [L '']'']"
| "repr_json (JObj kvs) =
     [L ''{''] @ join_msg '', '' (map (\<lambda>kv. [R (fst kv), L '': ''] @ repr_json (snd kv)) kvs) @ [L ''}'']"

fun repr_ann :: "ann \<Rightarrow> msg" where
  "repr_ann TJson = [L ''JsonValue'']"
| "repr_ann TNull = [L ''None'']"
| "repr_ann TBool = [L ''bool'']"
| "repr_ann TInt = [L ''int'']"
| "repr_ann TFloat = [L ''float'']"
| "repr_ann TStr = [L ''str'']"
| "repr_ann (TUnion arms) = join_msg '' | '' (map repr_ann arms)"
| "repr_ann (TLit values) = [L ''typing.Literal[''] @ join_msg '', '' (map repr_json values) @ [L '']'']"
| "repr_ann (TSeq t) = [L ''tuple[''] @ repr_ann t @ [L '', ...]'']"
| "repr_ann (TFixed ts) = [L ''tuple[''] @ join_msg '', '' (map repr_ann ts) @ [L '']'']"
| "repr_ann (TDict t) = [L ''dict[str, ''] @ repr_ann t @ [L '']'']"
| "repr_ann (TData name fds) = [L ''tiergen.core.ir.'', S name]"

fun describe :: "ann \<Rightarrow> msg" where
  "describe TNull = [L ''NoneType'']"
| "describe (TLit values) = [L ''Literal'']"
| "describe (TSeq t) = [L ''tuple'']"
| "describe (TFixed ts) = [L ''tuple'']"
| "describe (TDict t) = [L ''dict'']"
| "describe (TData name fds) = [S name]"
| "describe t = repr_ann t"

section \<open>Decoding\<close>

text \<open>Arbitrary JSON is kept as it is, but a non-finite float is refused.\<close>

fun passthrough :: "json \<Rightarrow> string \<Rightarrow> codec_error + pyval"
  and passthrough_items :: "json list \<Rightarrow> nat \<Rightarrow> string \<Rightarrow> codec_error + pyval list"
  and passthrough_entries :: "(string \<times> json) list \<Rightarrow> string \<Rightarrow> codec_error + (string \<times> pyval) list" where
  "passthrough (JFloat x) path =
     (if \<not> fl_isfinite x then Inl (codec_error path [L ''non-finite float '', FR x]) else Inr (VFloat x))"
| "passthrough (JArr js) path = rbind (passthrough_items js 0 path) (\<lambda>vs. Inr (VList vs))"
| "passthrough (JObj kvs) path = rbind (passthrough_entries kvs path) (\<lambda>es. Inr (VDict es))"
| "passthrough JNull path = Inr VNone"
| "passthrough (JBool b) path = Inr (VBool b)"
| "passthrough (JInt i) path = Inr (VInt i)"
| "passthrough (JStr s) path = Inr (VStr s)"
| "passthrough_items [] i path = Inr []"
| "passthrough_items (j # js) i path =
     rbind (passthrough j (index_path path i)) (\<lambda>v. rbind (passthrough_items js (Suc i) path) (\<lambda>vs. Inr (v # vs)))"
| "passthrough_entries [] path = Inr []"
| "passthrough_entries (kv # kvs) path =
     rbind (passthrough (snd kv) (key_path path (fst kv))) (\<lambda>v.
       rbind (passthrough_entries kvs path) (\<lambda>vs. Inr ((fst kv, v) # vs)))"

text \<open>A literal's value, as the data it equals.\<close>

fun literal_value :: "json \<Rightarrow> pyval" where
  "literal_value JNull = VNone"
| "literal_value (JBool b) = VBool b"
| "literal_value (JInt i) = VInt i"
| "literal_value (JFloat x) = VFloat x"
| "literal_value (JStr s) = VStr s"
| "literal_value (JArr _) = VTuple []"
| "literal_value (JObj _) = VDict []"

definition shape_error :: "ann \<Rightarrow> json \<Rightarrow> string \<Rightarrow> codec_error" where
  "shape_error tp data path = codec_error path ([L ''expected '']
     @ join_str '' or '' (sorted_set (map shape_str (shapes tp)))
     @ [L '' for ''] @ describe tp @ [L '', got '', L (shape_str (shape_of data))])"

definition sorted_unknown :: "(string \<times> json) list \<Rightarrow> (string \<times> 'a) list \<Rightarrow> string list" where
  "sorted_unknown kvs fds = sorted_set (filter (\<lambda>k. k \<notin> fst ` set fds) (map fst kvs))"

lemma size_filter_arms: "size_list size (filter P xs) \<le> size_list size xs"
  by (induction xs) auto

lemma size_filter_eq: "filter P xs = ys \<Longrightarrow> size_list size ys \<le> size_list size xs"
  using size_filter_arms by blast

lemma size_data_fields:
  "size_list (\<lambda>(f, t, d). size (t :: ann)) fds \<le> size_list (size_prod (\<lambda>_. 0) (size_prod size (\<lambda>_. 0))) fds"
  by (rule size_list_pointwise) (auto split: prod.splits)

definition decode_measure where
  "decode_measure x = (case x of
     Inl (Inl (tp, _)) \<Rightarrow> (size tp, 0)
   | Inl (Inr (Inl (arms, _))) \<Rightarrow> (size_list size arms, 0)
   | Inl (Inr (Inr (t, js, _))) \<Rightarrow> (size t, Suc (length js))
   | Inr (Inl (ts, _)) \<Rightarrow> (size_list size ts, 0)
   | Inr (Inr (Inl (t, kvs, _))) \<Rightarrow> (size t, Suc (length kvs))
   | Inr (Inr (Inr (_, fds, _))) \<Rightarrow> (size_list (\<lambda>(f, t, d). size t) fds, 0))"

function (sequential) decode :: "ann \<Rightarrow> json \<Rightarrow> string \<Rightarrow> codec_error + pyval"
  and decode_arms :: "ann list \<Rightarrow> json \<Rightarrow> string \<Rightarrow> msg list \<Rightarrow> codec_error + pyval"
  and decode_items :: "ann \<Rightarrow> json list \<Rightarrow> nat \<Rightarrow> string \<Rightarrow> codec_error + pyval list"
  and decode_fixed :: "ann list \<Rightarrow> json list \<Rightarrow> nat \<Rightarrow> string \<Rightarrow> codec_error + pyval list"
  and decode_entries :: "ann \<Rightarrow> (string \<times> json) list \<Rightarrow> string \<Rightarrow> codec_error + (string \<times> pyval) list"
  and decode_fields :: "string \<Rightarrow> (string \<times> ann \<times> pyval option) list \<Rightarrow> (string \<times> json) list \<Rightarrow> string
        \<Rightarrow> codec_error + (string \<times> pyval) list" where
  "decode tp data path =
     (if shape_of data \<notin> set (shapes tp) then Inl (shape_error tp data path)
      else case (tp, data) of
        (TJson, _) \<Rightarrow> passthrough data path
      | (TUnion arms, _) \<Rightarrow>
          (case filter (\<lambda>arm. shape_of data \<in> set (shapes arm)) arms of
             [arm] \<Rightarrow> decode arm data path
           | _ \<Rightarrow> decode_arms (filter (\<lambda>arm. shape_of data \<in> set (shapes arm)) arms) data path [])
      | (TInt, JFloat x) \<Rightarrow> Inl (codec_error path [L ''expected an integer, got '', FR x])
      | (TFloat, JInt i) \<Rightarrow> Inr (VFloat (Fin (of_int i)))
      | (TFloat, JFloat x) \<Rightarrow>
          if \<not> fl_isfinite x then Inl (codec_error path [L ''non-finite float '', FR x]) else Inr (VFloat x)
      | (TLit values, _) \<Rightarrow>
          if data \<notin> set values then Inl (codec_error path ([L ''expected one of '']
            @ join_msg '', '' (map repr_json values) @ [L '', got ''] @ repr_json data))
          else Inr (literal_value data)
      | (TSeq t, JArr items) \<Rightarrow> rbind (decode_items t items 0 path) (\<lambda>vs. Inr (VTuple vs))
      | (TFixed ts, JArr items) \<Rightarrow>
          if length items \<noteq> length ts then Inl (codec_error path [L ''expected '', I (int (length ts)),
            L '' items, got '', I (int (length items))])
          else rbind (decode_fixed ts items 0 path) (\<lambda>vs. Inr (VTuple vs))
      | (TDict t, JObj kvs) \<Rightarrow> rbind (decode_entries t kvs path) (\<lambda>es. Inr (VDict es))
      | (TData name fds, JObj kvs) \<Rightarrow>
          (let unknown = sorted_unknown kvs fds
           in if unknown \<noteq> [] then Inl (codec_error path ([L ''unknown field(s) for '', S name, L '': '']
                @ join_str '', '' unknown))
              else rbind (decode_fields name fds kvs path) (\<lambda>es. Inr (VObj name es)))
      | _ \<Rightarrow> Inr (literal_value data))"
| "decode_arms [] data path failures =
     Inl (codec_error path ([L ''fits no arm of the union (''] @ join_msg ''; '' failures @ [L '')'']))"
| "decode_arms (arm # arms) data path failures =
     (case decode arm data path of
        Inr v \<Rightarrow> Inr v
      | Inl err \<Rightarrow> decode_arms arms data path (failures @ [describe arm @ [L '': ''] @ er_message err]))"
| "decode_items t [] i path = Inr []"
| "decode_items t (j # js) i path =
     rbind (decode t j (index_path path i)) (\<lambda>v. rbind (decode_items t js (Suc i) path) (\<lambda>vs. Inr (v # vs)))"
| "decode_fixed (t # ts) (j # js) i path =
     rbind (decode t j (index_path path i)) (\<lambda>v. rbind (decode_fixed ts js (Suc i) path) (\<lambda>vs. Inr (v # vs)))"
| "decode_fixed _ _ i path = Inr []"
| "decode_entries t [] path = Inr []"
| "decode_entries t (kv # kvs) path =
     rbind (decode t (snd kv) (key_path path (fst kv))) (\<lambda>v.
       rbind (decode_entries t kvs path) (\<lambda>vs. Inr ((fst kv, v) # vs)))"
| "decode_fields name [] kvs path = Inr []"
| "decode_fields name ((f, t, d) # fds) kvs path =
     (case dget kvs f of
        Some j \<Rightarrow> rbind (decode t j (field_path path f)) (\<lambda>v.
                    rbind (decode_fields name fds kvs path) (\<lambda>es. Inr ((f, v) # es)))
      | None \<Rightarrow>
          (case d of
             None \<Rightarrow> Inl (codec_error path [L ''missing field '', R f, L '' of '', S name])
           | Some v \<Rightarrow> rbind (decode_fields name fds kvs path) (\<lambda>es. Inr ((f, v) # es))))"
  by pat_completeness auto

termination
proof (relation "inv_image (less_than <*lex*> less_than) decode_measure", goal_cases)
  case 1
  show ?case by (intro wf_inv_image wf_lex_prod wf_less_than)
qed (auto simp: decode_measure_def less_Suc_eq_le intro: size_data_fields dest!: size_filter_eq)

declare decode.simps [simp del]

definition from_json :: "ann \<Rightarrow> json \<Rightarrow> codec_error + pyval" where
  "from_json tp data = decode tp data []"

section \<open>Types\<close>

text \<open>What a value of an annotation is: the values \<open>decode\<close> builds.\<close>

inductive plain :: "pyval \<Rightarrow> bool" where
  "plain VNone" | "plain (VBool b)" | "plain (VInt i)" | "plain (VFloat (Fin x))" | "plain (VStr s)"
| "list_all plain vs \<Longrightarrow> plain (VList vs)"
| "list_all (\<lambda>kv. plain (snd kv)) kvs \<Longrightarrow> plain (VDict kvs)"

fun is_scalar :: "json \<Rightarrow> bool" where
  "is_scalar (JArr _) = False"
| "is_scalar (JObj _) = False"
| "is_scalar (JFloat x) = fl_isfinite x"
| "is_scalar _ = True"

inductive typed :: "ann \<Rightarrow> pyval \<Rightarrow> bool" where
  null: "typed TNull VNone"
| bool: "typed TBool (VBool b)"
| int: "typed TInt (VInt i)"
| float: "typed TFloat (VFloat (Fin x))"
| str: "typed TStr (VStr s)"
| lit: "j \<in> set values \<Longrightarrow> is_scalar j \<Longrightarrow> typed (TLit values) (literal_value j)"
| seq: "list_all (typed t) vs \<Longrightarrow> typed (TSeq t) (VTuple vs)"
| fixed: "list_all2 typed ts vs \<Longrightarrow> typed (TFixed ts) (VTuple vs)"
| dict: "list_all (\<lambda>kv. typed t (snd kv)) kvs \<Longrightarrow> typed (TDict t) (VDict kvs)"
| union: "arm \<in> set arms \<Longrightarrow> typed arm v \<Longrightarrow> typed (TUnion arms) v"
| json: "plain v \<Longrightarrow> typed TJson v"
| data: "list_all2 (\<lambda>fd e. fst fd = fst e \<and> typed (fst (snd fd)) (snd e)) fds es \<Longrightarrow>
    typed (TData name fds) (VObj name es)"

inductive_cases typed_data_cases: "typed (TData name fds) v"
inductive_cases typed_seq_cases: "typed (TSeq t) v"
inductive_cases typed_dict_cases: "typed (TDict t) v"
inductive_cases typed_union_cases: "typed (TUnion arms) v"
inductive_cases typed_float_cases: "typed TFloat v"
inductive_cases typed_str_cases: "typed TStr v"
inductive_cases typed_int_cases: "typed TInt v"
inductive_cases typed_bool_cases: "typed TBool v"
inductive_cases typed_null_cases: "typed TNull v"
inductive_cases typed_lit_cases: "typed (TLit values) v"

text \<open>An annotation whose unions can be told apart by what the decoder looks at: no shape in
  common, or \<open>int\<close> before \<open>float\<close>, or two dataclasses of which the later has a field the
  earlier does not know.\<close>

fun apart :: "ann \<Rightarrow> ann \<Rightarrow> bool" where
  "apart TInt TFloat = True"
| "apart (TData _ fds) (TData _ gds) = (\<exists>g\<in>fst ` set gds. g \<notin> fst ` set fds)"
| "apart a b = (set (shapes a) \<inter> set (shapes b) = {})"

fun regular :: "ann \<Rightarrow> bool" where
  "regular (TSeq t) = regular t"
| "regular (TFixed ts) = list_all regular ts"
| "regular (TDict t) = regular t"
| "regular (TUnion arms) = (list_all regular arms \<and> sorted_wrt apart arms)"
| "regular (TData name fds) = (distinct (map fst fds) \<and> list_all (\<lambda>fd. regular (fst (snd fd))) fds)"
| "regular (TLit values) = list_all is_scalar values"
| "regular _ = True"

text \<open>Every default of a dataclass is of its field's type.\<close>

fun defaults_ok :: "ann \<Rightarrow> bool" where
  "defaults_ok (TSeq t) = defaults_ok t"
| "defaults_ok (TFixed ts) = list_all defaults_ok ts"
| "defaults_ok (TDict t) = defaults_ok t"
| "defaults_ok (TUnion arms) = list_all defaults_ok arms"
| "defaults_ok (TData name fds) =
     list_all (\<lambda>fd. defaults_ok (fst (snd fd)) \<and> (\<forall>v. snd (snd fd) = Some v \<longrightarrow> typed (fst (snd fd)) v)) fds"
| "defaults_ok (TLit values) = list_all is_scalar values"
| "defaults_ok _ = True"

section \<open>What decodes is well typed\<close>

lemma passthrough_plain:
  "passthrough j path = Inr v \<Longrightarrow> plain v"
  "passthrough_items js i path = Inr vs \<Longrightarrow> list_all plain vs"
  "passthrough_entries kvs path = Inr es \<Longrightarrow> list_all (\<lambda>kv. plain (snd kv)) es"
proof (induction j path and js i path and kvs path arbitrary: v and vs and es
    rule: passthrough_passthrough_items_passthrough_entries.induct)
  case (1 x path)
  then show ?case by (cases x) (auto intro: plain.intros)
qed (auto simp: rbind_Inr_iff intro: plain.intros)

lemma decode_cases:
  "decode TNull data path = (if data = JNull then Inr VNone else Inl (shape_error TNull data path))"
  "decode TBool data path = (case data of JBool b \<Rightarrow> Inr (VBool b) | _ \<Rightarrow> Inl (shape_error TBool data path))"
  "decode TStr data path = (case data of JStr s \<Rightarrow> Inr (VStr s) | _ \<Rightarrow> Inl (shape_error TStr data path))"
  "decode TInt data path = (case data of JInt i \<Rightarrow> Inr (VInt i)
     | JFloat x \<Rightarrow> Inl (codec_error path [L ''expected an integer, got '', FR x])
     | _ \<Rightarrow> Inl (shape_error TInt data path))"
  "decode TFloat data path = (case data of JInt i \<Rightarrow> Inr (VFloat (Fin (of_int i)))
     | JFloat x \<Rightarrow> if fl_isfinite x then Inr (VFloat x) else Inl (codec_error path [L ''non-finite float '', FR x])
     | _ \<Rightarrow> Inl (shape_error TFloat data path))"
  "decode (TSeq t) data path = (case data of
       JArr items \<Rightarrow> rbind (decode_items t items 0 path) (\<lambda>vs. Inr (VTuple vs))
     | _ \<Rightarrow> Inl (shape_error (TSeq t) data path))"
  "decode (TFixed ts) data path = (case data of
       JArr items \<Rightarrow> if length items \<noteq> length ts
         then Inl (codec_error path [L ''expected '', I (int (length ts)), L '' items, got '', I (int (length items))])
         else rbind (decode_fixed ts items 0 path) (\<lambda>vs. Inr (VTuple vs))
     | _ \<Rightarrow> Inl (shape_error (TFixed ts) data path))"
  "decode (TDict t) data path = (case data of
       JObj kvs \<Rightarrow> rbind (decode_entries t kvs path) (\<lambda>es. Inr (VDict es))
     | _ \<Rightarrow> Inl (shape_error (TDict t) data path))"
  "decode (TData name fds) data path = (case data of
       JObj kvs \<Rightarrow>
         if sorted_unknown kvs fds \<noteq> [] then Inl (codec_error path ([L ''unknown field(s) for '', S name, L '': '']
           @ join_str '', '' (sorted_unknown kvs fds)))
         else rbind (decode_fields name fds kvs path) (\<lambda>es. Inr (VObj name es))
     | _ \<Rightarrow> Inl (shape_error (TData name fds) data path))"
  "decode TJson data path = passthrough data path"
  by (cases data; simp add: decode.simps Let_def; cases "shape_of data"; simp)+

lemma decode_TLit:
  "decode (TLit values) data path = (if shape_of data \<notin> set (shapes (TLit values)) then Inl (shape_error (TLit values) data path)
     else if data \<notin> set values then Inl (codec_error path ([L ''expected one of '']
            @ join_msg '', '' (map repr_json values) @ [L '', got ''] @ repr_json data))
     else Inr (literal_value data))"
  by (simp add: decode.simps)

lemma decode_TUnion:
  "decode (TUnion arms) data path =
     (let fit = filter (\<lambda>arm. shape_of data \<in> set (shapes arm)) arms
      in if fit = [] then Inl (shape_error (TUnion arms) data path)
         else if length fit = 1 then decode (hd fit) data path
         else decode_arms fit data path [])"
proof -
  let ?fit = "filter (\<lambda>arm. shape_of data \<in> set (shapes arm)) arms"
  have "shape_of data \<in> set (shapes (TUnion arms)) \<longleftrightarrow> ?fit \<noteq> []"
    by (auto simp: filter_empty_conv)
  then show ?thesis
    by (subst decode.simps) (cases ?fit; cases "tl ?fit"; simp add: Let_def)
qed

lemma decode_arms_Inr: "decode_arms arms data path fl = Inr v \<Longrightarrow> \<exists>arm\<in>set arms. decode arm data path = Inr v"
  by (induction arms arbitrary: fl) (auto split: sum.splits)

lemma decode_items_Inr:
  "decode_items t js i path = Inr vs \<Longrightarrow> (\<And>j p v. decode t j p = Inr v \<Longrightarrow> Q v) \<Longrightarrow> list_all Q vs"
  by (induction js arbitrary: i vs) (auto simp: rbind_Inr_iff)

lemma decode_fixed_Inr:
  "decode_fixed ts js i path = Inr vs \<Longrightarrow> length ts = length js \<Longrightarrow>
     (\<And>t j p v. t \<in> set ts \<Longrightarrow> decode t j p = Inr v \<Longrightarrow> Q t v) \<Longrightarrow> list_all2 Q ts vs"
proof (induction ts arbitrary: js i vs)
  case (Cons t ts)
  then obtain j js' where js: "js = j # js'" by (cases js) auto
  with Cons.prems(1) obtain v vs' where "decode t j (index_path path i) = Inr v"
    "decode_fixed ts js' (Suc i) path = Inr vs'" "vs = v # vs'" by (auto simp: rbind_Inr_iff)
  with Cons.IH[of js' "Suc i" vs'] Cons.prems js show ?case by auto
qed (cases js; simp)

lemma decode_entries_Inr:
  "decode_entries t kvs path = Inr es \<Longrightarrow> (\<And>j p v. decode t j p = Inr v \<Longrightarrow> Q v) \<Longrightarrow>
     list_all (\<lambda>kv. Q (snd kv)) es \<and> map fst es = map fst kvs"
  by (induction kvs arbitrary: es) (auto simp: rbind_Inr_iff)

lemma decode_fields_Inr:
  "decode_fields name fds kvs path = Inr es \<Longrightarrow>
     (\<And>f t d j p v. (f, t, d) \<in> set fds \<Longrightarrow> decode t j p = Inr v \<Longrightarrow> Q t v) \<Longrightarrow>
     (\<And>f t v. (f, t, Some v) \<in> set fds \<Longrightarrow> Q t v) \<Longrightarrow>
     list_all2 (\<lambda>fd e. fst fd = fst e \<and> Q (fst (snd fd)) (snd e)) fds es"
proof (induction fds arbitrary: es)
  case (Cons fd fds)
  obtain f t d where fd: "fd = (f, t, d)" by (metis prod_cases3)
  show ?case
  proof (cases "dget kvs f")
    case None
    with Cons.prems(1) fd obtain v es' where "d = Some v" "es = (f, v) # es'"
      "decode_fields name fds kvs path = Inr es'" by (auto simp: rbind_Inr_iff split: option.splits)
    moreover from this have "Q t v" using Cons.prems(3)[of f t v] fd by simp
    moreover have "list_all2 (\<lambda>fd e. fst fd = fst e \<and> Q (fst (snd fd)) (snd e)) fds es'"
      using calculation(3)
      by (rule Cons.IH) (erule Cons.prems(2)[OF list.set_intros(2)] Cons.prems(3)[OF list.set_intros(2)], assumption?)+
    ultimately show ?thesis using fd by simp
  next
    case (Some j)
    with Cons.prems(1) fd obtain v es' where "decode t j (field_path path f) = Inr v" "es = (f, v) # es'"
      "decode_fields name fds kvs path = Inr es'" by (auto simp: rbind_Inr_iff)
    moreover from this have "Q t v" using Cons.prems(2)[of f t d] fd by auto
    moreover have "list_all2 (\<lambda>fd e. fst fd = fst e \<and> Q (fst (snd fd)) (snd e)) fds es'"
      using calculation(3)
      by (rule Cons.IH) (erule Cons.prems(2)[OF list.set_intros(2)] Cons.prems(3)[OF list.set_intros(2)], assumption?)+
    ultimately show ?thesis using fd by simp
  qed
qed simp

lemma decode_typed: "decode tp data path = Inr v \<Longrightarrow> defaults_ok tp \<Longrightarrow> typed tp v"
proof (induction tp arbitrary: data path v)
  case TFloat
  then show ?case
    by (cases data) (auto simp: decode_cases split: if_splits intro: typed.intros elim!: fl_isfinite.elims)
next
  case (TLit vals)
  then show ?case by (auto simp: decode_TLit list_all_iff split: if_splits intro: typed.intros)
next
  case (TSeq t)
  then show ?case
    by (cases data) (auto simp: decode_cases rbind_Inr_iff intro!: typed.seq decode_items_Inr)
next
  case (TFixed ts)
  then show ?case
    by (cases data) (auto simp: decode_cases rbind_Inr_iff list_all_iff split: if_splits
        intro!: typed.fixed decode_fixed_Inr)
next
  case (TDict t)
  then show ?case
    by (cases data) (auto simp: decode_cases rbind_Inr_iff intro!: typed.dict
        dest!: decode_entries_Inr[where Q = "typed t"])
next
  case (TUnion arms)
  obtain arm where "arm \<in> set arms" "decode arm data path = Inr v"
  proof -
    let ?fit = "filter (\<lambda>arm. shape_of data \<in> set (shapes arm)) arms"
    from TUnion.prems(1) consider "?fit \<noteq> []" "decode (hd ?fit) data path = Inr v"
      | "decode_arms ?fit data path [] = Inr v"
      unfolding decode_TUnion Let_def by (auto split: if_splits)
    then obtain arm where "arm \<in> set ?fit" "decode arm data path = Inr v"
      by cases (metis hd_in_set, metis decode_arms_Inr)
    with that show thesis by auto
  qed
  with TUnion show ?case by (auto simp: list_all_iff intro: typed.union)
next
  case TJson
  then show ?case by (auto simp: decode_cases intro: typed.json passthrough_plain)
next
  case (TData name fds)
  then obtain kvs es where es: "decode_fields name fds kvs path = Inr es" "v = VObj name es"
    by (cases data) (auto simp: decode_cases rbind_Inr_iff split: if_splits)
  have "list_all2 (\<lambda>fd e. fst fd = fst e \<and> typed (fst (snd fd)) (snd e)) fds es"
  proof (rule decode_fields_Inr[OF es(1)])
    fix f t d j p v assume "(f, t, d) \<in> set fds" "decode t j p = Inr v"
    with TData show "typed t v" by (fastforce simp: list_all_iff)
  next
    fix f t v assume "(f, t, Some v) \<in> set fds"
    with TData.prems show "typed t v" by (fastforce simp: list_all_iff)
  qed
  with es(2) show ?case by (simp add: typed.data)
qed (auto simp: decode_cases split: json.splits if_splits intro: typed.intros)

section \<open>What encodes decodes back\<close>

text \<open>A value comes back from its encoding, wherever it stands in the document.\<close>

definition comes_back :: "ann \<Rightarrow> pyval \<Rightarrow> json \<Rightarrow> bool" where
  "comes_back t v j \<longleftrightarrow> (\<forall>path. encode v path = Inr j \<and> decode t j path = Inr v)"

lemma items_come_back:
  assumes "list_all (\<lambda>v. \<exists>j. comes_back t v j) vs"
  shows "\<exists>js. \<forall>i path. encode_items vs i path = Inr js \<and> decode_items t js i path = Inr vs"
  using assms
proof (induction vs)
  case (Cons v vs)
  then obtain j js where "comes_back t v j"
    "\<forall>i path. encode_items vs i path = Inr js \<and> decode_items t js i path = Inr vs" by auto
  then show ?case by (intro exI[of _ "j # js"]) (simp add: comes_back_def)
qed auto

lemma fixed_comes_back:
  assumes "list_all2 (\<lambda>t v. \<exists>j. comes_back t v j) ts vs"
  shows "\<exists>js. length js = length ts \<and> (\<forall>i path. encode_items vs i path = Inr js \<and> decode_fixed ts js i path = Inr vs)"
  using assms
proof (induction rule: list_all2_induct)
  case (Cons t ts v vs)
  then obtain j js where "comes_back t v j" "length js = length ts"
    "\<forall>i path. encode_items vs i path = Inr js \<and> decode_fixed ts js i path = Inr vs" by auto
  then show ?case by (intro exI[of _ "j # js"]) (simp add: comes_back_def)
qed simp

lemma entries_come_back:
  assumes "list_all (\<lambda>kv. \<exists>j. comes_back t (snd kv) j) kvs"
  shows "\<exists>js. \<forall>path. encode_entries kvs (key_path path) = Inr js \<and> decode_entries t js path = Inr kvs"
  using assms
proof (induction kvs)
  case (Cons kv kvs)
  then obtain j js where "comes_back t (snd kv) j"
    "\<forall>path. encode_entries kvs (key_path path) = Inr js \<and> decode_entries t js path = Inr kvs" by auto
  then show ?case by (intro exI[of _ "(fst kv, j) # js"]) (simp add: comes_back_def)
qed auto

lemma decode_fields_cong:
  "(\<And>f. f \<in> fst ` set fds \<Longrightarrow> dget kvs f = dget kvs' f) \<Longrightarrow>
     decode_fields name fds kvs path = decode_fields name fds kvs' path"
  by (induction fds) (force split: option.splits intro!: rbind_cong)+

lemma fields_come_back:
  assumes "list_all2 (\<lambda>fd e. fst fd = fst e \<and> (\<exists>j. comes_back (fst (snd fd)) (snd e) j)) fds es"
    and "distinct (map fst fds)"
  shows "\<exists>kvs. map fst kvs = map fst fds
    \<and> (\<forall>path. encode_entries es (field_path path) = Inr kvs \<and> decode_fields name fds kvs path = Inr es)"
  using assms
proof (induction rule: list_all2_induct)
  case (Cons fd fds e es)
  obtain f t d v where fd: "fd = (f, t, d)" "e = (f, v)"
    using Cons.hyps(1) by (metis prod.collapse)
  with Cons obtain j kvs where j: "comes_back t v j" and kvs: "map fst kvs = map fst fds"
    "\<forall>path. encode_entries es (field_path path) = Inr kvs \<and> decode_fields name fds kvs path = Inr es"
    by auto
  have "decode_fields name fds ((f, j) # kvs) path = Inr es" for path
  proof -
    have "decode_fields name fds ((f, j) # kvs) path = decode_fields name fds kvs path"
      using Cons.prems fd by (intro decode_fields_cong) auto
    with kvs(2) show ?thesis by simp
  qed
  with j kvs fd show ?case
    by (intro exI[of _ "(f, j) # kvs"]) (simp add: comes_back_def)
qed simp

lemma plain_comes_back:
  "plain v \<Longrightarrow> \<exists>j. \<forall>path. encode v path = Inr j \<and> passthrough j path = Inr v"
proof (induction v rule: plain.induct)
  case (6 vs)
  then have "\<exists>js. \<forall>i path. encode_items vs i path = Inr js \<and> passthrough_items js i path = Inr vs"
  proof (induction vs)
    case (Cons v vs)
    then obtain j js where "\<forall>path. encode v path = Inr j \<and> passthrough j path = Inr v"
      "\<forall>i path. encode_items vs i path = Inr js \<and> passthrough_items js i path = Inr vs" by auto
    then show ?case by (intro exI[of _ "j # js"]) simp
  qed auto
  then obtain js where "\<forall>i path. encode_items vs i path = Inr js \<and> passthrough_items js i path = Inr vs" ..
  then show ?case by (intro exI[of _ "JArr js"]) simp
next
  case (7 kvs)
  then have "\<exists>js. \<forall>path. encode_entries kvs (key_path path) = Inr js \<and> passthrough_entries js path = Inr kvs"
  proof (induction kvs)
    case (Cons kv kvs)
    then obtain j js where "\<forall>path. encode (snd kv) path = Inr j \<and> passthrough j path = Inr (snd kv)"
      "\<forall>path. encode_entries kvs (key_path path) = Inr js \<and> passthrough_entries js path = Inr kvs" by auto
    then show ?case by (intro exI[of _ "(fst kv, j) # js"]) simp
  qed auto
  then obtain js where "\<forall>path. encode_entries kvs (key_path path) = Inr js \<and> passthrough_entries js path = Inr kvs" ..
  then show ?case by (intro exI[of _ "JObj js"]) simp
qed (auto intro: exI[of _ JNull])

lemma literal_comes_back: "is_scalar j \<Longrightarrow> encode (literal_value j) path = Inr j"
  by (cases j) auto

text \<open>What the encoding of an annotation's value looks like, as far as \<open>apart\<close> asks.\<close>

definition emits :: "ann \<Rightarrow> json \<Rightarrow> bool" where
  "emits t j \<longleftrightarrow> shape_of j \<in> set (shapes t) \<and> (t = TFloat \<longrightarrow> (\<exists>x. j = JFloat x))
     \<and> (\<forall>name fds. t = TData name fds \<longrightarrow> (\<exists>kvs. j = JObj kvs \<and> map fst kvs = map fst fds))"

lemma sorted_unknown_Nil [simp]: "sorted_unknown kvs fds = [] \<longleftrightarrow> fst ` set kvs \<subseteq> fst ` set fds"
  by (auto simp: sorted_unknown_def filter_empty_conv)

lemma apart_rejects:
  assumes "apart a b" "emits b j" "shape_of j \<in> set (shapes a)"
  shows "\<exists>e. decode a j path = Inl e"
proof -
  consider (num) "a = TInt" "b = TFloat" | (data) n fds m gds where "a = TData n fds" "b = TData m gds"
    | (shapes) "set (shapes a) \<inter> set (shapes b) = {}"
    using assms(1) by (cases "(a, b)" rule: apart.cases) auto
  then show ?thesis
  proof cases
    case num
    with assms(2) show ?thesis by (auto simp: emits_def decode_cases)
  next
    case data
    with assms(2) obtain kvs where kvs: "j = JObj kvs" "map fst kvs = map fst gds" by (auto simp: emits_def)
    from assms(1) data obtain g where "g \<in> fst ` set gds" "g \<notin> fst ` set fds" by auto
    moreover have "fst ` set gds = fst ` set kvs" using kvs(2) by (metis set_map)
    ultimately have "sorted_unknown kvs fds \<noteq> []" unfolding sorted_unknown_Nil by auto
    with data kvs show ?thesis by (simp add: decode_cases del: sorted_unknown_Nil)
  next
    case shapes
    with assms(2,3) show ?thesis by (auto simp: emits_def)
  qed
qed

lemma decode_arms_skip:
  "(\<And>u. u \<in> set us \<Longrightarrow> \<exists>e. decode u j path = Inl e) \<Longrightarrow> decode a j path = Inr v \<Longrightarrow>
     decode_arms (us @ a # vs) j path fl = Inr v"
proof (induction us arbitrary: fl)
  case (Cons u us)
  from Cons.prems(1)[of u] obtain e where "decode u j path = Inl e" by auto
  with Cons.IH[OF Cons.prems(1) Cons.prems(2)] show ?case by simp
qed simp

lemma union_comes_back:
  assumes split: "arms = us @ a # vs" and apart: "\<And>u. u \<in> set us \<Longrightarrow> apart u a"
    and a: "comes_back a v j" "emits a j"
  shows "comes_back (TUnion arms) v j"
  unfolding comes_back_def
proof (intro allI conjI)
  fix path
  show "encode v path = Inr j" using a(1) by (simp add: comes_back_def)
  let ?P = "\<lambda>arm. shape_of j \<in> set (shapes arm)"
  have da: "decode a j path = Inr v" using a(1) by (simp add: comes_back_def)
  have fit: "filter ?P arms = filter ?P us @ a # filter ?P vs"
    using split a(2) by (simp add: emits_def)
  have rej: "\<exists>e. decode u j path = Inl e" if "u \<in> set (filter ?P us)" for u
    using apart_rejects[OF apart a(2)] that by auto
  show "decode (TUnion arms) j path = Inr v"
    unfolding decode_TUnion Let_def fit
    using decode_arms_skip[OF rej da, of "filter ?P us"] da
    by (cases "filter ?P us = [] \<and> filter ?P vs = []") auto
qed

lemma comes_back:
  assumes "regular t" "typed t v"
  shows "\<exists>j. comes_back t v j \<and> emits t j"
  using assms
proof (induction t arbitrary: v)
  case (TLit vals)
  from TLit.prems(2) obtain j where j: "j \<in> set vals" "is_scalar j" "v = literal_value j"
    by (rule typed_lit_cases)
  then show ?case
    by (intro exI[of _ j]) (auto simp: comes_back_def emits_def literal_comes_back decode_TLit)
next
  case (TSeq t)
  then obtain vs where vs: "v = VTuple vs" "list_all (typed t) vs" by (auto elim: typed_seq_cases)
  have "list_all (\<lambda>v. \<exists>j. comes_back t v j) vs"
    using vs(2) TSeq by (auto simp: list_all_iff)
  from items_come_back[OF this] vs(1) show ?case
    by (fastforce simp: comes_back_def emits_def decode_cases)
next
  case (TFixed ts)
  then obtain vs where vs: "v = VTuple vs" "list_all2 typed ts vs" by (auto elim: typed.cases)
  have "list_all2 (\<lambda>t v. \<exists>j. comes_back t v j) ts vs"
    using vs(2) TFixed by (auto simp: list_all_length list_all2_conv_all_nth) (metis nth_mem)
  from fixed_comes_back[OF this] vs(1) show ?case
    by (fastforce simp: comes_back_def emits_def decode_cases)
next
  case (TDict t)
  then obtain kvs where kvs: "v = VDict kvs" "list_all (\<lambda>kv. typed t (snd kv)) kvs" by (auto elim: typed_dict_cases)
  have "list_all (\<lambda>kv. \<exists>j. comes_back t (snd kv) j) kvs"
    using kvs(2) TDict by (auto simp: list_all_iff)
  from entries_come_back[OF this] kvs(1) show ?case
    by (fastforce simp: comes_back_def emits_def decode_cases)
next
  case (TUnion arms)
  from TUnion.prems(2) obtain a where a: "a \<in> set arms" "typed a v" by (auto elim: typed_union_cases)
  then obtain us vs where split: "arms = us @ a # vs" by (meson split_list)
  from TUnion.IH[OF a(1) _ a(2)] TUnion.prems(1) a(1) obtain j where j: "comes_back a v j" "emits a j"
    by (auto simp: list_all_iff)
  have "apart u a" if "u \<in> set us" for u
    using TUnion.prems(1) that by (auto simp: split sorted_wrt_append)
  from union_comes_back[OF split this j] j(2) split show ?case
    by (intro exI[of _ j]) (auto simp: emits_def)
next
  case TJson
  then have "plain v" by (auto elim: typed.cases)
  from plain_comes_back[OF this] obtain j where "\<forall>path. encode v path = Inr j \<and> passthrough j path = Inr v" ..
  then show ?case by (intro exI[of _ j]) (cases j; simp add: comes_back_def emits_def decode_cases)
next
  case (TData name fds)
  then obtain es where es: "v = VObj name es"
    "list_all2 (\<lambda>fd e. fst fd = fst e \<and> typed (fst (snd fd)) (snd e)) fds es"
    by (auto elim: typed_data_cases)
  have "list_all2 (\<lambda>fd e. fst fd = fst e \<and> (\<exists>j. comes_back (fst (snd fd)) (snd e) j)) fds es"
    unfolding list_all2_conv_all_nth
  proof (intro conjI allI impI)
    show "length fds = length es" using es(2) by (rule list_all2_lengthD)
    fix i assume i: "i < length fds"
    from es(2) i have "fst (fds ! i) = fst (es ! i) \<and> typed (fst (snd (fds ! i))) (snd (es ! i))"
      by (simp add: list_all2_conv_all_nth)
    moreover have "regular (fst (snd (fds ! i)))" using TData.prems(1) i by (simp add: list_all_length)
    ultimately show "fst (fds ! i) = fst (es ! i)" "\<exists>j. comes_back (fst (snd (fds ! i))) (snd (es ! i)) j"
      using TData.IH[of "fds ! i" "snd (fds ! i)" "fst (snd (fds ! i))"] i
      by (auto intro: fsts.intros snds.intros)
  qed
  moreover have "distinct (map fst fds)" using TData.prems(1) by simp
  ultimately obtain kvs where kvs: "map fst kvs = map fst fds"
    "\<forall>path. encode_entries es (field_path path) = Inr kvs \<and> decode_fields name fds kvs path = Inr es"
    using fields_come_back by blast
  then have "fst ` set kvs \<subseteq> fst ` set fds" by (metis order_refl set_map)
  with kvs es(1) show ?case
    by (intro exI[of _ "JObj kvs"]) (auto simp: comes_back_def emits_def decode_cases)
qed (auto simp: comes_back_def emits_def decode_cases elim: typed.cases
      intro: exI[of _ JNull] exI[of _ "JBool _"])

end
