(* ===== verification/IRCodec.thy ===== *)
theory IRCodec
  imports Codec Demo "HOL-Library.Monad_Syntax"
begin

text \<open>
  The IR's dataclasses as annotations of the codec, field by field with their defaults, and
  each record of the model as the codec's value and back. With them \<open>Scenario.to_json\<close> and
  \<open>Scenario.from_json\<close> are functions on the model's scenarios, and a scenario without
  non-finite floats comes back from its JSON unchanged.
\<close>

section \<open>Annotations\<close>

definition lit :: "string list \<Rightarrow> ann" where
  "lit ss = TLit (map JStr ss)"

abbreviation TOpt :: "ann \<Rightarrow> ann" where
  "TOpt t \<equiv> TUnion [t, TNull]"

abbreviation TRef :: "ann \<Rightarrow> ann" where
  "TRef t \<equiv> TUnion [t, TStr]"

definition ann_endpoint :: ann where
  "ann_endpoint = TData ''Endpoint'' [(''protocol'', TStr, None), (''port'', TInt, None),
     (''transport'', lit [''tcp'', ''udp''], None)]"

definition ann_tie :: ann where
  "ann_tie = TData ''Tie'' [(''name'', TStr, None), (''target_kind'', TStr, None),
     (''multiplicity'', lit [''single'', ''optional'', ''multiple''], None)]"

definition ann_floats :: ann where
  "ann_floats = TSeq TFloat"

definition ann_distribution :: ann where
  "ann_distribution = TData ''Distribution'' [(''family'', TStr, None), (''params'', TRef ann_floats, None)]"

definition ann_semi_markov :: ann where
  "ann_semi_markov = TData ''SemiMarkov'' [(''states'', TRef (TSeq TStr), None),
     (''initial'', TRef ann_floats, None), (''transitions'', TRef (TSeq ann_floats), None),
     (''dwell'', TRef (TSeq ann_distribution), None), (''rate'', TOpt TStr, None)]"

definition ann_scalar_arms :: "ann list" where
  "ann_scalar_arms = [TStr, TInt, TFloat, TBool]"

definition ann_choice :: ann where
  "ann_choice = TData ''Choice'' [(''options'', TSeq (TUnion ann_scalar_arms), None),
     (''weights'', ann_floats, None)]"

definition ann_choice_ref :: ann where
  "ann_choice_ref = TData ''ChoiceRef'' [(''resource'', TStr, None)]"

definition ann_param :: ann where
  "ann_param = TUnion (ann_scalar_arms @ [ann_choice, ann_choice_ref])"

definition ann_action :: ann where
  "ann_action = TData ''Action'' [(''signature'', TStr, None), (''tie'', TStr, None),
     (''params'', TDict ann_param, Some (VDict [])),
     (''select'', TOpt (lit [''all'', ''one'']), Some VNone)]"

definition ann_action_map :: ann where
  "ann_action_map = TDict (TOpt ann_action)"

definition ann_behaviour :: ann where
  "ann_behaviour = TData ''Behaviour'' [(''name'', TStr, None), (''process'', ann_semi_markov, None),
     (''action_map'', TRef ann_action_map, None)]"

definition ann_kind :: ann where
  "ann_kind = TData ''ActorKind'' [(''name'', TStr, None), (''serves'', TSeq ann_endpoint, None),
     (''ties'', TSeq ann_tie, None), (''behaviours'', TSeq ann_behaviour, None),
     (''platforms'', TSeq (lit [''linux'', ''windows'']), None), (''forwards'', TBool, Some (VBool False))]"

definition ann_host :: ann where
  "ann_host = TData ''Host'' [(''platform'', lit [''linux'', ''windows''], None),
     (''host_type'', lit [''container'', ''vm''], None), (''backend'', TStr, None), (''ref'', TStr, None),
     (''manifest'', TOpt TStr, None)]"

definition ann_selection :: ann where
  "ann_selection = TData ''ImplSelection'' [(''signature'', TStr, None),
     (''choices'', TRef (TDict TFloat), None)]"

definition ann_binding :: ann where
  "ann_binding = TData ''Binding'' [(''kind'', TStr, None), (''host'', ann_host, None),
     (''impls'', TSeq ann_selection, None), (''mac_oui'', TOpt TStr, Some VNone),
     (''credentials'', TOpt TStr, Some VNone)]"

definition ann_event :: ann where
  "ann_event = TData ''ScheduleEvent'' [(''at_s'', TFloat, None), (''target'', TStr, None),
     (''op'', lit [''start'', ''stop'', ''set_rate'', ''run_sequence''], None),
     (''arg'', TUnion [TStr, TFloat, TNull], None)]"

definition ann_sensor :: ann where
  "ann_sensor = TData ''SensorSpec'' [(''name'', TStr, None), (''impl'', TStr, None), (''version'', TStr, None),
     (''config'', TStr, None), (''mode'', lit [''offline'', ''live''], None),
     (''capabilities'', TSeq TStr, None), (''role'', lit [''label'', ''fit'', ''both''], None)]"

definition ann_provenance :: ann where
  "ann_provenance = TData ''FitProvenance'' [(''sensor'', TStr, None), (''capabilities_used'', TSeq TStr, None),
     (''coverage'', TDict TFloat, None)]"

definition ann_segment :: ann where
  "ann_segment = TData ''Segment'' [(''name'', TStr, None), (''cidr'', TStr, None),
     (''plane'', lit [''data'', ''management''], None), (''vlan'', TOpt TInt, Some VNone)]"

definition ann_capture_point :: ann where
  "ann_capture_point = TData ''CapturePoint'' [(''name'', TStr, None), (''segments'', TSeq TStr, None),
     (''tagged'', TBool, Some (VBool False))]"

definition ann_topology :: ann where
  "ann_topology = TData ''Topology'' [(''segments'', TSeq ann_segment, None),
     (''capture_points'', TSeq ann_capture_point, None), (''addresses'', TDict TStr, Some (VDict []))]"

definition ann_group :: ann where
  "ann_group = TData ''Group'' [(''name'', TStr, None), (''parent'', TOpt TStr, None),
     (''instances'', TDict TInt, None), (''attachments'', TDict (TSeq TStr), None),
     (''wiring'', TDict (TSeq TStr), Some (VDict []))]"

definition ann_scenario :: ann where
  "ann_scenario = TData ''Scenario'' [(''name'', TStr, None), (''kinds'', TSeq ann_kind, None),
     (''groups'', TSeq ann_group, None), (''bindings'', TSeq ann_binding, None),
     (''topology'', TRef ann_topology, None), (''egress'', lit [''stub'', ''allowlist'', ''none''], None),
     (''egress_overrides'', TDict TStr, None), (''schedule'', TSeq ann_event, None), (''start'', TStr, None),
     (''duration_s'', TFloat, None), (''capture_points'', TSeq TStr, None), (''sensors'', TSeq ann_sensor, None),
     (''fit_provenance'', TUnion [ann_provenance, TStr, TNull], None), (''seed'', TInt, None),
     (''coverage_floor'', TFloat, Some (VFloat (Fin (1 / 2))))]"

section \<open>Values\<close>

definition seq_val :: "('a \<Rightarrow> pyval) \<Rightarrow> 'a list \<Rightarrow> pyval" where
  "seq_val f xs = VTuple (map f xs)"

definition dict_val :: "('a \<Rightarrow> pyval) \<Rightarrow> (string, 'a) dict \<Rightarrow> pyval" where
  "dict_val f d = VDict (map (\<lambda>kv. (fst kv, f (snd kv))) d)"

definition opt_val :: "('a \<Rightarrow> pyval) \<Rightarrow> 'a option \<Rightarrow> pyval" where
  "opt_val f x = (case x of None \<Rightarrow> VNone | Some y \<Rightarrow> f y)"

definition ref_val :: "('a \<Rightarrow> pyval) \<Rightarrow> 'a ref \<Rightarrow> pyval" where
  "ref_val f r = (case r of Inline x \<Rightarrow> f x | Res n \<Rightarrow> VStr n)"

fun option_list :: "('a \<Rightarrow> 'b option) \<Rightarrow> 'a list \<Rightarrow> 'b list option" where
  "option_list f [] = Some []"
| "option_list f (x # xs) = do { y \<leftarrow> f x; ys \<leftarrow> option_list f xs; Some (y # ys) }"

fun un_str :: "pyval \<Rightarrow> string option" where
  "un_str (VStr s) = Some s" | "un_str _ = None"

fun un_int :: "pyval \<Rightarrow> int option" where
  "un_int (VInt i) = Some i" | "un_int _ = None"

fun un_float :: "pyval \<Rightarrow> pyfloat option" where
  "un_float (VFloat x) = Some x" | "un_float _ = None"

fun un_bool :: "pyval \<Rightarrow> bool option" where
  "un_bool (VBool b) = Some b" | "un_bool _ = None"

fun un_seq :: "(pyval \<Rightarrow> 'a option) \<Rightarrow> pyval \<Rightarrow> 'a list option" where
  "un_seq f (VTuple vs) = option_list f vs" | "un_seq f _ = None"

fun un_dict :: "(pyval \<Rightarrow> 'a option) \<Rightarrow> pyval \<Rightarrow> (string, 'a) dict option" where
  "un_dict f (VDict kvs) = option_list (\<lambda>kv. map_option (Pair (fst kv)) (f (snd kv))) kvs"
| "un_dict f _ = None"

fun un_opt :: "(pyval \<Rightarrow> 'a option) \<Rightarrow> pyval \<Rightarrow> 'a option option" where
  "un_opt f VNone = Some None" | "un_opt f v = map_option Some (f v)"

fun un_ref :: "(pyval \<Rightarrow> 'a option) \<Rightarrow> pyval \<Rightarrow> 'a ref option" where
  "un_ref f (VStr s) = Some (Res s)" | "un_ref f v = map_option Inline (f v)"

definition un_lit :: "('a \<Rightarrow> string) \<Rightarrow> 'a list \<Rightarrow> pyval \<Rightarrow> 'a option" where
  "un_lit str all v = (case v of VStr s \<Rightarrow> first_such (\<lambda>x. str x = s) all | _ \<Rightarrow> None)"

fun obj_fields :: "pyval \<Rightarrow> pyval list" where
  "obj_fields (VObj name es) = map snd es" | "obj_fields _ = []"

definition lit_val :: "('a \<Rightarrow> string) \<Rightarrow> 'a \<Rightarrow> pyval" where
  "lit_val str x = VStr (str x)"

definition floats_val :: "pyfloat list \<Rightarrow> pyval" where
  "floats_val = seq_val VFloat"

definition un_floats :: "pyval \<Rightarrow> pyfloat list option" where
  "un_floats = un_seq un_float"

definition strs_val :: "string list \<Rightarrow> pyval" where
  "strs_val = seq_val VStr"

definition un_strs :: "pyval \<Rightarrow> string list option" where
  "un_strs = un_seq un_str"

fun scalar_val :: "scalar \<Rightarrow> pyval" where
  "scalar_val (SStr s) = VStr s"
| "scalar_val (SInt i) = VInt i"
| "scalar_val (SFloat x) = VFloat x"
| "scalar_val (SBool b) = VBool b"

fun un_scalar :: "pyval \<Rightarrow> scalar option" where
  "un_scalar (VStr s) = Some (SStr s)"
| "un_scalar (VInt i) = Some (SInt i)"
| "un_scalar (VFloat x) = Some (SFloat x)"
| "un_scalar (VBool b) = Some (SBool b)"
| "un_scalar _ = None"

fun select_str :: "select_mode \<Rightarrow> string" where
  "select_str SelAll = ''all''"
| "select_str SelOne = ''one''"

fun role_str :: "sensor_role \<Rightarrow> string" where
  "role_str RoleLabel = ''label''"
| "role_str RoleFit = ''fit''"
| "role_str RoleBoth = ''both''"

fun plane_str :: "plane \<Rightarrow> string" where
  "plane_str DataPlane = ''data''"
| "plane_str ManagementPlane = ''management''"

fun arg_val :: "event_arg \<Rightarrow> pyval" where
  "arg_val (AStr s) = VStr s"
| "arg_val (ANum x) = VFloat x"
| "arg_val ANone = VNone"

fun un_arg :: "pyval \<Rightarrow> event_arg option" where
  "un_arg (VStr s) = Some (AStr s)"
| "un_arg (VFloat x) = Some (ANum x)"
| "un_arg VNone = Some ANone"
| "un_arg _ = None"

definition endpoint_val :: "endpoint \<Rightarrow> pyval" where
  "endpoint_val x = VObj ''Endpoint'' [(''protocol'', VStr (ep_protocol x)),
     (''port'', VInt (ep_port x)),
     (''transport'', lit_val transport_str (ep_transport x))]"

definition un_endpoint :: "pyval \<Rightarrow> endpoint option" where
  "un_endpoint v = (case obj_fields v of
     [v0, v1, v2] \<Rightarrow> do { x0 \<leftarrow> un_str v0; x1 \<leftarrow> un_int v1; x2 \<leftarrow> un_lit transport_str [Tcp, Udp] v2;
       Some \<lparr>ep_protocol = x0, ep_port = x1, ep_transport = x2\<rparr> }
   | _ \<Rightarrow> None)"

definition tie_val :: "tie \<Rightarrow> pyval" where
  "tie_val x = VObj ''Tie'' [(''name'', VStr (tie_name x)),
     (''target_kind'', VStr (tie_target_kind x)),
     (''multiplicity'', lit_val multiplicity_str (tie_multiplicity x))]"

definition un_tie :: "pyval \<Rightarrow> tie option" where
  "un_tie v = (case obj_fields v of
     [v0, v1, v2] \<Rightarrow> do { x0 \<leftarrow> un_str v0; x1 \<leftarrow> un_str v1; x2 \<leftarrow> un_lit multiplicity_str [Single, Optional, Multiple] v2;
       Some \<lparr>tie_name = x0, tie_target_kind = x1, tie_multiplicity = x2\<rparr> }
   | _ \<Rightarrow> None)"

definition distribution_val :: "distribution \<Rightarrow> pyval" where
  "distribution_val x = VObj ''Distribution'' [(''family'', VStr (dist_family x)),
     (''params'', ref_val floats_val (dist_params x))]"

definition un_distribution :: "pyval \<Rightarrow> distribution option" where
  "un_distribution v = (case obj_fields v of
     [v0, v1] \<Rightarrow> do { x0 \<leftarrow> un_str v0; x1 \<leftarrow> un_ref un_floats v1;
       Some \<lparr>dist_family = x0, dist_params = x1\<rparr> }
   | _ \<Rightarrow> None)"

definition semi_markov_val :: "semi_markov \<Rightarrow> pyval" where
  "semi_markov_val x = VObj ''SemiMarkov'' [(''states'', ref_val strs_val (sm_states x)),
     (''initial'', ref_val floats_val (sm_initial x)),
     (''transitions'', ref_val (seq_val floats_val) (sm_transitions x)),
     (''dwell'', ref_val (seq_val distribution_val) (sm_dwell x)),
     (''rate'', opt_val VStr (sm_rate x))]"

definition un_semi_markov :: "pyval \<Rightarrow> semi_markov option" where
  "un_semi_markov v = (case obj_fields v of
     [v0, v1, v2, v3, v4] \<Rightarrow> do { x0 \<leftarrow> un_ref un_strs v0; x1 \<leftarrow> un_ref un_floats v1; x2 \<leftarrow> un_ref (un_seq un_floats) v2; x3 \<leftarrow> un_ref (un_seq un_distribution) v3; x4 \<leftarrow> un_opt un_str v4;
       Some \<lparr>sm_states = x0, sm_initial = x1, sm_transitions = x2, sm_dwell = x3, sm_rate = x4\<rparr> }
   | _ \<Rightarrow> None)"

definition choice_val :: "choice \<Rightarrow> pyval" where
  "choice_val x = VObj ''Choice'' [(''options'', seq_val scalar_val (ch_options x)),
     (''weights'', floats_val (ch_weights x))]"

definition un_choice :: "pyval \<Rightarrow> choice option" where
  "un_choice v = (case obj_fields v of
     [v0, v1] \<Rightarrow> do { x0 \<leftarrow> un_seq un_scalar v0; x1 \<leftarrow> un_floats v1;
       Some \<lparr>ch_options = x0, ch_weights = x1\<rparr> }
   | _ \<Rightarrow> None)"

fun param_val :: "param_value \<Rightarrow> pyval" where
  "param_val (PScalar s) = scalar_val s"
| "param_val (PChoice c) = choice_val c"
| "param_val (PChoiceRef r) = VObj ''ChoiceRef'' [(''resource'', VStr r)]"

definition un_param :: "pyval \<Rightarrow> param_value option" where
  "un_param v = (case v of
     VObj name es \<Rightarrow>
       if name = ''ChoiceRef'' then (case map snd es of [w] \<Rightarrow> map_option PChoiceRef (un_str w) | _ \<Rightarrow> None)
       else map_option PChoice (un_choice v)
   | _ \<Rightarrow> map_option PScalar (un_scalar v))"

definition action_val :: "action \<Rightarrow> pyval" where
  "action_val x = VObj ''Action'' [(''signature'', VStr (act_signature x)),
     (''tie'', VStr (act_tie x)),
     (''params'', dict_val param_val (act_params x)),
     (''select'', opt_val (lit_val select_str) (act_select x))]"

definition un_action :: "pyval \<Rightarrow> action option" where
  "un_action v = (case obj_fields v of
     [v0, v1, v2, v3] \<Rightarrow> do { x0 \<leftarrow> un_str v0; x1 \<leftarrow> un_str v1; x2 \<leftarrow> un_dict un_param v2; x3 \<leftarrow> un_opt (un_lit select_str [SelAll, SelOne]) v3;
       Some \<lparr>act_signature = x0, act_tie = x1, act_params = x2, act_select = x3\<rparr> }
   | _ \<Rightarrow> None)"

definition action_map_val :: "(string, action option) dict \<Rightarrow> pyval" where
  "action_map_val = dict_val (opt_val action_val)"

definition un_action_map :: "pyval \<Rightarrow> (string, action option) dict option" where
  "un_action_map = un_dict (un_opt un_action)"

definition behaviour_val :: "behaviour \<Rightarrow> pyval" where
  "behaviour_val x = VObj ''Behaviour'' [(''name'', VStr (beh_name x)),
     (''process'', semi_markov_val (beh_process x)),
     (''action_map'', ref_val action_map_val (beh_action_map x))]"

definition un_behaviour :: "pyval \<Rightarrow> behaviour option" where
  "un_behaviour v = (case obj_fields v of
     [v0, v1, v2] \<Rightarrow> do { x0 \<leftarrow> un_str v0; x1 \<leftarrow> un_semi_markov v1; x2 \<leftarrow> un_ref un_action_map v2;
       Some \<lparr>beh_name = x0, beh_process = x1, beh_action_map = x2\<rparr> }
   | _ \<Rightarrow> None)"

definition kind_val :: "actor_kind \<Rightarrow> pyval" where
  "kind_val x = VObj ''ActorKind'' [(''name'', VStr (kd_name x)),
     (''serves'', seq_val endpoint_val (kd_serves x)),
     (''ties'', seq_val tie_val (kd_ties x)),
     (''behaviours'', seq_val behaviour_val (kd_behaviours x)),
     (''platforms'', seq_val (lit_val platform_str) (kd_platforms x)),
     (''forwards'', VBool (kd_forwards x))]"

definition un_kind :: "pyval \<Rightarrow> actor_kind option" where
  "un_kind v = (case obj_fields v of
     [v0, v1, v2, v3, v4, v5] \<Rightarrow> do { x0 \<leftarrow> un_str v0; x1 \<leftarrow> un_seq un_endpoint v1; x2 \<leftarrow> un_seq un_tie v2; x3 \<leftarrow> un_seq un_behaviour v3; x4 \<leftarrow> un_seq (un_lit platform_str [Linux, Windows]) v4; x5 \<leftarrow> un_bool v5;
       Some \<lparr>kd_name = x0, kd_serves = x1, kd_ties = x2, kd_behaviours = x3, kd_platforms = x4, kd_forwards = x5\<rparr> }
   | _ \<Rightarrow> None)"

definition host_val :: "host \<Rightarrow> pyval" where
  "host_val x = VObj ''Host'' [(''platform'', lit_val platform_str (ho_platform x)),
     (''host_type'', lit_val host_type_str (ho_host_type x)),
     (''backend'', VStr (ho_backend x)),
     (''ref'', VStr (ho_ref x)),
     (''manifest'', opt_val VStr (ho_manifest x))]"

definition un_host :: "pyval \<Rightarrow> host option" where
  "un_host v = (case obj_fields v of
     [v0, v1, v2, v3, v4] \<Rightarrow> do { x0 \<leftarrow> un_lit platform_str [Linux, Windows] v0; x1 \<leftarrow> un_lit host_type_str [Container, Vm] v1; x2 \<leftarrow> un_str v2; x3 \<leftarrow> un_str v3; x4 \<leftarrow> un_opt un_str v4;
       Some \<lparr>ho_platform = x0, ho_host_type = x1, ho_backend = x2, ho_ref = x3, ho_manifest = x4\<rparr> }
   | _ \<Rightarrow> None)"

definition selection_val :: "impl_selection \<Rightarrow> pyval" where
  "selection_val x = VObj ''ImplSelection'' [(''signature'', VStr (sel_signature x)),
     (''choices'', ref_val (dict_val VFloat) (sel_choices x))]"

definition un_selection :: "pyval \<Rightarrow> impl_selection option" where
  "un_selection v = (case obj_fields v of
     [v0, v1] \<Rightarrow> do { x0 \<leftarrow> un_str v0; x1 \<leftarrow> un_ref (un_dict un_float) v1;
       Some \<lparr>sel_signature = x0, sel_choices = x1\<rparr> }
   | _ \<Rightarrow> None)"

definition binding_val :: "binding \<Rightarrow> pyval" where
  "binding_val x = VObj ''Binding'' [(''kind'', VStr (bi_kind x)),
     (''host'', host_val (bi_host x)),
     (''impls'', seq_val selection_val (bi_impls x)),
     (''mac_oui'', opt_val VStr (bi_mac_oui x)),
     (''credentials'', opt_val VStr (bi_credentials x))]"

definition un_binding :: "pyval \<Rightarrow> binding option" where
  "un_binding v = (case obj_fields v of
     [v0, v1, v2, v3, v4] \<Rightarrow> do { x0 \<leftarrow> un_str v0; x1 \<leftarrow> un_host v1; x2 \<leftarrow> un_seq un_selection v2; x3 \<leftarrow> un_opt un_str v3; x4 \<leftarrow> un_opt un_str v4;
       Some \<lparr>bi_kind = x0, bi_host = x1, bi_impls = x2, bi_mac_oui = x3, bi_credentials = x4\<rparr> }
   | _ \<Rightarrow> None)"

definition event_val :: "schedule_event \<Rightarrow> pyval" where
  "event_val x = VObj ''ScheduleEvent'' [(''at_s'', VFloat (ev_at_s x)),
     (''target'', VStr (ev_target x)),
     (''op'', lit_val op_str (ev_op x)),
     (''arg'', arg_val (ev_arg x))]"

definition un_event :: "pyval \<Rightarrow> schedule_event option" where
  "un_event v = (case obj_fields v of
     [v0, v1, v2, v3] \<Rightarrow> do { x0 \<leftarrow> un_float v0; x1 \<leftarrow> un_str v1; x2 \<leftarrow> un_lit op_str [OpStart, OpStop, OpSetRate, OpRunSequence] v2; x3 \<leftarrow> un_arg v3;
       Some \<lparr>ev_at_s = x0, ev_target = x1, ev_op = x2, ev_arg = x3\<rparr> }
   | _ \<Rightarrow> None)"

definition sensor_val :: "sensor_spec \<Rightarrow> pyval" where
  "sensor_val x = VObj ''SensorSpec'' [(''name'', VStr (ss_name x)),
     (''impl'', VStr (ss_impl x)),
     (''version'', VStr (ss_version x)),
     (''config'', VStr (ss_config x)),
     (''mode'', lit_val mode_str (ss_mode x)),
     (''capabilities'', strs_val (ss_capabilities x)),
     (''role'', lit_val role_str (ss_role x))]"

definition un_sensor :: "pyval \<Rightarrow> sensor_spec option" where
  "un_sensor v = (case obj_fields v of
     [v0, v1, v2, v3, v4, v5, v6] \<Rightarrow> do { x0 \<leftarrow> un_str v0; x1 \<leftarrow> un_str v1; x2 \<leftarrow> un_str v2; x3 \<leftarrow> un_str v3; x4 \<leftarrow> un_lit mode_str [Offline, Live] v4; x5 \<leftarrow> un_strs v5; x6 \<leftarrow> un_lit role_str [RoleLabel, RoleFit, RoleBoth] v6;
       Some \<lparr>ss_name = x0, ss_impl = x1, ss_version = x2, ss_config = x3, ss_mode = x4, ss_capabilities = x5, ss_role = x6\<rparr> }
   | _ \<Rightarrow> None)"

definition provenance_val :: "fit_provenance \<Rightarrow> pyval" where
  "provenance_val x = VObj ''FitProvenance'' [(''sensor'', VStr (fp_sensor x)),
     (''capabilities_used'', strs_val (fp_capabilities_used x)),
     (''coverage'', dict_val VFloat (fp_coverage x))]"

definition un_provenance :: "pyval \<Rightarrow> fit_provenance option" where
  "un_provenance v = (case obj_fields v of
     [v0, v1, v2] \<Rightarrow> do { x0 \<leftarrow> un_str v0; x1 \<leftarrow> un_strs v1; x2 \<leftarrow> un_dict un_float v2;
       Some \<lparr>fp_sensor = x0, fp_capabilities_used = x1, fp_coverage = x2\<rparr> }
   | _ \<Rightarrow> None)"

definition segment_val :: "segment \<Rightarrow> pyval" where
  "segment_val x = VObj ''Segment'' [(''name'', VStr (seg_name x)),
     (''cidr'', VStr (seg_cidr x)),
     (''plane'', lit_val plane_str (seg_plane x)),
     (''vlan'', opt_val VInt (seg_vlan x))]"

definition un_segment :: "pyval \<Rightarrow> segment option" where
  "un_segment v = (case obj_fields v of
     [v0, v1, v2, v3] \<Rightarrow> do { x0 \<leftarrow> un_str v0; x1 \<leftarrow> un_str v1; x2 \<leftarrow> un_lit plane_str [DataPlane, ManagementPlane] v2; x3 \<leftarrow> un_opt un_int v3;
       Some \<lparr>seg_name = x0, seg_cidr = x1, seg_plane = x2, seg_vlan = x3\<rparr> }
   | _ \<Rightarrow> None)"

definition capture_point_val :: "capture_point \<Rightarrow> pyval" where
  "capture_point_val x = VObj ''CapturePoint'' [(''name'', VStr (cp_name x)),
     (''segments'', strs_val (cp_segments x)),
     (''tagged'', VBool (cp_tagged x))]"

definition un_capture_point :: "pyval \<Rightarrow> capture_point option" where
  "un_capture_point v = (case obj_fields v of
     [v0, v1, v2] \<Rightarrow> do { x0 \<leftarrow> un_str v0; x1 \<leftarrow> un_strs v1; x2 \<leftarrow> un_bool v2;
       Some \<lparr>cp_name = x0, cp_segments = x1, cp_tagged = x2\<rparr> }
   | _ \<Rightarrow> None)"

definition topology_val :: "topology \<Rightarrow> pyval" where
  "topology_val x = VObj ''Topology'' [(''segments'', seq_val segment_val (top_segments x)),
     (''capture_points'', seq_val capture_point_val (top_capture_points x)),
     (''addresses'', dict_val VStr (top_addresses x))]"

definition un_topology :: "pyval \<Rightarrow> topology option" where
  "un_topology v = (case obj_fields v of
     [v0, v1, v2] \<Rightarrow> do { x0 \<leftarrow> un_seq un_segment v0; x1 \<leftarrow> un_seq un_capture_point v1; x2 \<leftarrow> un_dict un_str v2;
       Some \<lparr>top_segments = x0, top_capture_points = x1, top_addresses = x2\<rparr> }
   | _ \<Rightarrow> None)"

definition group_val :: "group \<Rightarrow> pyval" where
  "group_val x = VObj ''Group'' [(''name'', VStr (gr_name x)),
     (''parent'', opt_val VStr (gr_parent x)),
     (''instances'', dict_val VInt (gr_instances x)),
     (''attachments'', dict_val strs_val (gr_attachments x)),
     (''wiring'', dict_val strs_val (gr_wiring x))]"

definition un_group :: "pyval \<Rightarrow> group option" where
  "un_group v = (case obj_fields v of
     [v0, v1, v2, v3, v4] \<Rightarrow> do { x0 \<leftarrow> un_str v0; x1 \<leftarrow> un_opt un_str v1; x2 \<leftarrow> un_dict un_int v2; x3 \<leftarrow> un_dict un_strs v3; x4 \<leftarrow> un_dict un_strs v4;
       Some \<lparr>gr_name = x0, gr_parent = x1, gr_instances = x2, gr_attachments = x3, gr_wiring = x4\<rparr> }
   | _ \<Rightarrow> None)"

definition scenario_val :: "scenario \<Rightarrow> pyval" where
  "scenario_val x = VObj ''Scenario'' [(''name'', VStr (sc_name x)),
     (''kinds'', seq_val kind_val (sc_kinds x)),
     (''groups'', seq_val group_val (sc_groups x)),
     (''bindings'', seq_val binding_val (sc_bindings x)),
     (''topology'', ref_val topology_val (sc_topology x)),
     (''egress'', lit_val egress_str (sc_egress x)),
     (''egress_overrides'', dict_val VStr (sc_egress_overrides x)),
     (''schedule'', seq_val event_val (sc_schedule x)),
     (''start'', VStr (sc_start x)),
     (''duration_s'', VFloat (sc_duration_s x)),
     (''capture_points'', strs_val (sc_capture_points x)),
     (''sensors'', seq_val sensor_val (sc_sensors x)),
     (''fit_provenance'', opt_val (ref_val provenance_val) (sc_fit_provenance x)),
     (''seed'', VInt (sc_seed x)),
     (''coverage_floor'', VFloat (sc_coverage_floor x))]"

definition un_scenario :: "pyval \<Rightarrow> scenario option" where
  "un_scenario v = (case obj_fields v of
     [v0, v1, v2, v3, v4, v5, v6, v7, v8, v9, v10, v11, v12, v13, v14] \<Rightarrow> do { x0 \<leftarrow> un_str v0; x1 \<leftarrow> un_seq un_kind v1; x2 \<leftarrow> un_seq un_group v2; x3 \<leftarrow> un_seq un_binding v3; x4 \<leftarrow> un_ref un_topology v4; x5 \<leftarrow> un_lit egress_str [EgressStub, EgressAllowlist, EgressNone] v5; x6 \<leftarrow> un_dict un_str v6; x7 \<leftarrow> un_seq un_event v7; x8 \<leftarrow> un_str v8; x9 \<leftarrow> un_float v9; x10 \<leftarrow> un_strs v10; x11 \<leftarrow> un_seq un_sensor v11; x12 \<leftarrow> un_opt (un_ref un_provenance) v12; x13 \<leftarrow> un_int v13; x14 \<leftarrow> un_float v14;
       Some \<lparr>sc_name = x0, sc_kinds = x1, sc_groups = x2, sc_bindings = x3, sc_topology = x4, sc_egress = x5, sc_egress_overrides = x6, sc_schedule = x7, sc_start = x8, sc_duration_s = x9, sc_capture_points = x10, sc_sensors = x11, sc_fit_provenance = x12, sc_seed = x13, sc_coverage_floor = x14\<rparr> }
   | _ \<Rightarrow> None)"

definition scenario_to_json :: "scenario \<Rightarrow> codec_error + json" where
  "scenario_to_json s = to_json (scenario_val s)"

definition scenario_from_json :: "json \<Rightarrow> codec_error + scenario option" where
  "scenario_from_json data = map_sum id un_scenario (from_json ann_scenario data)"

section \<open>The contract between a class and the codec\<close>

fun finite_val :: "pyval \<Rightarrow> bool" where
  "finite_val (VFloat x) = fl_isfinite x"
| "finite_val (VTuple vs) = list_all finite_val vs"
| "finite_val (VList vs) = list_all finite_val vs"
| "finite_val (VDict kvs) = list_all (\<lambda>kv. finite_val (snd kv)) kvs"
| "finite_val (VObj name es) = list_all (\<lambda>kv. finite_val (snd kv)) es"
| "finite_val _ = True"

text \<open>An annotation, a conversion to values and one back belong together.\<close>

locale wire =
  fixes tp :: ann and to_val :: "'a \<Rightarrow> pyval" and of_val :: "pyval \<Rightarrow> 'a option"
  assumes regular: "regular tp" and dflt: "defaults_ok tp"
    and typed: "finite_val (to_val x) \<Longrightarrow> typed tp (to_val x)"
    and back_again: "of_val (to_val x) = Some x"
    and reads: "typed tp v \<Longrightarrow> \<exists>x. of_val v = Some x"
begin

lemma round_trip:
  assumes "finite_val (to_val x)"
  shows "\<exists>j. to_json (to_val x) = Inr j \<and> map_sum id of_val (from_json tp j) = Inr (Some x)"
proof -
  from comes_back[OF regular typed[OF assms]] obtain j where "comes_back tp (to_val x) j" by blast
  then show ?thesis
    by (intro exI[of _ j]) (simp add: comes_back_def to_json_def from_json_def back_again)
qed

lemma decoded_reads:
  assumes "decode tp data path = Inr v"
  shows "\<exists>x. of_val v = Some x"
  by (rule reads[OF decode_typed[OF assms dflt]])

end

inductive_simps typed_simps [simp]:
  "typed TNull v" "typed TBool v" "typed TInt v" "typed TFloat v" "typed TStr v" "typed (TSeq t) v"
  "typed (TDict t) v" "typed (TUnion arms) v" "typed (TData name fds) v" "typed (TLit vals) v"

lemma finite_float [simp]: "fl_isfinite x \<longleftrightarrow> (\<exists>r. x = Fin r)"
  by (cases x) auto

lemma option_list_map: "(\<And>x. x \<in> set xs \<Longrightarrow> g (f x) = Some (h x)) \<Longrightarrow> option_list g (map f xs) = Some (map h xs)"
  by (induction xs) auto

lemma option_list_total: "list_all (\<lambda>x. \<exists>y. g x = Some y) xs \<Longrightarrow> \<exists>ys. option_list g xs = Some ys"
  by (induction xs) auto

lemma wire_str [intro, simp]: "wire TStr VStr un_str"
  by unfold_locales auto

lemma wire_int [intro, simp]: "wire TInt VInt un_int"
  by unfold_locales auto

lemma wire_bool [intro, simp]: "wire TBool VBool un_bool"
  by unfold_locales auto

lemma wire_float [intro, simp]: "wire TFloat VFloat un_float"
  by unfold_locales auto

lemma wire_seq [intro]:
  assumes "wire t f g"
  shows "wire (TSeq t) (seq_val f) (un_seq g)"
proof
  note w = wire.regular[OF assms] wire.dflt[OF assms] wire.typed[OF assms] wire.back_again[OF assms]
    wire.reads[OF assms]
  show "regular (TSeq t)" "defaults_ok (TSeq t)" using w(1,2) by simp_all
  show "typed (TSeq t) (seq_val f x)" if "finite_val (seq_val f x)" for x
    using that w(3) by (auto simp: seq_val_def list_all_iff)
  show "un_seq g (seq_val f x) = Some x" for x
    using option_list_map[of x g f id] w(4) by (simp add: seq_val_def)
  show "\<exists>x. un_seq g v = Some x" if "typed (TSeq t) v" for v
    using that w(5) option_list_total[of g] by (fastforce simp: list_all_iff)
qed

lemma wire_dict [intro]:
  assumes "wire t f g"
  shows "wire (TDict t) (dict_val f) (un_dict g)"
proof
  note w = wire.regular[OF assms] wire.dflt[OF assms] wire.typed[OF assms] wire.back_again[OF assms]
    wire.reads[OF assms]
  show "regular (TDict t)" "defaults_ok (TDict t)" using w(1,2) by simp_all
  show "typed (TDict t) (dict_val f x)" if "finite_val (dict_val f x)" for x
    using that w(3) by (auto simp: dict_val_def list_all_iff)
  show "un_dict g (dict_val f x) = Some x" for x
    using option_list_map[of x "\<lambda>kv. map_option (Pair (fst kv)) (g (snd kv))" "\<lambda>kv. (fst kv, f (snd kv))" id] w(4)
    by (simp add: dict_val_def)
  show "\<exists>x. un_dict g v = Some x" if "typed (TDict t) v" for v
  proof -
    from that obtain kvs where v: "v = VDict kvs" and kvs: "list_all (\<lambda>kv. typed t (snd kv)) kvs" by auto
    have "list_all (\<lambda>kv. \<exists>y. map_option (Pair (fst kv)) (g (snd kv)) = Some y) kvs"
      using kvs w(5) by (fastforce simp: list_all_iff)
    from option_list_total[OF this] v show ?thesis by simp
  qed
qed

lemma wire_lit [intro]:
  assumes "ss = map str all" "\<And>x. x \<in> set all" "inj str"
  shows "wire (lit ss) (lit_val str) (un_lit str all)"
proof
  show "regular (lit ss)" "defaults_ok (lit ss)" by (simp_all add: lit_def list_all_iff)
  show "typed (lit ss) (lit_val str x)" for x
  proof -
    have "JStr (str x) \<in> set (map JStr ss)" using assms(1,2) by simp
    from typed.lit[OF this] show ?thesis by (simp add: lit_def lit_val_def)
  qed
  show "un_lit str all (lit_val str x) = Some x" for x
    using assms(2,3) by (auto simp: un_lit_def lit_val_def dest: injD intro!: first_such_unique)
  show "\<exists>x. un_lit str all v = Some x" if "typed (lit ss) v" for v
  proof -
    from that assms(1) obtain x where "x \<in> set all" "v = VStr (str x)" by (auto simp: lit_def)
    with first_such_ex[of x all "\<lambda>y. str y = str x"] show ?thesis by (simp add: un_lit_def)
  qed
qed

text \<open>\<open>T | None\<close> and \<open>T | str\<close>, for a \<open>T\<close> that is neither.\<close>

lemma wire_opt [intro]:
  assumes "wire t f g" "ShNull \<notin> set (shapes t)" "apart t TNull"
  shows "wire (TOpt t) (opt_val f) (un_opt g)"
proof
  note w = wire.regular[OF assms(1)] wire.dflt[OF assms(1)] wire.typed[OF assms(1)] wire.back_again[OF assms(1)]
    wire.reads[OF assms(1)]
  have no: "\<not> typed t VNone"
    using comes_back[OF w(1), of VNone] assms(2) by (auto simp: comes_back_def emits_def)
  have fv: "f x \<noteq> VNone" for x
    using w(3)[of x] no by (cases "f x") auto
  have step: "un_opt g v = map_option Some (g v)" if "v \<noteq> VNone" for v using that by (cases v) auto
  show "regular (TOpt t)" "defaults_ok (TOpt t)" using w(1,2) assms(3) by simp_all
  show "typed (TOpt t) (opt_val f x)" if "finite_val (opt_val f x)" for x
    using that w(3) by (cases x) (auto simp: opt_val_def)
  show "un_opt g (opt_val f x) = Some x" for x
    using w(4) fv step by (cases x) (auto simp: opt_val_def)
  show "\<exists>x. un_opt g v = Some x" if "typed (TOpt t) v" for v
    using that w(5)[of v] step[of v] by (cases "v = VNone") auto
qed

lemma wire_ref [intro]:
  assumes "wire t f g" "ShString \<notin> set (shapes t)" "apart t TStr"
  shows "wire (TRef t) (ref_val f) (un_ref g)"
proof
  note w = wire.regular[OF assms(1)] wire.dflt[OF assms(1)] wire.typed[OF assms(1)] wire.back_again[OF assms(1)]
    wire.reads[OF assms(1)]
  have no: "\<not> typed t (VStr s)" for s
    using comes_back[OF w(1), of "VStr s"] assms(2) by (auto simp: comes_back_def emits_def)
  have fv: "f x \<noteq> VStr s" for x s
    using w(3)[of x] no by (cases "f x") auto
  have step: "un_ref g v = map_option Inline (g v)" if "\<nexists>s. v = VStr s" for v using that by (cases v) auto
  show "regular (TRef t)" "defaults_ok (TRef t)" using w(1,2) assms(3) by simp_all
  show "typed (TRef t) (ref_val f x)" if "finite_val (ref_val f x)" for x
    using that w(3) by (cases x) (auto simp: ref_val_def)
  show "un_ref g (ref_val f x) = Some x" for x
    using w(4) fv step by (cases x) (auto simp: ref_val_def)
  show "\<exists>x. un_ref g v = Some x" if "typed (TRef t) v" for v
    using that w(5)[of v] step[of v] by (cases "\<exists>s. v = VStr s") auto
qed


declare typed_simps [simp del]

lemma typed_union: "typed (TUnion arms) v \<longleftrightarrow> list_ex (\<lambda>arm. typed arm v) arms"
  by (auto simp: typed_simps list_ex_iff)

lemmas typed_forms = typed_simps(1-7) typed_union typed_simps(9,10)

lemma total_bind: "\<exists>x. a = Some x \<Longrightarrow> (\<And>x. \<exists>y. f x = Some y) \<Longrightarrow> \<exists>y. Option.bind a f = Some y"
  by auto

text \<open>A dataclass: its fields belong together, field by field.\<close>

lemma wire_data:
  assumes tp: "tp = TData name fds" and val: "\<And>x. to_val x = VObj name (es x)"
    and names: "distinct (map fst fds)"
    and parts: "list_all (\<lambda>fd. regular (fst (snd fd))) fds"
    and dflt: "list_all (\<lambda>fd. defaults_ok (fst (snd fd)) \<and> (\<forall>v. snd (snd fd) = Some v \<longrightarrow> typed (fst (snd fd)) v)) fds"
    and types: "\<And>x. list_all (\<lambda>kv. finite_val (snd kv)) (es x) \<Longrightarrow>
      list_all2 (\<lambda>fd e. fst fd = fst e \<and> typed (fst (snd fd)) (snd e)) fds (es x)"
    and brings: "\<And>x. of_val (VObj name (es x)) = Some x"
    and reads: "\<And>vs. list_all2 (\<lambda>fd e. fst fd = fst e \<and> typed (fst (snd fd)) (snd e)) fds vs \<Longrightarrow>
      \<exists>x. of_val (VObj name vs) = Some x"
  shows "wire tp to_val of_val"
proof
  show "regular tp" "defaults_ok tp" using names parts dflt by (simp_all add: tp)
  show "typed tp (to_val x)" if "finite_val (to_val x)" for x
    using types[of x] that by (simp add: tp val typed.data)
  show "of_val (to_val x) = Some x" for x using brings by (simp add: val)
  show "\<exists>x. of_val v = Some x" if "typed tp v" for v
    using that reads by (auto simp: tp elim!: typed_data_cases)
qed

lemma typed_defaults [simp]:
  "typed (TDict t) (VDict [])" "typed (TOpt t) VNone" "typed TBool (VBool b)" "typed TFloat (VFloat (Fin r))"
  by (simp_all add: typed_forms)

declare regular.simps [simp del] defaults_ok.simps [simp del]

lemma wire_floats: "wire ann_floats floats_val un_floats"
  unfolding ann_floats_def floats_val_def un_floats_def by (rule wire_seq) simp

lemma wire_strs: "wire (TSeq TStr) strs_val un_strs"
  unfolding strs_val_def un_strs_def by (rule wire_seq) simp

lemma literal_inj:
  "inj transport_str"
  "inj multiplicity_str"
  "inj select_str"
  "inj platform_str"
  "inj host_type_str"
  "inj op_str"
  "inj mode_str"
  "inj role_str"
  "inj plane_str"
  "inj egress_str"
  by (intro injI; rename_tac x y; case_tac x; case_tac y; simp)+

lemma literal_all:
  "\<And>x. x \<in> set [Tcp, Udp]"
  "\<And>x. x \<in> set [Single, Optional, Multiple]"
  "\<And>x. x \<in> set [SelAll, SelOne]"
  "\<And>x. x \<in> set [Linux, Windows]"
  "\<And>x. x \<in> set [Container, Vm]"
  "\<And>x. x \<in> set [OpStart, OpStop, OpSetRate, OpRunSequence]"
  "\<And>x. x \<in> set [Offline, Live]"
  "\<And>x. x \<in> set [RoleLabel, RoleFit, RoleBoth]"
  "\<And>x. x \<in> set [DataPlane, ManagementPlane]"
  "\<And>x. x \<in> set [EgressStub, EgressAllowlist, EgressNone]"
  by (case_tac x; simp)+

lemma wire_transport: "wire (lit [''tcp'', ''udp'']) (lit_val transport_str) (un_lit transport_str [Tcp, Udp])"
  by (rule wire_lit[OF _ literal_all(1) literal_inj(1)]) simp

lemma wire_multiplicity: "wire (lit [''single'', ''optional'', ''multiple'']) (lit_val multiplicity_str) (un_lit multiplicity_str [Single, Optional, Multiple])"
  by (rule wire_lit[OF _ literal_all(2) literal_inj(2)]) simp

lemma wire_select: "wire (lit [''all'', ''one'']) (lit_val select_str) (un_lit select_str [SelAll, SelOne])"
  by (rule wire_lit[OF _ literal_all(3) literal_inj(3)]) simp

lemma wire_platform: "wire (lit [''linux'', ''windows'']) (lit_val platform_str) (un_lit platform_str [Linux, Windows])"
  by (rule wire_lit[OF _ literal_all(4) literal_inj(4)]) simp

lemma wire_host_type: "wire (lit [''container'', ''vm'']) (lit_val host_type_str) (un_lit host_type_str [Container, Vm])"
  by (rule wire_lit[OF _ literal_all(5) literal_inj(5)]) simp

lemma wire_op: "wire (lit [''start'', ''stop'', ''set_rate'', ''run_sequence'']) (lit_val op_str) (un_lit op_str [OpStart, OpStop, OpSetRate, OpRunSequence])"
  by (rule wire_lit[OF _ literal_all(6) literal_inj(6)]) simp

lemma wire_mode: "wire (lit [''offline'', ''live'']) (lit_val mode_str) (un_lit mode_str [Offline, Live])"
  by (rule wire_lit[OF _ literal_all(7) literal_inj(7)]) simp

lemma wire_role: "wire (lit [''label'', ''fit'', ''both'']) (lit_val role_str) (un_lit role_str [RoleLabel, RoleFit, RoleBoth])"
  by (rule wire_lit[OF _ literal_all(8) literal_inj(8)]) simp

lemma wire_plane: "wire (lit [''data'', ''management'']) (lit_val plane_str) (un_lit plane_str [DataPlane, ManagementPlane])"
  by (rule wire_lit[OF _ literal_all(9) literal_inj(9)]) simp

lemma wire_egress: "wire (lit [''stub'', ''allowlist'', ''none'']) (lit_val egress_str) (un_lit egress_str [EgressStub, EgressAllowlist, EgressNone])"
  by (rule wire_lit[OF _ literal_all(10) literal_inj(10)]) simp

lemma wire_scalar: "wire (TUnion ann_scalar_arms) scalar_val un_scalar"
proof
  show "typed (TUnion ann_scalar_arms) (scalar_val x)" if "finite_val (scalar_val x)" for x
    using that by (cases x) (auto simp: ann_scalar_arms_def typed_forms)
  show "un_scalar (scalar_val x) = Some x" for x by (cases x) auto
  show "\<exists>x. un_scalar v = Some x" if "typed (TUnion ann_scalar_arms) v" for v
    using that by (auto simp: ann_scalar_arms_def typed_forms)
qed (simp_all add: ann_scalar_arms_def regular.simps defaults_ok.simps)

lemma wire_arg: "wire (TUnion [TStr, TFloat, TNull]) arg_val un_arg"
proof
  show "typed (TUnion [TStr, TFloat, TNull]) (arg_val x)" if "finite_val (arg_val x)" for x
    using that by (cases x) (auto simp: typed_forms)
  show "un_arg (arg_val x) = Some x" for x by (cases x) auto
  show "\<exists>x. un_arg v = Some x" if "typed (TUnion [TStr, TFloat, TNull]) v" for v
    using that by (auto simp: typed_forms)
qed (simp_all add: regular.simps defaults_ok.simps)

lemmas ann_defs = ann_floats_def ann_distribution_def ann_action_def ann_action_map_def ann_topology_def

lemmas endpoint_fields = wire_str wire_int wire_transport

lemma wire_endpoint: "wire ann_endpoint endpoint_val un_endpoint"
  by (rule wire_data[OF ann_endpoint_def endpoint_val_def])
    (auto simp: un_endpoint_def list_all2_Cons1 endpoint_fields[THEN wire.regular] endpoint_fields[THEN wire.dflt]
      endpoint_fields[THEN wire.typed] endpoint_fields[THEN wire.back_again] intro!: total_bind endpoint_fields[THEN wire.reads])

lemmas tie_fields = wire_str wire_multiplicity

lemma wire_tie: "wire ann_tie tie_val un_tie"
  by (rule wire_data[OF ann_tie_def tie_val_def])
    (auto simp: un_tie_def list_all2_Cons1 tie_fields[THEN wire.regular] tie_fields[THEN wire.dflt]
      tie_fields[THEN wire.typed] tie_fields[THEN wire.back_again] intro!: total_bind tie_fields[THEN wire.reads])

lemma wire_ref_floats: "wire (TRef ann_floats) (ref_val floats_val) (un_ref un_floats)"
  by (rule wire_ref[OF wire_floats]) (simp_all add: ann_defs lit_def)

lemmas distribution_fields = wire_str wire_ref_floats

lemma wire_distribution: "wire ann_distribution distribution_val un_distribution"
  by (rule wire_data[OF ann_distribution_def distribution_val_def])
    (auto simp: un_distribution_def list_all2_Cons1 distribution_fields[THEN wire.regular] distribution_fields[THEN wire.dflt]
      distribution_fields[THEN wire.typed] distribution_fields[THEN wire.back_again] intro!: total_bind distribution_fields[THEN wire.reads])

lemma wire_ref_strs: "wire (TRef (TSeq TStr)) (ref_val strs_val) (un_ref un_strs)"
  by (rule wire_ref[OF wire_strs]) (simp_all add: ann_defs lit_def)

lemma wire_ref_seq_floats: "wire (TRef (TSeq ann_floats)) (ref_val (seq_val floats_val)) (un_ref (un_seq un_floats))"
  by (rule wire_ref[OF wire_seq[OF wire_floats]]) (simp_all add: ann_defs lit_def)

lemma wire_ref_seq_distribution: "wire (TRef (TSeq ann_distribution)) (ref_val (seq_val distribution_val)) (un_ref (un_seq un_distribution))"
  by (rule wire_ref[OF wire_seq[OF wire_distribution]]) (simp_all add: ann_defs lit_def)

lemma wire_opt_str: "wire (TOpt TStr) (opt_val VStr) (un_opt un_str)"
  by (rule wire_opt[OF wire_str]) (simp_all add: ann_defs lit_def)

lemmas semi_markov_fields = wire_ref_strs wire_ref_floats wire_ref_seq_floats wire_ref_seq_distribution wire_opt_str

lemma wire_semi_markov: "wire ann_semi_markov semi_markov_val un_semi_markov"
  by (rule wire_data[OF ann_semi_markov_def semi_markov_val_def])
    (auto simp: un_semi_markov_def list_all2_Cons1 semi_markov_fields[THEN wire.regular] semi_markov_fields[THEN wire.dflt]
      semi_markov_fields[THEN wire.typed] semi_markov_fields[THEN wire.back_again] intro!: total_bind semi_markov_fields[THEN wire.reads])

lemmas choice_fields = wire_seq[OF wire_scalar] wire_floats

lemma wire_choice: "wire ann_choice choice_val un_choice"
  by (rule wire_data[OF ann_choice_def choice_val_def])
    (auto simp: un_choice_def list_all2_Cons1 choice_fields[THEN wire.regular] choice_fields[THEN wire.dflt]
      choice_fields[THEN wire.typed] choice_fields[THEN wire.back_again] intro!: total_bind choice_fields[THEN wire.reads])


lemma wire_param: "wire ann_param param_val un_param"
proof
  note w = wire_scalar wire_choice
  have arms: "regular (TUnion ann_scalar_arms)" "defaults_ok (TUnion ann_scalar_arms)"
    by (rule w(1)[THEN wire.regular] w(1)[THEN wire.dflt])+
  show "regular ann_param"
    using arms(1) w(2)[THEN wire.regular]
    by (simp add: ann_param_def ann_scalar_arms_def ann_choice_ref_def ann_choice_def regular.simps)
  show "defaults_ok ann_param"
    using arms(2) w(2)[THEN wire.dflt]
    by (simp add: ann_param_def ann_scalar_arms_def ann_choice_ref_def defaults_ok.simps)
  show "typed ann_param (param_val x)" if "finite_val (param_val x)" for x
    using that w(1)[THEN wire.typed] w(2)[THEN wire.typed]
    by (cases x) (auto simp: ann_param_def typed_forms ann_choice_ref_def)
  show "un_param (param_val x) = Some x" for x
  proof (cases x)
    case (PScalar s)
    then show ?thesis by (cases s) (simp_all add: un_param_def)
  next
    case (PChoice c)
    then show ?thesis using w(2)[THEN wire.back_again, of c] by (simp add: un_param_def choice_val_def)
  qed (simp add: un_param_def)
  show "\<exists>x. un_param v = Some x" if "typed ann_param v" for v
  proof -
    from that consider "typed (TUnion ann_scalar_arms) v" | "typed ann_choice v" | "typed ann_choice_ref v"
      by (auto simp: ann_param_def typed_forms)
    then show ?thesis
    proof cases
      case 1
      then show ?thesis by (auto simp: un_param_def ann_scalar_arms_def typed_forms)
    next
      case 2
      moreover obtain es where "v = VObj ''Choice'' es" using 2 by (auto simp: ann_choice_def typed_forms)
      ultimately show ?thesis using w(2)[THEN wire.reads, of v] by (auto simp: un_param_def)
    qed (auto simp: un_param_def ann_choice_ref_def typed_forms list_all2_Cons1)
  qed
qed

lemma wire_opt_select: "wire (TOpt (lit [''all'', ''one''])) (opt_val (lit_val select_str)) (un_opt (un_lit select_str [SelAll, SelOne]))"
  by (rule wire_opt[OF wire_select]) (simp_all add: ann_defs lit_def)

lemmas action_fields = wire_str wire_dict[OF wire_param] wire_opt_select

lemma wire_action: "wire ann_action action_val un_action"
  by (rule wire_data[OF ann_action_def action_val_def])
    (auto simp: un_action_def list_all2_Cons1 action_fields[THEN wire.regular] action_fields[THEN wire.dflt]
      action_fields[THEN wire.typed] action_fields[THEN wire.back_again] intro!: total_bind action_fields[THEN wire.reads])

lemma wire_opt_action: "wire (TOpt ann_action) (opt_val action_val) (un_opt un_action)"
  by (rule wire_opt[OF wire_action]) (simp_all add: ann_defs)

lemma wire_action_map: "wire ann_action_map action_map_val un_action_map"
  unfolding ann_action_map_def action_map_val_def un_action_map_def by (rule wire_dict[OF wire_opt_action])

lemma wire_ref_action_map: "wire (TRef ann_action_map) (ref_val action_map_val) (un_ref un_action_map)"
  by (rule wire_ref[OF wire_action_map]) (simp_all add: ann_defs lit_def)

lemmas behaviour_fields = wire_str wire_semi_markov wire_ref_action_map

lemma wire_behaviour: "wire ann_behaviour behaviour_val un_behaviour"
  by (rule wire_data[OF ann_behaviour_def behaviour_val_def])
    (auto simp: un_behaviour_def list_all2_Cons1 behaviour_fields[THEN wire.regular] behaviour_fields[THEN wire.dflt]
      behaviour_fields[THEN wire.typed] behaviour_fields[THEN wire.back_again] intro!: total_bind behaviour_fields[THEN wire.reads])

lemmas kind_fields = wire_str wire_seq[OF wire_endpoint] wire_seq[OF wire_tie] wire_seq[OF wire_behaviour] wire_seq[OF wire_platform] wire_bool

lemma wire_kind: "wire ann_kind kind_val un_kind"
  by (rule wire_data[OF ann_kind_def kind_val_def])
    (auto simp: un_kind_def list_all2_Cons1 kind_fields[THEN wire.regular] kind_fields[THEN wire.dflt]
      kind_fields[THEN wire.typed] kind_fields[THEN wire.back_again] intro!: total_bind kind_fields[THEN wire.reads])

lemmas host_fields = wire_platform wire_host_type wire_str wire_opt_str

lemma wire_host: "wire ann_host host_val un_host"
  by (rule wire_data[OF ann_host_def host_val_def])
    (auto simp: un_host_def list_all2_Cons1 host_fields[THEN wire.regular] host_fields[THEN wire.dflt]
      host_fields[THEN wire.typed] host_fields[THEN wire.back_again] intro!: total_bind host_fields[THEN wire.reads])

lemma wire_ref_dict_float: "wire (TRef (TDict TFloat)) (ref_val (dict_val VFloat)) (un_ref (un_dict un_float))"
  by (rule wire_ref[OF wire_dict[OF wire_float]]) (simp_all add: ann_defs lit_def)

lemmas selection_fields = wire_str wire_ref_dict_float

lemma wire_selection: "wire ann_selection selection_val un_selection"
  by (rule wire_data[OF ann_selection_def selection_val_def])
    (auto simp: un_selection_def list_all2_Cons1 selection_fields[THEN wire.regular] selection_fields[THEN wire.dflt]
      selection_fields[THEN wire.typed] selection_fields[THEN wire.back_again] intro!: total_bind selection_fields[THEN wire.reads])

lemmas binding_fields = wire_str wire_host wire_seq[OF wire_selection] wire_opt_str

lemma wire_binding: "wire ann_binding binding_val un_binding"
  by (rule wire_data[OF ann_binding_def binding_val_def])
    (auto simp: un_binding_def list_all2_Cons1 binding_fields[THEN wire.regular] binding_fields[THEN wire.dflt]
      binding_fields[THEN wire.typed] binding_fields[THEN wire.back_again] intro!: total_bind binding_fields[THEN wire.reads])

lemmas event_fields = wire_float wire_str wire_op wire_arg

lemma wire_event: "wire ann_event event_val un_event"
  by (rule wire_data[OF ann_event_def event_val_def])
    (auto simp: un_event_def list_all2_Cons1 event_fields[THEN wire.regular] event_fields[THEN wire.dflt]
      event_fields[THEN wire.typed] event_fields[THEN wire.back_again] intro!: total_bind event_fields[THEN wire.reads])

lemmas sensor_fields = wire_str wire_mode wire_strs wire_role

lemma wire_sensor: "wire ann_sensor sensor_val un_sensor"
  by (rule wire_data[OF ann_sensor_def sensor_val_def])
    (auto simp: un_sensor_def list_all2_Cons1 sensor_fields[THEN wire.regular] sensor_fields[THEN wire.dflt]
      sensor_fields[THEN wire.typed] sensor_fields[THEN wire.back_again] intro!: total_bind sensor_fields[THEN wire.reads])

lemmas provenance_fields = wire_str wire_strs wire_dict[OF wire_float]

lemma wire_provenance: "wire ann_provenance provenance_val un_provenance"
  by (rule wire_data[OF ann_provenance_def provenance_val_def])
    (auto simp: un_provenance_def list_all2_Cons1 provenance_fields[THEN wire.regular] provenance_fields[THEN wire.dflt]
      provenance_fields[THEN wire.typed] provenance_fields[THEN wire.back_again] intro!: total_bind provenance_fields[THEN wire.reads])

lemma wire_opt_ref_provenance:
  "wire (TUnion [ann_provenance, TStr, TNull]) (opt_val (ref_val provenance_val)) (un_opt (un_ref un_provenance))"
proof
  note w = wire_provenance[THEN wire.regular] wire_provenance[THEN wire.dflt] wire_provenance[THEN wire.typed]
    wire_provenance[THEN wire.back_again] wire_provenance[THEN wire.reads]
  have obj: "typed ann_provenance v \<Longrightarrow> \<exists>es. v = VObj ''FitProvenance'' es" for v
    by (auto simp: ann_provenance_def typed_forms)
  show "regular (TUnion [ann_provenance, TStr, TNull])" "defaults_ok (TUnion [ann_provenance, TStr, TNull])"
    using w(1,2) by (simp_all add: regular.simps defaults_ok.simps) (simp_all add: ann_provenance_def)
  show "typed (TUnion [ann_provenance, TStr, TNull]) (opt_val (ref_val provenance_val) x)"
    if "finite_val (opt_val (ref_val provenance_val) x)" for x
    using that w(3) by (auto simp: opt_val_def ref_val_def typed_forms split: option.splits ref.splits)
  show "un_opt (un_ref un_provenance) (opt_val (ref_val provenance_val) x) = Some x" for x
    using w(4) by (auto simp: opt_val_def ref_val_def provenance_val_def split: option.splits ref.splits)
  show "\<exists>x. un_opt (un_ref un_provenance) v = Some x" if "typed (TUnion [ann_provenance, TStr, TNull]) v" for v
    using that w(5)[of v] obj[of v] by (auto simp: typed_forms)
qed

lemma wire_opt_int: "wire (TOpt TInt) (opt_val VInt) (un_opt un_int)"
  by (rule wire_opt[OF wire_int]) (simp_all add: ann_defs lit_def)

lemmas segment_fields = wire_str wire_plane wire_opt_int

lemma wire_segment: "wire ann_segment segment_val un_segment"
  by (rule wire_data[OF ann_segment_def segment_val_def])
    (auto simp: un_segment_def list_all2_Cons1 segment_fields[THEN wire.regular] segment_fields[THEN wire.dflt]
      segment_fields[THEN wire.typed] segment_fields[THEN wire.back_again] intro!: total_bind segment_fields[THEN wire.reads])

lemmas capture_point_fields = wire_str wire_strs wire_bool

lemma wire_capture_point: "wire ann_capture_point capture_point_val un_capture_point"
  by (rule wire_data[OF ann_capture_point_def capture_point_val_def])
    (auto simp: un_capture_point_def list_all2_Cons1 capture_point_fields[THEN wire.regular] capture_point_fields[THEN wire.dflt]
      capture_point_fields[THEN wire.typed] capture_point_fields[THEN wire.back_again] intro!: total_bind capture_point_fields[THEN wire.reads])

lemmas topology_fields = wire_seq[OF wire_segment] wire_seq[OF wire_capture_point] wire_dict[OF wire_str]

lemma wire_topology: "wire ann_topology topology_val un_topology"
  by (rule wire_data[OF ann_topology_def topology_val_def])
    (auto simp: un_topology_def list_all2_Cons1 topology_fields[THEN wire.regular] topology_fields[THEN wire.dflt]
      topology_fields[THEN wire.typed] topology_fields[THEN wire.back_again] intro!: total_bind topology_fields[THEN wire.reads])

lemmas group_fields = wire_str wire_opt_str wire_dict[OF wire_int] wire_dict[OF wire_strs]

lemma wire_group: "wire ann_group group_val un_group"
  by (rule wire_data[OF ann_group_def group_val_def])
    (auto simp: un_group_def list_all2_Cons1 group_fields[THEN wire.regular] group_fields[THEN wire.dflt]
      group_fields[THEN wire.typed] group_fields[THEN wire.back_again] intro!: total_bind group_fields[THEN wire.reads])

lemma wire_ref_topology: "wire (TRef ann_topology) (ref_val topology_val) (un_ref un_topology)"
  by (rule wire_ref[OF wire_topology]) (simp_all add: ann_defs lit_def)

lemmas scenario_fields = wire_str wire_seq[OF wire_kind] wire_seq[OF wire_group] wire_seq[OF wire_binding] wire_ref_topology wire_egress wire_dict[OF wire_str] wire_seq[OF wire_event] wire_float wire_strs wire_seq[OF wire_sensor] wire_opt_ref_provenance wire_int

lemma wire_scenario: "wire ann_scenario scenario_val un_scenario"
  by (rule wire_data[OF ann_scenario_def scenario_val_def])
    (auto simp: un_scenario_def list_all2_Cons1 scenario_fields[THEN wire.regular] scenario_fields[THEN wire.dflt]
      scenario_fields[THEN wire.typed] scenario_fields[THEN wire.back_again] intro!: total_bind scenario_fields[THEN wire.reads])

interpretation scenario_wire: wire ann_scenario scenario_val un_scenario
  by (rule wire_scenario)

interpretation kind_wire: wire ann_kind kind_val un_kind
  by (rule wire_kind)

text \<open>Only finite values encode.\<close>

lemma encode_finite:
  "encode v path = Inr j \<Longrightarrow> finite_val v"
  "encode_items vs i path = Inr js \<Longrightarrow> list_all finite_val vs"
  "encode_entries kvs loc = Inr es \<Longrightarrow> list_all (\<lambda>kv. finite_val (snd kv)) kvs"
  by (induction v path and vs i path and kvs loc arbitrary: j and js and es
      rule: encode_encode_items_encode_entries.induct)
    (auto simp: rbind_Inr_iff split: if_splits)

text \<open>The fields of a decoded dataclass: what the object's value decodes to, or the default.\<close>

definition field_decoded :: "(string \<times> json) list \<Rightarrow> string \<Rightarrow> string \<times> ann \<times> pyval option \<Rightarrow> string \<times> pyval \<Rightarrow> bool" where
  "field_decoded kvs path fd e \<longleftrightarrow> fst e = fst fd \<and> (case dget kvs (fst fd) of
     Some j \<Rightarrow> decode (fst (snd fd)) j (field_path path (fst fd)) = Inr (snd e)
   | None \<Rightarrow> snd (snd fd) = Some (snd e))"

lemma field_decoded_pair [simp]:
  "field_decoded kvs path (f, t, d) (f, v) \<longleftrightarrow> (case dget kvs f of
     Some j \<Rightarrow> decode t j (field_path path f) = Inr v | None \<Rightarrow> d = Some v)"
  by (simp add: field_decoded_def split: option.split)

lemma decode_fields_values:
  "decode_fields name fds kvs path = Inr es \<Longrightarrow> list_all2 (field_decoded kvs path) fds es"
proof (induction fds arbitrary: es)
  case (Cons fd fds)
  obtain f t d where fd: "fd = (f, t, d)" by (cases fd) auto
  from Cons show ?case
    by (auto simp: fd rbind_Inr_iff split: option.splits)
qed simp

lemma field_decoded_needed:
  assumes "list_all2 (field_decoded kvs path) fds es" "fd \<in> set fds" "snd (snd fd) = None"
  shows "fst fd \<in> fst ` set kvs"
proof -
  from assms(2) obtain i where "i < length fds" "fd = fds ! i" by (auto simp: in_set_conv_nth)
  with assms(1) have "field_decoded kvs path fd (es ! i)" by (simp add: list_all2_conv_all_nth)
  with assms(3) have "dget kvs (fst fd) \<noteq> None" by (auto simp: field_decoded_def split: option.splits)
  then show ?thesis by (simp add: dget_None_iff)
qed

text \<open>A loaded scenario is one: the decoded value always converts.\<close>

lemma scenario_load_total: "scenario_from_json data \<noteq> Inr None"
proof (cases "from_json ann_scenario data")
  case (Inr v)
  from scenario_wire.decoded_reads[of data "[]" v] Inr obtain s where "un_scenario v = Some s"
    by (auto simp: from_json_def)
  with Inr show ?thesis by (simp add: scenario_from_json_def)
qed (simp add: scenario_from_json_def)

section \<open>Properties\<close>

text \<open>C9: Whatever the codec decodes at an annotation is a value of that annotation: every
  field of the dataclass is there under its own name with its own type, a literal is one of
  the allowed values, and no float is infinite or not a number.\<close>

theorem from_json_typed:
  assumes "defaults_ok tp" "from_json tp data = Inr v"
  shows "typed tp v"
  using decode_typed[of tp data "[]" v] assms by (simp add: from_json_def)

text \<open>C10: Encoding and decoding agree: a value of an annotation whose unions the decoder can tell
  apart is encoded without error, and its encoding decodes to exactly that value, whatever
  the defaults are.\<close>

theorem codec_round_trip:
  assumes "regular tp" "typed tp v"
  shows "\<exists>j. to_json v = Inr j \<and> from_json tp j = Inr v"
  using comes_back[OF assms] by (auto simp: comes_back_def to_json_def from_json_def)

text \<open>C11: Decoding a dataclass is strict: it succeeds only if the object has no key that is not a
  field and every field without a default is there, and then each field holds what its own
  value decodes to, under the field's path, or its default.\<close>

theorem dataclass_strict:
  assumes "from_json (TData name fds) (JObj kvs) = Inr v"
  shows "fst ` set kvs \<subseteq> fst ` set fds
    \<and> (\<forall>fd\<in>set fds. snd (snd fd) = None \<longrightarrow> fst fd \<in> fst ` set kvs)
    \<and> (\<exists>es. v = VObj name es \<and> list_all2 (field_decoded kvs []) fds es)"
proof -
  from assms obtain es where un: "sorted_unknown kvs fds = []" and es: "v = VObj name es"
    "decode_fields name fds kvs [] = Inr es"
    by (auto simp: from_json_def decode_cases rbind_Inr_iff simp del: sorted_unknown_Nil split: if_splits)
  note fs = decode_fields_values[OF es(2)]
  from un es(1) fs field_decoded_needed[OF fs] show ?thesis by auto
qed

text \<open>C8: A scenario and its JSON file: \<open>to_json\<close> fails exactly on a scenario that holds a
  non-finite float, and the JSON of every other scenario loads back to that scenario.\<close>

theorem scenario_json_round_trip:
  "case scenario_to_json s of
     Inl err \<Rightarrow> \<not> finite_val (scenario_val s)
   | Inr j \<Rightarrow> finite_val (scenario_val s) \<and> scenario_from_json j = Inr (Some s)"
proof (cases "finite_val (scenario_val s)")
  case True
  from scenario_wire.round_trip[OF this] show ?thesis
    by (auto simp: True scenario_to_json_def scenario_from_json_def)
next
  case False
  with encode_finite(1)[of "scenario_val s" "[]"] show ?thesis
    by (auto simp: scenario_to_json_def to_json_def split: sum.splits)
qed

text \<open>The demo scenario: it encodes, decodes, and a file with a misspelled key is refused.\<close>

definition demo_tie_json :: json where
  "demo_tie_json = JObj [(''name'', JStr ''upstream''), (''target_kind'', JStr ''s''), (''multiplicity'', JStr ''single'')]"

lemma demo_tie_decodes:
  "from_json ann_tie demo_tie_json = Inr (VObj ''Tie'' [(''name'', VStr ''upstream''),
     (''target_kind'', VStr ''s''), (''multiplicity'', VStr ''single'')])"
  "isl (from_json ann_tie (JObj [(''name'', JStr ''upstream''), (''kind'', JStr ''s''), (''multiplicity'', JStr ''single'')]))"
  "finite_val (scenario_val demo_scenario)"
  by code_simp+

theorem from_json_typed_witness:
  "typed ann_tie (VObj ''Tie'' [(''name'', VStr ''upstream''), (''target_kind'', VStr ''s''), (''multiplicity'', VStr ''single'')])"
  using from_json_typed[OF wire.dflt[OF wire_tie] demo_tie_decodes(1)] .

theorem codec_round_trip_witness:
  "\<exists>j. to_json (scenario_val demo_scenario) = Inr j \<and> from_json ann_scenario j = Inr (scenario_val demo_scenario)"
  using codec_round_trip[OF wire.regular[OF wire_scenario] wire.typed[OF wire_scenario demo_tie_decodes(3)]] .

theorem dataclass_strict_witness:
  "fst ` set [(''name'', JStr ''upstream''), (''target_kind'', JStr ''s''), (''multiplicity'', JStr ''single'')]
    \<subseteq> {''name'', ''target_kind'', ''multiplicity''}"
  using dataclass_strict[OF demo_tie_decodes(1)[unfolded ann_tie_def demo_tie_json_def]] by simp

end
