(* ===== verification/Resolve.thy ===== *)
theory Resolve
  imports IRCodec
begin

text \<open>
  Resources and the resolver (\<open>core/tiergen/core/resources.py\<close>, \<open>resolve.py\<close>). A store of
  resources is what its two operations answer: whether a name exists, and the JSON value
  under a name (\<open>None\<close> where \<open>get\<close> raises \<open>KeyError\<close>). A directory of resources is a file
  system seen through three parameters: which paths are files, which exist, and what JSON a
  file holds (a file that is not JSON makes \<open>json.loads\<close> raise, which is not modelled).
\<close>

section \<open>Stores\<close>

record resources =
  rs_exists :: "string \<Rightarrow> bool"
  rs_get :: "string \<Rightarrow> json option"

definition dict_resources :: "(string, json) dict \<Rightarrow> string list \<Rightarrow> resources" where
  "dict_resources entries opaque = \<lparr>rs_exists = (\<lambda>name. name \<in> set (dkeys entries) \<or> name \<in> set opaque),
     rs_get = dget entries\<rparr>"

text \<open>\<open>[A-Za-z0-9_][A-Za-z0-9_.-]*\<close>, on the whole name.\<close>

definition word_char :: "char \<Rightarrow> bool" where
  "word_char c \<longleftrightarrow> (CHR ''A'' \<le> c \<and> c \<le> CHR ''Z'') \<or> (CHR ''a'' \<le> c \<and> c \<le> CHR ''z'') \<or> is_digit c \<or> c = CHR ''_''"

definition resource_name :: "string \<Rightarrow> bool" where
  "resource_name name \<longleftrightarrow> name \<noteq> [] \<and> word_char (hd name)
     \<and> list_all (\<lambda>c. word_char c \<or> c = CHR ''.'' \<or> c = CHR ''-'') (tl name)"

definition dir_resources :: "(string \<Rightarrow> bool) \<Rightarrow> (string \<Rightarrow> bool) \<Rightarrow> (string \<Rightarrow> json) \<Rightarrow> string \<Rightarrow> resources" where
  "dir_resources is_file exists_at load folder =
     \<lparr>rs_exists = (\<lambda>name. resource_name name
        \<and> (is_file (folder @ ''/'' @ name @ ''.json'') \<or> exists_at (folder @ ''/'' @ name))),
      rs_get = (\<lambda>name. let path = folder @ ''/'' @ name @ ''.json''
        in if \<not> resource_name name \<or> \<not> is_file path then None else Some (load path))\<rparr>"

section \<open>The resolver\<close>

definition resolve :: "resources \<Rightarrow> ann \<Rightarrow> (pyval \<Rightarrow> 'a option) \<Rightarrow> 'a ref \<Rightarrow> 'a option" where
  "resolve rs tp of_val r = (case r of
     Inline x \<Rightarrow> Some x
   | Res name \<Rightarrow> (case rs_get rs name of
       None \<Rightarrow> None
     | Some data \<Rightarrow> (case decode tp data [] of Inl _ \<Rightarrow> None | Inr v \<Rightarrow> of_val v)))"

definition res_states :: "resources \<Rightarrow> semi_markov \<Rightarrow> string list option" where
  "res_states rs p = resolve rs (TSeq TStr) un_strs (sm_states p)"

definition res_initial :: "resources \<Rightarrow> semi_markov \<Rightarrow> pyfloat list option" where
  "res_initial rs p = resolve rs ann_floats un_floats (sm_initial p)"

definition res_transitions :: "resources \<Rightarrow> semi_markov \<Rightarrow> pyfloat list list option" where
  "res_transitions rs p = resolve rs (TSeq ann_floats) (un_seq un_floats) (sm_transitions p)"

definition res_dwell :: "resources \<Rightarrow> semi_markov \<Rightarrow> distribution list option" where
  "res_dwell rs p = resolve rs (TSeq ann_distribution) (un_seq un_distribution) (sm_dwell p)"

definition res_rate :: "resources \<Rightarrow> semi_markov \<Rightarrow> pyfloat list option" where
  "res_rate rs p = (case sm_rate p of None \<Rightarrow> None | Some n \<Rightarrow> resolve rs ann_floats un_floats (Res n))"

definition res_action_map :: "resources \<Rightarrow> behaviour \<Rightarrow> (string, action option) dict option" where
  "res_action_map rs b = resolve rs ann_action_map un_action_map (beh_action_map b)"

definition res_choice :: "resources \<Rightarrow> choice ref \<Rightarrow> choice option" where
  "res_choice rs c = resolve rs ann_choice un_choice c"

definition res_choices :: "resources \<Rightarrow> impl_selection \<Rightarrow> (string, pyfloat) dict option" where
  "res_choices rs s = resolve rs (TDict TFloat) (un_dict un_float) (sel_choices s)"

definition res_host_manifest :: "resources \<Rightarrow> host \<Rightarrow> endpoint list option" where
  "res_host_manifest rs h = (case ho_manifest h of
     None \<Rightarrow> None | Some n \<Rightarrow> resolve rs (TSeq ann_endpoint) (un_seq un_endpoint) (Res n))"

definition res_provenance :: "resources \<Rightarrow> scenario \<Rightarrow> fit_provenance option" where
  "res_provenance rs s = (case sc_fit_provenance s of
     None \<Rightarrow> None | Some r \<Rightarrow> resolve rs ann_provenance un_provenance r)"

definition res_topology :: "resources \<Rightarrow> scenario \<Rightarrow> topology option" where
  "res_topology rs s = resolve rs ann_topology un_topology (sc_topology s)"

section \<open>What resolves\<close>

text \<open>A resource resolves exactly when it exists and decodes: the conversion of a decoded value
  never fails.\<close>

lemma resolve_wire:
  assumes "wire tp f of_val"
  shows "resolve rs tp of_val r = None \<longleftrightarrow>
    (\<exists>name. r = Res name \<and> (\<forall>data. rs_get rs name = Some data \<longrightarrow> isl (decode tp data [])))"
  using wire.decoded_reads[OF assms]
  by (fastforce simp: resolve_def split: ref.splits option.splits sum.splits)

lemma resolve_Inline [simp]: "resolve rs tp of_val (Inline x) = Some x"
  by (simp add: resolve_def)

text \<open>Writing a value to the store makes the reference to it as good as the value inline.\<close>

lemma resolve_stored:
  assumes "wire tp f of_val" "to_json (f x) = Inr j" "rs_get rs name = Some j"
  shows "resolve rs tp of_val (Res name) = Some x"
proof -
  have "finite_val (f x)" using assms(2) encode_finite(1) by (auto simp: to_json_def)
  from wire.round_trip[OF assms(1) this] assms(2,3) show ?thesis
    by (auto simp: resolve_def from_json_def split: sum.splits)
qed

end
