(* ===== verification/Interfaces.thy ===== *)
theory Interfaces
  imports IRCodec
begin

text \<open>
  The interfaces between the packages, all of them data: the protocol signatures and the
  table of known ones (\<open>protocols/tiergen/protocols/*.py\<close>), implementation descriptors and the
  reading of \<open>impl.toml\<close> (\<open>impls/_base\<close>), the sensor, infrastructure and capability
  descriptors, the run manifest (\<open>interfaces/tiergen/interfaces\<close>) and the loading of
  descriptors from entry points. The runtime protocols have no code of their own.
\<close>

section \<open>Signatures\<close>

datatype param_type = TyStr | TyInt | TyFloat | TyBool
datatype sig_role = Client | Server
datatype reuse = ReuseNone | PerProcess | PerSession
datatype conn_count = Exactly int | Many

record sig_param =
  pm_name :: string
  pm_type :: param_type
  pm_required :: bool

record traffic_shape =
  ts_connections :: conn_count
  ts_transport :: transport
  ts_port :: "int option"
  ts_follow_on :: "string list"
  ts_reuse :: reuse

record signature =
  sg_id :: string
  sg_protocol :: string
  sg_role :: sig_role
  sg_endpoints :: "string list"
  sg_params :: "sig_param list"
  sg_shape :: traffic_shape

definition sig_param :: "string \<Rightarrow> param_type \<Rightarrow> bool \<Rightarrow> sig_param" where
  "sig_param n t r = \<lparr>pm_name = n, pm_type = t, pm_required = r\<rparr>"

definition traffic :: "conn_count \<Rightarrow> transport \<Rightarrow> int option \<Rightarrow> string list \<Rightarrow> reuse \<Rightarrow> traffic_shape" where
  "traffic c t p f r = \<lparr>ts_connections = c, ts_transport = t, ts_port = p, ts_follow_on = f, ts_reuse = r\<rparr>"

definition signature :: "string \<Rightarrow> string \<Rightarrow> sig_role \<Rightarrow> string list \<Rightarrow> sig_param list \<Rightarrow> traffic_shape \<Rightarrow> signature" where
  "signature i p r e ps sh = \<lparr>sg_id = i, sg_protocol = p, sg_role = r, sg_endpoints = e, sg_params = ps, sg_shape = sh\<rparr>"

definition dns_signatures :: "signature list" where
  "dns_signatures =
     [signature ''dns.query'' ''dns'' Client [''dns'']
        [sig_param ''name'' TyStr True, sig_param ''rtype'' TyStr False]
        (traffic (Exactly 1) Udp None [] ReuseNone),
      signature ''dns.serve'' ''dns'' Server [''dns''] [] (traffic (Exactly 0) Udp None [] ReuseNone)]"

definition http_endpoints :: "string list" where
  "http_endpoints = [''http'', ''https'']"

definition http_lookups :: "string list" where
  "http_lookups = [''dns.query'']"

definition http_signatures :: "signature list" where
  "http_signatures =
     [signature ''http.get'' ''http'' Client http_endpoints [sig_param ''path'' TyStr True]
        (traffic (Exactly 1) Tcp None http_lookups PerProcess),
      signature ''http.post_form'' ''http'' Client http_endpoints
        [sig_param ''path'' TyStr True, sig_param ''body_bytes'' TyInt True]
        (traffic (Exactly 1) Tcp None http_lookups PerProcess),
      signature ''http.browse'' ''http'' Client http_endpoints
        [sig_param ''start_path'' TyStr True, sig_param ''max_pages'' TyInt False]
        (traffic Many Tcp None http_lookups PerSession),
      signature ''http.serve'' ''http'' Server http_endpoints [] (traffic (Exactly 0) Tcp None [] ReuseNone)]"

definition kerberos_signatures :: "signature list" where
  "kerberos_signatures =
     [signature ''kerberos.as'' ''kerberos'' Client [''kerberos''] [sig_param ''principal'' TyStr True]
        (traffic (Exactly 1) Tcp None [''dns.query''] ReuseNone),
      signature ''kerberos.tgs'' ''kerberos'' Client [''kerberos''] [sig_param ''spn'' TyStr True]
        (traffic (Exactly 1) Tcp None [''dns.query''] ReuseNone),
      signature ''kerberos.serve'' ''kerberos'' Server [''kerberos''] []
        (traffic (Exactly 0) Tcp None [] ReuseNone)]"

definition scan_ports :: "sig_param list" where
  "scan_ports = [sig_param ''ports'' TyStr True]"

definition scan_signatures :: "signature list" where
  "scan_signatures =
     [signature ''scan.tcp_syn'' ''scan'' Client [] scan_ports (traffic Many Tcp None [] ReuseNone),
      signature ''scan.tcp_connect'' ''scan'' Client [] scan_ports (traffic Many Tcp None [] ReuseNone),
      signature ''scan.udp'' ''scan'' Client [] scan_ports (traffic Many Udp None [] ReuseNone)]"

definition smb_before :: "string list" where
  "smb_before = [''dns.query'', ''kerberos.tgs'']"

definition smb_file :: "sig_param list" where
  "smb_file = [sig_param ''share'' TyStr True, sig_param ''path'' TyStr True]"

definition smb_client :: "string \<Rightarrow> sig_param list \<Rightarrow> signature" where
  "smb_client name params = signature (''smb.'' @ name) ''smb'' Client [''smb''] params
     (traffic (Exactly 1) Tcp None smb_before PerSession)"

definition smb_signatures :: "signature list" where
  "smb_signatures =
     [smb_client ''read'' smb_file, smb_client ''write'' (smb_file @ [sig_param ''size_bytes'' TyInt True]),
      smb_client ''list'' smb_file,
      signature ''smb.serve'' ''smb'' Server [''smb''] [] (traffic (Exactly 0) Tcp None [] ReuseNone)]"

definition ssh_signatures :: "signature list" where
  "ssh_signatures =
     [signature ''ssh.session'' ''ssh'' Client [''ssh''] [sig_param ''command'' TyStr False]
        (traffic (Exactly 1) Tcp None [''dns.query''] ReuseNone),
      signature ''ssh.serve'' ''ssh'' Server [''ssh''] [] (traffic (Exactly 0) Tcp None [] ReuseNone)]"

text \<open>\<open>SIGNATURES\<close>: every module's signatures, by id.\<close>

definition signatures :: "(string, signature) dict" where
  "signatures = dict_of (map (\<lambda>sg. (sg_id sg, sg))
     (http_signatures @ dns_signatures @ smb_signatures @ kerberos_signatures @ ssh_signatures @ scan_signatures))"

section \<open>Implementations\<close>

datatype impl_kind = Primitive | Service | Adapter

record impl_ref =
  if_impl :: string
  if_variant :: "string option"

definition impl_ref_parse :: "string \<Rightarrow> impl_ref" where
  "impl_ref_parse text = (case partition_on CHR '':'' text of
     (impl, _, variant) \<Rightarrow> \<lparr>if_impl = impl, if_variant = (if variant = [] then None else Some variant)\<rparr>)"

record host_requirements =
  hq_platforms :: "platform list"
  hq_binaries :: "string list"
  hq_capabilities :: "string list"
  hq_image_base :: "(string, string) dict"

record fingerprint =
  fp_role :: sig_role
  fp_product :: string
  fp_ja4 :: "(string, string) dict"
  fp_user_agent :: "string option"

record service_table =
  st_served :: "endpoint list"

record catalog_entry =
  ca_id :: string
  ca_name :: string
  ca_attack_ids :: "string list"

record impl_descriptor =
  im_id :: string
  im_version :: string
  im_kind :: impl_kind
  im_provides :: "string list"
  im_host :: host_requirements
  im_variants :: "string list"
  im_fingerprint :: "fingerprint option"
  im_service :: "service_table option"
  im_catalog :: "catalog_entry list"

subsection \<open>Their annotations and values\<close>

fun impl_kind_str :: "impl_kind \<Rightarrow> string" where
  "impl_kind_str Primitive = ''primitive''"
| "impl_kind_str Service = ''service''"
| "impl_kind_str Adapter = ''adapter''"

fun sig_role_str :: "sig_role \<Rightarrow> string" where
  "sig_role_str Client = ''client''"
| "sig_role_str Server = ''server''"

definition ann_requirements :: ann where
  "ann_requirements = TData ''HostRequirements'' [(''platforms'', TSeq (lit [''linux'', ''windows'']), None),
     (''binaries'', TSeq TStr, Some (VTuple [])), (''capabilities'', TSeq TStr, Some (VTuple [])),
     (''image_base'', TDict TStr, Some (VDict []))]"

definition ann_fingerprint :: ann where
  "ann_fingerprint = TData ''Fingerprint'' [(''role'', lit [''client'', ''server''], None),
     (''product'', TStr, None), (''ja4'', TDict TStr, Some (VDict [])), (''user_agent'', TOpt TStr, Some VNone)]"

definition ann_service_table :: ann where
  "ann_service_table = TData ''ServiceTable'' [(''served'', TSeq ann_endpoint, None)]"

definition ann_catalog_entry :: ann where
  "ann_catalog_entry = TData ''CatalogEntry'' [(''id'', TStr, None), (''name'', TStr, None),
     (''attack_ids'', TSeq TStr, Some (VTuple []))]"

definition ann_impl :: ann where
  "ann_impl = TData ''ImplDescriptor'' [(''id'', TStr, None), (''version'', TStr, None),
     (''kind'', lit [''primitive'', ''service'', ''adapter''], None), (''provides'', TSeq TStr, None),
     (''host'', ann_requirements, None), (''variants'', TSeq TStr, Some (VTuple [])),
     (''fingerprint'', TOpt ann_fingerprint, Some VNone), (''service'', TOpt ann_service_table, Some VNone),
     (''catalog'', TSeq ann_catalog_entry, Some (VTuple []))]"

definition requirements_val :: "host_requirements \<Rightarrow> pyval" where
  "requirements_val x = VObj ''HostRequirements'' [(''platforms'', seq_val (lit_val platform_str) (hq_platforms x)),
     (''binaries'', strs_val (hq_binaries x)), (''capabilities'', strs_val (hq_capabilities x)),
     (''image_base'', dict_val VStr (hq_image_base x))]"

definition un_requirements :: "pyval \<Rightarrow> host_requirements option" where
  "un_requirements v = (case obj_fields v of
     [v0, v1, v2, v3] \<Rightarrow> do { x0 \<leftarrow> un_seq (un_lit platform_str [Linux, Windows]) v0; x1 \<leftarrow> un_strs v1; x2 \<leftarrow> un_strs v2; x3 \<leftarrow> un_dict un_str v3;
       Some \<lparr>hq_platforms = x0, hq_binaries = x1, hq_capabilities = x2, hq_image_base = x3\<rparr> }
   | _ \<Rightarrow> None)"

definition fingerprint_val :: "fingerprint \<Rightarrow> pyval" where
  "fingerprint_val x = VObj ''Fingerprint'' [(''role'', lit_val sig_role_str (fp_role x)),
     (''product'', VStr (fp_product x)), (''ja4'', dict_val VStr (fp_ja4 x)), (''user_agent'', opt_val VStr (fp_user_agent x))]"

definition un_fingerprint :: "pyval \<Rightarrow> fingerprint option" where
  "un_fingerprint v = (case obj_fields v of
     [v0, v1, v2, v3] \<Rightarrow> do { x0 \<leftarrow> un_lit sig_role_str [Client, Server] v0; x1 \<leftarrow> un_str v1; x2 \<leftarrow> un_dict un_str v2; x3 \<leftarrow> un_opt un_str v3;
       Some \<lparr>fp_role = x0, fp_product = x1, fp_ja4 = x2, fp_user_agent = x3\<rparr> }
   | _ \<Rightarrow> None)"

definition service_table_val :: "service_table \<Rightarrow> pyval" where
  "service_table_val x = VObj ''ServiceTable'' [(''served'', seq_val endpoint_val (st_served x))]"

definition un_service_table :: "pyval \<Rightarrow> service_table option" where
  "un_service_table v = (case obj_fields v of
     [v0] \<Rightarrow> do { x0 \<leftarrow> un_seq un_endpoint v0; Some \<lparr>st_served = x0\<rparr> }
   | _ \<Rightarrow> None)"

definition catalog_entry_val :: "catalog_entry \<Rightarrow> pyval" where
  "catalog_entry_val x = VObj ''CatalogEntry'' [(''id'', VStr (ca_id x)), (''name'', VStr (ca_name x)),
     (''attack_ids'', strs_val (ca_attack_ids x))]"

definition un_catalog_entry :: "pyval \<Rightarrow> catalog_entry option" where
  "un_catalog_entry v = (case obj_fields v of
     [v0, v1, v2] \<Rightarrow> do { x0 \<leftarrow> un_str v0; x1 \<leftarrow> un_str v1; x2 \<leftarrow> un_strs v2;
       Some \<lparr>ca_id = x0, ca_name = x1, ca_attack_ids = x2\<rparr> }
   | _ \<Rightarrow> None)"

definition impl_val :: "impl_descriptor \<Rightarrow> pyval" where
  "impl_val x = VObj ''ImplDescriptor'' [(''id'', VStr (im_id x)), (''version'', VStr (im_version x)),
     (''kind'', lit_val impl_kind_str (im_kind x)), (''provides'', strs_val (im_provides x)),
     (''host'', requirements_val (im_host x)), (''variants'', strs_val (im_variants x)),
     (''fingerprint'', opt_val fingerprint_val (im_fingerprint x)),
     (''service'', opt_val service_table_val (im_service x)),
     (''catalog'', seq_val catalog_entry_val (im_catalog x))]"

definition un_impl :: "pyval \<Rightarrow> impl_descriptor option" where
  "un_impl v = (case obj_fields v of
     [v0, v1, v2, v3, v4, v5, v6, v7, v8] \<Rightarrow> do { x0 \<leftarrow> un_str v0; x1 \<leftarrow> un_str v1;
       x2 \<leftarrow> un_lit impl_kind_str [Primitive, Service, Adapter] v2; x3 \<leftarrow> un_strs v3; x4 \<leftarrow> un_requirements v4;
       x5 \<leftarrow> un_strs v5; x6 \<leftarrow> un_opt un_fingerprint v6; x7 \<leftarrow> un_opt un_service_table v7; x8 \<leftarrow> un_seq un_catalog_entry v8;
       Some \<lparr>im_id = x0, im_version = x1, im_kind = x2, im_provides = x3, im_host = x4, im_variants = x5,
         im_fingerprint = x6, im_service = x7, im_catalog = x8\<rparr> }
   | _ \<Rightarrow> None)"

subsection \<open>Reading \<open>impl.toml\<close>\<close>

text \<open>\<open>tomllib.loads\<close> is a parameter: the document as JSON-shaped data, or the parser's message.
  A \<open>ManifestError\<close> is its message.\<close>

definition codec_message :: "codec_error \<Rightarrow> msg" where
  "codec_message err = [S (if er_path err = [] then ''<root>'' else er_path err), L '': ''] @ er_message err"

definition parse_manifest :: "(string \<Rightarrow> msg + json) \<Rightarrow> string \<Rightarrow> string \<Rightarrow> msg + impl_descriptor option" where
  "parse_manifest toml_loads text source =
     (case toml_loads text of
        Inl err \<Rightarrow> Inl ([S source, L '': ''] @ err)
      | Inr data \<Rightarrow> (case from_json ann_impl data of
          Inl err \<Rightarrow> Inl ([S source, L '': ''] @ codec_message err)
        | Inr v \<Rightarrow> (case un_impl v of
            None \<Rightarrow> Inr None
          | Some d \<Rightarrow>
              if (im_kind d = Service) \<noteq> (im_service d \<noteq> None) then
                Inl [S source, L '': a [service] table is required for, and only for, kind '', R ''service'']
              else if im_catalog d \<noteq> [] \<and> im_kind d \<noteq> Adapter then
                Inl [S source, L '': only kind '', R ''adapter'', L '' may have a catalog'']
              else Inr (Some d))))"

lemma interface_literals:
  "inj impl_kind_str" "inj sig_role_str"
  by (intro injI; rename_tac x y; case_tac x; case_tac y; simp)+

lemma interface_literal_all:
  "\<And>x. x \<in> set [Primitive, Service, Adapter]" "\<And>x. x \<in> set [Client, Server]"
  by (case_tac x; simp)+

lemma wire_impl_kind: "wire (lit [''primitive'', ''service'', ''adapter'']) (lit_val impl_kind_str)
    (un_lit impl_kind_str [Primitive, Service, Adapter])"
  by (rule wire_lit[OF _ interface_literal_all(1) interface_literals(1)]) simp

lemma wire_sig_role: "wire (lit [''client'', ''server'']) (lit_val sig_role_str) (un_lit sig_role_str [Client, Server])"
  by (rule wire_lit[OF _ interface_literal_all(2) interface_literals(2)]) simp

lemma typed_no_items [simp]: "typed (TSeq t) (VTuple [])"
  by (simp add: typed_forms)

lemmas requirements_fields = wire_seq[OF wire_platform] wire_strs wire_dict[OF wire_str]

lemma wire_requirements: "wire ann_requirements requirements_val un_requirements"
  by (rule wire_data[OF ann_requirements_def requirements_val_def])
    (auto simp: un_requirements_def list_all2_Cons1 requirements_fields[THEN wire.regular] requirements_fields[THEN wire.dflt]
      requirements_fields[THEN wire.typed] requirements_fields[THEN wire.back_again]
      intro!: total_bind requirements_fields[THEN wire.reads])

lemmas fingerprint_fields = wire_sig_role wire_str wire_dict[OF wire_str] wire_opt_str

lemma wire_fingerprint: "wire ann_fingerprint fingerprint_val un_fingerprint"
  by (rule wire_data[OF ann_fingerprint_def fingerprint_val_def])
    (auto simp: un_fingerprint_def list_all2_Cons1 fingerprint_fields[THEN wire.regular] fingerprint_fields[THEN wire.dflt]
      fingerprint_fields[THEN wire.typed] fingerprint_fields[THEN wire.back_again]
      intro!: total_bind fingerprint_fields[THEN wire.reads])

lemmas service_table_fields = wire_seq[OF wire_endpoint]

lemma wire_service_table: "wire ann_service_table service_table_val un_service_table"
  by (rule wire_data[OF ann_service_table_def service_table_val_def])
    (auto simp: un_service_table_def list_all2_Cons1 service_table_fields[THEN wire.regular] service_table_fields[THEN wire.dflt]
      service_table_fields[THEN wire.typed] service_table_fields[THEN wire.back_again]
      intro!: total_bind service_table_fields[THEN wire.reads])

lemmas catalog_entry_fields = wire_str wire_strs

lemma wire_catalog_entry: "wire ann_catalog_entry catalog_entry_val un_catalog_entry"
  by (rule wire_data[OF ann_catalog_entry_def catalog_entry_val_def])
    (auto simp: un_catalog_entry_def list_all2_Cons1 catalog_entry_fields[THEN wire.regular] catalog_entry_fields[THEN wire.dflt]
      catalog_entry_fields[THEN wire.typed] catalog_entry_fields[THEN wire.back_again]
      intro!: total_bind catalog_entry_fields[THEN wire.reads])

lemma wire_opt_fingerprint: "wire (TOpt ann_fingerprint) (opt_val fingerprint_val) (un_opt un_fingerprint)"
  by (rule wire_opt[OF wire_fingerprint]) (simp_all add: ann_fingerprint_def)

lemma wire_opt_service_table: "wire (TOpt ann_service_table) (opt_val service_table_val) (un_opt un_service_table)"
  by (rule wire_opt[OF wire_service_table]) (simp_all add: ann_service_table_def)

lemmas impl_fields = wire_str wire_impl_kind wire_strs wire_requirements wire_opt_fingerprint wire_opt_service_table
  wire_seq[OF wire_catalog_entry]

interpretation impl_wire: wire ann_impl impl_val un_impl
  by (rule wire_data[OF ann_impl_def impl_val_def])
    (auto simp: un_impl_def list_all2_Cons1 impl_fields[THEN wire.regular] impl_fields[THEN wire.dflt]
      impl_fields[THEN wire.typed] impl_fields[THEN wire.back_again] intro!: total_bind impl_fields[THEN wire.reads])

text \<open>A manifest that is read gives a descriptor, never a value that is none.\<close>

lemma parse_manifest_reads: "parse_manifest toml_loads text source \<noteq> Inr None"
proof
  assume "parse_manifest toml_loads text source = Inr None"
  then obtain data v where "from_json ann_impl data = Inr v" "un_impl v = None"
    by (auto simp: parse_manifest_def split: sum.splits option.splits if_splits)
  with impl_wire.decoded_reads[of data "[]" v] show False by (simp add: from_json_def)
qed

section \<open>Sensors, capabilities, infrastructure, attribution\<close>

datatype capability = AppEvents | TlsJa4 | TlsJa3 | HttpUserAgent | SshStrings | SmbDialect | X509

fun capability_name :: "capability \<Rightarrow> string" where
  "capability_name AppEvents = ''APP_EVENTS''"
| "capability_name TlsJa4 = ''TLS_JA4''"
| "capability_name TlsJa3 = ''TLS_JA3''"
| "capability_name HttpUserAgent = ''HTTP_USER_AGENT''"
| "capability_name SshStrings = ''SSH_STRINGS''"
| "capability_name SmbDialect = ''SMB_DIALECT''"
| "capability_name X509 = ''X509''"

definition capabilities :: "capability list" where
  "capabilities = [AppEvents, TlsJa4, TlsJa3, HttpUserAgent, SshStrings, SmbDialect, X509]"

record capability_field =
  cf_name :: string
  cf_type :: string

record schema =
  sch_name :: string
  sch_fields :: "capability_field list"

definition app_protocols :: "string list" where
  "app_protocols = [''http'', ''tls'', ''dns'', ''ssh'', ''smb'', ''kerberos'', ''ntlm'', ''dce_rpc'', ''rdp'']"

definition str_fields :: "string list \<Rightarrow> capability_field list" where
  "str_fields names = map (\<lambda>n. \<lparr>cf_name = n, cf_type = ''str''\<rparr>) names"

fun schema_of :: "capability \<Rightarrow> schema" where
  "schema_of AppEvents = \<lparr>sch_name = ''app_events'', sch_fields = []\<rparr>"
| "schema_of TlsJa4 = \<lparr>sch_name = ''tls_ja4'', sch_fields = str_fields [''ja4'']\<rparr>"
| "schema_of TlsJa3 = \<lparr>sch_name = ''tls_ja3'', sch_fields = str_fields [''ja3'']\<rparr>"
| "schema_of HttpUserAgent = \<lparr>sch_name = ''http_user_agent'', sch_fields = str_fields [''user_agent'']\<rparr>"
| "schema_of SshStrings = \<lparr>sch_name = ''ssh_strings'', sch_fields = str_fields [''client'', ''server'']\<rparr>"
| "schema_of SmbDialect = \<lparr>sch_name = ''smb_dialect'', sch_fields = str_fields [''dialect'']\<rparr>"
| "schema_of X509 = \<lparr>sch_name = ''x509'', sch_fields = str_fields [''subject'', ''issuer'', ''fingerprint'']\<rparr>"

record capability_info =
  ci_schema :: string
  ci_coverage :: pyfloat

record sensor_descriptor =
  sd_id :: string
  sd_versions :: "string list"
  sd_modes :: "sensor_mode list"
  sd_capabilities :: "capability list"

text \<open>\<open>grantable\<close> is \<open>None\<close> when the host owns its kernel.\<close>

record host_offer =
  ho_offer_platform :: platform
  ho_offer_type :: host_type
  ho_grantable :: "string list option"

record infra_descriptor =
  in_id :: string
  in_offers :: "host_offer list"

definition infra_offer :: "infra_descriptor \<Rightarrow> platform \<Rightarrow> host_type \<Rightarrow> host_offer option" where
  "infra_offer d p t = first_such (\<lambda>off. (ho_offer_platform off, ho_offer_type off) = (p, t)) (in_offers d)"

section \<open>The run manifest\<close>

record network_spec =
  ns_name :: string
  ns_cidr :: string
  ns_gateway :: string
  ns_plane :: plane
  ns_internal :: bool
  ns_bridge :: string

record attachment =
  at_network :: string
  at_address :: string
  at_mac :: "string option"

record route_spec =
  ro_cidr :: string
  ro_via :: string

record host_spec =
  hs_instance :: string
  hs_kind :: string
  hs_platform :: platform
  hs_hostname :: string
  hs_image :: string
  hs_command :: "string list"
  hs_cap_add :: "string list"
  hs_attachments :: "attachment list"
  hs_routes :: "route_spec list"
  hs_forwards :: bool
  hs_agent :: bool
  hs_gate :: "string option"

record run_manifest =
  rm_run :: string
  rm_backend :: string
  rm_networks :: "network_spec list"
  rm_hosts :: "host_spec list"

record host_state =
  hst_name :: string
  hst_id :: string
  hst_clock_offset :: "rat option"

record run_state =
  rst_run :: string
  rst_backend :: string
  rst_hosts :: "(string, host_state) dict"
  rst_bridges :: "(string, string) dict"
  rst_images :: "(string, string) dict"

record run_record =
  rr_run :: string
  rr_scenario :: string
  rr_started :: rat
  rr_duration :: rat
  rr_states :: "(string, run_state) dict"

section \<open>Loading descriptors from entry points\<close>

text \<open>An entry point is its name and what it loads: \<open>None\<close> when that is not an instance of the
  class asked for. The entry points of a group are a parameter.\<close>

datatype load_error = WrongType string string | WrongId string string

definition load_group :: "('d \<Rightarrow> string) \<Rightarrow> string \<Rightarrow> (string \<times> 'd option) list \<Rightarrow> load_error + (string, 'd) dict" where
  "load_group id_of grp eps =
     rbind (rmap (\<lambda>(name, loaded). case loaded of
         None \<Rightarrow> Inl (WrongType name grp)
       | Some d \<Rightarrow> if id_of d \<noteq> name then Inl (WrongId name (id_of d)) else Inr (id_of d, d)) eps)
     (\<lambda>kvs. Inr (dict_of kvs))"

definition load_backends :: "('d \<Rightarrow> string) \<Rightarrow> string \<Rightarrow> string list option \<Rightarrow> (string \<times> 'd option) list
    \<Rightarrow> load_error + (string, 'd) dict" where
  "load_backends id_of grp only eps =
     load_group id_of grp (filter (\<lambda>ep. case only of None \<Rightarrow> True | Some ids \<Rightarrow> fst ep \<in> set ids) eps)"

definition load_attrib_backends :: "string \<Rightarrow> string list option \<Rightarrow> (string \<times> 'd option) list
    \<Rightarrow> load_error + (string, 'd) dict" where
  "load_attrib_backends grp only eps =
     rbind (rmap (\<lambda>(name, loaded). case loaded of
         None \<Rightarrow> Inl (WrongType name grp) | Some d \<Rightarrow> Inr (name, d))
       (filter (\<lambda>ep. case only of None \<Rightarrow> True | Some ids \<Rightarrow> fst ep \<in> set ids) eps))
     (\<lambda>kvs. Inr (dict_of kvs))"

section \<open>Properties\<close>

lemma signatures_checked:
  "length signatures = 18" "dict_ok signatures"
  "list_all (\<lambda>(k, sg). sg_id sg = k \<and> starts_with (sg_protocol sg @ ''.'') k
    \<and> list_all (\<lambda>f. case dget signatures f of None \<Rightarrow> False | Some h \<Rightarrow> sg_role h = Client)
        (ts_follow_on (sg_shape sg))) signatures"
  by code_simp+

text \<open>The table of signatures is consistent: it loses none of the modules' signatures, every
  entry is filed under its own id, which starts with its protocol and a dot, and every signature
  whose traffic may follow on is a client signature of the table.\<close>

lemma signatures_consistent:
  "length signatures = 18 \<and> dict_ok signatures
   \<and> list_all (\<lambda>(k, sg). sg_id sg = k \<and> starts_with (sg_protocol sg @ ''.'') k
       \<and> list_all (\<lambda>f. map_option sg_role (dget signatures f) = Some Client) (ts_follow_on (sg_shape sg))) signatures"
  using signatures_checked unfolding list_all_iff by (fastforce split: option.splits)

text \<open>What \<open>impl.toml\<close> may say: a file is read as a descriptor only if it decodes, and then
  there is a service table exactly when the implementation is a service, and a catalog only
  when it is an adapter; writing the descriptor back gives the data it was read from, up to
  defaults.\<close>

lemma parse_manifest_ok:
  assumes "parse_manifest toml_loads text source = Inr r"
  shows "\<exists>d data v. r = Some d \<and> toml_loads text = Inr data \<and> from_json ann_impl data = Inr v \<and> un_impl v = Some d
    \<and> (im_kind d = Service \<longleftrightarrow> im_service d \<noteq> None) \<and> (im_catalog d \<noteq> [] \<longrightarrow> im_kind d = Adapter)"
  using assms parse_manifest_reads[of toml_loads "text" source]
  by (auto simp: parse_manifest_def split: sum.splits option.splits if_splits)

definition demo_toml :: json where
  "demo_toml = JObj [(''id'', JStr ''i''), (''version'', JStr ''1''), (''kind'', JStr ''primitive''),
     (''provides'', JArr [JStr ''h.g'']), (''host'', JObj [(''platforms'', JArr [JStr ''linux''])])]"

definition demo_impl :: impl_descriptor where
  "demo_impl = \<lparr>im_id = ''i'', im_version = ''1'', im_kind = Primitive, im_provides = [''h.g''],
     im_host = \<lparr>hq_platforms = [Linux], hq_binaries = [], hq_capabilities = [], hq_image_base = []\<rparr>,
     im_variants = [], im_fingerprint = None, im_service = None, im_catalog = []\<rparr>"

lemma demo_toml:
  "\<not> isl (parse_manifest (\<lambda>_. Inr demo_toml) [] ''impl.toml'')"
  "map_option impl_val (projr (parse_manifest (\<lambda>_. Inr demo_toml) [] ''impl.toml'')) = Some (impl_val demo_impl)"
  by code_simp+

text \<open>Loading a group of entry points files every descriptor under its own id, which is its
  entry point's name, and stops with an error at the first entry point of the wrong class or
  with another id.\<close>

lemma load_group_ids:
  "case load_group id_of grp eps of
     Inr ds \<Rightarrow> (\<forall>(k, d)\<in>set ds. id_of d = k \<and> (k, Some d) \<in> set eps) \<and> set (dkeys ds) = fst ` set eps
   | Inl (WrongType n g) \<Rightarrow> (n, None) \<in> set eps
   | Inl (WrongId n i) \<Rightarrow> (\<exists>d. (n, Some d) \<in> set eps \<and> id_of d = i \<and> i \<noteq> n)"
proof (cases "load_group id_of grp eps")
  case (Inl e)
  then show ?thesis
    by (fastforce simp: load_group_def rbind_Inl_iff dest!: rmap_Inl split: option.splits if_splits)
next
  case (Inr ds)
  let ?load = "\<lambda>(name, loaded). case loaded of None \<Rightarrow> Inl (WrongType name grp)
    | Some d \<Rightarrow> if id_of d \<noteq> name then Inl (WrongId name (id_of d)) else Inr (id_of d, d)"
  from Inr obtain kvs where kvs: "rmap ?load eps = Inr kvs" "ds = dict_of kvs"
    by (auto simp: load_group_def rbind_Inr_iff)
  from kvs(1) have "map fst kvs = map fst eps"
    by (induction eps arbitrary: kvs) (auto simp: rbind_Inr_iff split: option.splits if_splits)
  then have "fst ` set kvs = fst ` set eps" by (metis set_map)
  moreover have "id_of d = k \<and> (k, Some d) \<in> set eps" if "(k, d) \<in> set kvs" for k d
    using rmap_in[OF kvs(1) that] by (auto split: option.splits if_splits)
  ultimately show ?thesis using Inr kvs(2) by (auto simp: dict_simps dest!: dict_of_in)
qed

end
