(* ===== verification/Program.thy ===== *)
theory Program
  imports Resolve Routing
begin

text \<open>
  The projected programs (\<open>core/tiergen/core/program.py\<close>): one per instance, with every
  resource resolved, every tie turned into peers with addresses, and the schedule narrowed to
  the events that select the instance. \<open>build_programs\<close> raises \<open>UnresolvedError\<close> or, where
  the code indexes a dictionary, \<open>KeyError\<close>.
\<close>

section \<open>Programs\<close>

datatype resolved_param = RScalar scalar | RChoice choice

record resolved_action =
  ra_signature :: string
  ra_tie :: string
  ra_params :: "(string, resolved_param) dict"
  ra_select :: "select_mode option"

record resolved_behaviour =
  rb_name :: string
  rb_states :: "string list"
  rb_initial :: "pyfloat list"
  rb_transitions :: "pyfloat list list"
  rb_dwell :: "distribution list"
  rb_rate :: "pyfloat list option"
  rb_action_map :: "(string, resolved_action option) dict"

record program =
  pg_scenario :: string
  pg_instance :: string
  pg_group :: string
  pg_kind :: string
  pg_platform :: platform
  pg_hostname :: string
  pg_seed :: int
  pg_start :: string
  pg_duration_s :: pyfloat
  pg_behaviours :: "resolved_behaviour list"
  pg_impls :: "(string, (string, pyfloat) dict) dict"
  pg_services :: "string list"
  pg_peers :: "(string, peer list) dict"
  pg_routes :: "route list"
  pg_schedule :: "schedule_event list"
  pg_forwards :: bool
  pg_credentials :: "string option"

datatype build_error = Unresolved msg | MissingKey string

fun ref_repr :: "'a ref \<Rightarrow> msg" where
  "ref_repr (Res n) = [R n]"
| "ref_repr (Inline x) = []"

section \<open>Building\<close>

fun resolve_param :: "resources \<Rightarrow> param_value \<Rightarrow> build_error + resolved_param" where
  "resolve_param rs (PChoiceRef r) =
     rbind (or_raise (Unresolved [L ''choice resource '', R r]) (res_choice rs (Res r))) (\<lambda>c. Inr (RChoice c))"
| "resolve_param rs (PChoice c) = Inr (RChoice c)"
| "resolve_param rs (PScalar x) = Inr (RScalar x)"

definition resolve_action :: "resources \<Rightarrow> action \<Rightarrow> build_error + resolved_action" where
  "resolve_action rs act =
     rbind (rmap (\<lambda>(name, value). rbind (resolve_param rs value) (\<lambda>p. Inr (name, p))) (act_params act))
       (\<lambda>params. Inr \<lparr>ra_signature = act_signature act, ra_tie = act_tie act, ra_params = params,
         ra_select = act_select act\<rparr>)"

definition peer_address :: "address_plan \<Rightarrow> route_plan \<Rightarrow> string \<Rightarrow> string \<Rightarrow> string list \<Rightarrow> string option" where
  "peer_address plan routes source target data =
     (let mine = segments_of plan source data;
          theirs = dget_or (pl_addresses plan) target []
      in case first_such (\<lambda>segment. segment \<in> set (dkeys theirs)) mine of
           Some segment \<Rightarrow> dget theirs segment
         | None \<Rightarrow> (case first_such (\<lambda>r. rt_segment r \<in> set (dkeys theirs)) (dget_or (rp_routes routes) source []) of
             Some r \<Rightarrow> dget theirs (rt_segment r)
           | None \<Rightarrow> None))"

text \<open>\<open>rate\<close> is looked up after the five others, the dwell parameters after it, and the actions
  last: the first thing missing is the one reported.\<close>

definition resolve_behaviour :: "resources \<Rightarrow> string \<Rightarrow> behaviour \<Rightarrow> build_error + resolved_behaviour" where
  "resolve_behaviour rs kind_name b =
     (let p = beh_process b
      in case (res_states rs p, res_initial rs p, res_transitions rs p, res_dwell rs p, res_action_map rs b) of
        (Some states, Some initial, Some transitions, Some dwell, Some action_map) \<Rightarrow>
          rbind (case sm_rate p of
              None \<Rightarrow> Inr None
            | Some r \<Rightarrow> rbind (or_raise (Unresolved [L ''rate resource '', R r, L '' of behaviour '', R (beh_name b)])
                (res_rate rs p)) (\<lambda>x. Inr (Some x))) (\<lambda>rate.
          rbind (rmap (\<lambda>d. rbind (or_raise (Unresolved ([L ''dwell parameters ''] @ ref_repr (dist_params d)))
                (resolve rs ann_floats un_floats (dist_params d))) (\<lambda>params. Inr (d\<lparr>dist_params := Inline params\<rparr>))) dwell) (\<lambda>dw.
          rbind (rmap (\<lambda>(state, act). case act of None \<Rightarrow> Inr (state, None)
                | Some a \<Rightarrow> rbind (resolve_action rs a) (\<lambda>ra. Inr (state, Some ra))) action_map) (\<lambda>am.
          Inr \<lparr>rb_name = beh_name b, rb_states = states, rb_initial = initial, rb_transitions = transitions,
            rb_dwell = dw, rb_rate = rate, rb_action_map = am\<rparr>)))
      | _ \<Rightarrow> Inl (Unresolved [L ''behaviour '', R (beh_name b), L '' of '', R kind_name]))"

definition resolve_impls :: "resources \<Rightarrow> binding \<Rightarrow> build_error + (string, (string, pyfloat) dict) dict" where
  "resolve_impls rs binding = rbind (rmap (\<lambda>s.
       rbind (or_raise (Unresolved [L ''choices for '', R (sel_signature s)]) (res_choices rs s))
         (\<lambda>c. Inr (sel_signature s, c))) (bi_impls binding)) (\<lambda>kvs. Inr (dict_of kvs))"

definition kinds_by_name :: "scenario \<Rightarrow> (string, actor_kind) dict" where
  "kinds_by_name s = dict_of (map (\<lambda>k. (kd_name k, k)) (sc_kinds s))"

definition bindings_by_kind :: "scenario \<Rightarrow> (string, binding) dict" where
  "bindings_by_kind s = dict_of (map (\<lambda>b. (bi_kind b, b)) (sc_bindings s))"

definition selected_events :: "scenario \<Rightarrow> (string, schedule_event list) dict" where
  "selected_events s = fold (\<lambda>event d.
     fold (\<lambda>i d. dappend i event d) (case select s (ev_target event) of None \<Rightarrow> [] | Some is \<Rightarrow> is) d)
     (sc_schedule s) []"

definition tie_peers :: "scenario \<Rightarrow> address_plan \<Rightarrow> route_plan \<Rightarrow> string list \<Rightarrow> string \<Rightarrow> string \<Rightarrow> string
    \<Rightarrow> tie \<Rightarrow> build_error + string \<times> peer list" where
  "tie_peers s plan routes data path kind_name instnc tie =
     (let reached = (case targets s path kind_name (tie_name tie) of None \<Rightarrow> [] | Some ts \<Rightarrow> ts)
      in rbind (rmap (\<lambda>target. case peer_address plan routes instnc target data of
            None \<Rightarrow> Inr []
          | Some address \<Rightarrow> rbind (or_raise (MissingKey (tie_target_kind tie)) (dget (kinds_by_name s) (tie_target_kind tie)))
              (\<lambda>k. Inr [\<lparr>pe_instance = target, pe_address = address, pe_served = kd_serves k\<rparr>])) reached)
         (\<lambda>found. Inr (tie_name tie, concat found)))"

definition program_of :: "scenario \<Rightarrow> topology \<Rightarrow> address_plan \<Rightarrow> route_plan \<Rightarrow> resources \<Rightarrow> string list
    \<Rightarrow> string \<times> string \<times> string \<Rightarrow> build_error + program" where
  "program_of s topo plan routes rs server_signatures =
     (\<lambda>(path, kind_name, instnc).
       rbind (or_raise (MissingKey kind_name) (dget (kinds_by_name s) kind_name)) (\<lambda>kind.
       rbind (or_raise (MissingKey kind_name) (dget (bindings_by_kind s) kind_name)) (\<lambda>binding.
       rbind (rmap (resolve_behaviour rs kind_name) (kd_behaviours kind)) (\<lambda>behaviours.
       rbind (resolve_impls rs binding) (\<lambda>impls.
       rbind (rmap (tie_peers s plan routes (data_segments topo) path kind_name instnc) (kd_ties kind)) (\<lambda>peers.
       rbind (or_raise (MissingKey instnc) (dget (pl_hostnames plan) instnc)) (\<lambda>host.
       Inr \<lparr>pg_scenario = sc_name s, pg_instance = instnc, pg_group = path, pg_kind = kind_name,
         pg_platform = ho_platform (bi_host binding), pg_hostname = host, pg_seed = sc_seed s,
         pg_start = sc_start s, pg_duration_s = sc_duration_s s, pg_behaviours = behaviours,
         pg_impls = impls, pg_services = filter (\<lambda>g. g \<in> set server_signatures) (dkeys impls),
         pg_peers = dict_of peers, pg_routes = dget_or (rp_routes routes) instnc [],
         pg_schedule = dget_or (selected_events s) instnc [], pg_forwards = kd_forwards kind,
         pg_credentials = bi_credentials binding\<rparr>)))))))"

definition build_programs :: "scenario \<Rightarrow> topology \<Rightarrow> address_plan \<Rightarrow> route_plan \<Rightarrow> resources \<Rightarrow> string list
    \<Rightarrow> build_error + (string, program) dict" where
  "build_programs s topo plan routes rs server_signatures =
     rbind (rmap (\<lambda>x. rbind (program_of s topo plan routes rs server_signatures x) (\<lambda>p. Inr (snd (snd x), p)))
       (instance_ids s)) (\<lambda>kvs. Inr (dict_of kvs))"

definition flat_id :: "string \<Rightarrow> string" where
  "flat_id i = replace_char CHR '']'' '''' (replace_char CHR ''['' ''-'' (replace_char CHR ''/'' ''-'' i))"

definition programs_by_file :: "(string, program) dict \<Rightarrow> (string, program) dict" where
  "programs_by_file ps = dict_of (map (\<lambda>(i, p). (''program.'' @ flat_id i @ ''.json'', p)) ps)"

section \<open>What a program holds\<close>

text \<open>A program of the result is what \<open>program_of\<close> makes of its instance.\<close>

lemma build_programs_get:
  assumes "build_programs s topo plan routes rs sigs = Inr ps" "dget ps i = Some p"
  shows "\<exists>path kind. (path, kind, i) \<in> set (instance_ids s)
    \<and> program_of s topo plan routes rs sigs (path, kind, i) = Inr p"
proof -
  from assms obtain kvs where kvs: "rmap (\<lambda>x. rbind (program_of s topo plan routes rs sigs x)
      (\<lambda>p. Inr (snd (snd x), p))) (instance_ids s) = Inr kvs" "ps = dict_of kvs"
    by (auto simp: build_programs_def rbind_Inr_iff)
  from assms(2) kvs(2) have "(i, p) \<in> set kvs" by (auto dest: dget_Some_in dict_of_in)
  from rmap_in[OF kvs(1) this] show ?thesis by (force simp: rbind_Inr_iff)
qed

text \<open>Every instance has a program, in the order of the instance ids.\<close>

lemma build_programs_keys:
  assumes "build_programs s topo plan routes rs sigs = Inr ps"
  shows "set (dkeys ps) = (\<lambda>(p, k, i). i) ` set (instance_ids s)"
proof -
  from assms obtain kvs where kvs: "rmap (\<lambda>x. rbind (program_of s topo plan routes rs sigs x)
      (\<lambda>p. Inr (snd (snd x), p))) (instance_ids s) = Inr kvs" "ps = dict_of kvs"
    by (auto simp: build_programs_def rbind_Inr_iff)
  from rmap_keyed[OF kvs(1)] have "fst ` set kvs = (\<lambda>x. snd (snd x)) ` set (instance_ids s)" by (metis set_map)
  then show ?thesis unfolding kvs(2) by (auto simp: dict_simps split_beta)
qed

lemma program_of_parts:
  assumes "program_of s topo plan routes rs sigs (path, kind_name, i) = Inr p"
  obtains kind binding peers where "dget (kinds_by_name s) kind_name = Some kind"
    "dget (bindings_by_kind s) kind_name = Some binding"
    "rmap (resolve_behaviour rs kind_name) (kd_behaviours kind) = Inr (pg_behaviours p)"
    "resolve_impls rs binding = Inr (pg_impls p)"
    "rmap (tie_peers s plan routes (data_segments topo) path kind_name i) (kd_ties kind) = Inr peers"
    "pg_peers p = dict_of peers"
    "pg_schedule p = dget_or (selected_events s) i []"
    "pg_routes p = dget_or (rp_routes routes) i []"
  using assms by (auto simp: program_of_def rbind_Inr_iff)

text \<open>A peer's address is the peer's planned address on a segment the instance is on or has a
  route to.\<close>

lemma peer_address_segment:
  assumes "peer_address plan routes source target data = Some a"
  shows "\<exists>segment. plan_at plan target segment = Some a \<and> (segment \<in> set (segments_of plan source data)
    \<or> (\<exists>r\<in>set (dget_or (rp_routes routes) source []). rt_segment r = segment))"
  using assms
  by (auto simp: peer_address_def Let_def plan_at_def dest!: first_such_Some split: option.splits)

lemma tie_peers_in:
  assumes "tie_peers s plan routes data path kind i tie = Inr (t, found)" "pe \<in> set found"
  shows "t = tie_name tie \<and> peer_address plan routes i (pe_instance pe) data = Some (pe_address pe)
    \<and> (\<exists>ts. targets s path kind t = Some ts \<and> pe_instance pe \<in> set ts)"
proof -
  let ?ts = "case targets s path kind (tie_name tie) of None \<Rightarrow> [] | Some ts \<Rightarrow> ts"
  from assms(1) obtain lists where t: "t = tie_name tie" "found = concat lists"
    and lists: "rmap (\<lambda>target. case peer_address plan routes i target data of
            None \<Rightarrow> Inr []
          | Some address \<Rightarrow> rbind (or_raise (MissingKey (tie_target_kind tie)) (dget (kinds_by_name s) (tie_target_kind tie)))
              (\<lambda>k. Inr [\<lparr>pe_instance = target, pe_address = address, pe_served = kd_serves k\<rparr>])) ?ts = Inr lists"
    by (auto simp: tie_peers_def Let_def rbind_Inr_iff)
  from assms(2) t(2) obtain l where "l \<in> set lists" "pe \<in> set l" by auto
  with rmap_in[OF lists this(1)] t(1) show ?thesis
    by (cases "targets s path kind (tie_name tie)") (auto simp: rbind_Inr_iff split: option.splits)
qed

text \<open>The events of an instance, in the order of the schedule.\<close>

lemma selected_events_inner:
  "distinct is \<Longrightarrow> dget_or (fold (\<lambda>i d. dappend i event d) is d) i [] = dget_or d i [] @ (if i \<in> set is then [event] else [])"
  by (induction "is" arbitrary: d) (auto simp: dict_simps)

lemma select_distinct:
  assumes "ids_regular s" "select s text = Some is"
  shows "distinct is"
proof -
  have d: "distinct (map (\<lambda>(p, k, i). i) (filter P (instance_ids s)))" for P
    using distinct_instance_ids[OF assms(1)] by (rule distinct_map_filter)
  from assms(2) show ?thesis
    using d by (auto simp: select_def Let_def split: option.splits if_splits prod.splits)
qed

lemma selected_events_of:
  assumes "ids_regular s"
  shows "dget_or (selected_events s) i [] =
    filter (\<lambda>e. \<exists>is. select s (ev_target e) = Some is \<and> i \<in> set is) (sc_schedule s)"
  unfolding selected_events_def
proof (rule fold_done[where Q = "\<lambda>evs d. dget_or d i [] = filter (\<lambda>e. \<exists>is. select s (ev_target e) = Some is \<and> i \<in> set is) evs"])
  fix evs e d
  assume *: "dget_or d i [] = filter (\<lambda>e. \<exists>is. select s (ev_target e) = Some is \<and> i \<in> set is) evs"
  show "dget_or (fold (\<lambda>i d. dappend i e d) (case select s (ev_target e) of None \<Rightarrow> [] | Some is \<Rightarrow> is) d) i [] =
    filter (\<lambda>e. \<exists>is. select s (ev_target e) = Some is \<and> i \<in> set is) (evs @ [e])"
    using * select_distinct[OF assms, of "ev_target e"]
    by (cases "select s (ev_target e)") (simp_all add: selected_events_inner)
qed (simp add: dget_or_def)


lemma peers_deliver:
  assumes "plan_routes s topo plan = (routes, [])"
    and "build_programs s topo plan routes rs sigs = Inr ps" "dget ps i = Some p"
    and "(t, found) \<in> set (pg_peers p)" "pe \<in> set found"
  shows "\<exists>path kind segment ts. (path, kind, i) \<in> set (instance_ids s)
    \<and> targets s path kind t = Some ts \<and> pe_instance pe \<in> set ts
    \<and> plan_at plan (pe_instance pe) segment = Some (pe_address pe)
    \<and> delivers plan routes (data_segments topo) i segment"
proof -
  from build_programs_get[OF assms(2,3)] obtain path kind where
    i: "(path, kind, i) \<in> set (instance_ids s)" and
    p: "program_of s topo plan routes rs sigs (path, kind, i) = Inr p" by blast
  obtain k :: actor_kind and peers where
    peers: "rmap (tie_peers s plan routes (data_segments topo) path kind i) (kd_ties k) = Inr peers"
    and eq: "pg_peers p = dict_of peers"
    by (rule program_of_parts[OF p]) blast
  from assms(4) eq have "(t, found) \<in> set peers" by (auto dest: dict_of_in)
  from rmap_in[OF peers this] obtain tie where
    "tie_peers s plan routes (data_segments topo) path kind i tie = Inr (t, found)" by blast
  note pe = tie_peers_in[OF this assms(5)]
  then obtain segment where segment: "plan_at plan (pe_instance pe) segment = Some (pe_address pe)"
    "segment \<in> set (segments_of plan i (data_segments topo))
      \<or> (\<exists>r\<in>set (dget_or (rp_routes routes) i []). rt_segment r = segment)"
    using peer_address_segment by blast
  then have "delivers plan routes (data_segments topo) i segment"
    using route_delivers[OF assms(1) i] by (auto intro: delivers.arrived)
  with i pe segment(1) show ?thesis by blast
qed

section \<open>Properties\<close>

definition demo_programs :: "build_error + (string, program) dict" where
  "demo_programs = build_programs demo_scenario demo_topology (fst demo_plan) (fst demo_routes)
     (dict_resources [] [''cfg'']) [''h.s'']"

definition demo_program :: "string \<Rightarrow> program" where
  "demo_program i = the (dget (projr demo_programs) i)"

lemma demo_programs_checked:
  "let r = demo_programs; get = \<lambda>i. the (dget (projr r) i)
   in \<not> isl r \<and> dkeys (projr r) = [''o/c[0]'', ''o/c[1]'', ''d/s[0]'', ''d/r[0]'']
      \<and> (''t'', [\<lparr>pe_instance = ''d/s[0]'', pe_address = ''10.0.1.5'',
           pe_served = [\<lparr>ep_protocol = ''http'', ep_port = 80, ep_transport = Tcp\<rparr>]\<rparr>]) \<in> set (pg_peers (get ''o/c[0]''))
      \<and> map ev_target (pg_schedule (get ''o/c[1]'')) = [''o/c'']"
  by code_simp

lemma demo_programs:
  "\<not> isl demo_programs"
  "dkeys (projr demo_programs) = [''o/c[0]'', ''o/c[1]'', ''d/s[0]'', ''d/r[0]'']"
  "(''t'', [\<lparr>pe_instance = ''d/s[0]'', pe_address = ''10.0.1.5'',
     pe_served = [\<lparr>ep_protocol = ''http'', ep_port = 80, ep_transport = Tcp\<rparr>]\<rparr>]) \<in> set (pg_peers (demo_program ''o/c[0]''))"
  "map ev_target (pg_schedule (demo_program ''o/c[1]'')) = [''o/c'']"
  using demo_programs_checked unfolding Let_def demo_program_def by blast+

lemma demo_programs_run: "build_programs demo_scenario demo_topology (fst demo_plan) (fst demo_routes)
     (dict_resources [] [''cfg'']) [''h.s''] = Inr (projr demo_programs)"
  using demo_programs(1) by (cases demo_programs) (simp_all add: demo_programs_def)

lemma demo_program_get:
  "i \<in> {''o/c[0]'', ''o/c[1]'', ''d/s[0]'', ''d/r[0]''} \<Longrightarrow> dget (projr demo_programs) i = Some (demo_program i)"
proof -
  assume "i \<in> {''o/c[0]'', ''o/c[1]'', ''d/s[0]'', ''d/r[0]''}"
  then have "i \<in> set (dkeys (projr demo_programs))" unfolding demo_programs(2) by auto
  then show ?thesis unfolding set_dkeys by (auto simp: demo_program_def)
qed

text \<open>What a program tells an agent about its peers is right: each peer of a tie is an
  instance the tie's wiring reaches, its address is the one the address plan gave it on some
  data segment, and on a problem-free route plan packets from the agent's instance for that
  segment are delivered, hop by hop over the forwarders' own routes.\<close>

lemma program_peers_deliver:
  assumes "plan_routes s topo plan = (routes, [])"
    and "build_programs s topo plan routes rs sigs = Inr ps" "dget ps i = Some p"
    and "(t, found) \<in> set (pg_peers p)" "pe \<in> set found"
  shows "\<exists>path kind segment ts. (path, kind, i) \<in> set (instance_ids s)
    \<and> targets s path kind t = Some ts \<and> pe_instance pe \<in> set ts
    \<and> plan_at plan (pe_instance pe) segment = Some (pe_address pe)
    \<and> delivers plan routes (data_segments topo) i segment"
  using assms by (rule peers_deliver)

text \<open>There is one program for each instance of the scenario and no other, and each holds
  exactly the schedule events whose target selects its instance, in the schedule's order, with
  the instance's own routes.\<close>

lemma programs_schedule:
  assumes "build_programs s topo plan routes rs sigs = Inr ps" "ids_regular s"
  shows "set (dkeys ps) = (\<lambda>(p, k, i). i) ` set (instance_ids s)
    \<and> (\<forall>i p. dget ps i = Some p \<longrightarrow>
         pg_schedule p = filter (\<lambda>e. \<exists>is. select s (ev_target e) = Some is \<and> i \<in> set is) (sc_schedule s)
         \<and> pg_routes p = dget_or (rp_routes routes) i [])"
proof -
  have "pg_schedule p = dget_or (selected_events s) i [] \<and> pg_routes p = dget_or (rp_routes routes) i []"
    if "dget ps i = Some p" for i p
    using build_programs_get[OF assms(1) that] by (auto elim: program_of_parts)
  with build_programs_keys[OF assms(1)] selected_events_of[OF assms(2)] show ?thesis by simp
qed

end
