(* ===== verification/Check_Context.thy ===== *)
theory Check_Context
  imports Resolve Interfaces Addressing
begin

text \<open>
  What every check is given and what it reports (\<open>check/tiergen/check/context.py\<close>,
  \<open>diagnostics.py\<close>). A check is a function from the context to its diagnostics, in the order
  the generator yields them. A path of the IR is a string, built as the f-strings build it.
\<close>

section \<open>Diagnostics\<close>

datatype severity = SevError | SevWarning | SevNotComputed

record diagnostic =
  dg_check :: string
  dg_severity :: severity
  dg_path :: string
  dg_message :: msg

definition an_error :: "string \<Rightarrow> string \<Rightarrow> msg \<Rightarrow> diagnostic" where
  "an_error chk path m = \<lparr>dg_check = chk, dg_severity = SevError, dg_path = path, dg_message = m\<rparr>"

definition a_warning :: "string \<Rightarrow> string \<Rightarrow> msg \<Rightarrow> diagnostic" where
  "a_warning chk path m = \<lparr>dg_check = chk, dg_severity = SevWarning, dg_path = path, dg_message = m\<rparr>"

definition not_computed :: "string \<Rightarrow> string \<Rightarrow> msg \<Rightarrow> diagnostic" where
  "not_computed chk path m = \<lparr>dg_check = chk, dg_severity = SevNotComputed, dg_path = path, dg_message = m\<rparr>"

section \<open>The context\<close>

record check_context =
  cx_scenario :: scenario
  cx_resources :: resources
  cx_impls :: "(string, impl_descriptor) dict"
  cx_sensors :: "(string, sensor_descriptor) dict"
  cx_infra :: "(string, infra_descriptor) dict"
  cx_signatures :: "(string, signature) dict"

abbreviation cx_states where "cx_states c \<equiv> res_states (cx_resources c)"
abbreviation cx_initial where "cx_initial c \<equiv> res_initial (cx_resources c)"
abbreviation cx_transitions where "cx_transitions c \<equiv> res_transitions (cx_resources c)"
abbreviation cx_dwell where "cx_dwell c \<equiv> res_dwell (cx_resources c)"
abbreviation cx_rate where "cx_rate c \<equiv> res_rate (cx_resources c)"
abbreviation cx_action_map where "cx_action_map c \<equiv> res_action_map (cx_resources c)"
abbreviation cx_choice where "cx_choice c \<equiv> res_choice (cx_resources c)"
abbreviation cx_choices where "cx_choices c \<equiv> res_choices (cx_resources c)"
abbreviation cx_host_manifest where "cx_host_manifest c \<equiv> res_host_manifest (cx_resources c)"
abbreviation cx_provenance where "cx_provenance c \<equiv> res_provenance (cx_resources c) (cx_scenario c)"
abbreviation cx_topology where "cx_topology c \<equiv> res_topology (cx_resources c) (cx_scenario c)"

definition cx_held :: "check_context \<Rightarrow> string \<Rightarrow> int" where
  "cx_held c kind = sum_list (map (\<lambda>g. max (dget_or (gr_instances g) kind 0) 0) (sc_groups (cx_scenario c)))"

definition cx_kind :: "check_context \<Rightarrow> string \<Rightarrow> actor_kind option" where
  "cx_kind c name = first_such (\<lambda>k. kd_name k = name) (sc_kinds (cx_scenario c))"

definition cx_binding :: "check_context \<Rightarrow> string \<Rightarrow> binding option" where
  "cx_binding c kind = first_such (\<lambda>b. bi_kind b = kind) (sc_bindings (cx_scenario c))"

text \<open>\<open>kinds[2].behaviours[0]\<close> and the like: an index after a name, a key after a name.\<close>

definition at_index :: "string \<Rightarrow> nat \<Rightarrow> string" where
  "at_index name i = name @ ''['' @ show_nat i @ '']''"

definition at_key :: "string \<Rightarrow> string \<Rightarrow> string" where
  "at_key name k = name @ ''['' @ repr_str k @ '']''"

definition behaviour_path :: "nat \<Rightarrow> nat \<Rightarrow> string" where
  "behaviour_path k b = at_index ''kinds'' k @ ''.'' @ at_index ''behaviours'' b"

definition cx_actions :: "check_context \<Rightarrow> actor_kind \<Rightarrow> (string \<times> action) list" where
  "cx_actions c kind =
     (let k = index_of kind (sc_kinds (cx_scenario c))
      in concat (map (\<lambda>(b, beh). concat (map (\<lambda>(state, act). case act of
             None \<Rightarrow> []
           | Some a \<Rightarrow> [(behaviour_path k b @ ''.'' @ at_key ''action_map'' state, a)])
           (case cx_action_map c beh of None \<Rightarrow> [] | Some am \<Rightarrow> am))) (enumerate0 (kd_behaviours kind))))"

section \<open>Lemmas\<close>

lemma in_cx_actions:
  "(p, a) \<in> set (cx_actions c kind) \<Longrightarrow>
     \<exists>beh\<in>set (kd_behaviours kind). \<exists>am state. cx_action_map c beh = Some am \<and> (state, Some a) \<in> set am"
  by (auto simp: cx_actions_def Let_def split: option.splits dest!: nth_mem) metis

lemma cx_actions_ex:
  assumes "beh \<in> set (kd_behaviours kind)" "cx_action_map c beh = Some am" "(state, Some a) \<in> set am"
  shows "\<exists>p. (p, a) \<in> set (cx_actions c kind)"
proof -
  from enumerate0_ex[OF assms(1)] obtain b where b: "(b, beh) \<in> set (enumerate0 (kd_behaviours kind))" ..
  have "(behaviour_path (index_of kind (sc_kinds (cx_scenario c))) b @ ''.'' @ at_key ''action_map'' state, a)
      \<in> set (cx_actions c kind)"
    unfolding cx_actions_def Let_def set_concat set_map
    using b assms(2,3) by (intro UN_I[where a = "concat _"] imageI b) force+
  then show ?thesis by blast
qed

lemma sum_max_nat: "(\<Sum>x\<leftarrow>xs. max (f x) 0) = int (\<Sum>x\<leftarrow>xs. nat (max (f x) (0 :: int)))"
  by (induction xs) auto

lemma cx_held_count: "cx_held c kind = int (\<Sum>g\<leftarrow>sc_groups (cx_scenario c). held_count g kind)"
  unfolding cx_held_def held_count_def by (rule sum_max_nat)

end
