(* ===== verification/Checks_Model.thy ===== *)
theory Checks_Model
  imports Check_Context
begin

text \<open>
  Checks 1 to 4 (\<open>check/tiergen/check/c01_ties.py\<close> to \<open>c04_process.py\<close>): the ties and their
  wiring, the direction of actions, the action maps and the semi-Markov processes.
\<close>

section \<open>Check 1: ties\<close>

definition c01_kind_errors :: "check_context \<Rightarrow> diagnostic list" where
  "c01_kind_errors c =
     (let s = cx_scenario c; kinds = map kd_name (sc_kinds s)
      in concat (map (\<lambda>(k, kind). concat (map (\<lambda>(t, tie).
           if tie_target_kind tie \<notin> set kinds
           then [an_error ''C01'' (at_index ''kinds'' k @ ''.'' @ at_index ''ties'' t @ ''.target_kind'')
             [L ''tie '', R (tie_name tie), L '' targets unknown kind '', R (tie_target_kind tie)]]
           else []) (enumerate0 (kd_ties kind)))) (enumerate0 (sc_kinds s))))"

definition c01_count_errors :: "string list \<Rightarrow> string \<Rightarrow> group \<Rightarrow> diagnostic list" where
  "c01_count_errors kinds path g = concat (map (\<lambda>(name, count).
     if name \<notin> set kinds then [an_error ''C01'' (path @ ''.'' @ at_key ''instances'' name)
         [R name, L '' is not a kind of this scenario'']]
     else if count < 0 then [an_error ''C01'' (path @ ''.'' @ at_key ''instances'' name)
         [L ''instance count '', I count, L '' is negative'']]
     else []) (gr_instances g))"

text \<open>\<open>held\<close> is a set and \<open>expected\<close> a dictionary built by iterating it; the model takes it in
  the order of \<open>instances\<close>. Only if two kinds' ties give the same key does the order show.\<close>

definition held_kinds :: "string list \<Rightarrow> group \<Rightarrow> string list" where
  "held_kinds kinds g = map fst (filter (\<lambda>(name, count). name \<in> set kinds \<and> count > 0) (gr_instances g))"

definition expected_ties :: "(string, actor_kind) dict \<Rightarrow> string list \<Rightarrow> (string, tie) dict" where
  "expected_ties kinds held = dict_of (concat (map (\<lambda>name. case dget kinds name of
     None \<Rightarrow> [] | Some k \<Rightarrow> map (\<lambda>tie. (name @ ''.'' @ tie_name tie, tie)) (kd_ties k)) held))"

definition wired_total :: "scenario \<Rightarrow> string \<Rightarrow> string list \<Rightarrow> int" where
  "wired_total s kind wired = sum_list (map (\<lambda>g. max (dget_or (gr_instances g) kind 0) 0)
     (filter (\<lambda>g. gr_path g \<in> set wired) (sc_groups s)))"

definition c01_multiplicity :: "scenario \<Rightarrow> string \<Rightarrow> string \<Rightarrow> tie \<Rightarrow> string list \<Rightarrow> diagnostic list" where
  "c01_multiplicity s path key tie wired =
     (let total = wired_total s (tie_target_kind tie) wired;
          reach = join_msg '', '' (map (\<lambda>p. [R p]) wired)
      in if tie_multiplicity tie = Single \<and> total \<noteq> 1
         then [an_error ''C01'' path ([S key, L '' is single and must reach exactly one '', R (tie_target_kind tie), L ''; '']
           @ reach @ [L '' hold '', I total])]
         else if tie_multiplicity tie = Optional \<and> total > 1
         then [an_error ''C01'' path ([S key, L '' is optional and may reach at most one '', R (tie_target_kind tie), L ''; '']
           @ reach @ [L '' hold '', I total])]
         else [])"

definition c01_wiring :: "scenario \<Rightarrow> (string, actor_kind) dict \<Rightarrow> string \<Rightarrow> group \<Rightarrow> string list
    \<Rightarrow> (string, tie) dict \<Rightarrow> string \<times> string list \<Rightarrow> diagnostic list" where
  "c01_wiring s kinds path g held expected = (\<lambda>(key, wired).
     let loc = path @ ''.'' @ at_key ''wiring'' key
     in case dget expected key of
          None \<Rightarrow>
            (case partition_on CHR ''.'' key of (kind_name, _, tn) \<Rightarrow>
               if kind_name \<in> set held \<and> tn \<notin> (case dget kinds kind_name of None \<Rightarrow> {} | Some k \<Rightarrow> tie_name ` set (kd_ties k))
               then [an_error ''C01'' loc [L ''kind '', R kind_name, L '' has no tie '', R tn]]
               else if kind_name \<notin> set held
               then [an_error ''C01'' loc [R (gr_path g), L '' holds no '', R kind_name, L '' to wire'']]
               else [])
        | Some tie \<Rightarrow>
            if tie_target_kind tie \<notin> set (dkeys kinds) then []
            else (let unknown = filter (\<lambda>p. p \<notin> set (paths s)) wired
                  in map (\<lambda>p. an_error ''C01'' loc [R p, L '' is not a group of this scenario'']) unknown
                     @ (if unknown \<noteq> [] \<or> wired = []
                        then (if wired = [] then [an_error ''C01'' loc [S key, L '' is wired to no group'']] else [])
                        else c01_multiplicity s loc key tie wired)))"

definition c01_group :: "scenario \<Rightarrow> (string, actor_kind) dict \<Rightarrow> nat \<times> group \<Rightarrow> diagnostic list" where
  "c01_group s kinds = (\<lambda>(i, g).
     let path = at_index ''groups'' i;
         held = held_kinds (dkeys kinds) g;
         expected = expected_ties kinds held
     in c01_count_errors (dkeys kinds) path g
        @ map (\<lambda>key. an_error ''C01'' (path @ ''.wiring'')
            [S key, L ('' is not wired: say which groups'' @ CHR 0x27 # '' instances of ''), R (tie_target_kind (the (dget expected key))),
             L '' it reaches from '', R (gr_path g)])
            (sorted_set (filter (\<lambda>key. key \<notin> set (dkeys (gr_wiring g))) (dkeys expected)))
        @ concat (map (c01_wiring s kinds path g held expected) (gr_wiring g)))"

definition c01_check :: "check_context \<Rightarrow> diagnostic list" where
  "c01_check c =
     (let s = cx_scenario c; kinds = dict_of (map (\<lambda>k. (kd_name k, k)) (sc_kinds s))
      in c01_kind_errors c @ concat (map (c01_group s kinds) (enumerate0 (sc_groups s))))"

section \<open>Check 2: actions reach something that can answer\<close>

definition c02_action :: "check_context \<Rightarrow> actor_kind \<Rightarrow> string \<times> action \<Rightarrow> diagnostic list" where
  "c02_action c kind = (\<lambda>(path, act).
     case dget (cx_signatures c) (act_signature act) of
       None \<Rightarrow> []
     | Some sg \<Rightarrow>
         if sg_role sg \<noteq> Client then []
         else (case dget (dict_of (map (\<lambda>t. (tie_name t, t)) (kd_ties kind))) (act_tie act) of
           None \<Rightarrow> [an_error ''C02'' (path @ ''.tie'') [L ''kind '', R (kd_name kind), L '' has no tie '', R (act_tie act)]]
         | Some tie \<Rightarrow>
             (case cx_kind c (tie_target_kind tie) of
                None \<Rightarrow> []
              | Some target \<Rightarrow>
                  if sg_endpoints sg = [] then []
                  else if list_ex (\<lambda>e. ep_protocol e \<in> set (sg_endpoints sg) \<and> ep_transport e = ts_transport (sg_shape sg))
                    (kd_serves target) then []
                  else [an_error ''C02'' path ([S (act_signature act), L '' over tie '', R (act_tie act), L '' needs '',
                    R (kd_name target), L '' to serve ''] @ join_str '' or '' (sg_endpoints sg)
                    @ [L '' on '', L (transport_str (ts_transport (sg_shape sg))), L '', and it does not''])])))"

definition c02_check :: "check_context \<Rightarrow> diagnostic list" where
  "c02_check c = concat (map (\<lambda>kind. concat (map (c02_action c kind) (cx_actions c kind))) (sc_kinds (cx_scenario c)))"

section \<open>Check 3: action maps\<close>

definition c03_entry :: "check_context \<Rightarrow> string \<Rightarrow> behaviour \<Rightarrow> string list \<Rightarrow> string \<times> action option \<Rightarrow> diagnostic list" where
  "c03_entry c path beh states = (\<lambda>(state, act).
     let entry = path @ ''.'' @ at_key ''action_map'' state
     in (if state \<notin> set states
         then [an_error ''C03'' entry [R state, L '' is not a state of behaviour '', R (beh_name beh)]] else [])
        @ (case act of None \<Rightarrow> []
           | Some a \<Rightarrow> (case dget (cx_signatures c) (act_signature a) of
               None \<Rightarrow> [an_error ''C03'' (entry @ ''.signature'') [L ''unknown signature '', R (act_signature a)]]
             | Some sg \<Rightarrow> if sg_role sg \<noteq> Client
                 then [an_error ''C03'' (entry @ ''.signature'') [S (act_signature a),
                   L '' is a server signature; it belongs in a binding, not an action'']]
                 else [])))"

definition c03_behaviour :: "check_context \<Rightarrow> string \<Rightarrow> behaviour \<Rightarrow> diagnostic list" where
  "c03_behaviour c path beh =
     (case (cx_states c (beh_process beh), cx_action_map c beh) of
        (Some states, Some actions) \<Rightarrow>
          concat (map (\<lambda>state. if state \<notin> set (dkeys actions)
            then [an_error ''C03'' (path @ ''.action_map'')
              [L ''state '', R state, L '' has no entry; use None for a silent state'']] else []) states)
          @ concat (map (c03_entry c path beh states) actions)
      | _ \<Rightarrow> [])"

definition c03_check :: "check_context \<Rightarrow> diagnostic list" where
  "c03_check c = concat (map (\<lambda>(k, kind). concat (map (\<lambda>(b, beh). c03_behaviour c (behaviour_path k b) beh)
     (enumerate0 (kd_behaviours kind)))) (enumerate0 (sc_kinds (cx_scenario c))))"

section \<open>Check 4: processes\<close>

text \<open>\<open>1e-9\<close>.\<close>

definition tolerance :: rat where
  "tolerance = 1 / 1000000000"

definition stochastic :: "pyfloat list \<Rightarrow> msg option" where
  "stochastic row =
     (if list_ex (\<lambda>p. fl_lt p (Fin 0)) row then Some [L ''has a negative entry'']
      else let total = fl_sum row
           in if fl_lt (Fin tolerance) (fl_abs (fl_sub total (Fin 1)))
              then Some [L ''sums to '', FG total, L '', not 1'']
              else None)"

text \<open>The search over the transitions: \<open>seen\<close> and \<open>frontier\<close>, which is a stack. Its start, a
  set in the code, is taken in the order of the states.\<close>

definition row_at :: "pyfloat list list \<Rightarrow> nat \<Rightarrow> pyfloat list" where
  "row_at matrix i = (if i < length matrix then matrix ! i else [])"

definition visit :: "pyfloat list list \<Rightarrow> nat \<Rightarrow> nat list \<times> nat list \<Rightarrow> nat list \<times> nat list" where
  "visit matrix i st = fold (\<lambda>(j, prob) (seen, frontier).
     if fl_lt (Fin 0) prob \<and> j \<notin> set seen then (seen @ [j], frontier @ [j]) else (seen, frontier))
     (enumerate0 (row_at matrix i)) st"

definition visited :: "pyfloat list list \<Rightarrow> nat \<Rightarrow> nat list \<Rightarrow> nat list" where
  "visited matrix i seen = filter (\<lambda>j. fl_lt (Fin 0) (row_at matrix i ! j) \<and> j \<notin> set seen) [0..<length (row_at matrix i)]"

lemma visit_visited: "visit matrix i (seen, frontier) = (seen @ visited matrix i seen, frontier @ visited matrix i seen)"
proof -
  let ?row = "row_at matrix i"
  have "fold (\<lambda>(j, prob) (seen, frontier).
      if fl_lt (Fin 0) prob \<and> j \<notin> set seen then (seen @ [j], frontier @ [j]) else (seen, frontier))
      (take n (enumerate0 ?row)) (seen, frontier)
    = (let new = filter (\<lambda>j. fl_lt (Fin 0) (?row ! j) \<and> j \<notin> set seen) [0..<n] in (seen @ new, frontier @ new))"
    if "n \<le> length ?row" for n
    using that by (induction n) (auto simp: take_Suc_conv_app_nth enumerate0_def Let_def)
  from this[of "length ?row"] show ?thesis by (simp add: visit_def visited_def enumerate0_def Let_def)
qed

definition row_width :: "pyfloat list list \<Rightarrow> nat" where
  "row_width matrix = foldr max (map length matrix) 0"

lemma row_width: "length (row_at matrix i) \<le> row_width matrix"
proof -
  have "row \<in> set matrix \<Longrightarrow> length row \<le> row_width matrix" for row
    unfolding row_width_def by (induction matrix) auto
  then show ?thesis by (simp add: row_at_def)
qed

function search :: "pyfloat list list \<Rightarrow> nat list \<Rightarrow> nat list \<Rightarrow> nat list" where
  "search matrix seen frontier =
     (if frontier = [] then seen
      else case visit matrix (last frontier) (seen, butlast frontier) of
        (seen', frontier') \<Rightarrow> search matrix seen' frontier')"
  by pat_completeness auto

termination
proof (relation "measure (\<lambda>(matrix, seen, frontier). 2 * card ({..<row_width matrix} - set seen) + length frontier)")
  fix matrix seen frontier seen' frontier'
  assume ne: "frontier \<noteq> []" and x: "(seen', frontier') = visit matrix (last frontier) (seen, butlast frontier)"
  define new where "new = visited matrix (last frontier) seen"
  have eq: "seen' = seen @ new" "frontier' = butlast frontier @ new"
    using x by (simp_all add: visit_visited new_def)
  have new: "distinct new" "set new \<subseteq> {..<row_width matrix} - set seen"
    using row_width[of matrix "last frontier"] by (auto simp: new_def visited_def)
  have "card ({..<row_width matrix} - set seen') = card (({..<row_width matrix} - set seen) - set new)"
    by (rule arg_cong[where f = card]) (auto simp: eq)
  also have "\<dots> = card ({..<row_width matrix} - set seen) - length new"
    using new by (simp add: card_Diff_subset distinct_card)
  finally have "card ({..<row_width matrix} - set seen') + length new = card ({..<row_width matrix} - set seen)"
    using card_mono[OF _ new(2)] new(1) by (simp add: distinct_card)
  with ne show "((matrix, seen', frontier'), matrix, seen, frontier)
      \<in> measure (\<lambda>(matrix, seen, frontier). 2 * card ({..<row_width matrix} - set seen) + length frontier)"
    by (cases frontier rule: rev_cases) (auto simp: eq(2))
qed simp

declare search.simps [simp del]

definition unreachable_states :: "nat \<Rightarrow> pyfloat list \<Rightarrow> pyfloat list list \<Rightarrow> nat list" where
  "unreachable_states n initial matrix =
     (let start = map fst (filter (\<lambda>(i, prob). fl_lt (Fin 0) prob) (enumerate0 initial));
          seen = search matrix start start
      in filter (\<lambda>i. i \<notin> set seen) [0..<n])"

text \<open>A problem found makes the value unusable for the search: \<open>None\<close> stands for the code's
  assignment of \<open>None\<close>, which also stands for a resource that did not resolve.\<close>

definition c04_initial :: "string \<Rightarrow> nat \<Rightarrow> pyfloat list option \<Rightarrow> diagnostic list \<times> pyfloat list option" where
  "c04_initial path n initial = (case initial of
     None \<Rightarrow> ([], None)
   | Some row \<Rightarrow>
       if length row \<noteq> n then ([an_error ''C04'' (path @ ''.initial'')
         [L ''has '', I (int (length row)), L '' entries for '', I (int n), L '' states'']], None)
       else (case stochastic row of
           Some problem \<Rightarrow> ([an_error ''C04'' (path @ ''.initial'') problem], None)
         | None \<Rightarrow> ([], Some row)))"

definition c04_matrix :: "string \<Rightarrow> string list \<Rightarrow> pyfloat list list option \<Rightarrow> diagnostic list \<times> pyfloat list list option" where
  "c04_matrix path states matrix = (let n = length states in case matrix of
     None \<Rightarrow> ([], None)
   | Some rows \<Rightarrow>
       if length rows \<noteq> n \<or> list_ex (\<lambda>row. length row \<noteq> n) rows
       then ([an_error ''C04'' (path @ ''.transitions'') [L ''is not '', I (int n), L '' by '', I (int n)]], None)
       else (concat (map (\<lambda>(i, row). case stochastic row of None \<Rightarrow> []
               | Some problem \<Rightarrow> [an_error ''C04'' (at_index (path @ ''.transitions'') i)
                   ([L ''row for '', R (states ! i), L '' ''] @ problem)]) (enumerate0 rows)),
             if list_ex (\<lambda>row. stochastic row \<noteq> None) rows then None else Some rows))"

definition c04_process :: "check_context \<Rightarrow> string \<Rightarrow> semi_markov \<Rightarrow> diagnostic list" where
  "c04_process c path p = (case cx_states c p of
     None \<Rightarrow> []
   | Some states \<Rightarrow>
       let n = length states
       in if n = 0 then [an_error ''C04'' (path @ ''.states'') [L ''a process needs at least one state'']]
          else (case (c04_initial path n (cx_initial c p), c04_matrix path states (cx_transitions c p)) of
            ((ds1, initial), (ds2, matrix)) \<Rightarrow>
              ds1 @ ds2
              @ (case (initial, matrix) of
                   (Some row, Some rows) \<Rightarrow> map (\<lambda>i. an_error ''C04'' (at_index (path @ ''.states'') i)
                     [L ''state '', R (states ! i), L '' is unreachable'']) (unreachable_states n row rows)
                 | _ \<Rightarrow> [])
              @ (case cx_dwell c p of None \<Rightarrow> []
                 | Some dwell \<Rightarrow> if length dwell \<noteq> n then [an_error ''C04'' (path @ ''.dwell'')
                     [L ''has '', I (int (length dwell)), L '' distributions for '', I (int n), L '' states'']] else [])
              @ (case cx_rate c p of None \<Rightarrow> []
                 | Some rate \<Rightarrow> if length rate \<notin> {24, 168} then [an_error ''C04'' (path @ ''.rate'')
                     [L ''has '', I (int (length rate)), L '' entries; a rate curve has 24 or 168'']] else [])))"

definition c04_check :: "check_context \<Rightarrow> diagnostic list" where
  "c04_check c = concat (map (\<lambda>(k, kind). concat (map (\<lambda>(b, beh).
     c04_process c (behaviour_path k b @ ''.process'') (beh_process beh))
     (enumerate0 (kd_behaviours kind)))) (enumerate0 (sc_kinds (cx_scenario c))))"

section \<open>The search finds the reachable states\<close>

definition edges :: "pyfloat list list \<Rightarrow> (nat \<times> nat) set" where
  "edges matrix = {(i, j). j < length (row_at matrix i) \<and> fl_lt (Fin 0) (row_at matrix i ! j)}"

lemma set_visited: "set (visited matrix i seen) = {j. (i, j) \<in> edges matrix} - set seen"
  by (auto simp: visited_def edges_def)

lemma search_reaches:
  assumes "set frontier \<subseteq> set seen"
    and "\<And>i j. i \<in> set seen \<Longrightarrow> i \<notin> set frontier \<Longrightarrow> (i, j) \<in> edges matrix \<Longrightarrow> j \<in> set seen"
  shows "set (search matrix seen frontier) = (edges matrix)\<^sup>* `` set seen"
  using assms
proof (induction matrix seen frontier rule: search.induct)
  case (1 matrix seen frontier)
  show ?case
  proof (cases "frontier = []")
    case True
    with 1(3) have "edges matrix `` set seen \<subseteq> set seen" by auto
    then have "(edges matrix)\<^sup>* `` set seen = set seen" by (rule Image_closed_trancl)
    with True show ?thesis by (simp add: search.simps)
  next
    case False
    define new where "new = visited matrix (last frontier) seen"
    have step: "search matrix seen frontier = search matrix (seen @ new) (butlast frontier @ new)"
      using False by (subst search.simps) (simp add: visit_visited new_def)
    have new: "set new = {j. (last frontier, j) \<in> edges matrix} - set seen" by (simp add: new_def set_visited)
    have last: "last frontier \<in> set seen" using 1(2) False by auto
    have frontier: "set frontier = insert (last frontier) (set (butlast frontier))"
      using False by (metis append_butlast_last_id list.set(2) set_append Un_insert_right sup_bot_right list.set(1))
    have "set (search matrix (seen @ new) (butlast frontier @ new)) = (edges matrix)\<^sup>* `` set (seen @ new)"
    proof (rule "1.IH"[OF False])
      show "(seen @ new, butlast frontier @ new) = visit matrix (last frontier) (seen, butlast frontier)"
        by (simp add: visit_visited new_def)
      show "set (butlast frontier @ new) \<subseteq> set (seen @ new)" using 1(2) frontier by auto
      show "j \<in> set (seen @ new)"
        if "i \<in> set (seen @ new)" "i \<notin> set (butlast frontier @ new)" "(i, j) \<in> edges matrix" for i j
      proof (cases "i = last frontier")
        case True
        with that(3) new show ?thesis by auto
      next
        case False
        with that 1(3)[of i j] frontier show ?thesis by auto
      qed
    qed
    also have "\<dots> = (edges matrix)\<^sup>* `` set seen"
      using last new by (auto intro: rtrancl_into_rtrancl converse_rtrancl_into_rtrancl)
    finally show ?thesis by (simp add: step)
  qed
qed

definition starts :: "pyfloat list \<Rightarrow> nat set" where
  "starts initial = {i. i < length initial \<and> fl_lt (Fin 0) (initial ! i)}"

lemma unreachable_states_reach:
  "unreachable_states n initial matrix = filter (\<lambda>i. i \<notin> (edges matrix)\<^sup>* `` starts initial) [0..<n]"
proof -
  let ?start = "map fst (filter (\<lambda>(i, prob). fl_lt (Fin 0) prob) (enumerate0 initial))"
  have "set ?start = starts initial" by (force simp: starts_def)
  with search_reaches[of ?start ?start matrix] show ?thesis
    by (simp add: unreachable_states_def Let_def)
qed

text \<open>A row of finite entries that passes.\<close>

definition stochastic_row :: "pyfloat list \<Rightarrow> bool" where
  "stochastic_row row \<longleftrightarrow> (\<exists>xs. row = map Fin xs \<and> (\<forall>x\<in>set xs. 0 \<le> x) \<and> \<bar>sum_list xs - 1\<bar> \<le> tolerance)"

lemma finite_row: "list_all fl_isfinite row \<Longrightarrow> \<exists>xs. row = map Fin xs"
proof (induction row)
  case (Cons x row)
  then obtain xs where "row = map Fin xs" by auto
  with Cons.prems show ?case by (cases x) (auto intro: exI[of _ "_ # xs"])
qed simp

lemma stochastic_None: "list_all fl_isfinite row \<Longrightarrow> stochastic row = None \<longleftrightarrow> stochastic_row row"
proof -
  assume "list_all fl_isfinite row"
  then obtain xs where row: "row = map Fin xs" using finite_row by blast
  have inj: "map Fin xs = map Fin ys \<longleftrightarrow> xs = ys" for ys by (rule inj_map_eq_map) (simp add: inj_def)
  have neg: "list_ex (\<lambda>p. fl_lt p (Fin 0)) (map Fin xs) \<longleftrightarrow> \<not> (\<forall>x\<in>set xs. 0 \<le> x)"
    by (auto simp: list_ex_iff not_le)
  show ?thesis
    unfolding stochastic_def stochastic_row_def row neg by (auto simp: Let_def fl_sum_Fin inj)
qed

text \<open>C16: Check 4's search is exact: the states it reports as unreachable are, in order, those no
  path of positive transition probabilities reaches from a state of positive initial
  probability.\<close>

theorem unreachable_exact:
  "unreachable_states n initial matrix = filter (\<lambda>i. i \<notin> (edges matrix)\<^sup>* `` starts initial) [0..<n]"
  by (rule unreachable_states_reach)

end
