(* ===== verification/Checks_Hosts.thy ===== *)
theory Checks_Hosts
  imports Check_Context
begin

text \<open>
  Checks 5 to 8 (\<open>check/tiergen/check/c05_resources.py\<close> to \<open>c08_impls.py\<close>): the resources, the
  host bindings, what a backend offers and the choice of implementations.
\<close>

section \<open>Check 5: resources\<close>

text \<open>A reference: its path, the resource's name and the annotation it is decoded at, \<open>None\<close> for an
  opaque resource.\<close>

type_synonym reference = "string \<times> string \<times> ann option"

definition ref_name :: "string \<Rightarrow> 'a ref \<Rightarrow> ann option \<Rightarrow> reference list" where
  "ref_name path r shape = (case r of Inline _ \<Rightarrow> [] | Res n \<Rightarrow> [(path, n, shape)])"

definition process_references :: "string \<Rightarrow> behaviour \<Rightarrow> reference list" where
  "process_references base beh =
     (let p = beh_process beh
      in ref_name (base @ ''.process.states'') (sm_states p) (Some (TSeq TStr))
         @ ref_name (base @ ''.process.initial'') (sm_initial p) (Some ann_floats)
         @ ref_name (base @ ''.process.transitions'') (sm_transitions p) (Some (TSeq ann_floats))
         @ ref_name (base @ ''.process.dwell'') (sm_dwell p) (Some (TSeq ann_distribution))
         @ (case sm_rate p of None \<Rightarrow> [] | Some n \<Rightarrow> [(base @ ''.process.rate'', n, Some ann_floats)])
         @ ref_name (base @ ''.action_map'') (beh_action_map beh) (Some ann_action_map))"

definition dwell_references :: "check_context \<Rightarrow> string \<Rightarrow> behaviour \<Rightarrow> reference list" where
  "dwell_references c base beh = concat (map (\<lambda>(d, dist).
     ref_name (at_index (base @ ''.process.dwell'') d @ ''.params'') (dist_params dist) (Some ann_floats))
     (enumerate0 (case cx_dwell c (beh_process beh) of None \<Rightarrow> [] | Some ds \<Rightarrow> ds)))"

definition param_references :: "string \<times> action \<Rightarrow> reference list" where
  "param_references = (\<lambda>(path, act). concat (map (\<lambda>(name, v). case v of
     PChoiceRef r \<Rightarrow> [(path @ ''.'' @ at_key ''params'' name, r, Some ann_choice)] | _ \<Rightarrow> []) (act_params act)))"

definition kind_references :: "check_context \<Rightarrow> nat \<times> actor_kind \<Rightarrow> reference list" where
  "kind_references c = (\<lambda>(k, kind).
     concat (map (\<lambda>(b, beh). process_references (behaviour_path k b) beh @ dwell_references c (behaviour_path k b) beh)
       (enumerate0 (kd_behaviours kind)))
     @ concat (map param_references (cx_actions c kind)))"

definition binding_references :: "nat \<times> binding \<Rightarrow> reference list" where
  "binding_references = (\<lambda>(i, b).
     (case ho_manifest (bi_host b) of None \<Rightarrow> []
      | Some n \<Rightarrow> [(at_index ''bindings'' i @ ''.host.manifest'', n, Some (TSeq ann_endpoint))])
     @ concat (map (\<lambda>(j, sel). ref_name (at_index ''bindings'' i @ ''.'' @ at_index ''impls'' j @ ''.choices'')
         (sel_choices sel) (Some (TDict TFloat))) (enumerate0 (bi_impls b))))"

definition references :: "check_context \<Rightarrow> reference list" where
  "references c =
     (let s = cx_scenario c
      in concat (map (kind_references c) (enumerate0 (sc_kinds s)))
         @ concat (map binding_references (enumerate0 (sc_bindings s)))
         @ ref_name ''topology'' (sc_topology s) (Some ann_topology)
         @ map (\<lambda>(i, sensor). (at_index ''sensors'' i @ ''.config'', ss_config sensor, None)) (enumerate0 (sc_sensors s))
         @ (case sc_fit_provenance s of None \<Rightarrow> [] | Some r \<Rightarrow> ref_name ''fit_provenance'' r (Some ann_provenance)))"

definition c05_reference :: "check_context \<Rightarrow> reference \<Rightarrow> diagnostic list" where
  "c05_reference c = (\<lambda>(path, name, shape).
     if \<not> rs_exists (cx_resources c) name
     then [an_error ''C05'' path [L ''resource '', R name, L '' does not exist'']]
     else (case shape of
         None \<Rightarrow> []
       | Some tp \<Rightarrow> (case rs_get (cx_resources c) name of
           None \<Rightarrow> [an_error ''C05'' path [L ''resource '', R name, L '' is not JSON'']]
         | Some data \<Rightarrow> (case decode tp data [] of
             Inl err \<Rightarrow> [an_error ''C05'' path ([L ''resource '', R name, L '' has the wrong shape: ''] @ codec_message err)]
           | Inr _ \<Rightarrow> []))))"

definition c05_check :: "check_context \<Rightarrow> diagnostic list" where
  "c05_check c = concat (map (c05_reference c) (references c))"

section \<open>Check 6: bindings and what hosts serve\<close>

definition choice_names :: "check_context \<Rightarrow> impl_selection \<Rightarrow> string list" where
  "choice_names c sel = (case cx_choices c sel of None \<Rightarrow> [] | Some d \<Rightarrow> dkeys d)"

definition impl_of :: "check_context \<Rightarrow> string \<Rightarrow> impl_descriptor option" where
  "impl_of c choice = dget (cx_impls c) (if_impl (impl_ref_parse choice))"

definition service_tables :: "check_context \<Rightarrow> impl_selection \<Rightarrow> endpoint list list" where
  "service_tables c sel = concat (map (\<lambda>choice. case impl_of c choice of
       Some impl \<Rightarrow> (case im_service impl of Some t \<Rightarrow> [st_served t] | None \<Rightarrow> [])
     | None \<Rightarrow> []) (choice_names c sel))"

definition common_endpoints :: "endpoint list list \<Rightarrow> endpoint list" where
  "common_endpoints tables = (case tables of [] \<Rightarrow> []
     | t # ts \<Rightarrow> fold (\<lambda>table acc. filter (\<lambda>e. e \<in> set table) acc) ts t)"

definition is_server :: "check_context \<Rightarrow> string \<Rightarrow> bool" where
  "is_server c sg = (case dget (cx_signatures c) sg of None \<Rightarrow> False | Some x \<Rightarrow> sg_role x = Server)"

definition served_by_default_host :: "check_context \<Rightarrow> binding \<Rightarrow> endpoint list" where
  "served_by_default_host c b = concat (map (\<lambda>sel.
     if \<not> is_server c (sel_signature sel) then [] else common_endpoints (service_tables c sel)) (bi_impls b))"

definition c06_binding :: "check_context \<Rightarrow> nat \<times> binding \<Rightarrow> diagnostic list" where
  "c06_binding c = (\<lambda>(i, b).
     let s = cx_scenario c
     in if bi_kind b \<notin> set (map kd_name (sc_kinds s))
        then [an_error ''C06'' (at_index ''bindings'' i @ ''.kind'') [R (bi_kind b), L '' is not a kind of this scenario'']]
        else if index_of (bi_kind b) (map bi_kind (sc_bindings s)) \<noteq> i
        then [an_error ''C06'' (at_index ''bindings'' i) [L ''kind '', R (bi_kind b), L '' is bound twice'']]
        else [])"

definition c06_missing :: "actor_kind \<Rightarrow> string \<Rightarrow> endpoint list \<Rightarrow> msg \<Rightarrow> diagnostic list" where
  "c06_missing kind path served source = concat (map (\<lambda>e. if e \<in> set served then []
     else [an_error ''C06'' path ([L ''kind '', R (kd_name kind), L '' serves '', S (ep_protocol e), L '' on '', I (ep_port e),
       L ''/'', L (transport_str (ep_transport e)), L '', which ''] @ source @ [L '' do not provide''])]) (kd_serves kind))"

definition c06_kind :: "check_context \<Rightarrow> nat \<times> actor_kind \<Rightarrow> diagnostic list" where
  "c06_kind c = (\<lambda>(k, kind). case cx_binding c (kd_name kind) of
     None \<Rightarrow> if cx_held c (kd_name kind) \<noteq> 0
       then [an_error ''C06'' (at_index ''kinds'' k) [L ''kind '', R (kd_name kind), L '' has instances but no binding'']]
       else []
   | Some b \<Rightarrow>
       let path = at_index ''bindings'' (index_of b (sc_bindings (cx_scenario c)));
           h = bi_host b
       in case host_ref_parse (ho_ref h) of
            None \<Rightarrow> [an_error ''C06'' (path @ ''.host.ref'') [R (ho_ref h), L '' is not '', R ''default'', L '', '',
              R ''image:<ref>'', L '' or '', R ''template:<ref>'']]
          | Some parsed \<Rightarrow>
              if hr_kind parsed = HDefault
              then c06_missing kind path (served_by_default_host c b) [L ''its selected service implementations'']
              else (case ho_manifest h of
                  None \<Rightarrow> if kd_serves kind = [] then []
                    else [an_error ''C06'' (path @ ''.host.manifest'')
                      [L ''custom host '', R (ho_ref h), L '' needs a manifest of what it serves'']]
                | Some m \<Rightarrow> (case cx_host_manifest c h of
                    None \<Rightarrow> []
                  | Some served \<Rightarrow> c06_missing kind path served [L ''manifest '', R m])))"

definition c06_check :: "check_context \<Rightarrow> diagnostic list" where
  "c06_check c = concat (map (c06_binding c) (enumerate0 (sc_bindings (cx_scenario c))))
     @ concat (map (c06_kind c) (enumerate0 (sc_kinds (cx_scenario c))))"

section \<open>Check 7: hosts and backends\<close>

definition binding_offer :: "check_context \<Rightarrow> binding \<Rightarrow> host_offer option" where
  "binding_offer c b = (case dget (cx_infra c) (ho_backend (bi_host b)) of
     None \<Rightarrow> None
   | Some backend \<Rightarrow> infra_offer backend (ho_platform (bi_host b)) (ho_host_type (bi_host b)))"

definition c07_host :: "check_context \<Rightarrow> nat \<Rightarrow> binding \<Rightarrow> diagnostic list" where
  "c07_host c i b =
     (let h = bi_host b; path = at_index ''bindings'' i
      in (case cx_kind c (bi_kind b) of
            None \<Rightarrow> []
          | Some kind \<Rightarrow> if ho_platform h \<in> set (kd_platforms kind) then []
              else [an_error ''C07'' (path @ ''.host.platform'') ([L ''kind '', R (kd_name kind), L '' allows '']
                @ join_str '', '' (map platform_str (kd_platforms kind)) @ [L '', not '', L (platform_str (ho_platform h))])])
         @ (case dget (cx_infra c) (ho_backend h) of
              None \<Rightarrow> [an_error ''C07'' (path @ ''.host.backend'')
                [L ''infrastructure backend '', R (ho_backend h), L '' is not installed'']]
            | Some backend \<Rightarrow> (case binding_offer c b of
                None \<Rightarrow> [an_error ''C07'' (path @ ''.host'') ([S (in_id backend), L '' offers no '', L (platform_str (ho_platform h)),
                  L '' '', L (host_type_str (ho_host_type h)), L ''; it offers: '']
                  @ join_msg '', '' (map (\<lambda>off. [L (platform_str (ho_offer_platform off)), L '' '',
                      L (host_type_str (ho_offer_type off))]) (in_offers backend)))]
              | Some _ \<Rightarrow> []))
         @ (case binding_offer c b of
              None \<Rightarrow> []
            | Some off \<Rightarrow> if ho_grantable off \<noteq> None \<and> bi_mac_oui b = None
                then [a_warning ''C07'' (path @ ''.mac_oui'') [R (bi_kind b), L '' has no MAC prefix, so its hosts get '',
                  S (ho_backend h), L (CHR 0x27 # ''s own, ''),
                  L ''which a sensor can fingerprint as the substrate; fit the OUI or set one'']]
                else []))"

text \<open>One chosen implementation. The state is \<open>bases\<close>: which implementation wants which base image.\<close>

definition c07_choice :: "check_context \<Rightarrow> nat \<Rightarrow> binding \<Rightarrow> nat \<Rightarrow> string
    \<Rightarrow> diagnostic list \<times> (string, string) dict \<Rightarrow> diagnostic list \<times> (string, string) dict" where
  "c07_choice c i b j choice = (\<lambda>(ds, bases).
     case impl_of c choice of
       None \<Rightarrow> (ds, bases)
     | Some impl \<Rightarrow>
         let h = bi_host b; pl = ho_platform h;
             path = at_index ''bindings'' i @ ''.'' @ at_index ''impls'' j @ ''.'' @ at_key ''choices'' choice;
             runs = (if pl \<in> set (hq_platforms (im_host impl)) then []
               else [an_error ''C07'' path [S (im_id impl), L '' does not run on '', L (platform_str pl)]]);
             base = dget (hq_image_base (im_host impl)) (platform_str pl);
             default_host = (case host_ref_parse (ho_ref h) of None \<Rightarrow> False | Some r \<Rightarrow> hr_kind r = HDefault);
             (clash, bases') = (case base of
               Some img \<Rightarrow> if default_host
                 then ((if bases \<noteq> [] \<and> img \<notin> set (dvalues bases)
                   then [an_error ''C07'' path [S (im_id impl), L '' wants base image '', R img, L '' but '', S (fst (hd bases)),
                     L '' wants '', R (snd (hd bases)), L ''; one default host cannot be built from both'']]
                   else []),
                   (if im_id impl \<in> set (dkeys bases) then bases else dset (im_id impl) img bases))
                 else ([], bases)
             | None \<Rightarrow> ([], bases));
             caps = (case binding_offer c b of
               None \<Rightarrow> []
             | Some off \<Rightarrow> (case ho_grantable off of
                 None \<Rightarrow> []
               | Some grantable \<Rightarrow> concat (map (\<lambda>cap. if cap \<in> set grantable then []
                   else [an_error ''C07'' path [S (im_id impl), L '' needs host capability '', R cap, L '', which '',
                     S (ho_backend h), L '' cannot grant a '', L (platform_str pl), L '' '', L (host_type_str (ho_host_type h))]])
                   (hq_capabilities (im_host impl)))))
         in (ds @ runs @ clash @ caps, bases'))"

definition c07_binding :: "check_context \<Rightarrow> nat \<times> binding \<Rightarrow> diagnostic list" where
  "c07_binding c = (\<lambda>(i, b). c07_host c i b
     @ fst (fold (\<lambda>(j, sel) st. fold (c07_choice c i b j) (choice_names c sel) st) (enumerate0 (bi_impls b)) ([], [])))"

definition c07_check :: "check_context \<Rightarrow> diagnostic list" where
  "c07_check c = concat (map (c07_binding c) (enumerate0 (sc_bindings (cx_scenario c))))"

section \<open>Check 8: implementations\<close>

definition is_client :: "check_context \<Rightarrow> string \<Rightarrow> bool" where
  "is_client c sg = (case dget (cx_signatures c) sg of None \<Rightarrow> False | Some x \<Rightarrow> sg_role x = Client)"

definition c08_kind :: "check_context \<Rightarrow> actor_kind \<Rightarrow> diagnostic list" where
  "c08_kind c kind = (case cx_binding c (kd_name kind) of
     None \<Rightarrow> []
   | Some b \<Rightarrow>
       let bound = map sel_signature (bi_impls b);
           used = filter (is_client c) (map (\<lambda>(path, act). act_signature act) (cx_actions c kind))
       in map (\<lambda>sg. an_error ''C08'' (at_index ''bindings'' (index_of b (sc_bindings (cx_scenario c))) @ ''.impls'')
            [L ''kind '', R (kd_name kind), L '' uses '', S sg, L '', which no implementation is selected for''])
            (sorted_set (filter (\<lambda>sg. sg \<notin> set bound) used)))"

definition c08_choice :: "check_context \<Rightarrow> string \<Rightarrow> string \<Rightarrow> string \<times> pyfloat \<Rightarrow> diagnostic list" where
  "c08_choice c path sg = (\<lambda>(choice, weight).
     let loc = path @ ''.'' @ at_key ''choices'' choice; ref = impl_ref_parse choice
     in (case dget (cx_impls c) (if_impl ref) of
           None \<Rightarrow> [an_error ''C08'' loc [L ''implementation '', R (if_impl ref), L '' is not installed'']]
         | Some impl \<Rightarrow>
             (if sg \<notin> set (im_provides impl)
              then [an_error ''C08'' loc [S (if_impl ref), L '' does not provide '', S sg]] else [])
             @ (case if_variant ref of None \<Rightarrow> []
                | Some v \<Rightarrow> if v \<in> set (im_variants impl) then []
                    else [an_error ''C08'' loc [S (if_impl ref), L '' has no variant '', R v]]))
        @ (if \<not> (fl_isfinite weight \<and> fl_lt (Fin 0) weight)
           then [an_error ''C08'' loc [L ''weight '', FR weight, L '' is not positive'']] else []))"

definition c08_selection :: "check_context \<Rightarrow> nat \<Rightarrow> nat \<times> impl_selection \<Rightarrow> diagnostic list" where
  "c08_selection c i = (\<lambda>(j, sel).
     let path = at_index ''bindings'' i @ ''.'' @ at_index ''impls'' j; sg = sel_signature sel
     in if sg \<notin> set (dkeys (cx_signatures c))
        then [an_error ''C08'' (path @ ''.signature'') [L ''unknown signature '', R sg]]
        else (case cx_choices c sel of
            None \<Rightarrow> []
          | Some choices \<Rightarrow>
              (if choices = [] then [an_error ''C08'' (path @ ''.choices'') [L ''no implementation is offered for '', S sg]] else [])
              @ concat (map (c08_choice c path sg) choices)))"

definition c08_event :: "check_context \<Rightarrow> nat \<times> schedule_event \<Rightarrow> diagnostic list" where
  "c08_event c = (\<lambda>(e, event). case (ev_op event, ev_arg event) of
     (OpRunSequence, AStr arg) \<Rightarrow> (case partition_on CHR '':'' arg of (adapter_id, _, entry) \<Rightarrow>
       (case dget (cx_impls c) adapter_id of
          None \<Rightarrow> [an_error ''C08'' (at_index ''schedule'' e @ ''.arg'') [R adapter_id, L '' is not an installed adapter'']]
        | Some adapter \<Rightarrow>
            if im_kind adapter \<noteq> Adapter
            then [an_error ''C08'' (at_index ''schedule'' e @ ''.arg'') [R adapter_id, L '' is not an installed adapter'']]
            else if entry \<notin> set (map ca_id (im_catalog adapter))
            then [an_error ''C08'' (at_index ''schedule'' e @ ''.arg'')
              [L ''adapter '', S adapter_id, L '' has no catalog entry '', R entry]]
            else []))
   | _ \<Rightarrow> [])"

definition c08_check :: "check_context \<Rightarrow> diagnostic list" where
  "c08_check c = concat (map (c08_kind c) (sc_kinds (cx_scenario c)))
     @ concat (map (\<lambda>(i, b). concat (map (c08_selection c i) (enumerate0 (bi_impls b)))) (enumerate0 (sc_bindings (cx_scenario c))))
     @ concat (map (c08_event c) (enumerate0 (sc_schedule (cx_scenario c))))"

end
