(* ===== verification/Checks_Network.thy ===== *)
theory Checks_Network
  imports Check_Context Routing
begin

text \<open>
  Checks 9 and 10 (\<open>check/tiergen/check/c09_planes.py\<close>, \<open>c10_addresses.py\<close>): the two planes and
  what the captures see of the ties, the two plans and whether every wired tie can carry a
  packet. \<open>digest\<close> is the hash behind planned MAC addresses, which neither check looks at.
\<close>

section \<open>Shared pieces\<close>

definition planes :: "topology \<Rightarrow> (string, plane) dict" where
  "planes topo = dict_of (map (\<lambda>g. (seg_name g, seg_plane g)) (top_segments topo))"

text \<open>A CIDR that is no network is reported by check 10; there, and between address families,
  nothing is shared.\<close>

definition shared_space :: "segment \<Rightarrow> segment \<Rightarrow> bool" where
  "shared_space a b = (case (ip_network (seg_cidr a), ip_network (seg_cidr b)) of
     (Inr x, Inr y) \<Rightarrow> overlaps x y | _ \<Rightarrow> False)"

definition sources_of :: "scenario \<Rightarrow> string \<Rightarrow> string \<Rightarrow> string list" where
  "sources_of s path kind = map (\<lambda>(p, k, i). i) (filter (\<lambda>(p, k, i). p = path \<and> k = kind) (instance_ids s))"

definition wire_ends :: "string \<Rightarrow> string \<times> string" where
  "wire_ends key = (case partition_on CHR ''.'' key of (kind, _, t) \<Rightarrow> (kind, t))"

section \<open>Check 9: planes and captures\<close>

definition c09_management :: "topology \<Rightarrow> diagnostic list" where
  "c09_management topo =
     (let management = filter (\<lambda>g. seg_plane g = ManagementPlane) (top_segments topo)
      in (if length management \<noteq> 1
          then [an_error ''C09'' ''topology.segments''
            [L ''exactly one management segment is needed; there are '', I (int (length management))]] else [])
         @ concat (map (\<lambda>mgmt. concat (map (\<lambda>net.
             if seg_plane net = DataPlane \<and> shared_space mgmt net
             then [an_error ''C09'' ''topology.segments'' [L ''management segment '', R (seg_name mgmt), L '' ('', S (seg_cidr mgmt),
               L '') overlaps data-plane network '', R (seg_name net), L '' ('', S (seg_cidr net), L '')'']]
             else []) (top_segments topo))) management))"

definition c09_points :: "topology \<Rightarrow> diagnostic list" where
  "c09_points topo = concat (map (\<lambda>(k, point).
     let path = ''topology.'' @ at_index ''capture_points'' k
     in (if cp_name point \<in> set (map cp_name (take k (top_capture_points topo)))
         then [an_error ''C09'' path [L ''capture point '', R (cp_name point), L '' is defined twice'']] else [])
        @ (if cp_segments point = []
           then [an_error ''C09'' (path @ ''.segments'') [L ''capture point '', R (cp_name point), L '' observes no segment'']] else [])
        @ concat (map (\<lambda>(i, name). case dget (planes topo) name of
             None \<Rightarrow> [an_error ''C09'' (at_index (path @ ''.segments'') i) [R name, L '' is not a segment of this topology'']]
           | Some pl \<Rightarrow> if pl = DataPlane then []
               else [an_error ''C09'' (at_index (path @ ''.segments'') i) [L ''capture point '', R (cp_name point),
                 L '' observes management segment '', R name, L ''; a capture there records the tool, not the network'']])
             (enumerate0 (cp_segments point)))) (enumerate0 (top_capture_points topo)))"

definition c09_active :: "scenario \<Rightarrow> topology \<Rightarrow> diagnostic list" where
  "c09_active s topo =
     (if sc_capture_points s = []
      then [an_error ''C09'' ''capture_points'' [L ''no capture point is active, so the run would produce no pcap'']] else [])
     @ concat (map (\<lambda>(k, name). if name \<in> set (map cp_name (top_capture_points topo)) then []
         else [an_error ''C09'' (at_index ''capture_points'' k) [R name, L '' is not a capture point of the topology'']])
         (enumerate0 (sc_capture_points s)))"

definition observed_segments :: "scenario \<Rightarrow> topology \<Rightarrow> string list" where
  "observed_segments s topo = concat (map cp_segments
     (filter (\<lambda>p. cp_name p \<in> set (sc_capture_points s)) (top_capture_points topo)))"

definition instance_seen :: "scenario \<Rightarrow> topology \<Rightarrow> address_plan \<Rightarrow> string \<Rightarrow> bool" where
  "instance_seen s topo plan i =
     list_ex (\<lambda>seg. seg \<in> set (observed_segments s topo)) (segments_of plan i (data_segments topo))"

definition unseen_pairs :: "scenario \<Rightarrow> topology \<Rightarrow> address_plan \<Rightarrow> string \<Rightarrow> string \<Rightarrow> (string \<times> string) list" where
  "unseen_pairs s topo plan path key = (case wire_ends key of (kind, t) \<Rightarrow>
     concat (map (\<lambda>src. concat (map (\<lambda>dst.
         if \<not> instance_seen s topo plan src \<and> \<not> instance_seen s topo plan dst then [(src, dst)] else [])
       (case targets s path kind t of None \<Rightarrow> [] | Some ts \<Rightarrow> ts))) (sources_of s path kind)))"

definition c09_wires :: "scenario \<Rightarrow> topology \<Rightarrow> address_plan \<Rightarrow> diagnostic list" where
  "c09_wires s topo plan = concat (map (\<lambda>(g, grp). concat (map (\<lambda>(key, _).
     case unseen_pairs s topo plan (gr_path grp) key of
       [] \<Rightarrow> []
     | (src, dst) # rest \<Rightarrow> [a_warning ''C09'' (at_index ''groups'' g @ ''.'' @ at_key ''wiring'' key)
         [L ''no active capture point observes a segment of '', S src, L '' or of '', S dst, L ''; traffic over '', S key,
          L '' would be attributed but never seen by a sensor ('', I (int (Suc (length rest))), L '' such pair(s))'']])
     (gr_wiring grp))) (enumerate0 (sc_groups s)))"

definition c09_check :: "(string \<Rightarrow> nat list) \<Rightarrow> check_context \<Rightarrow> diagnostic list" where
  "c09_check digest c = (case cx_topology c of
     None \<Rightarrow> []
   | Some topo \<Rightarrow>
       let s = cx_scenario c
       in c09_management topo @ c09_points topo @ c09_active s topo
          @ c09_wires s topo (fst (plan_addresses digest s topo))
          @ concat (map (\<lambda>(i, sensor). if ss_mode sensor = Live
              then [not_computed ''C09'' (at_index ''sensors'' i @ ''.mode'') [S (ss_impl sensor),
                L '' runs live, and a SensorSpec does not say which interface it listens on, so whether that interface is data-plane cannot be checked'']]
              else []) (enumerate0 (sc_sensors s))))"

section \<open>Check 10: the plans\<close>

definition plan_errors :: "problem list \<Rightarrow> diagnostic list" where
  "plan_errors ps = map (\<lambda>p. an_error ''C10'' (''topology.'' @ pr_path p) (pr_message p)) ps"

fun pairs :: "'a list \<Rightarrow> ('a \<times> 'a) list" where
  "pairs [] = []"
| "pairs (x # xs) = map (Pair x) xs @ pairs xs"

definition c10_overlaps :: "topology \<Rightarrow> diagnostic list" where
  "c10_overlaps topo = concat (map (\<lambda>(a, b). if shared_space a b
     then [an_error ''C10'' ''topology.segments'' [L ''data-plane segments '', R (seg_name a), L '' ('', S (seg_cidr a), L '') and '',
       R (seg_name b), L '' ('', S (seg_cidr b), L '') overlap, so an address could mean two hosts'']]
     else []) (pairs (filter (\<lambda>g. seg_plane g = DataPlane) (top_segments topo))))"

definition c10_attachments :: "scenario \<Rightarrow> topology \<Rightarrow> nat \<times> group \<Rightarrow> diagnostic list" where
  "c10_attachments s topo = (\<lambda>(g, grp).
     let kinds = map kd_name (sc_kinds s)
     in concat (map (\<lambda>(kind, networks).
          let path = at_index ''groups'' g @ ''.'' @ at_key ''attachments'' kind
          in (if kind \<notin> set kinds then [an_error ''C10'' path [R kind, L '' is not a kind of this scenario'']] else [])
             @ concat (map (\<lambda>name. case dget (planes topo) name of
                 None \<Rightarrow> [an_error ''C10'' path [R name, L '' is not a segment of this topology'']]
               | Some pl \<Rightarrow> if pl = DataPlane then []
                   else [an_error ''C10'' path [R name, L '' is the management segment; every instance joins it implicitly'']])
               networks)) (gr_attachments grp))
        @ concat (map (\<lambda>(kind, count).
            if kind \<in> set kinds \<and> count > 0
               \<and> filter (\<lambda>n. dget (planes topo) n = Some DataPlane) (dget_or (gr_attachments grp) kind []) = []
            then [an_error ''C10'' (at_index ''groups'' g @ ''.'' @ at_key ''instances'' kind)
              [R (gr_path grp), L '' holds '', R kind, L '' but attaches it to no data-plane network'']]
            else []) (gr_instances grp)))"

definition dead_pairs :: "scenario \<Rightarrow> topology \<Rightarrow> address_plan \<Rightarrow> route_plan \<Rightarrow> string \<Rightarrow> string \<Rightarrow> (string \<times> string) list" where
  "dead_pairs s topo plan routes path key = (case wire_ends key of (kind, t) \<Rightarrow>
     (case targets s path kind t of
        None \<Rightarrow> []
      | Some reached \<Rightarrow> concat (map (\<lambda>src. concat (map (\<lambda>dst.
          if reachable plan routes src dst (data_segments topo) then [] else [(src, dst)]) reached))
          (sources_of s path kind))))"

definition c10_wire :: "scenario \<Rightarrow> topology \<Rightarrow> address_plan \<Rightarrow> route_plan \<Rightarrow> nat \<Rightarrow> group \<Rightarrow> string \<Rightarrow> diagnostic list" where
  "c10_wire s topo plan routes g grp key = (case dead_pairs s topo plan routes (gr_path grp) key of
     [] \<Rightarrow> []
   | (src, dst) # rest \<Rightarrow> [an_error ''C10'' (at_index ''groups'' g @ ''.'' @ at_key ''wiring'' key)
       [S src, L '' cannot reach '', S dst, L '': no shared segment and no route through a forwarder ('',
        I (int (Suc (length rest))), L '' such pair(s))'']])"

definition c10_wires :: "scenario \<Rightarrow> topology \<Rightarrow> address_plan \<Rightarrow> route_plan \<Rightarrow> diagnostic list" where
  "c10_wires s topo plan routes = concat (map (\<lambda>(g, grp).
     concat (map (\<lambda>(key, _). c10_wire s topo plan routes g grp key) (gr_wiring grp))) (enumerate0 (sc_groups s)))"

definition c10_egress :: "scenario \<Rightarrow> diagnostic list" where
  "c10_egress s = (if sc_egress s = EgressNone then []
     else [not_computed ''C10'' ''egress'' [L ''egress is '', R (egress_str (sc_egress s)),
       L '': whether an internet stub or an allowlist backs it, and whether every egress override is a fitted external destination, needs the destinations fit will emit'']])"

definition c10_check :: "(string \<Rightarrow> nat list) \<Rightarrow> check_context \<Rightarrow> diagnostic list" where
  "c10_check digest c = (case cx_topology c of
     None \<Rightarrow> []
   | Some topo \<Rightarrow>
       let s = cx_scenario c
       in (case plan_addresses digest s topo of (plan, problems) \<Rightarrow>
            (case plan_routes s topo plan of (routes, route_problems) \<Rightarrow>
               plan_errors problems @ plan_errors route_problems
               @ c10_overlaps topo
               @ concat (map (c10_attachments s topo) (enumerate0 (sc_groups s)))
               @ c10_wires s topo plan routes
               @ c10_egress s)))"

end
