(* ===== verification/Checks_Names.thy ===== *)
theory Checks_Names
  imports Check_Context
begin

text \<open>
  Checks 11 to 16 (\<open>check/tiergen/check/c11_labels.py\<close> to \<open>c16_params.py\<close>): the names labels are
  built from, the schedule, the sensors and what was fitted, and the actions' parameters. Check
  12 asks Python whether the start is a time with a UTC offset; that is its parameter.
\<close>

section \<open>Check 11: names\<close>

definition duplicates :: "string list \<Rightarrow> string list" where
  "duplicates names = sorted_set (map snd (filter (\<lambda>(i, name). name \<in> set (take i names)) (enumerate0 names)))"

definition c11_kind :: "check_context \<Rightarrow> nat \<times> actor_kind \<Rightarrow> diagnostic list" where
  "c11_kind c = (\<lambda>(k, kind).
     let path = at_index ''kinds'' k
     in map (\<lambda>name. an_error ''C11'' (path @ ''.ties'') [L ''tie name '', R name, L '' is used twice''])
          (duplicates (map tie_name (kd_ties kind)))
        @ map (\<lambda>name. an_error ''C11'' (path @ ''.behaviours'') [L ''behaviour name '', R name, L '' is used twice''])
          (duplicates (map beh_name (kd_behaviours kind)))
        @ concat (map (\<lambda>(b, beh). map (\<lambda>name. an_error ''C11'' (behaviour_path k b @ ''.process.states'')
            [L ''state '', R name, L '' is listed twice''])
            (duplicates (case cx_states c (beh_process beh) of None \<Rightarrow> [] | Some ss \<Rightarrow> ss)))
          (enumerate0 (kd_behaviours kind))))"

definition c11_group_path :: "scenario \<Rightarrow> nat \<times> group \<Rightarrow> diagnostic list" where
  "c11_group_path s = (\<lambda>(g, grp).
     (case gr_parent grp of
        None \<Rightarrow> []
      | Some pp \<Rightarrow> if gr_name grp \<notin> set (map kd_name (sc_kinds s)) then []
          else (case first_such (\<lambda>p. gr_path p = pp) (sc_groups s) of
            None \<Rightarrow> []
          | Some parent \<Rightarrow> if dget_or (gr_instances parent) (gr_name grp) 0 > 0
              then [an_error ''C11'' (at_index ''groups'' g @ ''.name'') [L ''group '', R (gr_path grp), L '' is named like kind '',
                R (gr_name grp), L '', which its parent holds: a schedule target could mean either'']]
              else []))
     @ (if gr_path grp \<in> set (take g (paths s))
        then [an_error ''C11'' (at_index ''groups'' g) [L ''group path '', R (gr_path grp), L '' is used twice (also groups['',
          I (int (index_of (gr_path grp) (paths s))), L ''])'']]
        else []))"

definition c11_group_name :: "scenario \<Rightarrow> nat \<times> group \<Rightarrow> diagnostic list" where
  "c11_group_name s = (\<lambda>(g, grp).
     (case gr_parent grp of
        None \<Rightarrow> []
      | Some pp \<Rightarrow> if pp \<in> set (paths s) then []
          else [an_error ''C11'' (at_index ''groups'' g @ ''.parent'') [R pp, L '' is not a group of this scenario'']])
     @ (if gr_name grp = [] \<or> list_ex (\<lambda>x. x \<in> set (gr_name grp)) ''/[]''
        then [an_error ''C11'' (at_index ''groups'' g @ ''.name'') [R (gr_name grp), L '' is not a group name: no '', R ''/'', L '', '',
          R ''['', L '' or '', R '']'']]
        else []))"

definition c11_binding :: "check_context \<Rightarrow> nat \<times> binding \<Rightarrow> diagnostic list" where
  "c11_binding c = (\<lambda>(i, b).
     map (\<lambda>name. an_error ''C11'' (at_index ''bindings'' i @ ''.impls'') [L ''signature '', S name, L '' is selected twice''])
       (duplicates (map sel_signature (bi_impls b)))
     @ (case cx_kind c (bi_kind b) of
          None \<Rightarrow> []
        | Some kind \<Rightarrow> concat (map (\<lambda>(j, sel). case dget (cx_signatures c) (sel_signature sel) of
            None \<Rightarrow> []
          | Some sg \<Rightarrow> if sg_role sg = Client \<and> sel_signature sel \<notin> set (map (\<lambda>(_, a). act_signature a) (cx_actions c kind))
              then [a_warning ''C11'' (at_index ''bindings'' i @ ''.'' @ at_index ''impls'' j) [L ''no action of '', R (kd_name kind),
                L '' invokes '', S (sel_signature sel), L ''; the selection can never run in a labelled context'']]
              else []) (enumerate0 (bi_impls b)))))"

definition c11_check :: "check_context \<Rightarrow> diagnostic list" where
  "c11_check c =
     (let s = cx_scenario c
      in map (\<lambda>name. an_error ''C11'' ''kinds'' [L ''kind name '', R name, L '' is used twice''])
           (duplicates (map kd_name (sc_kinds s)))
         @ concat (map (c11_kind c) (enumerate0 (sc_kinds s)))
         @ concat (map (c11_group_path s) (enumerate0 (sc_groups s)))
         @ concat (map (c11_group_name s) (enumerate0 (sc_groups s)))
         @ concat (map (c11_binding c) (enumerate0 (sc_bindings s))))"

section \<open>Check 12: the schedule\<close>

definition targeted_kinds :: "check_context \<Rightarrow> string list \<Rightarrow> actor_kind list" where
  "targeted_kinds c is =
     (let kind_of = dict_of (map (\<lambda>(_, k, i). (i, k)) (instance_ids (cx_scenario c)))
      in concat (map (\<lambda>name. case cx_kind c name of None \<Rightarrow> [] | Some k \<Rightarrow> [k])
           (sorted_set (map (\<lambda>i. the (dget kind_of i)) is))))"

definition c12_arg :: "string \<Rightarrow> schedule_event \<Rightarrow> actor_kind list \<Rightarrow> diagnostic list" where
  "c12_arg path event kinds =
     (if ev_op event \<in> {OpStart, OpStop}
      then (case ev_arg event of
          AStr arg \<Rightarrow>
            (let lacking = map kd_name (filter (\<lambda>k. arg \<notin> set (map beh_name (kd_behaviours k))) kinds)
             in if lacking \<noteq> [] then [an_error ''C12'' (path @ ''.arg'') ([L ''no behaviour '', R arg, L '' on '']
                  @ join_str '', '' lacking @ [L ''; every targeted kind must have it''])] else [])
        | _ \<Rightarrow> [an_error ''C12'' (path @ ''.arg'') [S (op_str (ev_op event)), L '' takes the name of a behaviour'']])
      else if ev_op event = OpSetRate
      then (case ev_arg event of
          ANum x \<Rightarrow> if fl_lt x (Fin 0)
            then [an_error ''C12'' (path @ ''.arg'') [L ''set_rate takes a non-negative rate multiplier'']] else []
        | _ \<Rightarrow> [an_error ''C12'' (path @ ''.arg'') [L ''set_rate takes a non-negative rate multiplier'']])
      else (case ev_arg event of
          AStr _ \<Rightarrow> []
        | _ \<Rightarrow> [an_error ''C12'' (path @ ''.arg'') [L ''run_sequence takes '', R ''adapter:catalog-entry'']]))"

definition c12_event :: "check_context \<Rightarrow> nat \<times> schedule_event \<Rightarrow> diagnostic list" where
  "c12_event c = (\<lambda>(e, event).
     let s = cx_scenario c; path = at_index ''schedule'' e; selected = select s (ev_target event)
     in (if fl_le (Fin 0) (ev_at_s event) \<and> fl_le (ev_at_s event) (sc_duration_s s) then []
         else [an_error ''C12'' (path @ ''.at_s'') [FG (ev_at_s event), L '' s is outside the run, 0 to '',
           FG (sc_duration_s s), L '' s'']])
        @ (case selected of
             None \<Rightarrow> [an_error ''C12'' (path @ ''.target'') [R (ev_target event),
               L '' names no group, kind or instance of this scenario'']]
           | Some is \<Rightarrow> if is = [] then [an_error ''C12'' (path @ ''.target'') [R (ev_target event), L '' selects no instance'']]
               else [])
        @ c12_arg path event (targeted_kinds c (case selected of None \<Rightarrow> [] | Some is \<Rightarrow> is)))"

definition c12_check :: "(string \<Rightarrow> bool) \<Rightarrow> check_context \<Rightarrow> diagnostic list" where
  "c12_check iso_with_offset c =
     (let s = cx_scenario c
      in (if iso_with_offset (sc_start s) then []
          else [an_error ''C12'' ''start'' [R (sc_start s),
            L (''is not an ISO 8601 time with a UTC offset; the rate curves are in the network'' @ CHR 0x27
               # ''s local time and need an hour and a weekday to anchor to'')]])
         @ concat (map (c12_event c) (enumerate0 (sc_schedule s))))"

section \<open>Check 13: sensors\<close>

definition capability_of_name :: "string \<Rightarrow> capability option" where
  "capability_of_name name = first_such (\<lambda>x. capability_name x = name) capabilities"

definition c13_sensor :: "check_context \<Rightarrow> nat \<times> sensor_spec \<Rightarrow> diagnostic list" where
  "c13_sensor c = (\<lambda>(i, spec).
     let path = at_index ''sensors'' i; names = map ss_name (sc_sensors (cx_scenario c))
     in (if ss_name spec \<in> set (take i names)
         then [an_error ''C13'' (path @ ''.name'') [L ''sensor name '', R (ss_name spec), L '' is used twice (also sensors['',
           I (int (index_of (ss_name spec) names)), L '']); flow ids and labels key by it'']]
         else [])
        @ (case dget (cx_sensors c) (ss_impl spec) of
             None \<Rightarrow> [an_error ''C13'' (path @ ''.impl'') [L ''sensor '', R (ss_impl spec), L '' is not installed'']]
           | Some d \<Rightarrow>
               (if ss_version spec \<in> set (sd_versions d) then []
                else [an_error ''C13'' (path @ ''.version'') ([S (ss_impl spec), L '' '', S (ss_version spec),
                  L '' cannot be reproduced; known versions: ''] @ join_str '', '' (sd_versions d))])
               @ (if ss_mode spec \<in> set (sd_modes d) then []
                  else [an_error ''C13'' (path @ ''.mode'') [S (ss_impl spec), L '' does not support '', L (mode_str (ss_mode spec)),
                    L '' mode'']])
               @ concat (map (\<lambda>(k, name). case capability_of_name name of
                   None \<Rightarrow> [an_error ''C13'' (at_index (path @ ''.capabilities'') k) [R name, L '' is not a capability'']]
                 | Some cap \<Rightarrow> if cap \<in> set (sd_capabilities d) then []
                     else [an_error ''C13'' (at_index (path @ ''.capabilities'') k) [S (ss_impl spec), L '' cannot declare '', S name]])
                 (enumerate0 (ss_capabilities spec)))))"

definition c13_check :: "check_context \<Rightarrow> diagnostic list" where
  "c13_check c =
     (let sensors = sc_sensors (cx_scenario c)
      in (if sensors = [] then [an_error ''C13'' ''sensors''
            [L ''a scenario needs at least one sensor; the sensor defines flows and events'']] else [])
         @ concat (map (c13_sensor c) (enumerate0 sensors)))"

section \<open>Checks 14 and 15: what was fitted\<close>

definition c14_check :: "check_context \<Rightarrow> diagnostic list" where
  "c14_check c = (case cx_provenance c of
     None \<Rightarrow> []
   | Some prov \<Rightarrow>
       let sensors = sc_sensors (cx_scenario c);
           fit = filter (\<lambda>x. ss_role x \<in> {RoleFit, RoleBoth}) sensors
       in (if length fit \<noteq> 1
           then [an_error ''C14'' ''sensors'' [L ''exactly one sensor must have a fit role; '', I (int (length fit)), L '' do'']]
           else if ss_impl (hd fit) \<noteq> fp_sensor prov
           then [an_error ''C14'' (at_index ''sensors'' (index_of (hd fit) sensors) @ ''.role'') [L ''the fit sensor is '',
             S (ss_impl (hd fit)), L '', but the model was fitted from '', S (fp_sensor prov)]]
           else [])
          @ concat (map (\<lambda>(i, spec). if ss_role spec \<notin> {RoleLabel, RoleBoth} then []
              else concat (map (\<lambda>cap. if cap \<in> set (ss_capabilities spec) then []
                else [a_warning ''C14'' (at_index ''sensors'' i @ ''.capabilities'') [L ''fit used '', S cap, L '' from '',
                  S (fp_sensor prov), L '', which label sensor '', S (ss_impl spec),
                  L '' does not declare; features derived from it will be absent in a '', S (ss_impl spec), L '' deployment'']])
                (fp_capabilities_used prov))) (enumerate0 sensors)))"

definition c15_check :: "check_context \<Rightarrow> diagnostic list" where
  "c15_check c = (case cx_provenance c of
     None \<Rightarrow> []
   | Some prov \<Rightarrow>
       let floor = sc_coverage_floor (cx_scenario c)
       in concat (map (\<lambda>cap. case dget (fp_coverage prov) cap of
            None \<Rightarrow> [a_warning ''C15'' ''fit_provenance.coverage'' [L ''fit used '', S cap, L '' but recorded no coverage for it'']]
          | Some coverage \<Rightarrow> if fl_lt coverage floor
              then [a_warning ''C15'' (''fit_provenance.'' @ at_key ''coverage'' cap) [S cap, L '' is populated on '', FP coverage,
                L '' of applicable events, under the '', FP floor, L '' floor; what was fitted from it is sparse'']]
              else []) (fp_capabilities_used prov)))"

section \<open>Check 16: parameters\<close>

fun param_type_str :: "param_type \<Rightarrow> string" where
  "param_type_str TyStr = ''str''"
| "param_type_str TyInt = ''int''"
| "param_type_str TyFloat = ''float''"
| "param_type_str TyBool = ''bool''"

fun fits :: "scalar \<Rightarrow> param_type \<Rightarrow> bool" where
  "fits (SBool b) t = (t = TyBool)"
| "fits (SStr s) t = (t = TyStr)"
| "fits (SInt i) t = (t = TyInt \<or> t = TyFloat)"
| "fits (SFloat x) t = (t = TyFloat)"

fun repr_scalar :: "scalar \<Rightarrow> msg" where
  "repr_scalar (SStr s) = [R s]"
| "repr_scalar (SInt i) = [I i]"
| "repr_scalar (SFloat x) = [FR x]"
| "repr_scalar (SBool b) = [L (if b then ''True'' else ''False'')]"

fun param_choice :: "check_context \<Rightarrow> param_value \<Rightarrow> choice option" where
  "param_choice c (PChoice x) = cx_choice c (Inline x)"
| "param_choice c (PChoiceRef r) = cx_choice c (Res r)"
| "param_choice c (PScalar _) = None"

definition c16_choice :: "string \<Rightarrow> choice \<Rightarrow> diagnostic list" where
  "c16_choice loc ch =
     (if ch_options ch = [] then [an_error ''C16'' loc [L ''a choice needs at least one option'']] else [])
     @ (if length (ch_weights ch) \<noteq> length (ch_options ch)
        then [an_error ''C16'' loc [I (int (length (ch_options ch))), L '' options but '', I (int (length (ch_weights ch))), L '' weights'']]
        else [])
     @ (if list_ex (\<lambda>w. \<not> (fl_isfinite w \<and> fl_lt (Fin 0) w)) (ch_weights ch)
        then [an_error ''C16'' loc [L ''every weight must be positive'']] else [])"

definition c16_param :: "check_context \<Rightarrow> string \<Rightarrow> action \<Rightarrow> (string, sig_param) dict \<Rightarrow> string \<times> param_value \<Rightarrow> diagnostic list" where
  "c16_param c path act declared = (\<lambda>(name, v).
     let loc = path @ ''.'' @ at_key ''params'' name
     in case dget declared name of
          None \<Rightarrow> [an_error ''C16'' loc ([S (act_signature act), L '' has no parameter '', R name, L ''; it has: '']
            @ (if declared = [] then [L ''none''] else join_str '', '' (dkeys declared)))]
        | Some param \<Rightarrow>
            let options = (case (param_choice c v, v) of (Some ch, _) \<Rightarrow> ch_options ch | (None, PScalar x) \<Rightarrow> [x] | _ \<Rightarrow> [])
            in concat (map (\<lambda>opt. if fits opt (pm_type param) then []
                 else [an_error ''C16'' loc (repr_scalar opt @ [L '' is not a '', L (param_type_str (pm_type param)), L '', which '',
                   R name, L '' is''])]) options)
               @ (case param_choice c v of None \<Rightarrow> [] | Some ch \<Rightarrow> c16_choice loc ch))"

definition c16_select :: "string \<Rightarrow> action \<Rightarrow> tie \<Rightarrow> diagnostic list" where
  "c16_select path act tie =
     (if tie_multiplicity tie = Multiple \<and> act_select act = None
      then [an_error ''C16'' (path @ ''.select'') [L ''tie '', R (act_tie act), L '' is multiple: say whether '', S (act_signature act),
        L '' hits all its targets or one'']]
      else if tie_multiplicity tie \<noteq> Multiple \<and> act_select act \<noteq> None
      then [an_error ''C16'' (path @ ''.select'') [L ''tie '', R (act_tie act), L '' is '', L (multiplicity_str (tie_multiplicity tie)),
        L ''; select means nothing there'']]
      else [])"

definition c16_action :: "check_context \<Rightarrow> actor_kind \<Rightarrow> string \<times> action \<Rightarrow> diagnostic list" where
  "c16_action c kind = (\<lambda>(path, act).
     case dget (cx_signatures c) (act_signature act) of
       None \<Rightarrow> []
     | Some sg \<Rightarrow> if sg_role sg \<noteq> Client then []
         else let declared = dict_of (map (\<lambda>p. (pm_name p, p)) (sg_params sg))
           in (case first_such (\<lambda>t. tie_name t = act_tie act) (kd_ties kind) of None \<Rightarrow> [] | Some tie \<Rightarrow> c16_select path act tie)
              @ map (\<lambda>name. an_error ''C16'' (path @ ''.params'') [S (act_signature act), L '' requires parameter '', R name])
                (sorted_set (map fst (filter (\<lambda>(n, p). pm_required p \<and> n \<notin> set (dkeys (act_params act))) declared)))
              @ concat (map (c16_param c path act declared) (act_params act)))"

definition c16_check :: "check_context \<Rightarrow> diagnostic list" where
  "c16_check c = concat (map (\<lambda>kind. concat (map (c16_action c kind) (cx_actions c kind))) (sc_kinds (cx_scenario c)))"

end
