(* ===== verification/Run_Checks.thy ===== *)
theory Run_Checks
  imports Checks_Model Checks_Hosts Checks_Network Checks_Names Program
begin

text \<open>
  Running the checks (\<open>check/tiergen/check/run.py\<close>) and what a scenario without errors is good
  for: every resource resolves, every tie reaches what its multiplicity says, the programs
  build, and each program's peers are all the targets of its ties.
\<close>

section \<open>All the checks\<close>

definition checks :: "(string \<Rightarrow> nat list) \<Rightarrow> (string \<Rightarrow> bool) \<Rightarrow> (string \<times> (check_context \<Rightarrow> diagnostic list)) list" where
  "checks digest has_offset =
     [(''C01'', c01_check), (''C02'', c02_check), (''C03'', c03_check), (''C04'', c04_check),
      (''C05'', c05_check), (''C06'', c06_check), (''C07'', c07_check), (''C08'', c08_check),
      (''C09'', c09_check digest), (''C10'', c10_check digest), (''C11'', c11_check),
      (''C12'', c12_check has_offset), (''C13'', c13_check), (''C14'', c14_check),
      (''C15'', c15_check), (''C16'', c16_check)]"

definition run_checks :: "(string \<Rightarrow> nat list) \<Rightarrow> (string \<Rightarrow> bool) \<Rightarrow> check_context \<Rightarrow> diagnostic list" where
  "run_checks digest has_offset c = concat (map (\<lambda>(_, check). check c) (checks digest has_offset))"

definition errors_of :: "diagnostic list \<Rightarrow> diagnostic list" where
  "errors_of ds = filter (\<lambda>d. dg_severity d = SevError) ds"

definition well_formed :: "(string \<Rightarrow> nat list) \<Rightarrow> (string \<Rightarrow> bool) \<Rightarrow> check_context \<Rightarrow> bool" where
  "well_formed digest has_offset c \<longleftrightarrow> errors_of (run_checks digest has_offset c) = []"

lemma errors_of_simps [simp]:
  "errors_of [] = []" "errors_of (xs @ ys) = errors_of xs @ errors_of ys"
  "errors_of (an_error i p m # ds) = an_error i p m # errors_of ds"
  "errors_of (a_warning i p m # ds) = errors_of ds" "errors_of (not_computed i p m # ds) = errors_of ds"
  by (simp_all add: errors_of_def an_error_def a_warning_def not_computed_def)

lemma errors_of_concat: "errors_of (concat xs) = [] \<longleftrightarrow> (\<forall>x\<in>set xs. errors_of x = [])"
  by (induction xs) auto

lemma errors_of_errors: "errors_of (map (\<lambda>x. an_error (f x) (g x) (h x)) xs) = [] \<longleftrightarrow> xs = []"
  by (cases xs) auto

lemma well_formed_iff:
  "well_formed digest has_offset c \<longleftrightarrow> (\<forall>(i, check)\<in>set (checks digest has_offset). errors_of (check c) = [])"
  unfolding well_formed_def run_checks_def errors_of_concat by auto

lemma well_formed_checks:
  assumes "well_formed digest has_offset c"
  shows "errors_of (c01_check c) = []" "errors_of (c02_check c) = []" "errors_of (c03_check c) = []"
    "errors_of (c04_check c) = []" "errors_of (c05_check c) = []" "errors_of (c06_check c) = []"
    "errors_of (c08_check c) = []" "errors_of (c10_check digest c) = []" "errors_of (c11_check c) = []"
    "errors_of (c12_check has_offset c) = []" "errors_of (c16_check c) = []"
  using assms unfolding well_formed_iff checks_def by simp_all

section \<open>Every resource resolves\<close>

text \<open>What check 5 lets through is in the store and decodes.\<close>

lemma c05_decodes:
  assumes "errors_of (c05_check c) = []" "(p, n, Some tp) \<in> set (references c)"
  shows "\<exists>data v. rs_get (cx_resources c) n = Some data \<and> decode tp data [] = Inr v"
proof -
  from assms have "errors_of (c05_reference c (p, n, Some tp)) = []"
    unfolding c05_check_def errors_of_concat by auto
  then show ?thesis
    by (auto simp: c05_reference_def split: if_splits option.splits sum.splits)
qed

definition referred :: "check_context \<Rightarrow> 'a ref \<Rightarrow> ann \<Rightarrow> bool" where
  "referred c r tp \<longleftrightarrow> (\<forall>n. r = Res n \<longrightarrow> (\<exists>p. (p, n, Some tp) \<in> set (references c)))"

lemma referred_resolves:
  assumes "errors_of (c05_check c) = []" "referred c r tp" "wire tp f of_val"
  shows "\<exists>x. resolve (cx_resources c) tp of_val r = Some x"
proof (cases "resolve (cx_resources c) tp of_val r")
  case None
  then obtain n where n: "r = Res n" "\<forall>data. rs_get (cx_resources c) n = Some data \<longrightarrow> isl (decode tp data [])"
    unfolding resolve_wire[OF assms(3)] by blast
  with assms(2) obtain p where "(p, n, Some tp) \<in> set (references c)" by (auto simp: referred_def)
  from c05_decodes[OF assms(1) this] n(2) show ?thesis by auto
qed simp

lemma referred_ref_name: "set (ref_name p r (Some tp)) \<subseteq> set (references c) \<Longrightarrow> referred c r tp"
  by (auto simp: referred_def ref_name_def)

lemma behaviour_references:
  assumes "kind \<in> set (sc_kinds (cx_scenario c))" "beh \<in> set (kd_behaviours kind)"
  shows "\<exists>base. set (process_references base beh) \<subseteq> set (references c)
    \<and> set (dwell_references c base beh) \<subseteq> set (references c)"
proof -
  from enumerate0_ex[OF assms(1)] obtain k where k: "(k, kind) \<in> set (enumerate0 (sc_kinds (cx_scenario c)))" ..
  from enumerate0_ex[OF assms(2)] obtain b where b: "(b, beh) \<in> set (enumerate0 (kd_behaviours kind))" ..
  have "set (process_references (behaviour_path k b) beh @ dwell_references c (behaviour_path k b) beh)
      \<subseteq> set (kind_references c (k, kind))"
    unfolding kind_references_def using b by (force simp del: in_enumerate0)
  also have "\<dots> \<subseteq> set (references c)"
    unfolding references_def Let_def using k by (force simp del: in_enumerate0)
  finally show ?thesis by auto
qed

lemma action_references:
  assumes "kind \<in> set (sc_kinds (cx_scenario c))" "(p, act) \<in> set (cx_actions c kind)"
    "(name, PChoiceRef r) \<in> set (act_params act)"
  shows "\<exists>q. (q, r, Some ann_choice) \<in> set (references c)"
proof -
  from enumerate0_ex[OF assms(1)] obtain k where k: "(k, kind) \<in> set (enumerate0 (sc_kinds (cx_scenario c)))" ..
  have "(p @ ''.'' @ at_key ''params'' name, r, Some ann_choice) \<in> set (param_references (p, act))"
    using assms(3) by (force simp: param_references_def)
  then have "(p @ ''.'' @ at_key ''params'' name, r, Some ann_choice) \<in> set (kind_references c (k, kind))"
    using assms(2) by (auto simp: kind_references_def)
  then show ?thesis
    unfolding references_def Let_def using k by (force simp del: in_enumerate0)
qed

lemma selection_references:
  assumes "b \<in> set (sc_bindings (cx_scenario c))" "sel \<in> set (bi_impls b)"
  shows "referred c (sel_choices sel) (TDict TFloat)"
proof -
  from enumerate0_ex[OF assms(1)] obtain i where i: "(i, b) \<in> set (enumerate0 (sc_bindings (cx_scenario c)))" ..
  from enumerate0_ex[OF assms(2)] obtain j where j: "(j, sel) \<in> set (enumerate0 (bi_impls b))" ..
  let ?p = "at_index ''bindings'' i @ ''.'' @ at_index ''impls'' j @ ''.choices''"
  have "set (ref_name ?p (sel_choices sel) (Some (TDict TFloat))) \<subseteq> set (binding_references (i, b))"
    unfolding binding_references_def using j by (force simp del: in_enumerate0)
  also have "\<dots> \<subseteq> set (references c)"
    unfolding references_def Let_def using i by (force simp del: in_enumerate0)
  finally show ?thesis by (rule referred_ref_name)
qed

text \<open>The accessors of a behaviour under a check 5 without errors.\<close>

lemma behaviour_resolves:
  assumes ok: "errors_of (c05_check c) = []" and kind: "kind \<in> set (sc_kinds (cx_scenario c))"
    and beh: "beh \<in> set (kd_behaviours kind)"
  shows "\<exists>x. cx_states c (beh_process beh) = Some x" "\<exists>x. cx_initial c (beh_process beh) = Some x"
    "\<exists>x. cx_transitions c (beh_process beh) = Some x" "\<exists>x. cx_dwell c (beh_process beh) = Some x"
    "\<exists>x. cx_action_map c beh = Some x"
    "sm_rate (beh_process beh) = Some r \<Longrightarrow> \<exists>x. cx_rate c (beh_process beh) = Some x"
    "cx_dwell c (beh_process beh) = Some ds \<Longrightarrow> d \<in> set ds \<Longrightarrow>
       \<exists>x. resolve (cx_resources c) ann_floats un_floats (dist_params d) = Some x"
proof -
  from behaviour_references[OF kind beh] obtain base where
    refs: "set (process_references base beh) \<subseteq> set (references c)"
    and dwell: "set (dwell_references c base beh) \<subseteq> set (references c)" by blast
  note go = referred_resolves[OF ok referred_ref_name]
  note sub = refs[unfolded process_references_def Let_def set_append Un_subset_iff]
  show "\<exists>x. cx_states c (beh_process beh) = Some x"
    unfolding res_states_def by (rule go[OF _ wire_strs]) (use sub in blast)
  show "\<exists>x. cx_initial c (beh_process beh) = Some x"
    unfolding res_initial_def by (rule go[OF _ wire_floats]) (use sub in blast)
  show "\<exists>x. cx_transitions c (beh_process beh) = Some x"
    unfolding res_transitions_def by (rule go[OF _ wire_seq[OF wire_floats]]) (use sub in blast)
  show "\<exists>x. cx_dwell c (beh_process beh) = Some x"
    unfolding res_dwell_def by (rule go[OF _ wire_seq[OF wire_distribution]]) (use sub in blast)
  show "\<exists>x. cx_action_map c beh = Some x"
    unfolding res_action_map_def by (rule go[OF _ wire_action_map]) (use sub in blast)
  show "\<exists>x. cx_rate c (beh_process beh) = Some x" if r: "sm_rate (beh_process beh) = Some r"
  proof -
    have "referred c (Res r) ann_floats" using sub r by (auto simp: referred_def)
    from referred_resolves[OF ok this wire_floats] show ?thesis by (simp add: res_rate_def r)
  qed
  show "\<exists>x. resolve (cx_resources c) ann_floats un_floats (dist_params d) = Some x"
    if ds: "cx_dwell c (beh_process beh) = Some ds" "d \<in> set ds"
  proof -
    from enumerate0_ex[OF ds(2)] obtain i where i: "(i, d) \<in> set (enumerate0 ds)" ..
    have "set (ref_name (at_index (base @ ''.process.dwell'') i @ ''.params'') (dist_params d) (Some ann_floats))
        \<subseteq> set (dwell_references c base beh)"
      unfolding dwell_references_def ds(1) using i by (force simp del: in_enumerate0)
    with dwell show ?thesis by (intro go[OF _ wire_floats]) blast
  qed
qed

section \<open>The programs build\<close>

lemma resolve_action_total:
  assumes ok: "errors_of (c05_check c) = []" and kind: "kind \<in> set (sc_kinds (cx_scenario c))"
    and act: "(p, act) \<in> set (cx_actions c kind)"
  shows "\<exists>ra. resolve_action (cx_resources c) act = Inr ra"
proof -
  have "\<exists>y. (case nv of (name, value) \<Rightarrow> rbind (resolve_param (cx_resources c) value) (\<lambda>p. Inr (name, p))) = Inr y"
    if nv: "nv \<in> set (act_params act)" for nv
  proof (cases nv)
    case (Pair name v)
    have "\<exists>x. cx_choice c (Res r) = Some x" if "v = PChoiceRef r" for r
      unfolding res_choice_def
      using action_references[OF kind act, of name r] nv Pair that
      by (intro referred_resolves[OF ok _ wire_choice]) (auto simp: referred_def)
    then show ?thesis using Pair by (cases v) (auto simp: rbind_Inr_iff)
  qed
  from rmap_total[OF this] show ?thesis by (auto simp: resolve_action_def rbind_Inr_iff)
qed

lemma resolve_behaviour_total:
  assumes ok: "errors_of (c05_check c) = []" and kind: "kind \<in> set (sc_kinds (cx_scenario c))"
    and beh: "beh \<in> set (kd_behaviours kind)"
  shows "\<exists>rb. resolve_behaviour (cx_resources c) name beh = Inr rb"
proof -
  note res = behaviour_resolves[OF ok kind beh]
  from res(1-5) obtain states initial transitions dwell am where
    r: "cx_states c (beh_process beh) = Some states" "cx_initial c (beh_process beh) = Some initial"
      "cx_transitions c (beh_process beh) = Some transitions" "cx_dwell c (beh_process beh) = Some dwell"
      "cx_action_map c beh = Some am" by blast
  have rate: "\<exists>y. (case sm_rate (beh_process beh) of None \<Rightarrow> Inr None
      | Some r \<Rightarrow> rbind (or_raise (Unresolved [L ''rate resource '', R r, L '' of behaviour '', R (beh_name beh)])
          (cx_rate c (beh_process beh))) (\<lambda>x. Inr (Some x))) = Inr y"
    using res(6) by (auto simp: rbind_Inr_iff split: option.splits)
  have dw: "\<exists>ys. rmap (\<lambda>d. rbind (or_raise (Unresolved ([L ''dwell parameters ''] @ ref_repr (dist_params d)))
      (resolve (cx_resources c) ann_floats un_floats (dist_params d))) (\<lambda>params. Inr (d\<lparr>dist_params := Inline params\<rparr>))) dwell = Inr ys"
    using res(7)[OF r(4)] by (intro rmap_total) (auto simp: rbind_Inr_iff)
  have acts: "\<exists>ys. rmap (\<lambda>(state, act). case act of None \<Rightarrow> Inr (state, None)
      | Some a \<Rightarrow> rbind (resolve_action (cx_resources c) a) (\<lambda>ra. Inr (state, Some ra))) am = Inr ys"
  proof (rule rmap_total)
    fix sa assume sa: "sa \<in> set am"
    show "\<exists>y. (case sa of (state, act) \<Rightarrow> case act of None \<Rightarrow> Inr (state, None)
        | Some a \<Rightarrow> rbind (resolve_action (cx_resources c) a) (\<lambda>ra. Inr (state, Some ra))) = Inr y"
    proof (cases "snd sa")
      case (Some a)
      with cx_actions_ex[OF beh r(5), of "fst sa" a] sa obtain q where "(q, a) \<in> set (cx_actions c kind)"
        by (metis prod.collapse)
      from resolve_action_total[OF ok kind this] Some show ?thesis by (cases sa) auto
    qed (cases sa, auto)
  qed
  from rate dw acts show ?thesis by (auto simp: resolve_behaviour_def Let_def r rbind_Inr_iff)
qed

lemma c01_targets_known:
  assumes "errors_of (c01_check c) = []" "kind \<in> set (sc_kinds (cx_scenario c))" "tie \<in> set (kd_ties kind)"
  shows "tie_target_kind tie \<in> kd_name ` set (sc_kinds (cx_scenario c))"
proof (rule ccontr)
  assume no: "tie_target_kind tie \<notin> kd_name ` set (sc_kinds (cx_scenario c))"
  from enumerate0_ex[OF assms(2)] obtain k where k: "(k, kind) \<in> set (enumerate0 (sc_kinds (cx_scenario c)))" ..
  from enumerate0_ex[OF assms(3)] obtain t where t: "(t, tie) \<in> set (enumerate0 (kd_ties kind))" ..
  from assms(1) have "errors_of (c01_kind_errors c) = []" by (simp add: c01_check_def Let_def)
  with k t no show False
    by (fastforce simp: c01_kind_errors_def Let_def errors_of_concat simp del: in_enumerate0)
qed

lemma kinds_by_name_get:
  "n \<in> kd_name ` set (sc_kinds s) \<Longrightarrow> \<exists>k. dget (kinds_by_name s) n = Some k"
  "dget (kinds_by_name s) n = Some k \<Longrightarrow> k \<in> set (sc_kinds s) \<and> kd_name k = n"
proof -
  show "n \<in> kd_name ` set (sc_kinds s) \<Longrightarrow> \<exists>k. dget (kinds_by_name s) n = Some k"
    using dom_dict_of[of "map (\<lambda>k. (kd_name k, k)) (sc_kinds s)"]
    by (auto simp: kinds_by_name_def image_image domIff)
  show "dget (kinds_by_name s) n = Some k \<Longrightarrow> k \<in> set (sc_kinds s) \<and> kd_name k = n"
    by (auto simp: kinds_by_name_def dest!: dget_Some_in dict_of_in)
qed

lemma bindings_by_kind_get:
  "n \<in> bi_kind ` set (sc_bindings s) \<Longrightarrow> \<exists>b. dget (bindings_by_kind s) n = Some b"
  "dget (bindings_by_kind s) n = Some b \<Longrightarrow> b \<in> set (sc_bindings s) \<and> bi_kind b = n"
proof -
  show "n \<in> bi_kind ` set (sc_bindings s) \<Longrightarrow> \<exists>b. dget (bindings_by_kind s) n = Some b"
    using dom_dict_of[of "map (\<lambda>b. (bi_kind b, b)) (sc_bindings s)"]
    by (auto simp: bindings_by_kind_def image_image domIff)
  show "dget (bindings_by_kind s) n = Some b \<Longrightarrow> b \<in> set (sc_bindings s) \<and> bi_kind b = n"
    by (auto simp: bindings_by_kind_def dest!: dget_Some_in dict_of_in)
qed

text \<open>A kind some group holds has a binding.\<close>

lemma c06_bound:
  assumes "errors_of (c06_check c) = []" "(p, kind, i) \<in> set (instance_ids (cx_scenario c))"
  shows "kind \<in> bi_kind ` set (sc_bindings (cx_scenario c))"
proof (cases "cx_binding c kind")
  case (Some b)
  then show ?thesis unfolding cx_binding_def by (auto dest!: first_such_Some)
next
  case None
  from assms(2) obtain g n k where g: "g \<in> set (sc_groups (cx_scenario c))" "n < held_count g kind"
    and k: "k \<in> set (sc_kinds (cx_scenario c))" "kd_name k = kind"
    unfolding in_instance_ids_iff by auto
  from g have "cx_held c kind \<noteq> 0" by (force simp: cx_held_count)
  from enumerate0_ex[OF k(1)] obtain j where "(j, k) \<in> set (enumerate0 (sc_kinds (cx_scenario c)))" ..
  with assms(1) have "errors_of (c06_kind c (j, k)) = []"
    by (auto simp: c06_check_def errors_of_concat simp del: in_enumerate0)
  with None \<open>cx_held c kind \<noteq> 0\<close> k(2) show ?thesis by (simp add: c06_kind_def)
qed

lemma plan_hostnames:
  assumes "plan_addresses digest s topo = (plan, ps)" "(p, k, i) \<in> set (instance_ids s)"
  shows "dget (pl_hostnames plan) i \<noteq> None"
proof -
  have "i \<in> set (dkeys (pl_hostnames plan))"
    using assms by (force simp: plan_addresses_def Let_def dict_simps split: prod.splits)
  then show ?thesis by (auto simp: set_dkeys)
qed

lemma tie_peers_total:
  assumes "errors_of (c01_check c) = []" "kind \<in> set (sc_kinds (cx_scenario c))" "tie \<in> set (kd_ties kind)"
  shows "\<exists>y. tie_peers (cx_scenario c) plan routes data path name i tie = Inr y"
proof -
  from c01_targets_known[OF assms] kinds_by_name_get(1) obtain k where
    "dget (kinds_by_name (cx_scenario c)) (tie_target_kind tie) = Some k" by blast
  then have "\<exists>ys. rmap (\<lambda>target. case peer_address plan routes i target data of
            None \<Rightarrow> Inr []
          | Some address \<Rightarrow> rbind (or_raise (MissingKey (tie_target_kind tie))
                (dget (kinds_by_name (cx_scenario c)) (tie_target_kind tie)))
              (\<lambda>k. Inr [\<lparr>pe_instance = target, pe_address = address, pe_served = kd_serves k\<rparr>])) ts = Inr ys" for ts
    by (intro rmap_total) (auto simp: rbind_Inr_iff split: option.splits)
  then show ?thesis by (auto simp: tie_peers_def Let_def rbind_Inr_iff)
qed

lemma resolve_impls_total:
  assumes "errors_of (c05_check c) = []" "b \<in> set (sc_bindings (cx_scenario c))"
  shows "\<exists>y. resolve_impls (cx_resources c) b = Inr y"
proof -
  have "\<exists>x. cx_choices c sel = Some x" if "sel \<in> set (bi_impls b)" for sel
    unfolding res_choices_def
    by (rule referred_resolves[OF assms(1) selection_references[OF assms(2) that] wire_dict[OF wire_float]])
  then have "\<exists>ys. rmap (\<lambda>s. rbind (or_raise (Unresolved [L ''choices for '', R (sel_signature s)]) (cx_choices c s))
      (\<lambda>x. Inr (sel_signature s, x))) (bi_impls b) = Inr ys"
    by (intro rmap_total) (auto simp: rbind_Inr_iff)
  then show ?thesis by (auto simp: resolve_impls_def rbind_Inr_iff)
qed

lemma program_of_total:
  assumes ok: "well_formed digest has_offset c" and plan: "plan_addresses digest (cx_scenario c) topo = (plan, ps)"
    and i: "(p, kind, i) \<in> set (instance_ids (cx_scenario c))"
  shows "\<exists>y. program_of (cx_scenario c) topo plan routes (cx_resources c) sigs (p, kind, i) = Inr y"
proof -
  note checks = well_formed_checks[OF ok]
  let ?s = "cx_scenario c"
  have "kind \<in> kd_name ` set (sc_kinds ?s)" using i by (auto simp: in_instance_ids_iff)
  with kinds_by_name_get obtain k where k: "dget (kinds_by_name ?s) kind = Some k" "k \<in> set (sc_kinds ?s)" by blast
  from c06_bound[OF checks(6) i] bindings_by_kind_get obtain b where
    b: "dget (bindings_by_kind ?s) kind = Some b" "b \<in> set (sc_bindings ?s)" by blast
  from resolve_behaviour_total[OF checks(5) k(2)] obtain behs where
    behs: "rmap (resolve_behaviour (cx_resources c) kind) (kd_behaviours k) = Inr behs" by (metis rmap_total)
  from resolve_impls_total[OF checks(5) b(2)] obtain impls where impls: "resolve_impls (cx_resources c) b = Inr impls" ..
  from tie_peers_total[OF checks(1) k(2)] obtain peers where
    peers: "rmap (tie_peers ?s plan routes (data_segments topo) p kind i) (kd_ties k) = Inr peers" by (metis rmap_total)
  from plan_hostnames[OF plan i] obtain h where h: "dget (pl_hostnames plan) i = Some h" by auto
  from k(1) b(1) behs impls peers h show ?thesis by (simp add: program_of_def or_raise_def)
qed

section \<open>Names are unique\<close>

lemma distinct_by_takes: "distinct xs \<longleftrightarrow> (\<forall>(i, x)\<in>set (enumerate0 xs). x \<notin> set (take i xs))"
proof
  assume "distinct xs"
  then have "xs ! i \<notin> set (take i xs)" if "i < length xs" for i
    using that by (auto simp: in_set_conv_nth nth_eq_iff_index_eq)
  then show "\<forall>(i, x)\<in>set (enumerate0 xs). x \<notin> set (take i xs)" by auto
next
  assume *: "\<forall>(i, x)\<in>set (enumerate0 xs). x \<notin> set (take i xs)"
  have "xs ! i \<noteq> xs ! j" if "i < j" "j < length xs" for i j
  proof -
    from * that have "xs ! j \<notin> set (take j xs)" by auto
    with nth_mem[of i "take j xs"] that show ?thesis by auto
  qed
  then show "distinct xs" unfolding distinct_conv_nth by (metis linorder_neqE_nat)
qed

lemma duplicates_Nil: "duplicates xs = [] \<longleftrightarrow> distinct xs"
  unfolding duplicates_def distinct_by_takes by (auto simp: filter_empty_conv)

lemma c11_unique:
  assumes "errors_of (c11_check c) = []"
  shows "distinct (map kd_name (sc_kinds (cx_scenario c)))" "distinct (paths (cx_scenario c))"
    "kind \<in> set (sc_kinds (cx_scenario c)) \<Longrightarrow> distinct (map tie_name (kd_ties kind))"
proof -
  show "distinct (map kd_name (sc_kinds (cx_scenario c)))"
    using assms by (simp add: c11_check_def Let_def errors_of_errors duplicates_Nil)
  have "gr_path g \<notin> set (take i (paths (cx_scenario c)))"
    if "(i, g) \<in> set (enumerate0 (sc_groups (cx_scenario c)))" for i g
    using assms that by (fastforce simp: c11_check_def Let_def errors_of_concat c11_group_path_def simp del: in_enumerate0 split: if_splits)
  then show "distinct (paths (cx_scenario c))"
    unfolding distinct_by_takes by (auto simp: paths_def)
  show "distinct (map tie_name (kd_ties kind))" if "kind \<in> set (sc_kinds (cx_scenario c))"
  proof -
    from enumerate0_ex[OF that] obtain k where "(k, kind) \<in> set (enumerate0 (sc_kinds (cx_scenario c)))" ..
    then have "errors_of (c11_kind c (k, kind)) = []"
      using assms by (auto simp: c11_check_def Let_def errors_of_concat simp del: in_enumerate0)
    then show ?thesis by (simp add: c11_kind_def Let_def errors_of_errors duplicates_Nil)
  qed
qed

section \<open>Ties reach what their multiplicity says\<close>

lemma length_filter_concat:
  "length (filter P (concat (map f ks))) = sum_list (map (\<lambda>k. length (filter P (f k))) ks)"
  by (induction ks) auto

lemma sum_list_only:
  "distinct ks \<Longrightarrow> (\<And>k. k \<noteq> x \<Longrightarrow> h k = (0 :: nat)) \<Longrightarrow> sum_list (map h ks) = (if x \<in> set ks then h x else 0)"
  by (induction ks) (auto, metis)

text \<open>How many instances of a kind the groups at some paths hold.\<close>

lemma count_instances:
  assumes "distinct (map kd_name (sc_kinds s))" "kind \<in> kd_name ` set (sc_kinds s)"
  shows "int (length (filter (\<lambda>(p, k, i). k = kind \<and> p \<in> set wired) (instance_ids s))) = wired_total s kind wired"
proof -
  let ?P = "\<lambda>(p, k, i). k = kind \<and> p \<in> set wired"
  have g: "length (filter ?P (concat (map (\<lambda>kd. map (\<lambda>i. (gr_path g, kd, instance_id (gr_path g) kd i))
      [0..<held_count g kd]) (map kd_name (sc_kinds s))))) = (if gr_path g \<in> set wired then held_count g kind else 0)" for g
    unfolding length_filter_concat
    using assms(2) by (subst sum_list_only[where x = kind, OF assms(1)]) (auto simp: filter_map comp_def)
  have "length (filter ?P (instance_ids s)) = (\<Sum>g\<leftarrow>sc_groups s. if gr_path g \<in> set wired then held_count g kind else 0)"
    unfolding instance_ids_def length_filter_concat[of _ "\<lambda>g. concat (_ g)"] g ..
  also have "\<dots> = (\<Sum>g\<leftarrow>filter (\<lambda>g. gr_path g \<in> set wired) (sc_groups s). held_count g kind)"
    by (simp add: sum_list_map_filter')
  finally show ?thesis by (simp add: wired_total_def held_count_def sum_max_nat)
qed

text \<open>A wiring key is \<open>kind.tie\<close>; checks 9 and 10 split it at its first dot, so they only find the
  tie when the kind's name has none.\<close>

definition plain_kinds :: "scenario \<Rightarrow> bool" where
  "plain_kinds s \<longleftrightarrow> (\<forall>k\<in>set (sc_kinds s). CHR ''.'' \<notin> set (kd_name k))"

lemma wire_ends_key [simp]:
  "CHR ''.'' \<notin> set kind \<Longrightarrow> wire_ends (kind @ ''.'' @ t) = (kind, t)"
  "CHR ''.'' \<notin> set kind \<Longrightarrow> wire_ends (kind @ CHR ''.'' # t) = (kind, t)"
  using partition_on_append[of "CHR ''.''" kind t] by (simp_all add: wire_ends_def)

lemma first_such_distinct:
  assumes "distinct (map f xs)" "x \<in> set xs"
  shows "first_such (\<lambda>y. f y = f x) xs = Some x"
  using assms by (intro first_such_unique) (auto simp: distinct_map inj_on_def)

lemma kinds_by_name_unique:
  assumes "distinct (map kd_name (sc_kinds s))" "k \<in> set (sc_kinds s)"
  shows "dget (kinds_by_name s) (kd_name k) = Some k"
proof -
  from assms(2) obtain k' where k': "dget (kinds_by_name s) (kd_name k) = Some k'"
    using kinds_by_name_get(1) by blast
  with kinds_by_name_get(2)[OF k'] assms show ?thesis by (auto simp: distinct_map inj_on_def)
qed

text \<open>The group and the tie check 1 looks at for an instance and a tie of its kind.\<close>

lemma held_by_group:
  assumes "(path, kind, i) \<in> set (instance_ids s)"
  shows "\<exists>g\<in>set (sc_groups s). gr_path g = path \<and> kind \<in> set (held_kinds (dkeys (kinds_by_name s)) g)"
proof -
  from assms obtain g n where g: "g \<in> set (sc_groups s)" "path = gr_path g" "n < held_count g kind"
    "kind \<in> kd_name ` set (sc_kinds s)" by (auto simp: in_instance_ids_iff)
  from g(3) obtain count where count: "dget (gr_instances g) kind = Some count" "count > 0"
    by (auto simp: held_count_def dget_or_def split: option.splits)
  have "kind \<in> set (dkeys (kinds_by_name s))"
    using g(4) by (auto simp: kinds_by_name_def dict_simps image_image)
  with dget_Some_in[OF count(1)] count(2) have "kind \<in> set (held_kinds (dkeys (kinds_by_name s)) g)"
    by (force simp: held_kinds_def)
  with g show ?thesis by blast
qed

lemma expected_tie:
  assumes names: "distinct (map kd_name (sc_kinds s))" "plain_kinds s" "distinct (map tie_name (kd_ties k))"
    and k: "k \<in> set (sc_kinds s)" "kd_name k \<in> set held" "tie \<in> set (kd_ties k)"
    and held: "set held \<subseteq> kd_name ` set (sc_kinds s)"
  shows "dget (expected_ties (kinds_by_name s) held) (kd_name k @ ''.'' @ tie_name tie) = Some tie"
proof -
  let ?L = "concat (map (\<lambda>name. case dget (kinds_by_name s) name of
     None \<Rightarrow> [] | Some k \<Rightarrow> map (\<lambda>tie. (name @ ''.'' @ tie_name tie, tie)) (kd_ties k)) held)"
  let ?key = "kd_name k @ ''.'' @ tie_name tie"
  have "(?key, tie) \<in> set ?L"
    using k kinds_by_name_unique[OF names(1) k(1)] by (auto intro!: bexI[of _ "kd_name k"])
  then have "?key \<in> set (dkeys (dict_of ?L))" by (force simp: dict_simps)
  then obtain tie' where tie': "dget (dict_of ?L) ?key = Some tie'" by (auto simp: set_dkeys)
  then have "(?key, tie') \<in> set ?L" by (rule dict_of_in[OF dget_Some_in])
  then obtain name where name: "name \<in> set held" "(?key, tie') \<in> set (case dget (kinds_by_name s) name of
     None \<Rightarrow> [] | Some k \<Rightarrow> map (\<lambda>tie. (name @ ''.'' @ tie_name tie, tie)) (kd_ties k))" by auto
  then obtain k' where k': "name \<in> set held" "dget (kinds_by_name s) name = Some k'" "tie' \<in> set (kd_ties k')"
    "?key = name @ ''.'' @ tie_name tie'" by (cases "dget (kinds_by_name s) name") auto
  have plain: "CHR ''.'' \<notin> set (kd_name k)" "CHR ''.'' \<notin> set name"
    using names(2) k(1) k'(1) held by (auto simp: plain_kinds_def)
  have "(kd_name k, tie_name tie) = (name, tie_name tie')"
    using arg_cong[OF k'(4), of wire_ends] unfolding wire_ends_key(1)[OF plain(1)] wire_ends_key(1)[OF plain(2)] .
  with k'(2) kinds_by_name_unique[OF names(1) k(1)] have "k' = k" "tie_name tie' = tie_name tie" by auto
  with k'(3) k(3) names(3) have "tie' = tie" by (auto simp: distinct_map inj_on_def)
  with tie' show ?thesis by (simp add: expected_ties_def)
qed

text \<open>What check 1 leaves of a tie of an instance: it is wired, to groups of the scenario, and its
  multiplicity is kept.\<close>

lemma c01_wired:
  assumes ok: "errors_of (c01_check c) = []" "errors_of (c11_check c) = []" "plain_kinds (cx_scenario c)"
    and i: "(path, kind, i) \<in> set (instance_ids (cx_scenario c))"
    and k: "k \<in> set (sc_kinds (cx_scenario c))" "kd_name k = kind" "tie \<in> set (kd_ties k)"
  shows "\<exists>g wired. g \<in> set (sc_groups (cx_scenario c)) \<and> gr_path g = path
    \<and> dget (gr_wiring g) (kind @ ''.'' @ tie_name tie) = Some wired
    \<and> (tie_multiplicity tie = Single \<longrightarrow> wired_total (cx_scenario c) (tie_target_kind tie) wired = 1)
    \<and> (tie_multiplicity tie = Optional \<longrightarrow> wired_total (cx_scenario c) (tie_target_kind tie) wired \<le> 1)"
proof -
  let ?s = "cx_scenario c" and ?key = "kind @ ''.'' @ tie_name tie"
  let ?kinds = "kinds_by_name ?s"
  note uniq = c11_unique[OF ok(2)]
  from held_by_group[OF i] obtain g where g: "g \<in> set (sc_groups ?s)" "gr_path g = path"
    and held: "kind \<in> set (held_kinds (dkeys ?kinds) g)" by blast
  have keys: "set (dkeys ?kinds) = kd_name ` set (sc_kinds ?s)"
    by (auto simp: kinds_by_name_def dict_simps image_image)
  have "set (held_kinds (dkeys ?kinds) g) \<subseteq> kd_name ` set (sc_kinds ?s)"
    using keys by (auto simp: held_kinds_def)
  from expected_tie[OF uniq(1) ok(3) uniq(3)[OF k(1)] k(1) _ k(3) this] held k(2)
  have expected: "dget (expected_ties ?kinds (held_kinds (dkeys ?kinds) g)) ?key = Some tie" by simp
  from enumerate0_ex[OF g(1)] obtain n where n: "(n, g) \<in> set (enumerate0 (sc_groups ?s))" ..
  then have grp: "errors_of (c01_group ?s ?kinds (n, g)) = []"
    using ok(1) by (auto simp: c01_check_def kinds_by_name_def Let_def errors_of_concat simp del: in_enumerate0)
  have "?key \<in> set (dkeys (gr_wiring g))"
  proof (rule ccontr)
    assume "?key \<notin> set (dkeys (gr_wiring g))"
    moreover have "?key \<in> set (dkeys (expected_ties ?kinds (held_kinds (dkeys ?kinds) g)))"
      using expected by (auto simp: set_dkeys)
    ultimately show False
      using grp by (auto simp: c01_group_def Let_def errors_of_errors filter_empty_conv)
  qed
  then obtain wired where wired: "dget (gr_wiring g) ?key = Some wired" by (auto simp: set_dkeys)
  have "errors_of (c01_wiring ?s ?kinds (at_index ''groups'' n) g (held_kinds (dkeys ?kinds) g)
      (expected_ties ?kinds (held_kinds (dkeys ?kinds) g)) (?key, wired)) = []"
    using grp dget_Some_in[OF wired] by (auto simp: c01_group_def Let_def errors_of_concat)
  moreover have "tie_target_kind tie \<in> set (dkeys ?kinds)"
    using c01_targets_known[OF ok(1) k(1,3)] keys by simp
  ultimately have "errors_of (c01_multiplicity ?s (at_index ''groups'' n @ ''.'' @ at_key ''wiring'' ?key) ?key tie wired) = []"
    using expected by (auto simp: c01_wiring_def Let_def errors_of_errors split: if_splits)
  then have "(tie_multiplicity tie = Single \<longrightarrow> wired_total ?s (tie_target_kind tie) wired = 1)
    \<and> (tie_multiplicity tie = Optional \<longrightarrow> wired_total ?s (tie_target_kind tie) wired \<le> 1)"
    by (auto simp: c01_multiplicity_def Let_def split: if_splits)
  with g wired show ?thesis by blast
qed

lemma targets_wired:
  assumes uniq: "distinct (map kd_name (sc_kinds s))" "distinct (paths s)" "distinct (map tie_name (kd_ties k))"
    and g: "g \<in> set (sc_groups s)" "dget (gr_wiring g) (kd_name k @ ''.'' @ tie_name tie) = Some wired"
    and k: "k \<in> set (sc_kinds s)" "tie \<in> set (kd_ties k)"
  shows "targets s (gr_path g) (kd_name k) (tie_name tie) = Some (map (\<lambda>(p, k, i). i)
    (filter (\<lambda>(p, k, i). k = tie_target_kind tie \<and> p \<in> set wired) (instance_ids s)))"
  using first_such_distinct[OF uniq(2)[unfolded paths_def] g(1)] first_such_distinct[OF uniq(1) k(1)]
    first_such_distinct[OF uniq(3) k(2)] g(2)
  by (simp add: targets_def)

lemma tie_reaches:
  assumes ok: "errors_of (c01_check c) = []" "errors_of (c11_check c) = []" "plain_kinds (cx_scenario c)"
    and i: "(path, kind, i) \<in> set (instance_ids (cx_scenario c))"
    and k: "k \<in> set (sc_kinds (cx_scenario c))" "kd_name k = kind" "tie \<in> set (kd_ties k)"
  shows "\<exists>ts. targets (cx_scenario c) path kind (tie_name tie) = Some ts
    \<and> (tie_multiplicity tie = Single \<longrightarrow> length ts = 1) \<and> (tie_multiplicity tie = Optional \<longrightarrow> length ts \<le> 1)"
proof -
  let ?s = "cx_scenario c"
  note uniq = c11_unique[OF ok(2)]
  from c01_wired[OF ok i k] obtain g wired where g: "g \<in> set (sc_groups ?s)" "gr_path g = path"
    "dget (gr_wiring g) (kind @ ''.'' @ tie_name tie) = Some wired"
    and total: "tie_multiplicity tie = Single \<longrightarrow> wired_total ?s (tie_target_kind tie) wired = 1"
      "tie_multiplicity tie = Optional \<longrightarrow> wired_total ?s (tie_target_kind tie) wired \<le> 1" by blast
  define ts where "ts = map (\<lambda>(p, k, i). i) (filter (\<lambda>(p, k, i). k = tie_target_kind tie \<and> p \<in> set wired) (instance_ids ?s))"
  have "targets ?s path kind (tie_name tie) = Some ts"
    using targets_wired[OF uniq(1,2) uniq(3)[OF k(1)] g(1) _ k(1,3), of wired] g(2,3) k(2) by (simp add: ts_def)
  moreover have "int (length ts) = wired_total ?s (tie_target_kind tie) wired"
    using count_instances[OF uniq(1) c01_targets_known[OF ok(1) k(1,3)], of wired] by (simp add: ts_def)
  ultimately show ?thesis using total by auto
qed

section \<open>Every tie carries packets\<close>

lemma reachable_address:
  assumes "reachable plan routes i j data"
  shows "peer_address plan routes i j data \<noteq> None"
proof -
  let ?theirs = "dget_or (pl_addresses plan) j []"
  have sub: "set (segments_of plan j data) \<subseteq> set (dkeys ?theirs)" by (auto simp: segments_of_def)
  have get: "n \<in> set (dkeys ?theirs) \<Longrightarrow> dget ?theirs n \<noteq> None" for n by (auto simp: set_dkeys)
  from assms sub consider (shared) n where "n \<in> set (segments_of plan i data)" "n \<in> set (dkeys ?theirs)"
    | (route) r where "r \<in> set (dget_or (rp_routes routes) i [])" "rt_segment r \<in> set (dkeys ?theirs)"
    by (auto simp: reachable_def Let_def)
  then show ?thesis
  proof cases
    case shared
    with first_such_ex[of n "segments_of plan i data" "\<lambda>n. n \<in> set (dkeys ?theirs)"] obtain m where
      m: "first_such (\<lambda>n. n \<in> set (dkeys ?theirs)) (segments_of plan i data) = Some m" by blast
    with get first_such_Some[OF m] show ?thesis by (auto simp: peer_address_def Let_def)
  next
    case route
    with first_such_ex[of r "dget_or (rp_routes routes) i []" "\<lambda>r. rt_segment r \<in> set (dkeys ?theirs)"] obtain m where
      m: "first_such (\<lambda>r. rt_segment r \<in> set (dkeys ?theirs)) (dget_or (rp_routes routes) i []) = Some m" by blast
    show ?thesis
    proof (cases "first_such (\<lambda>n. n \<in> set (dkeys ?theirs)) (segments_of plan i data)")
      case None
      from get first_such_Some[OF m] show ?thesis
        by (auto simp: peer_address_def Let_def m None simp del: first_such_None)
    next
      case (Some n)
      with get first_such_Some[OF Some] show ?thesis by (auto simp: peer_address_def Let_def)
    qed
  qed
qed

text \<open>Check 10 leaves no dead pair on a wire it can read.\<close>

lemma c10_no_problems:
  assumes "errors_of (c10_check digest c) = []" "cx_topology c = Some topo"
    and "plan_addresses digest (cx_scenario c) topo = (plan, ps)" "plan_routes (cx_scenario c) topo plan = (routes, rps)"
  shows "ps = []" "rps = []" "errors_of (c10_wires (cx_scenario c) topo plan routes) = []"
  using assms by (simp_all add: c10_check_def plan_errors_def errors_of_errors Let_def)

lemma c10_wires_dead:
  assumes "errors_of (c10_wires s topo plan routes) = []" "g \<in> set (sc_groups s)" "(key, wired) \<in> set (gr_wiring g)"
  shows "dead_pairs s topo plan routes (gr_path g) key = []"
proof -
  from enumerate0_ex[OF assms(2)] obtain n where n: "(n, g) \<in> set (enumerate0 (sc_groups s))" ..
  from assms(1) n assms(3) have "errors_of (c10_wire s topo plan routes n g key) = []"
    by (fastforce simp: c10_wires_def errors_of_concat simp del: in_enumerate0)
  then show ?thesis
    by (cases "dead_pairs s topo plan routes (gr_path g) key") (auto simp: c10_wire_def split: prod.splits)
qed

lemma c10_alive:
  assumes wires: "errors_of (c10_wires s topo plan routes) = []"
    and plain: "CHR ''.'' \<notin> set kind" and i: "(path, kind, i) \<in> set (instance_ids s)"
    and ts: "targets s path kind t = Some ts" "j \<in> set ts"
  shows "reachable plan routes i j (data_segments topo)"
proof (rule ccontr)
  assume dead: "\<not> reachable plan routes i j (data_segments topo)"
  from ts(1) obtain g wired where g: "g \<in> set (sc_groups s)" "gr_path g = path"
    "dget (gr_wiring g) (kind @ ''.'' @ t) = Some wired"
    by (auto simp: targets_def split: option.splits dest!: first_such_Some)
  have "i \<in> set (sources_of s path kind)" using i by (force simp: sources_of_def)
  with dead ts plain have "dead_pairs s topo plan routes path (kind @ ''.'' @ t) \<noteq> []"
    by (auto simp: dead_pairs_def)
  with c10_wires_dead[OF wires g(1) dget_Some_in[OF g(3)]] g(2) show False by simp
qed

lemma tie_peers_all:
  assumes "tie_peers s plan routes data path kind i tie = Inr (t, found)"
    and "targets s path kind (tie_name tie) = Some ts" "\<forall>j\<in>set ts. peer_address plan routes i j data \<noteq> None"
  shows "map pe_instance found = ts"
proof -
  let ?f = "\<lambda>target. case peer_address plan routes i target data of
            None \<Rightarrow> Inr []
          | Some address \<Rightarrow> rbind (or_raise (MissingKey (tie_target_kind tie)) (dget (kinds_by_name s) (tie_target_kind tie)))
              (\<lambda>k. Inr [\<lparr>pe_instance = target, pe_address = address, pe_served = kd_serves k\<rparr>])"
  from assms(1,2) obtain lists where lists: "rmap ?f ts = Inr lists" "found = concat lists"
    by (auto simp: tie_peers_def Let_def rbind_Inr_iff)
  from lists(1) assms(3) have "map pe_instance (concat lists) = ts"
  proof (induction ts arbitrary: lists)
    case (Cons j ts)
    then obtain a where "peer_address plan routes i j data = Some a" by auto
    with Cons show ?case by (auto simp: rbind_Inr_iff)
  qed simp
  with lists(2) show ?thesis by simp
qed

section \<open>Processes and schedules\<close>

lemma c04_initial_ok:
  "c04_initial path n (Some row) = (ds, r) \<Longrightarrow> errors_of ds = [] \<Longrightarrow> r = Some row \<and> length row = n \<and> stochastic row = None"
  by (auto simp: c04_initial_def split: if_splits option.splits)

lemma c04_matrix_ok:
  assumes "c04_matrix path states (Some rows) = (ds, r)" "errors_of ds = []"
  shows "r = Some rows \<and> length rows = length states \<and> (\<forall>row\<in>set rows. length row = length states \<and> stochastic row = None)"
proof -
  from assms have dims: "length rows = length states" "\<forall>row\<in>set rows. length row = length states"
    by (auto simp: c04_matrix_def Let_def list_ex_iff split: if_splits)
  have "stochastic row = None" if "row \<in> set rows" for row
  proof (rule ccontr)
    assume "stochastic row \<noteq> None"
    then obtain problem where problem: "stochastic row = Some problem" by auto
    from enumerate0_ex[OF that] obtain i where "(i, row) \<in> set (enumerate0 rows)" ..
    with assms dims problem show False
      by (fastforce simp: c04_matrix_def Let_def list_ex_iff errors_of_concat simp del: in_enumerate0)
  qed
  with assms dims show ?thesis by (auto simp: c04_matrix_def Let_def list_ex_iff)
qed

lemma c04_process_ok:
  assumes ok: "errors_of (c04_process c path p) = []"
    and res: "cx_states c p = Some states" "cx_initial c p = Some initial" "cx_transitions c p = Some matrix"
      "cx_dwell c p = Some dwell"
  shows "states \<noteq> []" "length initial = length states" "stochastic initial = None"
    "length matrix = length states" "\<forall>row\<in>set matrix. length row = length states \<and> stochastic row = None"
    "length dwell = length states" "\<forall>i<length states. i \<in> (edges matrix)\<^sup>* `` starts initial"
    "cx_rate c p = Some rate \<Longrightarrow> length rate \<in> {24, 168}"
proof -
  obtain ds1 r1 ds2 r2 where r: "c04_initial path (length states) (Some initial) = (ds1, r1)"
    "c04_matrix path states (Some matrix) = (ds2, r2)" by (metis prod.exhaust)
  show ne: "states \<noteq> []" using ok res by (auto simp: c04_process_def)
  have parts: "errors_of ds1 = []" "errors_of ds2 = []"
    "errors_of (case (r1, r2) of (Some row, Some rows) \<Rightarrow> map (\<lambda>i. an_error ''C04'' (at_index (path @ ''.states'') i)
       [L ''state '', R (states ! i), L '' is unreachable'']) (unreachable_states (length states) row rows) | _ \<Rightarrow> []) = []"
    "length dwell = length states" "cx_rate c p = Some rate \<Longrightarrow> length rate \<in> {24, 168}"
    using ok res ne r by (auto simp: c04_process_def Let_def split: if_splits)
  note i = c04_initial_ok[OF r(1) parts(1)] and m = c04_matrix_ok[OF r(2) parts(2)]
  show "length initial = length states" "stochastic initial = None" "length matrix = length states"
    "\<forall>row\<in>set matrix. length row = length states \<and> stochastic row = None" "length dwell = length states"
    "cx_rate c p = Some rate \<Longrightarrow> length rate \<in> {24, 168}"
    using i m parts(4,5) by blast+
  have "unreachable_states (length states) initial matrix = []"
    using parts(3) i m by (simp add: errors_of_errors)
  then have "filter (\<lambda>i. i \<notin> (edges matrix)\<^sup>* `` starts initial) [0..<length states] = []"
    unfolding unreachable_states_reach .
  then show "\<forall>i<length states. i \<in> (edges matrix)\<^sup>* `` starts initial"
    unfolding filter_empty_conv by auto
qed

lemma c04_processes:
  assumes "errors_of (c04_check c) = []" "kind \<in> set (sc_kinds (cx_scenario c))" "beh \<in> set (kd_behaviours kind)"
  shows "\<exists>path. errors_of (c04_process c path (beh_process beh)) = []"
proof -
  from enumerate0_ex[OF assms(2)] obtain k where k: "(k, kind) \<in> set (enumerate0 (sc_kinds (cx_scenario c)))" ..
  from enumerate0_ex[OF assms(3)] obtain b where b: "(b, beh) \<in> set (enumerate0 (kd_behaviours kind))" ..
  from assms(1) k b have "errors_of (c04_process c (behaviour_path k b @ ''.process'') (beh_process beh)) = []"
    by (fastforce simp: c04_check_def errors_of_concat simp del: in_enumerate0)
  then show ?thesis ..
qed

lemma c12_events:
  assumes "errors_of (c12_check has_offset c) = []" "event \<in> set (sc_schedule (cx_scenario c))"
  shows "fl_le (Fin 0) (ev_at_s event) \<and> fl_le (ev_at_s event) (sc_duration_s (cx_scenario c))"
    "\<exists>is. select (cx_scenario c) (ev_target event) = Some is \<and> is \<noteq> []"
proof -
  from enumerate0_ex[OF assms(2)] obtain e where "(e, event) \<in> set (enumerate0 (sc_schedule (cx_scenario c)))" ..
  with assms(1) have "errors_of (c12_event c (e, event)) = []"
    by (auto simp: c12_check_def Let_def errors_of_concat simp del: in_enumerate0)
  then show "fl_le (Fin 0) (ev_at_s event) \<and> fl_le (ev_at_s event) (sc_duration_s (cx_scenario c))"
    "\<exists>is. select (cx_scenario c) (ev_target event) = Some is \<and> is \<noteq> []"
    by (auto simp: c12_event_def Let_def split: if_splits option.splits)
qed

section \<open>The demo scenario is well formed\<close>

definition demo_context :: check_context where
  "demo_context = \<lparr>cx_scenario = demo_scenario, cx_resources = dict_resources [] [''cfg''],
     cx_impls = [(''i'', \<lparr>im_id = ''i'', im_version = ''1'', im_kind = Primitive, im_provides = [''h.g''],
         im_host = \<lparr>hq_platforms = [Linux], hq_binaries = [], hq_capabilities = [], hq_image_base = []\<rparr>,
         im_variants = [], im_fingerprint = None, im_service = None, im_catalog = []\<rparr>),
       (''j'', \<lparr>im_id = ''j'', im_version = ''1'', im_kind = Service, im_provides = [''h.s''],
         im_host = \<lparr>hq_platforms = [Linux], hq_binaries = [], hq_capabilities = [], hq_image_base = []\<rparr>,
         im_variants = [], im_fingerprint = None,
         im_service = Some \<lparr>st_served = [\<lparr>ep_protocol = ''http'', ep_port = 80, ep_transport = Tcp\<rparr>]\<rparr>, im_catalog = []\<rparr>)],
     cx_sensors = [(''zeek'', \<lparr>sd_id = ''zeek'', sd_versions = [''7''], sd_modes = [Offline], sd_capabilities = []\<rparr>)],
     cx_infra = [(''k'', \<lparr>in_id = ''k'', in_offers = [\<lparr>ho_offer_platform = Linux, ho_offer_type = Container, ho_grantable = Some []\<rparr>]\<rparr>)],
     cx_signatures = [(''h.g'', signature ''h.g'' ''h'' Client [''http''] [sig_param ''p'' TyStr True] (traffic (Exactly 1) Tcp None [] ReuseNone)),
       (''h.s'', signature ''h.s'' ''h'' Server [''http''] [] (traffic (Exactly 0) Tcp None [] ReuseNone))]\<rparr>"

lemma demo_checks:
  "errors_of (c01_check demo_context) = []" "errors_of (c02_check demo_context) = []"
  "errors_of (c03_check demo_context) = []" "errors_of (c04_check demo_context) = []"
  "errors_of (c05_check demo_context) = []" "errors_of (c06_check demo_context) = []"
  "errors_of (c07_check demo_context) = []" "errors_of (c08_check demo_context) = []"
  "errors_of (c09_check (\<lambda>_. [1, 2, 3]) demo_context) = []" "errors_of (c10_check (\<lambda>_. [1, 2, 3]) demo_context) = []"
  "errors_of (c11_check demo_context) = []" "errors_of (c12_check (\<lambda>_. True) demo_context) = []"
  "errors_of (c13_check demo_context) = []" "errors_of (c14_check demo_context) = []"
  "errors_of (c15_check demo_context) = []" "errors_of (c16_check demo_context) = []"
  "plain_kinds demo_scenario"
  by code_simp+

lemma demo_well_formed: "well_formed (\<lambda>_. [1, 2, 3]) (\<lambda>_. True) demo_context"
  unfolding well_formed_iff checks_def by (simp add: demo_checks del: One_nat_def)

lemma demo_context_simps: "cx_scenario demo_context = demo_scenario" "cx_resources demo_context = dict_resources [] [''cfg'']"
  by (simp_all add: demo_context_def)

lemma demo_topology_resolves: "res_topology (dict_resources [] [''cfg'']) demo_scenario = Some demo_topology"
  by (simp add: res_topology_def demo_scenario_def)

lemma demo_client: "hd demo_kinds \<in> set (sc_kinds demo_scenario)" "kd_name (hd demo_kinds) = ''c''"
  "hd (kd_ties (hd demo_kinds)) \<in> set (kd_ties (hd demo_kinds))"
  by (simp_all add: demo_scenario_def demo_kinds_def)

section \<open>Properties\<close>

text \<open>C12: A scenario the checks find no error in builds: \<open>build_programs\<close> raises nothing, whatever
  the routes and the server signatures, and gives one program per instance. Every resource a
  program needs is one check 5 has decoded, every kind in use is bound, and no dictionary
  lookup fails.\<close>

theorem well_formed_builds:
  assumes "well_formed digest has_offset c" "plan_addresses digest (cx_scenario c) topo = (plan, ps)"
  shows "\<exists>programs. build_programs (cx_scenario c) topo plan routes (cx_resources c) sigs = Inr programs
    \<and> set (dkeys programs) = (\<lambda>(p, k, i). i) ` set (instance_ids (cx_scenario c))"
proof -
  have "\<exists>kvs. rmap (\<lambda>x. rbind (program_of (cx_scenario c) topo plan routes (cx_resources c) sigs x)
      (\<lambda>p. Inr (snd (snd x), p))) (instance_ids (cx_scenario c)) = Inr kvs"
  proof (rule rmap_total)
    fix x assume "x \<in> set (instance_ids (cx_scenario c))"
    then have x: "(fst x, fst (snd x), snd (snd x)) \<in> set (instance_ids (cx_scenario c))" by simp
    from program_of_total[OF assms x]
    show "\<exists>y. rbind (program_of (cx_scenario c) topo plan routes (cx_resources c) sigs x) (\<lambda>p. Inr (snd (snd x), p)) = Inr y"
      by (auto simp: rbind_Inr_iff)
  qed
  then obtain programs where "build_programs (cx_scenario c) topo plan routes (cx_resources c) sigs = Inr programs"
    by (auto simp: build_programs_def rbind_Inr_iff)
  with build_programs_keys[OF this] show ?thesis by blast
qed




theorem well_formed_builds_witness:
  "\<exists>programs. build_programs demo_scenario demo_topology (fst demo_plan) (fst demo_routes) (dict_resources [] [''cfg'']) [''h.s'']
      = Inr programs
    \<and> set (dkeys programs) = (\<lambda>(p, k, i). i) ` set (instance_ids demo_scenario)"
  using well_formed_builds[OF demo_well_formed, unfolded demo_context_simps, OF demo_plan_run] .

text \<open>C14: In a scenario without errors whose kind names hold no dot, every tie of every instance is
  wired, a \<open>single\<close> tie reaches exactly one instance and an \<open>optional\<close> one at most one.\<close>

theorem ties_satisfied:
  assumes "well_formed digest has_offset c" "plain_kinds (cx_scenario c)"
    and "(path, kind, i) \<in> set (instance_ids (cx_scenario c))"
    and "k \<in> set (sc_kinds (cx_scenario c))" "kd_name k = kind" "tie \<in> set (kd_ties k)"
  shows "\<exists>ts. targets (cx_scenario c) path kind (tie_name tie) = Some ts
    \<and> (tie_multiplicity tie = Single \<longrightarrow> length ts = 1) \<and> (tie_multiplicity tie = Optional \<longrightarrow> length ts \<le> 1)"
  by (rule tie_reaches[OF well_formed_checks(1,9)[OF assms(1)] assms(2-6)])

theorem ties_satisfied_witness:
  "\<exists>ts. targets demo_scenario ''o'' ''c'' ''t'' = Some ts \<and> length ts = 1"
  using ties_satisfied[OF demo_well_formed, unfolded demo_context_simps, OF demo_checks(17) demo_routes(2) demo_client]
  by (simp add: demo_kinds_def)

text \<open>C13: In a scenario without errors whose kind names hold no dot, the programs leave no target
  out and name none that cannot be reached: the peers of every tie are exactly the tie's
  targets, in their order, and the traffic to each peer's address is delivered.\<close>

theorem well_formed_peers:
  assumes "well_formed digest has_offset c" "plain_kinds (cx_scenario c)" "cx_topology c = Some topo"
    and "plan_addresses digest (cx_scenario c) topo = (plan, ps)" "plan_routes (cx_scenario c) topo plan = (routes, rps)"
    and "build_programs (cx_scenario c) topo plan routes (cx_resources c) sigs = Inr programs" "dget programs i = Some p"
    and "(t, found) \<in> set (pg_peers p)"
  shows "\<exists>path kind. (path, kind, i) \<in> set (instance_ids (cx_scenario c))
    \<and> targets (cx_scenario c) path kind t = Some (map pe_instance found)
    \<and> (\<forall>pe\<in>set found. \<exists>segment. plan_at plan (pe_instance pe) segment = Some (pe_address pe)
         \<and> delivers plan routes (data_segments topo) i segment)"
proof -
  note checks = well_formed_checks[OF assms(1)]
  note c10 = c10_no_problems[OF checks(8) assms(3-5)]
  from build_programs_get[OF assms(6,7)] obtain path kind where
    i: "(path, kind, i) \<in> set (instance_ids (cx_scenario c))" and
    p: "program_of (cx_scenario c) topo plan routes (cx_resources c) sigs (path, kind, i) = Inr p" by blast
  obtain k :: actor_kind and peers where k: "dget (kinds_by_name (cx_scenario c)) kind = Some k"
    and peers: "rmap (tie_peers (cx_scenario c) plan routes (data_segments topo) path kind i) (kd_ties k) = Inr peers"
    and eq: "pg_peers p = dict_of peers"
    by (rule program_of_parts[OF p]) blast
  note k' = kinds_by_name_get(2)[OF k]
  from assms(8) eq have "(t, found) \<in> set peers" by (auto dest: dict_of_in)
  from rmap_in[OF peers this] obtain tie where tie: "tie \<in> set (kd_ties k)"
    "tie_peers (cx_scenario c) plan routes (data_segments topo) path kind i tie = Inr (t, found)" by blast
  then have t: "t = tie_name tie" by (auto simp: tie_peers_def Let_def rbind_Inr_iff)
  from tie_reaches[OF checks(1,9) assms(2) i] k' tie(1) obtain ts where
    ts: "targets (cx_scenario c) path kind (tie_name tie) = Some ts" by blast
  have "CHR ''.'' \<notin> set kind" using assms(2) k' by (auto simp: plain_kinds_def)
  from c10_alive[OF c10(3) this i ts] have "\<forall>j\<in>set ts. peer_address plan routes i j (data_segments topo) \<noteq> None"
    by (auto dest: reachable_address)
  from tie_peers_all[OF tie(2) ts this] ts t have all: "targets (cx_scenario c) path kind t = Some (map pe_instance found)"
    by simp
  have "\<exists>segment. plan_at plan (pe_instance pe) segment = Some (pe_address pe)
      \<and> delivers plan routes (data_segments topo) i segment" if "pe \<in> set found" for pe
    using peers_deliver[OF assms(5)[unfolded c10(2)] assms(6,7,8) that] by blast
  with i all show ?thesis by blast
qed

theorem well_formed_peers_witness:
  "\<exists>programs p found. build_programs demo_scenario demo_topology (fst demo_plan) (fst demo_routes)
      (dict_resources [] [''cfg'']) [''h.s''] = Inr programs \<and> dget programs ''o/c[0]'' = Some p
    \<and> (''t'', found) \<in> set (pg_peers p)
    \<and> (\<exists>path kind. targets demo_scenario path kind ''t'' = Some (map pe_instance found))"
proof -
  from well_formed_peers[OF demo_well_formed, unfolded demo_context_simps, OF demo_checks(17) demo_topology_resolves demo_plan_run demo_routes_run
      demo_programs_run demo_program_get demo_programs(3)] demo_programs_run demo_program_get[of "''o/c[0]''"] demo_programs(3)
  show ?thesis by fastforce
qed

text \<open>C15: In a scenario without errors every behaviour's process is a semi-Markov process: its
  resources resolve, it has states, an initial distribution and a square matrix over them, one
  dwell distribution per state and a rate curve of 24 or 168 entries, every state is reachable,
  and every row of finite entries is non-negative and sums to one within \<open>1e-9\<close>.\<close>

theorem processes_sound:
  assumes "well_formed digest has_offset c" "kind \<in> set (sc_kinds (cx_scenario c))" "beh \<in> set (kd_behaviours kind)"
  shows "\<exists>states initial matrix dwell. cx_states c (beh_process beh) = Some states
    \<and> cx_initial c (beh_process beh) = Some initial \<and> cx_transitions c (beh_process beh) = Some matrix
    \<and> cx_dwell c (beh_process beh) = Some dwell
    \<and> states \<noteq> [] \<and> length initial = length states \<and> length matrix = length states
    \<and> (\<forall>row\<in>set matrix. length row = length states) \<and> length dwell = length states
    \<and> (\<forall>i<length states. i \<in> (edges matrix)\<^sup>* `` starts initial)
    \<and> (\<forall>row\<in>set (initial # matrix). list_all fl_isfinite row \<longrightarrow> stochastic_row row)
    \<and> (\<forall>rate. cx_rate c (beh_process beh) = Some rate \<longrightarrow> length rate \<in> {24, 168})"
proof -
  note checks = well_formed_checks[OF assms(1)]
  from behaviour_resolves(1-4)[OF checks(5) assms(2,3)] obtain states initial matrix dwell where
    r: "cx_states c (beh_process beh) = Some states" "cx_initial c (beh_process beh) = Some initial"
      "cx_transitions c (beh_process beh) = Some matrix" "cx_dwell c (beh_process beh) = Some dwell" by blast
  from c04_processes[OF checks(4) assms(2,3)] obtain path where
    "errors_of (c04_process c path (beh_process beh)) = []" ..
  note p = c04_process_ok[OF this r]
  have "\<forall>row\<in>set (initial # matrix). list_all fl_isfinite row \<longrightarrow> stochastic_row row"
    using p(3,5) stochastic_None by auto
  with r p show ?thesis by blast
qed

theorem processes_sound_witness:
  "\<exists>states initial matrix dwell. res_states (dict_resources [] [''cfg'']) demo_process = Some states
    \<and> res_initial (dict_resources [] [''cfg'']) demo_process = Some initial
    \<and> res_transitions (dict_resources [] [''cfg'']) demo_process = Some matrix
    \<and> res_dwell (dict_resources [] [''cfg'']) demo_process = Some dwell
    \<and> states \<noteq> [] \<and> (\<forall>i<length states. i \<in> (edges matrix)\<^sup>* `` starts initial)"
  using processes_sound[OF demo_well_formed, unfolded demo_context_simps, OF demo_client(1), of "hd (kd_behaviours (hd demo_kinds))"]
  by (simp add: demo_kinds_def) blast

text \<open>In a scenario without errors every schedule event falls within the run and selects at least
  one instance.\<close>

lemma schedule_sound:
  assumes "well_formed digest has_offset c" "event \<in> set (sc_schedule (cx_scenario c))"
  shows "fl_le (Fin 0) (ev_at_s event) \<and> fl_le (ev_at_s event) (sc_duration_s (cx_scenario c))
    \<and> (\<exists>is. select (cx_scenario c) (ev_target event) = Some is \<and> is \<noteq> []
         \<and> set is \<subseteq> (\<lambda>(p, k, i). i) ` set (instance_ids (cx_scenario c)))"
  using c12_events[OF well_formed_checks(10)[OF assms(1)] assms(2)] select_sound by blast

end
