(* ===== verification/Events.thy ===== *)
theory Events
  imports Codec
begin

text \<open>
  What is observed of a run: the sensors' connections and application events
  (\<open>core/tiergen/core/events.py\<close>), the labels and flags of the assembly
  (\<open>core/tiergen/core/labels.py\<close>) and the kernel's records
  (\<open>interfaces/tiergen/interfaces/attribution.py\<close>). Every time in them is read from JSON by
  the codec, which refuses a non-finite float, so a time is a rational; the arithmetic on times
  is exact where Python rounds.
\<close>

section \<open>Sensor events\<close>

datatype conn_state = CAttempted | CEstablished | CClosed | CReset | CRejected | COther

record sensor_flow_id =
  sf_sensor :: string
  sf_capture_point :: string
  sf_native :: string

record five_tuple =
  ft_orig_addr :: string
  ft_orig_port :: int
  ft_resp_addr :: string
  ft_resp_port :: int
  ft_proto :: string

record conn_event =
  ce_flow :: sensor_flow_id
  ce_five_tuple :: five_tuple
  ce_start :: rat
  ce_duration :: "rat option"
  ce_orig_bytes :: "int option"
  ce_resp_bytes :: "int option"
  ce_orig_pkts :: "int option"
  ce_resp_pkts :: "int option"
  ce_state :: conn_state
  ce_raw :: "(string, json) dict"

record app_event =
  ae_flow :: sensor_flow_id
  ae_index :: int
  ae_ts :: rat
  ae_protocol :: string
  ae_fields :: "(string, json) dict"
  ae_raw :: "(string, json) dict"

datatype event = Conn conn_event | App app_event

section \<open>Labels and flags\<close>

datatype flag_kind = FlagFailed | FlagUnattributed
datatype flag_reason = NoAttribution | NoInvocation | NoConnection

record label =
  la_flow :: sensor_flow_id
  la_key :: label_key
  la_signature :: string
  la_outcome :: outcome
  la_principal :: attribution_key
  la_observed :: rat

record flag =
  fg_kind :: flag_kind
  fg_reason :: flag_reason
  fg_at :: rat
  fg_flow :: "sensor_flow_id option"
  fg_five_tuple :: "five_tuple option"
  fg_invocation :: "string option"

section \<open>Attribution\<close>

text \<open>The kernel's view of one connection (\<open>interfaces/attribution.py\<close>).\<close>

record attribution_record =
  ar_instance :: string
  ar_principal :: attribution_key
  ar_five_tuple :: five_tuple
  ar_start :: rat
  ar_end :: rat
  ar_tgid :: int

end
