(* ===== verification/Collector.thy ===== *)
theory Collector
  imports Events Interfaces
begin

text \<open>
  The collector's events and how they become attribution records
  (\<open>backends/attrib/_base\<close>): which attribution backend covers which hosts of a manifest, and
  the join, which opens a record on a socket at a connect or an accept and ends it at the close
  of that socket. The join is related to a definition that reads the events once, forwards,
  without any state.
\<close>

section \<open>Which backend covers which host\<close>

definition by_infra :: "((string \<times> platform) \<times> string) list" where
  "by_infra = [((''docker'', Linux), ''linux_ebpf''), ((''libvirt'', Linux), ''linux_ebpf_guest'')]"

definition backends_for :: "run_manifest \<Rightarrow> (string, platform list) dict" where
  "backends_for m = fold (\<lambda>h found. case map_of by_infra (rm_backend m, hs_platform h) of
       None \<Rightarrow> found
     | Some name \<Rightarrow> dset name (List.insert (hs_platform h) (dget_or found name [])) found) (rm_hosts m) []"

definition uncovered :: "run_manifest \<Rightarrow> platform list" where
  "uncovered m = remdups (filter (\<lambda>p. map_of by_infra (rm_backend m, p) = None) (map hs_platform (rm_hosts m)))"

section \<open>The collector's events\<close>

datatype event_kind = EStart | EConnect | EAccept | EClose | EUdpSend | EUdpRecv | EPacket

record kernel_event =
  ke_ev :: event_kind
  ke_ts_ns :: int
  ke_cg :: int
  ke_container_cg :: int
  ke_pid :: int
  ke_tgid :: int
  ke_proto :: string
  ke_src :: string
  ke_sport :: int
  ke_dst :: string
  ke_dport :: int
  ke_sk :: int

definition seconds :: "int \<Rightarrow> rat" where
  "seconds ns = of_int ns / 1000000000"

text \<open>The local side originates what it connects or sends, the remote side what was accepted
  or received.\<close>

definition five :: "kernel_event \<Rightarrow> five_tuple" where
  "five e = (if ke_ev e \<in> {EAccept, EUdpRecv}
     then \<lparr>ft_orig_addr = ke_dst e, ft_orig_port = ke_dport e, ft_resp_addr = ke_src e,
           ft_resp_port = ke_sport e, ft_proto = ke_proto e\<rparr>
     else \<lparr>ft_orig_addr = ke_src e, ft_orig_port = ke_sport e, ft_resp_addr = ke_dst e,
           ft_resp_port = ke_dport e, ft_proto = ke_proto e\<rparr>)"

definition record_of :: "string \<Rightarrow> kernel_event \<Rightarrow> attribution_record" where
  "record_of instnc e = \<lparr>ar_instance = instnc,
     ar_principal = \<lparr>ak_platform = Linux, ak_principal = ''cgroup:'' @ show_int (ke_cg e)\<rparr>,
     ar_five_tuple = five e, ar_start = seconds (ke_ts_ns e), ar_end = seconds (ke_ts_ns e),
     ar_tgid = ke_tgid e\<rparr>"

section \<open>The join\<close>

record collected =
  co_records :: "attribution_record list"
  co_pending :: "(int, nat) dict"
  co_dropped :: "(event_kind, nat) dict"

definition collect_event :: "(int, string) dict \<Rightarrow> kernel_event \<Rightarrow> collected \<Rightarrow> collected" where
  "collect_event containers e s =
     (case ke_ev e of
        EStart \<Rightarrow> s
      | EClose \<Rightarrow>
          (case dget (co_pending s) (ke_sk e) of
             None \<Rightarrow> s
           | Some i \<Rightarrow> s\<lparr>co_pending := AList.delete (ke_sk e) (co_pending s),
               co_records := (co_records s)[i := (co_records s ! i)\<lparr>ar_end := seconds (ke_ts_ns e)\<rparr>]\<rparr>)
      | _ \<Rightarrow>
          (case dget containers (ke_container_cg e) of
             None \<Rightarrow> s\<lparr>co_dropped := dset (ke_ev e) (dget_or (co_dropped s) (ke_ev e) 0 + 1) (co_dropped s)\<rparr>
           | Some instnc \<Rightarrow> s\<lparr>co_pending := (if ke_ev e \<in> {EConnect, EAccept} \<and> ke_sk e \<noteq> 0
                 then dset (ke_sk e) (length (co_records s)) (co_pending s) else co_pending s),
               co_records := co_records s @ [record_of instnc e]\<rparr>))"

definition nothing_collected :: collected where
  "nothing_collected = \<lparr>co_records = [], co_pending = [], co_dropped = []\<rparr>"

definition collect :: "(int, string) dict \<Rightarrow> kernel_event list \<Rightarrow> collected" where
  "collect containers events = fold (collect_event containers) events nothing_collected"

section \<open>A reference without state\<close>

text \<open>\<open>makes_record\<close>: the event is of a connection and from a container of the run. \<open>opens\<close>: it
  also opens a record on its socket. \<open>closed_at sk es\<close>: when the socket, open now, is closed, if
  it is before it is opened again.\<close>

definition is_traffic :: "kernel_event \<Rightarrow> bool" where
  "is_traffic e \<longleftrightarrow> ke_ev e \<notin> {EStart, EClose}"

definition makes_record :: "(int, string) dict \<Rightarrow> kernel_event \<Rightarrow> string option" where
  "makes_record containers e = (if is_traffic e then dget containers (ke_container_cg e) else None)"

definition opens :: "(int, string) dict \<Rightarrow> kernel_event \<Rightarrow> bool" where
  "opens containers e \<longleftrightarrow>
     ke_ev e \<in> {EConnect, EAccept} \<and> ke_sk e \<noteq> 0 \<and> makes_record containers e \<noteq> None"

fun closed_at :: "(int, string) dict \<Rightarrow> int \<Rightarrow> kernel_event list \<Rightarrow> rat option" where
  "closed_at containers sk [] = None"
| "closed_at containers sk (e # es) =
     (if ke_ev e = EClose \<and> ke_sk e = sk then Some (seconds (ke_ts_ns e))
      else if opens containers e \<and> ke_sk e = sk then None
      else closed_at containers sk es)"

definition ended :: "rat option \<Rightarrow> attribution_record \<Rightarrow> attribution_record" where
  "ended t r = (case t of None \<Rightarrow> r | Some t \<Rightarrow> r\<lparr>ar_end := t\<rparr>)"

fun observed :: "(int, string) dict \<Rightarrow> kernel_event list \<Rightarrow> attribution_record list" where
  "observed containers [] = []"
| "observed containers (e # es) =
     (case makes_record containers e of
        None \<Rightarrow> observed containers es
      | Some instnc \<Rightarrow>
          ended (if opens containers e then closed_at containers (ke_sk e) es else None) (record_of instnc e)
            # observed containers es)"

section \<open>The join is the reference\<close>

text \<open>The sockets pending point to distinct records.\<close>

definition pending_ok :: "collected \<Rightarrow> bool" where
  "pending_ok s \<longleftrightarrow> (\<forall>sk i. dget (co_pending s) sk = Some i \<longrightarrow> i < length (co_records s))
     \<and> inj_on (dget (co_pending s)) (dom (dget (co_pending s)))"

lemma pending_okD: "pending_ok s \<Longrightarrow> dget (co_pending s) sk = Some i \<Longrightarrow> i < length (co_records s)"
  by (simp add: pending_ok_def)

lemma pending_ok_inj: "pending_ok s \<Longrightarrow> dget (co_pending s) sk = Some i \<Longrightarrow> dget (co_pending s) sk' = Some i \<Longrightarrow> sk = sk'"
  unfolding pending_ok_def inj_on_def by (metis domI)

lemma pending_okI:
  assumes "\<And>sk i. dget (co_pending s) sk = Some i \<Longrightarrow> i < length (co_records s)"
    "\<And>sk sk' i. dget (co_pending s) sk = Some i \<Longrightarrow> dget (co_pending s) sk' = Some i \<Longrightarrow> sk = sk'"
  shows "pending_ok s"
  using assms unfolding pending_ok_def inj_on_def by (metis domD)

text \<open>The three kinds of step, and what they do to a state.\<close>

lemma collect_close_none:
  "ke_ev e = EClose \<Longrightarrow> dget (co_pending s) (ke_sk e) = None \<Longrightarrow> collect_event containers e s = s"
  by (simp add: collect_event_def)

lemma collect_close_some:
  "ke_ev e = EClose \<Longrightarrow> dget (co_pending s) (ke_sk e) = Some i \<Longrightarrow>
   collect_event containers e s = s\<lparr>co_pending := AList.delete (ke_sk e) (co_pending s),
     co_records := (co_records s)[i := ended (Some (seconds (ke_ts_ns e))) (co_records s ! i)]\<rparr>"
  by (simp add: collect_event_def ended_def)

lemma collect_silent:
  "ke_ev e \<noteq> EClose \<Longrightarrow> makes_record containers e = None \<Longrightarrow>
   co_records (collect_event containers e s) = co_records s
   \<and> co_pending (collect_event containers e s) = co_pending s"
  by (cases "ke_ev e") (auto simp: collect_event_def makes_record_def is_traffic_def)

lemma collect_made:
  "makes_record containers e = Some instnc \<Longrightarrow>
   co_records (collect_event containers e s) = co_records s @ [record_of instnc e]
   \<and> co_pending (collect_event containers e s)
     = (if opens containers e then dset (ke_sk e) (length (co_records s)) (co_pending s) else co_pending s)"
  by (cases "ke_ev e") (auto simp: collect_event_def makes_record_def is_traffic_def opens_def split: if_splits)

lemma makes_record_kind: "makes_record containers e = Some i \<Longrightarrow> ke_ev e \<noteq> EClose \<and> ke_ev e \<noteq> EStart"
  by (auto simp: makes_record_def is_traffic_def split: if_splits)

lemma pending_ok_step:
  assumes "pending_ok s"
  shows "pending_ok (collect_event containers e s)"
proof (cases "makes_record containers e")
  case (Some instnc)
  note made = collect_made[OF this, of s]
  have below: "dget (co_pending s) sk = Some i \<Longrightarrow> i \<noteq> length (co_records s)" for sk i
    using pending_okD[OF assms] by fastforce
  from made pending_okD[OF assms] pending_ok_inj[OF assms] show ?thesis
    by (intro pending_okI) (auto split: if_splits dest: below intro: less_SucI)
next
  case None
  show ?thesis
  proof (cases "ke_ev e = EClose")
    case False
    from collect_silent[OF False None, of s] assms show ?thesis by (simp add: pending_ok_def)
  next
    case True
    show ?thesis
    proof (cases "dget (co_pending s) (ke_sk e)")
      case (Some i)
      from collect_close_some[OF True Some, of containers] pending_okD[OF assms] pending_ok_inj[OF assms]
      show ?thesis by (intro pending_okI) (auto simp: AList.delete_conv' split: if_splits)
    qed (simp add: collect_close_none[OF True] assms)
  qed
qed

lemma closed_at_skip:
  "ke_ev e \<noteq> EClose \<or> ke_sk e \<noteq> sk \<Longrightarrow> \<not> opens containers e \<or> ke_sk e \<noteq> sk \<Longrightarrow>
   closed_at containers sk (e # es) = closed_at containers sk es"
  by auto

text \<open>From any state: a record no socket points to stays, a pending one ends at the close of its
  socket, and what is appended is what the reference observes.\<close>

lemma collect_from:
  fixes containers es
  assumes "pending_ok s"
  defines "t \<equiv> fold (collect_event containers) es s"
  shows "length (co_records s) \<le> length (co_records t)
    \<and> (\<forall>i<length (co_records s). (\<forall>sk. dget (co_pending s) sk \<noteq> Some i) \<longrightarrow> co_records t ! i = co_records s ! i)
    \<and> (\<forall>sk i. dget (co_pending s) sk = Some i \<longrightarrow>
         co_records t ! i = ended (closed_at containers sk es) (co_records s ! i))
    \<and> drop (length (co_records s)) (co_records t) = observed containers es"
  using assms(1) unfolding t_def
proof (induction es arbitrary: s)
  case Nil
  then show ?case by (simp add: ended_def)
next
  case (Cons e es)
  let ?s = "collect_event containers e s"
  let ?t = "fold (collect_event containers) es ?s"
  note ok = pending_ok_step[OF Cons.prems, of containers e]
  note IH = Cons.IH[OF ok]
  have IH_stay: "co_records ?t ! i = co_records ?s ! i"
    if "i < length (co_records ?s)" "\<forall>sk. dget (co_pending ?s) sk \<noteq> Some i" for i
    using IH that by blast
  have IH_pend: "co_records ?t ! i = ended (closed_at containers sk es) (co_records ?s ! i)"
    if "dget (co_pending ?s) sk = Some i" for sk i
    using IH that by blast
  show ?case
  proof (cases "makes_record containers e")
    case (Some instnc)
    note made = collect_made[OF Some, of s]
    let ?n = "length (co_records s)"
    from IH made have len: "?n < length (co_records ?t)" by simp
    have "co_records ?t ! ?n = ended (if opens containers e then closed_at containers (ke_sk e) es else None) (record_of instnc e)"
    proof (cases "opens containers e")
      case True
      with made have "dget (co_pending ?s) (ke_sk e) = Some ?n" by simp
      from IH_pend[OF this] made True show ?thesis by simp
    next
      case False
      with made pending_okD[OF Cons.prems] have "\<forall>sk. dget (co_pending ?s) sk \<noteq> Some ?n" by fastforce
      from IH_stay[OF _ this] made False show ?thesis by (simp add: ended_def)
    qed
    moreover have "drop ?n (co_records ?t) = co_records ?t ! ?n # drop (Suc ?n) (co_records ?t)"
      using len by (simp add: Cons_nth_drop_Suc)
    moreover have "drop (Suc ?n) (co_records ?t) = observed containers es" using IH made by simp
    ultimately have new: "drop ?n (co_records ?t) = observed containers (e # es)" using Some by simp
    have stay: "co_records ?t ! i = co_records s ! i"
      if i: "i < ?n" "\<forall>sk. dget (co_pending s) sk \<noteq> Some i" for i
    proof -
      from made i have "\<forall>sk. dget (co_pending ?s) sk \<noteq> Some i" by auto
      from IH_stay[OF _ this] made i(1) show ?thesis by (simp add: nth_append)
    qed
    have pend: "co_records ?t ! i = ended (closed_at containers sk (e # es)) (co_records s ! i)"
      if p: "dget (co_pending s) sk = Some i" for sk i
    proof (cases "opens containers e \<and> ke_sk e = sk")
      case True
      from pending_okD[OF Cons.prems p] have i: "i < ?n" .
      from True made pending_ok_inj[OF Cons.prems p] i have "\<forall>sk. dget (co_pending ?s) sk \<noteq> Some i" by auto
      from IH_stay[OF _ this] made i have "co_records ?t ! i = co_records s ! i" by (simp add: nth_append)
      with True makes_record_kind[OF Some] show ?thesis by (simp add: ended_def)
    next
      case False
      from pending_okD[OF Cons.prems p] have i: "i < ?n" .
      from False made p have "dget (co_pending ?s) sk = Some i" by auto
      from IH_pend[OF this] made i have "co_records ?t ! i = ended (closed_at containers sk es) (co_records s ! i)"
        by (simp add: nth_append)
      with False makes_record_kind[OF Some] show ?thesis by auto
    qed
    from len new stay pend show ?thesis by simp
  next
    case None
    then have no: "\<not> opens containers e" by (simp add: opens_def)
    show ?thesis
    proof (cases "ke_ev e = EClose \<and> dget (co_pending s) (ke_sk e) \<noteq> None")
      case True
      then obtain j where ev: "ke_ev e = EClose" and j: "dget (co_pending s) (ke_sk e) = Some j" by auto
      note st = collect_close_some[OF ev j, of containers]
      from pending_okD[OF Cons.prems j] have jn: "j < length (co_records s)" .
      from st pending_ok_inj[OF Cons.prems j] have "\<forall>sk. dget (co_pending ?s) sk \<noteq> Some j"
        by (auto simp: AList.delete_conv')
      from IH_stay[OF _ this] st jn have j_end: "co_records ?t ! j = ended (Some (seconds (ke_ts_ns e))) (co_records s ! j)" by simp
      have stay: "co_records ?t ! i = co_records s ! i"
        if i: "i < length (co_records s)" "\<forall>sk. dget (co_pending s) sk \<noteq> Some i" for i
      proof -
        from st i(2) have "\<forall>sk. dget (co_pending ?s) sk \<noteq> Some i" by (auto simp: AList.delete_conv')
        moreover from i(2) j have "i \<noteq> j" by auto
        ultimately show ?thesis using IH_stay[of i] st i(1) by simp
      qed
      have pend: "co_records ?t ! i = ended (closed_at containers sk (e # es)) (co_records s ! i)"
        if p: "dget (co_pending s) sk = Some i" for sk i
      proof (cases "sk = ke_sk e")
        case True
        with p j j_end ev show ?thesis by simp
      next
        case False
        with p st have "dget (co_pending ?s) sk = Some i" by (simp add: AList.delete_conv')
        moreover from False pending_ok_inj[OF Cons.prems p] j have "i \<noteq> j" by auto
        ultimately show ?thesis using IH_pend[of sk i] st False no by simp
      qed
      from IH st stay pend None show ?thesis by simp
    next
      case False
      have same: "co_records ?s = co_records s \<and> co_pending ?s = co_pending s"
      proof (cases "ke_ev e = EClose")
        case True
        with False show ?thesis by (simp add: collect_close_none)
      qed (simp add: collect_silent None)
      have "closed_at containers sk (e # es) = closed_at containers sk es"
        if "dget (co_pending s) sk = Some i" for sk i
        using that False no by (intro closed_at_skip) auto
      with IH same None show ?thesis by simp
    qed
  qed
qed

lemma collect_observed: "co_records (collect containers events) = observed containers events"
proof -
  have "pending_ok nothing_collected" by (simp add: pending_ok_def nothing_collected_def)
  from collect_from[OF this, of containers events] show ?thesis
    by (simp add: collect_def nothing_collected_def)
qed

text \<open>C20: The join of the collector's events is a function of the events alone: there is one
  record per connection, exchange or packet of a container of the run, in the order of the
  events; a record ends where it began unless it was opened by a connect or an accept on a
  socket whose close comes before the socket is opened again.\<close>

theorem collect_refines: "co_records (collect containers events) = observed containers events"
  by (rule collect_observed)

section \<open>What is dropped is counted\<close>

lemma sum_dset_incr:
  "sum_list (map snd (dset k (Suc (dget_or d k 0)) d)) = Suc (sum_list (map snd d))"
  by (induction d) (auto simp: dget_or_def)

lemma collect_event_counts:
  "pending_ok s \<Longrightarrow> length (co_records (collect_event containers e s)) + sum_list (map snd (co_dropped (collect_event containers e s)))
   = length (co_records s) + sum_list (map snd (co_dropped s)) + (if is_traffic e then 1 else 0)"
  by (cases "ke_ev e") (simp_all add: collect_event_def is_traffic_def sum_dset_incr split: option.split)

lemma collect_counts_from:
  "pending_ok s \<Longrightarrow> length (co_records (fold (collect_event containers) es s))
     + sum_list (map snd (co_dropped (fold (collect_event containers) es s)))
   = length (co_records s) + sum_list (map snd (co_dropped s)) + length (filter is_traffic es)"
  by (induction es arbitrary: s) (simp_all add: collect_event_counts pending_ok_step)

text \<open>No event of traffic is lost: what the join makes a record of and what it counts as
  dropped, over every kind of event, add up to the events that are neither the collector's start
  nor a close.\<close>

lemma collect_counts:
  "length (co_records (collect containers events)) + sum_list (map snd (co_dropped (collect containers events)))
   = length (filter is_traffic events)"
  using collect_counts_from[of nothing_collected containers events]
  by (simp add: collect_def nothing_collected_def pending_ok_def)

end
