(* ===== verification/Assembly.thy ===== *)
theory Assembly
  imports Events Program "HOL-Library.Product_Lexorder" "HOL-Library.Multiset"
begin

text \<open>
  The join of the assembly (\<open>backends/assemble/join.py\<close>): each sensor connection is matched to
  the kernel's record of it, and that record to the invocation it was seen from, which gives a
  label, or to nothing, which gives a flag. The code works through indexes by flow, by host and
  by instance, and remembers the owner of every record it has looked up; \<open>assembled\<close> says
  what it computes without them, and the two are equal, errors included.
\<close>

section \<open>The signatures the programs run\<close>

type_synonym signature_key = "string \<times> string \<times> string"

definition run_signatures :: "program list \<Rightarrow> (signature_key, string) dict" where
  "run_signatures programs = fold (\<lambda>p found. fold (\<lambda>b found. fold (\<lambda>(state, act) found.
       case act of None \<Rightarrow> found | Some a \<Rightarrow> dset (pg_instance p, rb_name b, state) (ra_signature a) found)
     (rb_action_map b) found) (pg_behaviours p) found) programs []"

section \<open>Which invocation a record was seen from\<close>

definition same_principal :: "attribution_key \<Rightarrow> attribution_record \<Rightarrow> bool" where
  "same_principal k r \<longleftrightarrow> k = ar_principal r \<or>
     (let (kind, _, n) = partition_on CHR '':'' (ak_principal k)
      in ak_platform k = ak_platform (ar_principal r) \<and> kind = ''pid'' \<and> ar_tgid r \<noteq> 0
         \<and> show_int (ar_tgid r) = n)"

definition owns :: "rat \<Rightarrow> invocation_record \<Rightarrow> attribution_record \<Rightarrow> bool" where
  "owns tol v r \<longleftrightarrow> lk_instance (ir_key v) = ar_instance r \<and> same_principal (ir_principal v) r
     \<and> ir_start v + cs_offset (ir_clock v) - tol \<le> ar_start r
     \<and> ar_start r \<le> ir_end v + cs_offset (ir_clock v) + tol"

section \<open>The join\<close>

record joined =
  jo_labels :: "(string, label list) dict"
  jo_flags :: "flag list"

datatype assemble_error = NoSignature signature_key | NoOffset string | Unmeasured "string list"
  | NoBackend "string list" | NoRunState

definition by_flow :: "attribution_record list \<Rightarrow> (string \<times> five_tuple, nat list) dict" where
  "by_flow records = fold (\<lambda>(i, r). dappend (ar_instance r, ar_five_tuple r) i) (enumerate0 records) []"

definition by_host :: "attribution_record list \<Rightarrow> (string, nat list) dict" where
  "by_host records = fold (\<lambda>(i, r). dappend (ar_instance r) i) (enumerate0 records) []"

definition by_instance :: "invocation_record list \<Rightarrow> (string, invocation_record list) dict" where
  "by_instance invs = fold (\<lambda>v. dappend (lk_instance (ir_key v)) v) invs []"

definition first_owner :: "attribution_record list \<Rightarrow> invocation_record list \<Rightarrow> rat \<Rightarrow> nat \<Rightarrow> invocation_record option" where
  "first_owner records invs tol i =
     first_such (\<lambda>v. owns tol v (records ! i)) (dget_or (by_instance invs) (ar_instance (records ! i)) [])"

definition owner_of :: "attribution_record list \<Rightarrow> invocation_record list \<Rightarrow> rat \<Rightarrow> nat
    \<Rightarrow> (nat, invocation_record option) dict \<Rightarrow> invocation_record option \<times> (nat, invocation_record option) dict" where
  "owner_of records invs tol i memo =
     (case dget memo i of
        Some v \<Rightarrow> (v, memo)
      | None \<Rightarrow> let v = first_owner records invs tol i in (v, dset i v memo))"

text \<open>\<open>min\<close> with a key: the first of the least.\<close>

fun nearest :: "('a \<Rightarrow> rat) \<Rightarrow> 'a list \<Rightarrow> 'a option" where
  "nearest f [] = None"
| "nearest f (x # xs) = Some (fold (\<lambda>y b. if f y < f b then y else b) xs x)"

definition gap :: "attribution_record list \<Rightarrow> conn_event \<Rightarrow> nat \<Rightarrow> rat" where
  "gap records conn i = \<bar>ar_start (records ! i) - ce_start conn\<bar>"

definition near :: "attribution_record list \<Rightarrow> (string, string) dict \<Rightarrow> rat \<Rightarrow> conn_event \<Rightarrow> nat list" where
  "near records instance_of tol conn =
     (case dget instance_of (ft_orig_addr (ce_five_tuple conn)) of
        None \<Rightarrow> []
      | Some instnc \<Rightarrow> filter (\<lambda>i. gap records conn i \<le> tol)
          (dget_or (by_flow records) (instnc, ce_five_tuple conn) []))"

definition unattributed :: "flag_reason \<Rightarrow> conn_event \<Rightarrow> flag" where
  "unattributed reason conn = \<lparr>fg_kind = FlagUnattributed, fg_reason = reason, fg_at = ce_start conn,
     fg_flow = Some (ce_flow conn), fg_five_tuple = Some (ce_five_tuple conn), fg_invocation = None\<rparr>"

definition failed_flag :: "flag_reason \<Rightarrow> invocation_record \<Rightarrow> flag" where
  "failed_flag reason v = \<lparr>fg_kind = FlagFailed, fg_reason = reason,
     fg_at = ir_start v + cs_offset (ir_clock v), fg_flow = None, fg_five_tuple = None,
     fg_invocation = Some (lk_invocation (ir_key v))\<rparr>"

definition label_of :: "attribution_record list \<Rightarrow> conn_event \<Rightarrow> nat \<Rightarrow> invocation_record \<Rightarrow> string \<Rightarrow> label" where
  "label_of records conn i v signatr = \<lparr>la_flow = ce_flow conn, la_key = ir_key v, la_signature = signatr,
     la_outcome = ir_outcome v, la_principal = ar_principal (records ! i), la_observed = ar_start (records ! i)\<rparr>"

definition signature_of :: "(signature_key, string) dict \<Rightarrow> (string, string) dict \<Rightarrow> conn_event
    \<Rightarrow> invocation_record \<Rightarrow> assemble_error + string" where
  "signature_of sigs instance_of conn v =
     (let k = (the (dget instance_of (ft_orig_addr (ce_five_tuple conn))), lk_behaviour (ir_key v), lk_action (ir_key v))
      in or_raise (NoSignature k) (dget sigs k))"

record joining =
  jn_labels :: "(string, label list) dict"
  jn_flags :: "flag list"
  jn_seen :: "nat list"
  jn_owner :: "(nat, invocation_record option) dict"

definition join_conn :: "attribution_record list \<Rightarrow> invocation_record list \<Rightarrow> (signature_key, string) dict
    \<Rightarrow> (string, string) dict \<Rightarrow> rat \<Rightarrow> conn_event \<Rightarrow> joining \<Rightarrow> assemble_error + joining" where
  "join_conn records invs sigs instance_of tol conn s =
     (case nearest (gap records conn) (near records instance_of tol conn) of
        None \<Rightarrow> Inr (s\<lparr>jn_flags := jn_flags s @ [unattributed NoAttribution conn]\<rparr>)
      | Some i \<Rightarrow>
          let (own, memo) = owner_of records invs tol i (jn_owner s);
              s = s\<lparr>jn_seen := List.insert i (jn_seen s), jn_owner := memo\<rparr>
          in case own of
               None \<Rightarrow> Inr (s\<lparr>jn_flags := jn_flags s @ [unattributed NoInvocation conn]\<rparr>)
             | Some v \<Rightarrow> rbind (signature_of sigs instance_of conn v) (\<lambda>signatr.
                 Inr (s\<lparr>jn_labels := dappend (sf_sensor (ce_flow conn)) (label_of records conn i v signatr) (jn_labels s)\<rparr>)))"

definition invocation_flags :: "attribution_record list \<Rightarrow> rat \<Rightarrow> nat list \<Rightarrow> invocation_record \<Rightarrow> flag list" where
  "invocation_flags records tol seen v =
     (let mine = filter (\<lambda>i. owns tol v (records ! i)) (dget_or (by_host records) (lk_instance (ir_key v)) [])
      in if mine = [] then [failed_flag NoAttribution v]
         else if \<not> list_ex (\<lambda>i. i \<in> set seen) mine then [failed_flag NoConnection v]
         else [])"

fun kind_of_flag :: "flag_kind \<Rightarrow> string" where
  "kind_of_flag FlagFailed = ''failed''"
| "kind_of_flag FlagUnattributed = ''unattributed''"

fun reason_of_flag :: "flag_reason \<Rightarrow> string" where
  "reason_of_flag NoAttribution = ''no_attribution''"
| "reason_of_flag NoInvocation = ''no_invocation''"
| "reason_of_flag NoConnection = ''no_connection''"

definition flag_order :: "flag \<Rightarrow> rat \<times> string \<times> string \<times> string \<times> string \<times> string \<times> string" where
  "flag_order f = (fg_at f, kind_of_flag (fg_kind f), reason_of_flag (fg_reason f),
     (case fg_invocation f of None \<Rightarrow> '''' | Some i \<Rightarrow> i),
     (case fg_flow f of None \<Rightarrow> ('''', '''', '''')
      | Some w \<Rightarrow> (sf_sensor w, sf_capture_point w, sf_native w)))"

definition label_join :: "conn_event list \<Rightarrow> attribution_record list \<Rightarrow> invocation_record list
    \<Rightarrow> (signature_key, string) dict \<Rightarrow> (string, string) dict \<Rightarrow> rat \<Rightarrow> assemble_error + joined" where
  "label_join conns records invs sigs instance_of tol =
     rbind (rfold (join_conn records invs sigs instance_of tol) conns
         \<lparr>jn_labels = [], jn_flags = [], jn_seen = [], jn_owner = []\<rparr>) (\<lambda>s.
     Inr \<lparr>jo_labels = jn_labels s,
       jo_flags = sort_key flag_order (jn_flags s @ concat (map (invocation_flags records tol (jn_seen s)) invs))\<rparr>)"

section \<open>What the join computes\<close>

text \<open>A connection is judged on its own: the record it is confirmed by, if any, and the flag or
  the label it gets.\<close>

definition confirmed :: "attribution_record list \<Rightarrow> (string, string) dict \<Rightarrow> rat \<Rightarrow> conn_event \<Rightarrow> nat option" where
  "confirmed records instance_of tol conn = nearest (gap records conn)
     (filter (\<lambda>i. dget instance_of (ft_orig_addr (ce_five_tuple conn)) = Some (ar_instance (records ! i))
        \<and> ar_five_tuple (records ! i) = ce_five_tuple conn \<and> gap records conn i \<le> tol) [0..<length records])"

definition judge :: "attribution_record list \<Rightarrow> invocation_record list \<Rightarrow> (signature_key, string) dict
    \<Rightarrow> (string, string) dict \<Rightarrow> rat \<Rightarrow> conn_event \<Rightarrow> assemble_error + conn_event \<times> (flag + label)" where
  "judge records invs sigs instance_of tol conn =
     (case confirmed records instance_of tol conn of
        None \<Rightarrow> Inr (conn, Inl (unattributed NoAttribution conn))
      | Some i \<Rightarrow> (case first_such (\<lambda>v. owns tol v (records ! i)) invs of
          None \<Rightarrow> Inr (conn, Inl (unattributed NoInvocation conn))
        | Some v \<Rightarrow> rbind (signature_of sigs instance_of conn v)
            (\<lambda>signatr. Inr (conn, Inr (label_of records conn i v signatr)))))"

definition failures :: "attribution_record list \<Rightarrow> rat \<Rightarrow> nat set \<Rightarrow> invocation_record \<Rightarrow> flag list" where
  "failures records tol seen v =
     (if \<forall>r\<in>set records. \<not> owns tol v r then [failed_flag NoAttribution v]
      else if \<forall>i<length records. owns tol v (records ! i) \<longrightarrow> i \<notin> seen then [failed_flag NoConnection v]
      else [])"

definition add_label :: "conn_event \<times> (flag + label) \<Rightarrow> (string, label list) dict \<Rightarrow> (string, label list) dict" where
  "add_label = (\<lambda>(conn, y) d. case y of Inl f \<Rightarrow> d | Inr l \<Rightarrow> dappend (sf_sensor (ce_flow conn)) l d)"

definition flags_of :: "(conn_event \<times> (flag + label)) list \<Rightarrow> flag list" where
  "flags_of js = concat (map (\<lambda>(_, y). case y of Inl f \<Rightarrow> [f] | Inr _ \<Rightarrow> []) js)"

definition seen_by :: "attribution_record list \<Rightarrow> (string, string) dict \<Rightarrow> rat \<Rightarrow> conn_event list \<Rightarrow> nat set" where
  "seen_by records instance_of tol conns = {i. \<exists>c\<in>set conns. confirmed records instance_of tol c = Some i}"

definition assembled :: "conn_event list \<Rightarrow> attribution_record list \<Rightarrow> invocation_record list
    \<Rightarrow> (signature_key, string) dict \<Rightarrow> (string, string) dict \<Rightarrow> rat \<Rightarrow> assemble_error + joined" where
  "assembled conns records invs sigs instance_of tol =
     rbind (rmap (judge records invs sigs instance_of tol) conns) (\<lambda>js.
     Inr \<lparr>jo_labels = fold add_label js [],
       jo_flags = sort_key flag_order (flags_of js
         @ concat (map (failures records tol (seen_by records instance_of tol conns)) invs))\<rparr>)"

section \<open>The indexes\<close>

lemma dget_or_fold_dappend:
  "dget_or (fold (\<lambda>x. dappend (k x) (v x)) xs d) key [] = dget_or d key [] @ map v (filter (\<lambda>x. k x = key) xs)"
  by (induction xs arbitrary: d) (simp_all add: dget_or_dappend)

lemma filter_enumerate0:
  "map fst (filter (\<lambda>x. P (snd x)) (enumerate0 rs)) = filter (\<lambda>i. P (rs ! i)) [0..<length rs]"
proof -
  have "enumerate0 rs = map (\<lambda>i. (i, rs ! i)) [0..<length rs]"
    unfolding enumerate0_def by (rule nth_equalityI) auto
  then show ?thesis by (simp add: filter_map o_def)
qed

lemma by_flow_get:
  "dget_or (by_flow records) (instnc, f) []
   = filter (\<lambda>i. ar_instance (records ! i) = instnc \<and> ar_five_tuple (records ! i) = f) [0..<length records]"
  using dget_or_fold_dappend[where k = "\<lambda>(i, r). (ar_instance r, ar_five_tuple r)" and v = fst
      and xs = "enumerate0 records" and d = "[]" and key = "(instnc, f)"]
    filter_enumerate0[where P = "\<lambda>r. ar_instance r = instnc \<and> ar_five_tuple r = f" and rs = records]
  by (simp add: by_flow_def case_prod_unfold dget_or_def)

lemma by_host_get:
  "dget_or (by_host records) instnc [] = filter (\<lambda>i. ar_instance (records ! i) = instnc) [0..<length records]"
  using dget_or_fold_dappend[where k = "\<lambda>(i, r). ar_instance r" and v = fst
      and xs = "enumerate0 records" and d = "[]" and key = instnc]
    filter_enumerate0[where P = "\<lambda>r. ar_instance r = instnc" and rs = records]
  by (simp add: by_host_def case_prod_unfold dget_or_def)

lemma by_instance_get:
  "dget_or (by_instance invs) instnc [] = filter (\<lambda>v. lk_instance (ir_key v) = instnc) invs"
  using dget_or_fold_dappend[where k = "\<lambda>v. lk_instance (ir_key v)" and v = "\<lambda>v. v" and xs = invs and d = "[]"]
  by (simp add: by_instance_def dget_or_def)

lemma first_such_filter: "(\<And>x. p x \<Longrightarrow> q x) \<Longrightarrow> first_such p (filter q xs) = first_such p xs"
  unfolding first_such_def by (induction xs) auto

lemma first_owner_all: "first_owner records invs tol i = first_such (\<lambda>v. owns tol v (records ! i)) invs"
  unfolding first_owner_def by_instance_get by (rule first_such_filter) (simp add: owns_def)

lemma near_confirmed: "nearest (gap records conn) (near records instance_of tol conn) = confirmed records instance_of tol conn"
proof (cases "dget instance_of (ft_orig_addr (ce_five_tuple conn))")
  case None
  then show ?thesis by (simp add: near_def confirmed_def)
next
  case (Some instnc)
  then show ?thesis unfolding near_def confirmed_def
    by (auto simp: by_flow_get intro!: arg_cong[where f = "nearest _"] filter_cong)
qed

section \<open>The join is its specification\<close>

definition memo_ok :: "attribution_record list \<Rightarrow> invocation_record list \<Rightarrow> rat \<Rightarrow> joining \<Rightarrow> bool" where
  "memo_ok records invs tol s \<longleftrightarrow>
     (\<forall>i v. dget (jn_owner s) i = Some v \<longrightarrow> v = first_such (\<lambda>v. owns tol v (records ! i)) invs)"

lemma owner_of_memo:
  assumes "memo_ok records invs tol s" "owner_of records invs tol i (jn_owner s) = (v, memo)"
  shows "v = first_such (\<lambda>v. owns tol v (records ! i)) invs \<and> memo_ok records invs tol (s'\<lparr>jn_owner := memo\<rparr>)"
  using assms unfolding owner_of_def memo_ok_def
  by (auto simp: Let_def first_owner_all split: option.splits if_splits)

text \<open>One connection: the code's step is the connection's judgement.\<close>

lemma join_conn_judge:
  assumes "memo_ok records invs tol s"
  shows "case judge records invs sigs instance_of tol conn of
     Inl e \<Rightarrow> join_conn records invs sigs instance_of tol conn s = Inl e
   | Inr j \<Rightarrow> \<exists>s'. join_conn records invs sigs instance_of tol conn s = Inr s' \<and> memo_ok records invs tol s'
       \<and> jn_labels s' = add_label j (jn_labels s) \<and> jn_flags s' = jn_flags s @ flags_of [j]
       \<and> set (jn_seen s') = set (jn_seen s) \<union> seen_by records instance_of tol [conn]"
proof (cases "confirmed records instance_of tol conn")
  case None
  with assms show ?thesis
    by (simp add: judge_def join_conn_def near_confirmed add_label_def flags_of_def seen_by_def memo_ok_def)
next
  case (Some i)
  obtain v memo where o: "owner_of records invs tol i (jn_owner s) = (v, memo)" by fastforce
  from owner_of_memo[OF assms o] have first: "first_such (\<lambda>v. owns tol v (records ! i)) invs = v"
    and ok: "memo_ok records invs tol (s'\<lparr>jn_owner := memo\<rparr>)" for s' by auto
  from ok have ok': "dget memo j = Some w \<Longrightarrow> w = first_such (\<lambda>v. owns tol v (records ! j)) invs" for j w
    unfolding memo_ok_def by simp
  show ?thesis
  proof (cases v)
    case None
    with Some first o show ?thesis
      by (auto simp: judge_def join_conn_def near_confirmed add_label_def flags_of_def seen_by_def memo_ok_def simp del: first_such_None intro: ok')
  next
    case (Some w)
    with \<open>confirmed _ _ _ _ = Some i\<close> first o show ?thesis
      by (cases "signature_of sigs instance_of conn w")
        (auto simp: judge_def join_conn_def near_confirmed add_label_def flags_of_def seen_by_def memo_ok_def simp del: first_such_None intro: ok')
  qed
qed

lemma flags_of_Cons: "flags_of (j # js) = flags_of [j] @ flags_of js"
  by (simp add: flags_of_def)

lemma seen_by_Cons: "seen_by records instance_of tol (c # cs) = seen_by records instance_of tol [c] \<union> seen_by records instance_of tol cs"
  by (auto simp: seen_by_def)

lemma join_conns_judge:
  assumes "memo_ok records invs tol s"
  shows "case rmap (judge records invs sigs instance_of tol) conns of
     Inl e \<Rightarrow> rfold (join_conn records invs sigs instance_of tol) conns s = Inl e
   | Inr js \<Rightarrow> \<exists>s'. rfold (join_conn records invs sigs instance_of tol) conns s = Inr s'
       \<and> jn_labels s' = fold add_label js (jn_labels s) \<and> jn_flags s' = jn_flags s @ flags_of js
       \<and> set (jn_seen s') = set (jn_seen s) \<union> seen_by records instance_of tol conns"
  using assms
proof (induction conns arbitrary: s)
  case Nil
  then show ?case by (simp add: flags_of_def seen_by_def)
next
  case (Cons c cs)
  show ?case
  proof (cases "judge records invs sigs instance_of tol c")
    case (Inl e)
    with join_conn_judge[OF Cons.prems, of sigs instance_of c] show ?thesis by simp
  next
    case (Inr j)
    with join_conn_judge[OF Cons.prems, of sigs instance_of c] obtain s' where
      s': "join_conn records invs sigs instance_of tol c s = Inr s'" "memo_ok records invs tol s'"
        "jn_labels s' = add_label j (jn_labels s)" "jn_flags s' = jn_flags s @ flags_of [j]"
        "set (jn_seen s') = set (jn_seen s) \<union> seen_by records instance_of tol [c]" by auto
    show ?thesis
    proof (cases "rmap (judge records invs sigs instance_of tol) cs")
      case (Inl e)
      with Cons.IH[OF s'(2)] \<open>judge _ _ _ _ _ _ = Inr j\<close> s' show ?thesis by simp
    next
      case (Inr js)
      with Cons.IH[OF s'(2)] \<open>judge _ _ _ _ _ _ = Inr j\<close> s' show ?thesis
        by (auto simp: flags_of_Cons[of j js] seen_by_Cons[of _ _ _ c cs])
    qed
  qed
qed

lemma invocation_flags_failures:
  "invocation_flags records tol seen = failures records tol (set seen)"
proof
  fix v
  have *: "filter (\<lambda>i. owns tol v (records ! i)) (dget_or (by_host records) (lk_instance (ir_key v)) [])
     = filter (\<lambda>i. owns tol v (records ! i)) [0..<length records]"
    by (simp add: by_host_get) (rule filter_cong, auto simp: owns_def)
  show "invocation_flags records tol seen v = failures records tol (set seen) v"
    unfolding invocation_flags_def failures_def * Let_def
    by (auto simp: filter_empty_conv list_ex_iff all_set_conv_all_nth)
qed

lemma label_join_assembled: "label_join conns records invs sigs instance_of tol = assembled conns records invs sigs instance_of tol"
proof -
  let ?s = "\<lparr>jn_labels = [], jn_flags = [], jn_seen = [], jn_owner = []\<rparr>"
  have "memo_ok records invs tol ?s" by (simp add: memo_ok_def)
  from join_conns_judge[OF this, of sigs instance_of conns] show ?thesis
    by (cases "rmap (judge records invs sigs instance_of tol) conns")
      (auto simp: label_join_def assembled_def invocation_flags_failures)
qed

text \<open>C19: The join, with its indexes, its memo of owners and its running set of confirmed records,
  computes what judging every connection on its own and then every invocation against the
  confirmed records gives, including the signature that is missing first.\<close>

theorem label_join_refines:
  "label_join conns records invs sigs instance_of tol = assembled conns records invs sigs instance_of tol"
  by (rule label_join_assembled)

section \<open>An example\<close>

text \<open>One client's request as the sensor, the kernel and the agent saw it, and a second connection
  from outside the run.\<close>

definition demo_five :: five_tuple where
  "demo_five = \<lparr>ft_orig_addr = ''10.0.0.2'', ft_orig_port = 40000, ft_resp_addr = ''10.0.1.5'',
     ft_resp_port = 80, ft_proto = ''tcp''\<rparr>"

definition demo_conns :: "conn_event list" where
  "demo_conns =
    [\<lparr>ce_flow = \<lparr>sf_sensor = ''z'', sf_capture_point = ''p'', sf_native = ''C1''\<rparr>, ce_five_tuple = demo_five,
      ce_start = 1001/10, ce_duration = None, ce_orig_bytes = None, ce_resp_bytes = None,
      ce_orig_pkts = None, ce_resp_pkts = None, ce_state = CClosed, ce_raw = []\<rparr>,
     \<lparr>ce_flow = \<lparr>sf_sensor = ''z'', sf_capture_point = ''p'', sf_native = ''C2''\<rparr>,
      ce_five_tuple = demo_five\<lparr>ft_orig_addr := ''9.9.9.9''\<rparr>,
      ce_start = 50, ce_duration = None, ce_orig_bytes = None, ce_resp_bytes = None,
      ce_orig_pkts = None, ce_resp_pkts = None, ce_state = CClosed, ce_raw = []\<rparr>]"

definition demo_seen :: "attribution_record list" where
  "demo_seen = [\<lparr>ar_instance = ''o/c[0]'', ar_principal = \<lparr>ak_platform = Linux, ak_principal = ''cgroup:7''\<rparr>,
     ar_five_tuple = demo_five, ar_start = 100, ar_end = 101, ar_tgid = 9\<rparr>]"

definition demo_key :: label_key where
  "demo_key = \<lparr>lk_scenario = ''demo'', lk_instance = ''o/c[0]'', lk_behaviour = ''u'', lk_action = ''a'',
     lk_invocation = ''o/c[0]/u#1'', lk_impl = ''i'', lk_variant = None, lk_targets = [''d/s[0]'']\<rparr>"

definition demo_invs :: "invocation_record list" where
  "demo_invs = [\<lparr>ir_key = demo_key, ir_principal = \<lparr>ak_platform = Linux, ak_principal = ''pid:9''\<rparr>,
     ir_start = 99, ir_end = 102, ir_outcome = Succeeded,
     ir_clock = \<lparr>cs_wall = 99, cs_monotonic = 3, cs_offset = 0\<rparr>\<rparr>]"

definition demo_sigs :: "(signature_key, string) dict" where
  "demo_sigs = [((''o/c[0]'', ''u'', ''a''), ''h.g'')]"

definition demo_instance_of :: "(string, string) dict" where
  "demo_instance_of = [(''10.0.0.2'', ''o/c[0]'')]"

section \<open>Judgements\<close>

lemma fold_nearer: "fold (\<lambda>y b. if f y < f b then y else b) xs x \<in> set (x # xs)
   \<and> (\<forall>y\<in>set (x # xs). f (fold (\<lambda>y b. if f y < f b then y else b) xs x) \<le> f y)" for f :: "'a \<Rightarrow> rat"
proof (induction xs arbitrary: x)
  case (Cons y xs)
  from Cons[of "if f y < f x then y else x"] show ?case by (auto split: if_splits)
qed simp

lemma nearest_Some: "nearest f xs = Some x \<Longrightarrow> x \<in> set xs \<and> (\<forall>y\<in>set xs. f x \<le> f y)"
  using fold_nearer[of f "tl xs" "hd xs"] by (cases xs) auto

definition matches :: "attribution_record list \<Rightarrow> (string, string) dict \<Rightarrow> rat \<Rightarrow> conn_event \<Rightarrow> nat \<Rightarrow> bool" where
  "matches records instance_of tol conn i \<longleftrightarrow> i < length records
     \<and> dget instance_of (ft_orig_addr (ce_five_tuple conn)) = Some (ar_instance (records ! i))
     \<and> ar_five_tuple (records ! i) = ce_five_tuple conn \<and> gap records conn i \<le> tol"

lemma confirmed_Some:
  "confirmed records instance_of tol conn = Some i \<Longrightarrow> matches records instance_of tol conn i
   \<and> (\<forall>k. matches records instance_of tol conn k \<longrightarrow> gap records conn i \<le> gap records conn k)"
  unfolding confirmed_def matches_def by (drule nearest_Some) auto

lemma judge_conn: "judge records invs sigs instance_of tol conn = Inr (c, y) \<Longrightarrow> c = conn"
  by (auto simp: judge_def rbind_Inr_iff split: option.splits)

lemma judge_flag:
  "judge records invs sigs instance_of tol conn = Inr (c, Inl f) \<Longrightarrow>
   fg_kind f = FlagUnattributed \<and> fg_flow f = Some (ce_flow conn) \<and> fg_invocation f = None"
  by (auto simp: judge_def unattributed_def rbind_Inr_iff split: option.splits)

lemma judge_label:
  "judge records invs sigs instance_of tol conn = Inr (c, Inr l) \<Longrightarrow>
   \<exists>i v. confirmed records instance_of tol conn = Some i
     \<and> first_such (\<lambda>v. owns tol v (records ! i)) invs = Some v
     \<and> dget sigs (ar_instance (records ! i), lk_behaviour (ir_key v), lk_action (ir_key v)) = Some (la_signature l)
     \<and> l = label_of records conn i v (la_signature l)"
  by (auto simp: judge_def signature_of_def Let_def rbind_Inr_iff label_of_def matches_def
      dest!: confirmed_Some split: option.splits)

lemma judge_flow:
  "judge records invs sigs instance_of tol conn = Inr (c, y) \<Longrightarrow>
   case y of Inl f \<Rightarrow> fg_kind f = FlagUnattributed \<and> fg_flow f = Some (ce_flow conn) | Inr l \<Rightarrow> la_flow l = ce_flow conn"
  by (auto simp: judge_def unattributed_def label_of_def rbind_Inr_iff split: option.splits)

lemma fold_add_label:
  "dget_or (fold add_label js d) sensor [] = dget_or d sensor []
     @ concat (map (\<lambda>(c, y). case y of Inr l \<Rightarrow> if sf_sensor (ce_flow c) = sensor then [l] else [] | Inl f \<Rightarrow> []) js)"
  by (induction js arbitrary: d) (auto simp: add_label_def dget_or_dappend split: sum.splits)

lemma mset_dappend: "mset (concat (dvalues (dappend k v d))) = add_mset v (mset (concat (dvalues d)))"
  unfolding dappend_def dvalues_def by (induction d) (auto simp: dget_or_def)

lemma mset_add_label:
  "mset (concat (dvalues (fold add_label js d))) = mset (concat (dvalues d))
     + mset (concat (map (\<lambda>(c, y). case y of Inr l \<Rightarrow> [l] | Inl f \<Rightarrow> []) js))"
  by (induction js arbitrary: d) (auto simp: add_label_def mset_dappend split: sum.splits)

lemma failures_kind: "f \<in> set (failures records tol seen v) \<Longrightarrow> fg_kind f = FlagFailed \<and> fg_invocation f = Some (lk_invocation (ir_key v))"
  by (auto simp: failures_def failed_flag_def split: if_splits)

text \<open>What a joined result consists of.\<close>

lemma label_join_parts:
  assumes "label_join conns records invs sigs instance_of tol = Inr j"
  obtains js where "rmap (judge records invs sigs instance_of tol) conns = Inr js"
    "jo_labels j = fold add_label js []"
    "mset (jo_flags j) = mset (flags_of js)
       + mset (concat (map (failures records tol (seen_by records instance_of tol conns)) invs))"
  using assms by (auto simp: label_join_assembled assembled_def rbind_Inr_iff)

lemma label_in:
  assumes "rmap (judge records invs sigs instance_of tol) conns = Inr js"
  shows "l \<in> set (dget_or (fold add_label js []) sensor []) \<longleftrightarrow>
    (\<exists>c\<in>set conns. sf_sensor (ce_flow c) = sensor \<and> judge records invs sigs instance_of tol c = Inr (c, Inr l))"
    (is "?l \<longleftrightarrow> ?r")
proof -
  have "?l \<longleftrightarrow> (\<exists>(c, y)\<in>set js. y = Inr l \<and> sf_sensor (ce_flow c) = sensor)"
    unfolding fold_add_label by (fastforce simp: dget_or_def split: sum.splits if_splits)
  also have "\<dots> \<longleftrightarrow> ?r"
    using assms by (induction conns arbitrary: js) (auto simp: rbind_Inr_iff dest: judge_conn)
  finally show ?thesis .
qed

section \<open>The example joined\<close>

lemma demo_join:
  "let r = label_join demo_conns demo_seen demo_invs demo_sigs demo_instance_of 1
   in case r of Inl _ \<Rightarrow> False
      | Inr j \<Rightarrow> map fst (jo_labels j) = [''z''] \<and> map la_key (dget_or (jo_labels j) ''z'' []) = [demo_key]
          \<and> map fg_reason (jo_flags j) = [NoAttribution]"
  by code_simp

lemma demo_joined:
  obtains j l where "label_join demo_conns demo_seen demo_invs demo_sigs demo_instance_of 1 = Inr j"
    "dget_or (jo_labels j) ''z'' [] = [l]" "la_key l = demo_key" "length (jo_flags j) = 1"
  using demo_join by (auto simp: Let_def length_Suc_conv split: sum.splits)

lemma demo_owner: "r \<in> set demo_seen \<Longrightarrow> w \<in> set demo_invs \<Longrightarrow> w = hd demo_invs"
  by (simp add: demo_invs_def)

section \<open>What labels and flags mean\<close>

text \<open>C17: Every connection the sensors report is accounted for once: the flows of the labels and
  of the unattributed flags together are the flows of the connections, none lost and none twice.\<close>

theorem connections_accounted:
  assumes "label_join conns records invs sigs instance_of tol = Inr j"
  shows "mset (map (\<lambda>l. Some (la_flow l)) (concat (dvalues (jo_labels j))))
      + image_mset fg_flow (filter_mset (\<lambda>f. fg_kind f = FlagUnattributed) (mset (jo_flags j)))
    = mset (map (\<lambda>c. Some (ce_flow c)) conns)"
proof -
  obtain js where js: "rmap (judge records invs sigs instance_of tol) conns = Inr js"
    and labels: "jo_labels j = fold add_label js []"
    and flags: "mset (jo_flags j) = mset (flags_of js)
       + mset (concat (map (failures records tol (seen_by records instance_of tol conns)) invs))"
    by (rule label_join_parts[OF assms])
  have none: "filter_mset (\<lambda>f. fg_kind f = FlagUnattributed)
      (mset (concat (map (failures records tol (seen_by records instance_of tol conns)) invs))) = {#}"
    by (auto simp: filter_mset_eq_mempty_iff dest: failures_kind)
  have "mset (map (\<lambda>l. Some (la_flow l)) (concat (map (\<lambda>(c, y). case y of Inr l \<Rightarrow> [l] | Inl f \<Rightarrow> []) js)))
      + image_mset fg_flow (filter_mset (\<lambda>f. fg_kind f = FlagUnattributed) (mset (flags_of js)))
    = mset (map (\<lambda>c. Some (ce_flow c)) conns)"
    using js
    by (induction conns arbitrary: js)
      (auto simp: rbind_Inr_iff flags_of_def dest!: judge_flow split: sum.splits)
  moreover have "mset (concat (dvalues (jo_labels j))) = mset (concat (map (\<lambda>(c, y). case y of Inr l \<Rightarrow> [l] | Inl f \<Rightarrow> []) js))"
    unfolding labels mset_add_label by (simp add: dvalues_def)
  ultimately show ?thesis by (simp only: flags filter_union_mset none mset_map add_0_right)
qed

lemma label_backed:
  assumes "label_join conns records invs sigs instance_of tol = Inr j"
    "l \<in> set (dget_or (jo_labels j) sensor [])"
  shows "\<exists>c\<in>set conns. \<exists>v\<in>set invs. \<exists>i. la_flow l = ce_flow c \<and> sf_sensor (ce_flow c) = sensor
    \<and> matches records instance_of tol c i
    \<and> (\<forall>k. matches records instance_of tol c k \<longrightarrow> gap records c i \<le> gap records c k)
    \<and> owns tol v (records ! i) \<and> la_key l = ir_key v \<and> la_outcome l = ir_outcome v
    \<and> la_principal l = ar_principal (records ! i) \<and> la_observed l = ar_start (records ! i)
    \<and> dget sigs (lk_instance (ir_key v), lk_behaviour (ir_key v), lk_action (ir_key v)) = Some (la_signature l)"
proof -
  obtain js where js: "rmap (judge records invs sigs instance_of tol) conns = Inr js"
    and labels: "jo_labels j = fold add_label js []" by (rule label_join_parts[OF assms(1)])
  from assms(2) labels label_in[OF js] obtain c where c: "c \<in> set conns" "sf_sensor (ce_flow c) = sensor"
    "judge records invs sigs instance_of tol c = Inr (c, Inr l)" by auto
  from judge_label[OF c(3)] obtain i v where
    i: "confirmed records instance_of tol c = Some i" and v: "first_such (\<lambda>v. owns tol v (records ! i)) invs = Some v"
    and sg: "dget sigs (ar_instance (records ! i), lk_behaviour (ir_key v), lk_action (ir_key v)) = Some (la_signature l)"
    and l: "l = label_of records c i v (la_signature l)" by auto
  from first_such_Some[OF v] have o: "v \<in> set invs" "owns tol v (records ! i)" by auto
  then have same: "lk_instance (ir_key v) = ar_instance (records ! i)" by (simp add: owns_def)
  from l have "la_flow l = ce_flow c" "la_key l = ir_key v" "la_outcome l = ir_outcome v"
    "la_principal l = ar_principal (records ! i)" "la_observed l = ar_start (records ! i)"
    by (metis label_of_def label.select_convs)+
  with c(1,2) confirmed_Some[OF i] o sg same show ?thesis by metis
qed

text \<open>C18: A label is justified: it is on a connection of its sensor, whose originator address is the
  instance's; the kernel's record it was confirmed by has the connection's five-tuple, begins
  within the tolerance and is the nearest such record; the invocation it names owns that record;
  and its signature is the one the program runs in that state.\<close>

theorem labels_justified:
  assumes "label_join conns records invs sigs instance_of tol = Inr j"
    "l \<in> set (dget_or (jo_labels j) sensor [])"
  shows "\<exists>c\<in>set conns. \<exists>v\<in>set invs. \<exists>i. la_flow l = ce_flow c \<and> sf_sensor (ce_flow c) = sensor
    \<and> matches records instance_of tol c i
    \<and> (\<forall>k. matches records instance_of tol c k \<longrightarrow> gap records c i \<le> gap records c k)
    \<and> owns tol v (records ! i) \<and> la_key l = ir_key v \<and> la_outcome l = ir_outcome v
    \<and> la_principal l = ar_principal (records ! i) \<and> la_observed l = ar_start (records ! i)
    \<and> dget sigs (lk_instance (ir_key v), lk_behaviour (ir_key v), lk_action (ir_key v)) = Some (la_signature l)"
  by (rule label_backed[OF assms])

text \<open>When no two invocations own the same kernel record and their ids differ, every invocation
  is labelled or flagged as failed, and never both.\<close>

lemma invocations_accounted:
  assumes "label_join conns records invs sigs instance_of tol = Inr j" "v \<in> set invs"
    "\<And>r w. r \<in> set records \<Longrightarrow> w \<in> set invs \<Longrightarrow> owns tol v r \<Longrightarrow> owns tol w r \<Longrightarrow> w = v"
    "inj_on (\<lambda>w. lk_invocation (ir_key w)) (set invs)"
  shows "(\<exists>sensor. \<exists>l\<in>set (dget_or (jo_labels j) sensor []). la_key l = ir_key v) \<longleftrightarrow>
    \<not> (\<exists>f\<in>set (jo_flags j). fg_invocation f = Some (lk_invocation (ir_key v)))"
proof -
  let ?judge = "judge records invs sigs instance_of tol" and ?seen = "seen_by records instance_of tol conns"
  obtain js where js: "rmap ?judge conns = Inr js"
    and labels: "jo_labels j = fold add_label js []"
    and flags: "mset (jo_flags j) = mset (flags_of js) + mset (concat (map (failures records tol ?seen) invs))"
    by (rule label_join_parts[OF assms(1)])
  from flags have flags: "set (jo_flags j) = set (flags_of js) \<union> (\<Union>w\<in>set invs. set (failures records tol ?seen w))"
    by (auto dest!: arg_cong[where f = set_mset])
  have un: "fg_invocation f = None" if "f \<in> set (flags_of js)" for f
  proof -
    from that obtain c where "(c, Inl f) \<in> set js" by (auto simp: flags_of_def split: sum.splits)
    from rmap_in[OF js this] show ?thesis by (auto dest: judge_flag)
  qed
  have "(\<exists>f\<in>set (jo_flags j). fg_invocation f = Some (lk_invocation (ir_key v))) \<longleftrightarrow> failures records tol ?seen v \<noteq> []"
    (is "?flagged \<longleftrightarrow> _")
  proof
    assume ?flagged
    then obtain f w where f: "f \<in> set (failures records tol ?seen w)" "w \<in> set invs"
      "fg_invocation f = Some (lk_invocation (ir_key v))" using flags un by fastforce
    with failures_kind[OF f(1)] assms(2,4) have "w = v" by (auto dest: inj_onD)
    with f(1) show "failures records tol ?seen v \<noteq> []" by auto
  next
    assume "failures records tol ?seen v \<noteq> []"
    then obtain f where f: "f \<in> set (failures records tol ?seen v)" by (meson last_in_set)
    with failures_kind[OF f] flags assms(2) show ?flagged by auto
  qed
  moreover have "(\<exists>sensor. \<exists>l\<in>set (dget_or (jo_labels j) sensor []). la_key l = ir_key v) \<longleftrightarrow>
      (\<exists>i<length records. owns tol v (records ! i) \<and> i \<in> ?seen)" (is "?labelled \<longleftrightarrow> ?confirmed")
  proof
    assume ?labelled
    then obtain c l where c: "c \<in> set conns" "?judge c = Inr (c, Inr l)" "la_key l = ir_key v"
      using labels label_in[OF js] by auto
    from judge_label[OF c(2)] obtain i w where
      i: "confirmed records instance_of tol c = Some i" and w: "first_such (\<lambda>v. owns tol v (records ! i)) invs = Some w"
      and l: "l = label_of records c i w (la_signature l)" by auto
    from l have "la_key l = ir_key w" by (metis label_of_def label.select_convs(2))
    with c(3) have "ir_key w = ir_key v" by simp
    then have "w = v" using inj_onD[OF assms(4), of w v] first_such_Some[OF w] assms(2) by simp
    with i c(1) first_such_Some[OF w] confirmed_Some[OF i] show ?confirmed by (auto simp: seen_by_def matches_def)
  next
    assume ?confirmed
    then obtain i c where i: "i < length records" "owns tol v (records ! i)" "c \<in> set conns"
      "confirmed records instance_of tol c = Some i" by (auto simp: seen_by_def)
    obtain w where w: "first_such (\<lambda>v. owns tol v (records ! i)) invs = Some w"
      using first_such_ex[of v invs "\<lambda>v. owns tol v (records ! i)"] i(2) assms(2) by auto
    from first_such_Some[OF w] i(1,2) assms(3)[of "records ! i" w] have [simp]: "w = v" by simp
    obtain y where "?judge c = Inr y" using js i(3)
      by (induction conns arbitrary: js) (auto simp: rbind_Inr_iff)
    with i(4) w obtain l where "?judge c = Inr (c, Inr l)" "la_key l = ir_key v"
      by (auto simp: judge_def rbind_Inr_iff label_of_def)
    with i(3) labels label_in[OF js, of l "sf_sensor (ce_flow c)"] show ?labelled by auto
  qed
  moreover have "failures records tol ?seen v = [] \<longleftrightarrow> (\<exists>i<length records. owns tol v (records ! i) \<and> i \<in> ?seen)"
    by (auto simp: failures_def all_set_conv_all_nth)
  ultimately show ?thesis by blast
qed

text \<open>The join fails only on a signature the programs do not run.\<close>

lemma label_join_total:
  assumes "\<And>v. v \<in> set invs \<Longrightarrow>
    dget sigs (lk_instance (ir_key v), lk_behaviour (ir_key v), lk_action (ir_key v)) \<noteq> None"
  shows "\<exists>j. label_join conns records invs sigs instance_of tol = Inr j"
proof -
  have "\<exists>y. judge records invs sigs instance_of tol c = Inr y" for c
  proof (cases "confirmed records instance_of tol c")
    case (Some i)
    show ?thesis
    proof (cases "first_such (\<lambda>v. owns tol v (records ! i)) invs")
      case (Some v)
      from first_such_Some[OF this] assms[of v] have "lk_instance (ir_key v) = ar_instance (records ! i)"
        "dget sigs (lk_instance (ir_key v), lk_behaviour (ir_key v), lk_action (ir_key v)) \<noteq> None"
        by (auto simp: owns_def)
      with Some \<open>confirmed _ _ _ c = Some i\<close> confirmed_Some[OF \<open>confirmed _ _ _ c = Some i\<close>] show ?thesis
        by (auto simp: judge_def signature_of_def matches_def or_raise_def)
    qed (auto simp: judge_def Some simp del: first_such_None)
  qed (simp add: judge_def)
  then obtain js where "rmap (judge records invs sigs instance_of tol) conns = Inr js"
    using rmap_total[of conns "judge records invs sigs instance_of tol"] by blast
  then show ?thesis by (simp add: label_join_assembled assembled_def)
qed

theorem connections_accounted_witness:
  "\<exists>j. label_join demo_conns demo_seen demo_invs demo_sigs demo_instance_of 1 = Inr j
    \<and> mset (map (\<lambda>l. Some (la_flow l)) (concat (dvalues (jo_labels j))))
        + image_mset fg_flow (filter_mset (\<lambda>f. fg_kind f = FlagUnattributed) (mset (jo_flags j)))
      = mset (map (\<lambda>c. Some (ce_flow c)) demo_conns)"
  by (rule demo_joined) (use connections_accounted in blast)

theorem labels_justified_witness:
  "\<exists>c\<in>set demo_conns. \<exists>v\<in>set demo_invs. \<exists>i. matches demo_seen demo_instance_of 1 c i \<and> owns 1 v (demo_seen ! i)
     \<and> ir_key v = demo_key"
proof (rule demo_joined)
  fix j l
  assume j: "label_join demo_conns demo_seen demo_invs demo_sigs demo_instance_of 1 = Inr j"
    "dget_or (jo_labels j) ''z'' [] = [l]" "la_key l = demo_key"
  from j(2) have "l \<in> set (dget_or (jo_labels j) ''z'' [])" by simp
  from labels_justified[OF j(1) this] j(3) show ?thesis by metis
qed

end
