(* ===== verification/Pcapng.thy ===== *)
theory Pcapng
  imports Prelude "HOL-Library.Word"
begin

unbundle bit_operations_syntax

text \<open>
  The pcapng reader, writer and tagger (\<open>runtime/capture/pcapng.py\<close>). A file is its list of
  bytes. An interface's name is kept as the bytes of its UTF-8 form: the reader's decoding is
  left out, its stripping of trailing NULs is not, since a NUL byte decodes to itself. Errors
  are \<open>PcapngError\<close>, the \<open>struct.error\<close> of packing a number out of range or unpacking too few
  bytes, and the \<open>IndexError\<close> of an empty option.
\<close>

type_synonym byte = "8 word"
type_synonym bytes = "byte list"

datatype pcap_error = Pcap string | Struct | NoIndex | NegativeRead

section \<open>Numbers as bytes\<close>

datatype endian = Little | Big

fun bytes_of :: "nat \<Rightarrow> int \<Rightarrow> bytes" where
  "bytes_of 0 n = []"
| "bytes_of (Suc k) n = word_of_int n # bytes_of k (n div 256)"

fun num_of :: "bytes \<Rightarrow> int" where
  "num_of [] = 0"
| "num_of (b # bs) = uint b + 256 * num_of bs"

fun in_order :: "endian \<Rightarrow> bytes \<Rightarrow> bytes" where
  "in_order Little bs = bs"
| "in_order Big bs = rev bs"

text \<open>\<open>struct.pack\<close> of one unsigned field of \<open>k\<close> bytes, \<open>struct.unpack\<close> of exactly \<open>k\<close> bytes, and
  \<open>struct.unpack_from\<close> at an offset.\<close>

definition pack :: "endian \<Rightarrow> nat \<Rightarrow> int \<Rightarrow> pcap_error + bytes" where
  "pack e k n = (if 0 \<le> n \<and> n < 256 ^ k then Inr (in_order e (bytes_of k n)) else Inl Struct)"

definition unpack :: "endian \<Rightarrow> nat \<Rightarrow> bytes \<Rightarrow> pcap_error + int" where
  "unpack e k bs = (if length bs = k then Inr (num_of (in_order e bs)) else Inl Struct)"

definition unpack_from :: "endian \<Rightarrow> nat \<Rightarrow> bytes \<Rightarrow> nat \<Rightarrow> pcap_error + int" where
  "unpack_from e k bs offset = unpack e k (take k (drop offset bs))"

definition SHB :: int where "SHB = 0x0A0D0D0A"
definition IDB :: int where "IDB = 1"
definition EPB :: int where "EPB = 6"
definition MAGIC :: int where "MAGIC = 0x1A2B3C4D"
definition OPT_END :: int where "OPT_END = 0"
definition IF_NAME :: int where "IF_NAME = 2"
definition IF_TSRESOL :: int where "IF_TSRESOL = 9"
definition SHB_USERAPPL :: int where "SHB_USERAPPL = 4"
definition ETHERNET :: int where "ETHERNET = 1"
definition VLAN_ETHERTYPE :: bytes where "VLAN_ETHERTYPE = [0x81, 0x00]"

record interface =
  if_name :: bytes
  if_link_type :: int
  if_tsresol :: int

record packet =
  pk_interface :: int
  pk_timestamp_ns :: int
  pk_data :: bytes
  pk_original_len :: "int option"

definition wire_len :: "packet \<Rightarrow> int" where
  "wire_len p = (case pk_original_len p of None \<Rightarrow> int (length (pk_data p)) | Some n \<Rightarrow> n)"

section \<open>Options and blocks\<close>

definition pad :: "nat \<Rightarrow> nat" where
  "pad n = (4 - n mod 4) mod 4"

definition zeros :: "nat \<Rightarrow> bytes" where
  "zeros n = replicate n 0"

text \<open>The options from an offset on, which is the rest of the body; a repeated code keeps its
  first value.\<close>

function options :: "endian \<Rightarrow> bytes \<Rightarrow> (int, bytes) dict \<Rightarrow> (int, bytes) dict" where
  "options e bs found =
     (if length bs < 4 then found
      else let code = num_of (in_order e (take 2 bs));
               len = nat (num_of (in_order e (take 2 (drop 2 bs))));
               bs' = drop 4 bs
           in if code = OPT_END then found
              else options e (drop (len + pad len) bs')
                (if dget found code = None then dset code (take len bs') found else found))"
  by pat_completeness auto
termination by (relation "measure (\<lambda>(e, bs, found). length bs)") auto

definition option_bytes :: "int \<Rightarrow> bytes \<Rightarrow> pcap_error + bytes" where
  "option_bytes code v =
     rbind (pack Little 2 code) (\<lambda>c. rbind (pack Little 2 (int (length v))) (\<lambda>n.
     Inr (c @ n @ v @ zeros (pad (length v)))))"

definition block :: "int \<Rightarrow> bytes \<Rightarrow> pcap_error + bytes" where
  "block kind body =
     (let tot = 12 + int (length body)
      in rbind (pack Little 4 kind) (\<lambda>k. rbind (pack Little 4 tot) (\<lambda>t. Inr (k @ t @ body @ t))))"

text \<open>\<open>read_n\<close> is \<open>f.read(n)\<close> of a buffered file: everything for -1, a \<open>ValueError\<close> below.\<close>

definition read_n :: "int \<Rightarrow> bytes \<Rightarrow> pcap_error + bytes \<times> bytes" where
  "read_n n bs = (if n < - 1 then Inl NegativeRead else if n = - 1 then Inr (bs, []) else Inr (take (nat n) bs, drop (nat n) bs))"

type_synonym raw_block = "int \<times> bytes \<times> endian"

definition finish_block :: "int \<Rightarrow> endian \<Rightarrow> int \<Rightarrow> bytes \<Rightarrow> bytes \<Rightarrow> bool \<Rightarrow> bytes
    \<Rightarrow> pcap_error + raw_block \<times> bytes" where
  "finish_block kind e tot before rest short behind =
     (if short then Inl (Pcap ''truncated or lengths differ'')
      else rbind (unpack e 4 (drop (length rest - 4) rest)) (\<lambda>t.
        if t \<noteq> tot then Inl (Pcap ''truncated or lengths differ'')
        else Inr ((kind, before @ take (length rest - 4) rest, e), behind)))"

definition next_block :: "endian \<Rightarrow> bytes \<Rightarrow> pcap_error + raw_block \<times> bytes" where
  "next_block e bs =
     (let head = take 8 bs; after = drop 8 bs
      in if length head < 8 then Inl (Pcap ''truncated block header'')
         else let kind = num_of (take 4 head)
              in if kind = SHB then
                   let magic = take 4 after; after = drop 4 after
                   in if length magic < 4 then Inl (Pcap ''truncated section header'')
                      else let e = (if num_of magic = MAGIC then Little else Big)
                           in if num_of (in_order e magic) \<noteq> MAGIC then Inl (Pcap ''bad section header magic'')
                              else let tot = num_of (in_order e (drop 4 head))
                                   in rbind (read_n (tot - 12) after) (\<lambda>(rest, behind).
                                        finish_block kind e tot magic rest (int (length rest) < tot - 12) behind)
                 else let tot = num_of (in_order e (drop 4 head))
                      in rbind (read_n (tot - 8) after) (\<lambda>(rest, behind).
                           finish_block kind e tot [] rest (int (length rest) < tot - 8) behind))"

lemma finish_block_Inr:
  "finish_block kind e tot before rest short behind = Inr (b, behind') \<Longrightarrow> behind' = behind \<and> snd (snd b) = e"
  by (auto simp: finish_block_def rbind_Inr_iff split: if_splits)

lemma read_n_shorter: "read_n n bs = Inr (rest, behind) \<Longrightarrow> length behind \<le> length bs"
  by (auto simp: read_n_def split: if_splits)

lemma next_block_shorter:
  assumes "next_block e bs = Inr (b, behind)"
  shows "length behind < length bs"
proof -
  have len: "8 \<le> length bs" using assms by (auto simp: next_block_def Let_def split: if_splits)
  have "length behind \<le> length (drop 8 bs)"
  proof (cases "num_of (take 4 (take 8 bs)) = SHB")
    case True
    with assms obtain n rest where "read_n n (drop 4 (drop 8 bs)) = Inr (rest, behind)"
      by (auto simp: next_block_def Let_def rbind_Inr_iff dest!: finish_block_Inr split: if_splits)
    from read_n_shorter[OF this] show ?thesis by auto
  next
    case False
    with assms obtain n rest where "read_n n (drop 8 bs) = Inr (rest, behind)"
      by (auto simp: next_block_def Let_def rbind_Inr_iff dest!: finish_block_Inr split: if_splits)
    from read_n_shorter[OF this] show ?thesis by simp
  qed
  with len show ?thesis by simp
qed

text \<open>The blocks of a file up to where reading stops, and the error it stops with, if any.\<close>

function blocks :: "endian \<Rightarrow> bytes \<Rightarrow> raw_block list \<times> pcap_error option" where
  "blocks e bs =
     (if bs = [] then ([], None)
      else case next_block e bs of
          Inl err \<Rightarrow> ([], Some err)
        | Inr (b, behind) \<Rightarrow> (let (xs, err) = blocks (snd (snd b)) behind in (b # xs, err)))"
  by pat_completeness auto
termination by (relation "measure (\<lambda>(e, bs). length bs)") (auto dest: next_block_shorter)

section \<open>Reading\<close>

definition strip_nul :: "bytes \<Rightarrow> bytes" where
  "strip_nul bs = rev (dropWhile (\<lambda>b. b = 0) (rev bs))"

definition read_interface :: "bytes \<Rightarrow> endian \<Rightarrow> pcap_error + interface" where
  "read_interface body e =
     rbind (unpack_from e 2 body 0) (\<lambda>link_type.
     let opts = options e (drop 8 body) [];
         name = strip_nul (dget_or opts IF_NAME [])
     in case dget opts IF_TSRESOL of
          None \<Rightarrow> Inr \<lparr>if_name = name, if_link_type = link_type, if_tsresol = 6\<rparr>
        | Some [] \<Rightarrow> Inl NoIndex
        | Some (raw # _) \<Rightarrow>
            if raw AND 0x80 \<noteq> 0 then Inl (Pcap ''timestamps in powers of two are not supported'')
            else Inr \<lparr>if_name = name, if_link_type = link_type, if_tsresol = uint raw\<rparr>)"

definition to_ns :: "int \<Rightarrow> int \<Rightarrow> int" where
  "to_ns tsresol units = (if tsresol \<le> 9 then units * 10 ^ nat (9 - tsresol) else units div 10 ^ nat (tsresol - 9))"

definition read_packet :: "bytes \<Rightarrow> endian \<Rightarrow> nat \<Rightarrow> interface list \<Rightarrow> pcap_error + packet" where
  "read_packet body e base ifs =
     (if length body < 20 then Inl Struct
      else let u = (\<lambda>off. num_of (in_order e (take 4 (drop off body))));
               i = base + nat (u 0); caplen = u 12; origlen = u 16
           in if length ifs \<le> i then Inl (Pcap ''packet before the block of its interface'')
              else Inr \<lparr>pk_interface = int i,
                pk_timestamp_ns = to_ns (if_tsresol (ifs ! i)) (push_bit 32 (u 4) OR u 8),
                pk_data = take (nat caplen) (drop 20 body),
                pk_original_len = (if origlen = caplen then None else Some origlen)\<rparr>)"

record reading =
  rd_interfaces :: "interface list"
  rd_base :: nat
  rd_packets :: "packet list"

definition read_block :: "raw_block \<Rightarrow> reading \<Rightarrow> pcap_error + reading" where
  "read_block = (\<lambda>(kind, body, e) s.
     if kind = SHB then Inr (s\<lparr>rd_base := length (rd_interfaces s)\<rparr>)
     else if kind = IDB then rbind (read_interface body e) (\<lambda>i. Inr (s\<lparr>rd_interfaces := rd_interfaces s @ [i]\<rparr>))
     else if kind = EPB then rbind (read_packet body e (rd_base s) (rd_interfaces s))
       (\<lambda>p. Inr (s\<lparr>rd_packets := rd_packets s @ [p]\<rparr>))
     else Inr s)"

text \<open>The blocks are read lazily: an error in an interface or a packet comes before the error that
  would stop the blocks further on.\<close>

fun stop_with :: "'e option \<Rightarrow> 'a \<Rightarrow> 'e + 'a" where
  "stop_with None x = Inr x"
| "stop_with (Some e) x = Inl e"

definition read_file :: "bytes \<Rightarrow> pcap_error + interface list \<times> packet list" where
  "read_file bs =
     (let (xs, err) = blocks Little bs
      in rbind (rfold read_block xs \<lparr>rd_interfaces = [], rd_base = 0, rd_packets = []\<rparr>) (\<lambda>s.
         stop_with err (rd_interfaces s, rd_packets s)))"

section \<open>Writing\<close>

definition write_header :: "bytes \<Rightarrow> pcap_error + bytes" where
  "write_header application =
     rbind (pack Little 4 MAGIC) (\<lambda>m. rbind (pack Little 2 1) (\<lambda>major. rbind (pack Little 2 0) (\<lambda>minor.
     rbind (option_bytes SHB_USERAPPL application) (\<lambda>app. rbind (option_bytes OPT_END []) (\<lambda>fin.
     block SHB (m @ major @ minor @ replicate 8 0xFF @ app @ fin))))))"

definition write_interface :: "interface \<Rightarrow> pcap_error + bytes" where
  "write_interface i =
     rbind (pack Little 2 (if_link_type i)) (\<lambda>l. rbind (option_bytes IF_NAME (if_name i)) (\<lambda>name.
     rbind (pack Little 1 (if_tsresol i)) (\<lambda>raw. rbind (option_bytes IF_TSRESOL raw) (\<lambda>ts.
     rbind (option_bytes OPT_END []) (\<lambda>fin.
     block IDB (l @ zeros 6 @ name @ ts @ fin))))))"

definition to_units :: "int \<Rightarrow> int \<Rightarrow> int" where
  "to_units tsresol ns = (if tsresol \<le> 9 then ns div 10 ^ nat (9 - tsresol) else ns * 10 ^ nat (tsresol - 9))"

text \<open>A negative index into the writer's interfaces is Python's index from the end, and then cannot be
  packed.\<close>

definition write_packet :: "interface list \<Rightarrow> packet \<Rightarrow> pcap_error + bytes" where
  "write_packet ifs p =
     (if pk_interface p < 0 then Inl (if - pk_interface p \<le> int (length ifs) then Struct else NoIndex)
      else if int (length ifs) \<le> pk_interface p then Inl NoIndex
      else let units = to_units (if_tsresol (ifs ! nat (pk_interface p))) (pk_timestamp_ns p)
           in rbind (pack Little 4 (pk_interface p)) (\<lambda>i. rbind (pack Little 4 (drop_bit 32 units)) (\<lambda>hi.
              rbind (pack Little 4 (units AND 0xFFFFFFFF)) (\<lambda>lo. rbind (pack Little 4 (int (length (pk_data p)))) (\<lambda>cap.
              rbind (pack Little 4 (wire_len p)) (\<lambda>orig. rbind (option_bytes OPT_END []) (\<lambda>fin.
              block EPB (i @ hi @ lo @ cap @ orig @ pk_data p @ zeros (pad (length (pk_data p))) @ fin))))))))"

definition write_file :: "bytes \<Rightarrow> interface list \<Rightarrow> packet list \<Rightarrow> pcap_error + bytes" where
  "write_file application ifs pks =
     rbind (write_header application) (\<lambda>h. rbind (rmap write_interface ifs) (\<lambda>is.
     rbind (rmap (write_packet ifs) pks) (\<lambda>ps. Inr (h @ concat is @ concat ps))))"

section \<open>Inserting tags\<close>

definition tag :: "bytes \<Rightarrow> int \<Rightarrow> bytes" where
  "tag data vlan = take 12 data @ VLAN_ETHERTYPE @ rev (bytes_of 2 (vlan AND 0x0FFF)) @ drop 12 data"

record tagging =
  tn_interfaces :: "interface list"
  tn_base :: nat
  tn_tagged :: nat
  tn_out :: bytes

definition tag_packet :: "bytes \<Rightarrow> endian \<Rightarrow> int \<Rightarrow> pcap_error + bytes" where
  "tag_packet body e vlan =
     rbind (unpack_from e 4 body 12) (\<lambda>caplen. rbind (unpack_from e 4 body 16) (\<lambda>origlen.
     let cap = nat caplen;
         data = tag (take cap (drop 20 body)) vlan;
         trailer = drop (20 + cap + pad cap) body
     in rbind (pack e 4 (int (length data))) (\<lambda>n. rbind (pack e 4 (origlen + 4)) (\<lambda>orig.
        Inr (take 12 body @ n @ orig @ data @ zeros (pad (length data)) @ trailer)))))"

definition copy_block :: "int \<Rightarrow> bytes \<Rightarrow> endian \<Rightarrow> pcap_error + bytes" where
  "copy_block kind body e =
     (let tot = 12 + int (length body)
      in rbind (pack e 4 kind) (\<lambda>k. rbind (pack e 4 tot) (\<lambda>t. Inr (k @ t @ body @ t))))"

definition tag_block :: "(int, int) dict \<Rightarrow> raw_block \<Rightarrow> tagging \<Rightarrow> pcap_error + tagging" where
  "tag_block vlans = (\<lambda>(kind, body, e) s.
     let write = (\<lambda>body s. rbind (copy_block kind body e) (\<lambda>bs. Inr (s\<lparr>tn_out := tn_out s @ bs\<rparr>)))
     in if kind = SHB then write body (s\<lparr>tn_base := length (tn_interfaces s)\<rparr>)
        else if kind = IDB then
          rbind (read_interface body e) (\<lambda>i. write body (s\<lparr>tn_interfaces := tn_interfaces s @ [i]\<rparr>))
        else if kind = EPB then
          rbind (unpack_from e 4 body 0) (\<lambda>index.
          let i = tn_base s + nat index
          in case dget vlans (int i) of
               None \<Rightarrow> write body s
             | Some vlan \<Rightarrow>
                 if length (tn_interfaces s) \<le> i then Inl NoIndex
                 else if if_link_type (tn_interfaces s ! i) = ETHERNET
                 then rbind (tag_packet body e vlan) (\<lambda>body. write body (s\<lparr>tn_tagged := tn_tagged s + 1\<rparr>))
                 else write body s)
        else write body s)"

definition insert_tags :: "(int, int) dict \<Rightarrow> bytes \<Rightarrow> pcap_error + nat \<times> bytes" where
  "insert_tags vlans bs =
     (let (xs, err) = blocks Little bs
      in rbind (rfold (tag_block vlans) xs \<lparr>tn_interfaces = [], tn_base = 0, tn_tagged = 0, tn_out = []\<rparr>) (\<lambda>s.
         stop_with err (tn_tagged s, tn_out s)))"

section \<open>Numbers and options come back\<close>

lemma length_bytes_of [simp]: "length (bytes_of k n) = k"
  by (induction k arbitrary: n) auto

lemma num_bytes_of: "0 \<le> n \<Longrightarrow> n < 256 ^ k \<Longrightarrow> num_of (bytes_of k n) = n"
proof (induction k arbitrary: n)
  case (Suc k)
  then have "num_of (bytes_of k (n div 256)) = n div 256" by (simp add: div_less_iff_less_mult)
  moreover have "uint (word_of_int n :: byte) = n mod 256" by (simp add: uint_word_of_int)
  ultimately show ?case by (simp add: mod_mult_div_eq)
qed simp

lemma num_of_bounds: "0 \<le> num_of bs \<and> num_of bs < 256 ^ length bs"
proof (induction bs)
  case (Cons b bs)
  have "uint b < 256" "0 \<le> uint b" using uint_lt2p[of b] by simp_all
  with Cons show ?case by simp
qed simp

lemma num_of_nonneg [simp]: "0 \<le> num_of bs"
  using num_of_bounds by blast

lemma nat_index [simp]: "nat (int b + num_of bs) = b + nat (num_of bs)"
  by (simp add: nat_add_distrib)

lemma bytes_num_of: "bytes_of (length bs) (num_of bs) = bs"
proof (induction bs)
  case (Cons b bs)
  have b: "uint b < 256" "0 \<le> uint b" using uint_lt2p[of b] by simp_all
  then have "(uint b + 256 * num_of bs) div 256 = num_of bs" by simp
  moreover have "(word_of_int (uint b + 256 * num_of bs) :: byte) = b"
  proof -
    have "uint (word_of_int (uint b + 256 * num_of bs) :: byte) = uint b"
      using b by (simp only: uint_word_of_int) simp
    then show ?thesis by (metis word_of_int_uint)
  qed
  ultimately show ?case using Cons by simp
qed simp

lemma length_in_order [simp]: "length (in_order e bs) = length bs"
  by (cases e) auto

lemma pack_Inr:
  "pack e k n = Inr bs \<longleftrightarrow> 0 \<le> n \<and> n < 256 ^ k \<and> bs = in_order e (bytes_of k n)"
  by (auto simp: pack_def)

lemma unpack_pack [simp]: "0 \<le> n \<Longrightarrow> n < 256 ^ k \<Longrightarrow> num_of (in_order e (in_order e (bytes_of k n))) = n"
  by (cases e) (simp_all add: num_bytes_of)

lemma length_zeros [simp]: "length (zeros n) = n"
  by (simp add: zeros_def)

declare options.simps [simp del] blocks.simps [simp del] bytes_of.simps [simp del] num_of.simps [simp del]

lemma option_bytes_Inr:
  "option_bytes code v = Inr ob \<longleftrightarrow> 0 \<le> code \<and> code < 65536 \<and> length v < 65536
     \<and> ob = bytes_of 2 code @ bytes_of 2 (int (length v)) @ v @ zeros (pad (length v))"
  by (auto simp: option_bytes_def rbind_Inr_iff pack_Inr)

lemma options_written:
  assumes "option_bytes code v = Inr ob" "code \<noteq> OPT_END"
  shows "options Little (ob @ rest) found
    = options Little rest (if dget found code = None then dset code v found else found)"
proof -
  from assms(1) have ob: "0 \<le> code" "code < 65536" "length v < 65536"
    "ob = bytes_of 2 code @ bytes_of 2 (int (length v)) @ v @ zeros (pad (length v))"
    by (simp_all add: option_bytes_Inr)
  have "drop (length v + pad (length v)) (v @ zeros (pad (length v)) @ rest) = rest" by simp
  with ob assms(2) show ?thesis
    by (subst options.simps) (simp add: num_bytes_of Let_def)
qed

lemma options_end:
  assumes "option_bytes OPT_END [] = Inr ob"
  shows "options Little (ob @ rest) found = found"
  using assms by (subst options.simps) (simp add: option_bytes_Inr OPT_END_def num_bytes_of Let_def)

lemma high_bit: "(w :: byte) AND 0x80 \<noteq> 0 \<longleftrightarrow> 128 \<le> uint w"
proof -
  have "w AND 0x80 \<noteq> 0 \<longleftrightarrow> bit w 7"
    using and_exp_eq_0_iff_not_bit[of w 7] by simp
  also have "\<dots> \<longleftrightarrow> bit (uint w) 7" by (simp add: bit_uint_iff)
  also have "\<dots> \<longleftrightarrow> odd (uint w div 128)" by (simp add: bit_iff_odd)
  also have "\<dots> \<longleftrightarrow> 128 \<le> uint w"
  proof -
    have "odd (x div 128) \<longleftrightarrow> 128 \<le> x" if "0 \<le> x" "x < 256" for x :: int
      using that by (cases "x < 128") (auto simp: div_pos_geq)
    then show ?thesis using uint_lt2p[of w] by simp
  qed
  finally show ?thesis .
qed

section \<open>Blocks come back\<close>

lemma block_Inr:
  "block kind body = Inr bb \<longleftrightarrow> 0 \<le> kind \<and> kind < 4294967296 \<and> 12 + length body < 4294967296
     \<and> bb = bytes_of 4 kind @ bytes_of 4 (12 + int (length body)) @ body @ bytes_of 4 (12 + int (length body))"
  by (auto simp: block_def Let_def rbind_Inr_iff pack_Inr)

lemma finish_written:
  assumes "0 \<le> tot" "tot < 4294967296" "n = 4 + int (length body)"
  shows "read_n n (body @ in_order e (bytes_of 4 tot) @ rest) = Inr (body @ in_order e (bytes_of 4 tot), rest)"
    "finish_block kind e tot before (body @ in_order e (bytes_of 4 tot)) False behind = Inr ((kind, before @ body, e), behind)"
proof -
  have len: "length (in_order e (bytes_of 4 tot)) = 4" by simp
  have n: "nat n = length (body @ in_order e (bytes_of 4 tot))" using assms(3) by simp
  show "read_n n (body @ in_order e (bytes_of 4 tot) @ rest) = Inr (body @ in_order e (bytes_of 4 tot), rest)"
    using assms(3) unfolding read_n_def n by simp
  show "finish_block kind e tot before (body @ in_order e (bytes_of 4 tot)) False behind = Inr ((kind, before @ body, e), behind)"
    using assms(1,2) by (simp add: finish_block_def unpack_def)
qed

text \<open>\<open>plain\<close>: the bytes of a block in a section of either byte order, as \<open>insert_tags\<close> writes it.\<close>

lemma next_plain:
  assumes "copy_block kind body Little = Inr bb" "kind \<noteq> SHB"
  shows "next_block Little (bb @ rest) = Inr ((kind, body, Little), rest)"
proof -
  let ?t = "12 + int (length body)"
  from assms(1) have bb: "0 \<le> kind" "kind < 4294967296" "?t < 4294967296"
    "bb = bytes_of 4 kind @ bytes_of 4 ?t @ body @ bytes_of 4 ?t"
    by (auto simp: copy_block_def Let_def rbind_Inr_iff pack_Inr)
  from finish_written[where tot = ?t and n = "4 + int (length body)" and body = body and e = Little] bb assms(2) show ?thesis
    unfolding next_block_def Let_def by (simp add: num_bytes_of)
qed

lemma next_section:
  assumes "copy_block SHB (in_order Little (bytes_of 4 MAGIC) @ body) Little = Inr bb"
  shows "next_block e (bb @ rest) = Inr ((SHB, bytes_of 4 MAGIC @ body, Little), rest)"
proof -
  let ?t = "16 + int (length body)"
  from assms(1) have bb: "?t < 4294967296"
    "bb = bytes_of 4 SHB @ bytes_of 4 ?t @ bytes_of 4 MAGIC @ body @ bytes_of 4 ?t"
    by (auto simp: copy_block_def Let_def rbind_Inr_iff pack_Inr)
  from finish_written[where tot = ?t and n = "4 + int (length body)" and body = body and e = Little] bb show ?thesis
    unfolding next_block_def Let_def by (simp add: num_bytes_of SHB_def MAGIC_def)
qed

lemma block_copy: "block kind body = copy_block kind body Little"
  by (simp add: block_def copy_block_def)

text \<open>A block a little-endian section may hold, and the bytes of several.\<close>

definition plain :: "raw_block \<Rightarrow> bool" where
  "plain = (\<lambda>(kind, body, e). e = Little \<and> (kind = SHB \<longrightarrow> take 4 body = bytes_of 4 MAGIC))"

definition copy :: "raw_block \<Rightarrow> pcap_error + bytes" where
  "copy = (\<lambda>(kind, body, e). copy_block kind body e)"

lemma copy_not_Nil: "copy b = Inr bb \<Longrightarrow> bb \<noteq> []"
  by (auto simp: copy_def copy_block_def Let_def rbind_Inr_iff pack_Inr dest: arg_cong[where f = length] split: prod.splits)

lemma next_copy:
  assumes "plain b" "copy b = Inr bb"
  shows "next_block Little (bb @ rest) = Inr (b, rest)"
proof -
  obtain kind body e where b: "b = (kind, body, e)" by (cases b)
  show ?thesis
  proof (cases "kind = SHB")
    case True
    with assms b have "take 4 body = bytes_of 4 MAGIC" "e = Little" by (simp_all add: plain_def)
    then have "body = in_order Little (bytes_of 4 MAGIC) @ drop 4 body" by (metis append_take_drop_id in_order.simps(1))
    with next_section[of "drop 4 body" bb Little rest] assms b True \<open>e = Little\<close> show ?thesis by (simp add: copy_def)
  next
    case False
    with next_plain[of kind body bb rest] assms b show ?thesis by (simp add: copy_def plain_def)
  qed
qed

lemma blocks_copied:
  assumes "rmap copy bs = Inr bbs" "list_all plain bs"
  shows "blocks Little (concat bbs) = (bs, None)"
  using assms
proof (induction bs arbitrary: bbs)
  case Nil
  then show ?case by (simp add: blocks.simps)
next
  case (Cons b bs)
  then obtain bb rest where r: "bbs = bb # rest" "copy b = Inr bb" "rmap copy bs = Inr rest" by (auto simp: rbind_Inr_iff)
  from Cons.prems(2) have "snd (snd b) = Little" by (auto simp: plain_def split: prod.splits)
  with Cons.IH[OF r(3)] Cons.prems(2) next_copy[OF _ r(2), of "concat rest"] copy_not_Nil[OF r(2)] show ?case
    unfolding r(1) by (subst blocks.simps) simp
qed

section \<open>What is written is read\<close>

text \<open>What the format keeps of a packet: its time in the interface's unit, and the wire length only
  where it differs.\<close>

definition stored :: "interface list \<Rightarrow> packet \<Rightarrow> packet" where
  "stored ifs p =
     (let r = if_tsresol (ifs ! nat (pk_interface p))
      in p\<lparr>pk_timestamp_ns := to_ns r (to_units r (pk_timestamp_ns p)),
           pk_original_len := (if wire_len p = int (length (pk_data p)) then None else Some (wire_len p))\<rparr>)"

definition storable :: "interface \<Rightarrow> bool" where
  "storable i \<longleftrightarrow> if_tsresol i < 128 \<and> (if_name i = [] \<or> last (if_name i) \<noteq> 0)"

lemma strip_nul_id: "name = [] \<or> last name \<noteq> 0 \<Longrightarrow> strip_nul name = name"
  by (cases name rule: rev_cases) (auto simp: strip_nul_def)

lemma interface_written:
  assumes "write_interface i = Inr bb" "storable i"
  shows "\<exists>body. block IDB body = Inr bb \<and> read_interface body Little = Inr i"
proof -
  from assms(1) obtain name ts fin where w:
    "0 \<le> if_link_type i" "if_link_type i < 65536" "0 \<le> if_tsresol i" "if_tsresol i < 256"
    "option_bytes IF_NAME (if_name i) = Inr name" "option_bytes IF_TSRESOL (bytes_of 1 (if_tsresol i)) = Inr ts"
    "option_bytes OPT_END [] = Inr fin" "block IDB (bytes_of 2 (if_link_type i) @ zeros 6 @ name @ ts @ fin) = Inr bb"
    by (auto simp: write_interface_def rbind_Inr_iff pack_Inr)
  let ?raw = "word_of_int (if_tsresol i) :: byte"
  have raw: "bytes_of (Suc 0) (if_tsresol i) = [?raw]" by (simp add: bytes_of.simps)
  have small: "uint ?raw = if_tsresol i" using w(3,4) by (simp add: uint_word_of_int)
  have "options Little (name @ ts @ fin) [] = [(IF_NAME, if_name i), (IF_TSRESOL, [?raw])]"
    using options_written[OF w(5), of "ts @ fin" "[]"] options_written[OF w(6), of fin] options_end[OF w(7), of "[]"]
    by (simp add: IF_NAME_def IF_TSRESOL_def OPT_END_def raw)
  moreover have "\<not> ?raw AND 0x80 \<noteq> 0" using assms(2) small by (simp add: high_bit storable_def)
  ultimately have "read_interface (bytes_of 2 (if_link_type i) @ zeros 6 @ name @ ts @ fin) Little = Inr i"
    using w(1,2) assms(2) small
    by (simp add: read_interface_def unpack_from_def unpack_def num_bytes_of Let_def IF_NAME_def IF_TSRESOL_def
        dget_or_def strip_nul_id storable_def)
  with w(8) show ?thesis by blast
qed

lemma low_word: "(u :: int) AND 0xFFFFFFFF = take_bit 32 u"
  by (simp add: take_bit_eq_mask mask_eq_exp_minus_1)

lemma join_words: "push_bit 32 (drop_bit 32 (u :: int)) OR take_bit 32 u = u"
  by (rule bit_eqI) (auto simp: bit_or_iff bit_push_bit_iff bit_drop_bit_eq bit_take_bit_iff)

text \<open>A packet body whose five words are given is read word by word.\<close>

lemma read_packet_words:
  assumes "0 \<le> i" "i < 4294967296" "0 \<le> hi" "hi < 4294967296" "0 \<le> lo" "lo < 4294967296"
    "0 \<le> cap" "cap < 4294967296" "0 \<le> orig" "orig < 4294967296" "base + nat i < length ifs"
  shows "read_packet (bytes_of 4 i @ bytes_of 4 hi @ bytes_of 4 lo @ bytes_of 4 cap @ bytes_of 4 orig @ body) Little base ifs
    = Inr \<lparr>pk_interface = int (base + nat i),
        pk_timestamp_ns = to_ns (if_tsresol (ifs ! (base + nat i))) (push_bit 32 hi OR lo),
        pk_data = take (nat cap) body, pk_original_len = (if orig = cap then None else Some orig)\<rparr>"
  using assms by (simp add: read_packet_def Let_def num_bytes_of)

lemma packet_written:
  assumes "write_packet ifs p = Inr bb"
  shows "\<exists>body. block EPB body = Inr bb \<and> read_packet body Little 0 ifs = Inr (stored ifs p)"
proof -
  let ?n = "nat (pk_interface p)"
  let ?u = "to_units (if_tsresol (ifs ! ?n)) (pk_timestamp_ns p)"
  from assms obtain fin where w: "0 \<le> pk_interface p" "pk_interface p < int (length ifs)" "pk_interface p < 4294967296"
    "0 \<le> drop_bit 32 ?u" "drop_bit 32 ?u < 4294967296" "0 \<le> ?u AND 0xFFFFFFFF" "?u AND 0xFFFFFFFF < 4294967296"
    "int (length (pk_data p)) < 4294967296" "0 \<le> wire_len p" "wire_len p < 4294967296"
    and bb: "block EPB (bytes_of 4 (pk_interface p) @ bytes_of 4 (drop_bit 32 ?u) @ bytes_of 4 (?u AND 0xFFFFFFFF)
      @ bytes_of 4 (int (length (pk_data p))) @ bytes_of 4 (wire_len p) @ pk_data p @ zeros (pad (length (pk_data p))) @ fin) = Inr bb"
    by (auto simp: write_packet_def Let_def rbind_Inr_iff pack_Inr split: if_splits)
  from w(1,2) have n: "0 + ?n < length ifs" by simp
  have "read_packet (bytes_of 4 (pk_interface p) @ bytes_of 4 (drop_bit 32 ?u) @ bytes_of 4 (?u AND 0xFFFFFFFF)
      @ bytes_of 4 (int (length (pk_data p))) @ bytes_of 4 (wire_len p) @ pk_data p @ zeros (pad (length (pk_data p))) @ fin)
      Little 0 ifs = Inr (stored ifs p)"
    unfolding read_packet_words[OF w(1,3,4,5,6,7) _ w(8,9,10) n, of "pk_data p @ zeros (pad (length (pk_data p))) @ fin", OF of_nat_0_le_iff]
    using w(1) by (simp add: stored_def Let_def low_word join_words)
  with bb show ?thesis by blast
qed

lemma header_written:
  assumes "write_header application = Inr bb"
  shows "\<exists>body. copy (SHB, body, Little) = Inr bb \<and> plain (SHB, body, Little)"
proof -
  from assms obtain app fin where "block SHB (bytes_of 4 MAGIC @ bytes_of 2 1 @ bytes_of 2 0 @ replicate 8 0xFF @ app @ fin) = Inr bb"
    by (auto simp: write_header_def rbind_Inr_iff pack_Inr)
  then show ?thesis
    by (intro exI[of _ "bytes_of 4 MAGIC @ bytes_of 2 1 @ bytes_of 2 0 @ replicate 8 0xFF @ app @ fin"])
      (simp add: copy_def plain_def block_copy)
qed

text \<open>The blocks of the interfaces and of the packets of a written file, and what reading them adds.\<close>

lemma interfaces_written:
  assumes "rmap write_interface ifs = Inr bbs" "list_all storable ifs"
  shows "\<exists>bs. rmap copy bs = Inr bbs \<and> list_all plain bs
    \<and> (\<forall>s. rfold read_block bs s = Inr (s\<lparr>rd_interfaces := rd_interfaces s @ ifs\<rparr>))"
  using assms
proof (induction ifs arbitrary: bbs)
  case Nil
  then show ?case by (intro exI[of _ "[]"]) simp
next
  case (Cons i ifs)
  then obtain bb rest where r: "bbs = bb # rest" "write_interface i = Inr bb" "rmap write_interface ifs = Inr rest"
    by (auto simp: rbind_Inr_iff)
  from interface_written[OF r(2)] Cons.prems(2) obtain body where
    body: "block IDB body = Inr bb" "read_interface body Little = Inr i" by auto
  from Cons.IH[OF r(3)] Cons.prems(2) obtain bs where bs: "rmap copy bs = Inr rest" "list_all plain bs"
    "\<forall>s. rfold read_block bs s = Inr (s\<lparr>rd_interfaces := rd_interfaces s @ ifs\<rparr>)" by auto
  from bs body r(1) show ?case
    by (intro exI[of _ "(IDB, body, Little) # bs"])
      (simp add: copy_def plain_def block_copy read_block_def IDB_def SHB_def)
qed

lemma packets_written:
  assumes "rmap (write_packet ifs) pks = Inr bbs"
  shows "\<exists>bs. rmap copy bs = Inr bbs \<and> list_all plain bs
    \<and> (\<forall>s. rd_interfaces s = ifs \<longrightarrow> rd_base s = 0 \<longrightarrow>
        rfold read_block bs s = Inr (s\<lparr>rd_packets := rd_packets s @ map (stored ifs) pks\<rparr>))"
  using assms
proof (induction pks arbitrary: bbs)
  case Nil
  then show ?case by (intro exI[of _ "[]"]) simp
next
  case (Cons p pks)
  then obtain bb rest where r: "bbs = bb # rest" "write_packet ifs p = Inr bb" "rmap (write_packet ifs) pks = Inr rest"
    by (auto simp: rbind_Inr_iff)
  from packet_written[OF r(2)] obtain body where
    body: "block EPB body = Inr bb" "read_packet body Little 0 ifs = Inr (stored ifs p)" by auto
  from Cons.IH[OF r(3)] obtain bs where bs: "rmap copy bs = Inr rest" "list_all plain bs"
    "\<forall>s. rd_interfaces s = ifs \<longrightarrow> rd_base s = 0 \<longrightarrow>
      rfold read_block bs s = Inr (s\<lparr>rd_packets := rd_packets s @ map (stored ifs) pks\<rparr>)" by auto
  from bs body r(1) show ?case
    by (intro exI[of _ "(EPB, body, Little) # bs"])
      (simp add: copy_def plain_def block_copy read_block_def IDB_def EPB_def SHB_def)
qed

lemma rmap_append: "rmap f (xs @ ys) = rbind (rmap f xs) (\<lambda>us. rbind (rmap f ys) (\<lambda>vs. Inr (us @ vs)))"
  by (induction xs) (auto simp: rbind_def split: sum.splits)

lemma read_write_file:
  assumes "write_file application ifs pks = Inr bs" "list_all storable ifs"
  shows "read_file bs = Inr (ifs, map (stored ifs) pks)"
proof -
  from assms(1) obtain h iw ps where w: "write_header application = Inr h" "rmap write_interface ifs = Inr iw"
    "rmap (write_packet ifs) pks = Inr ps" "bs = h @ concat iw @ concat ps" by (auto simp: write_file_def rbind_Inr_iff)
  from header_written[OF w(1)] obtain body where h: "copy (SHB, body, Little) = Inr h" "plain (SHB, body, Little)" by auto
  from interfaces_written[OF w(2) assms(2)] obtain ib where ib: "rmap copy ib = Inr iw" "list_all plain ib"
    "\<forall>s. rfold read_block ib s = Inr (s\<lparr>rd_interfaces := rd_interfaces s @ ifs\<rparr>)" by auto
  from packets_written[OF w(3)] obtain pb where pb: "rmap copy pb = Inr ps" "list_all plain pb"
    "\<forall>s. rd_interfaces s = ifs \<longrightarrow> rd_base s = 0 \<longrightarrow>
      rfold read_block pb s = Inr (s\<lparr>rd_packets := rd_packets s @ map (stored ifs) pks\<rparr>)" by auto
  have "blocks Little bs = ((SHB, body, Little) # ib @ pb, None)"
    using blocks_copied[of "(SHB, body, Little) # ib @ pb" "h # iw @ ps"] h ib(1,2) pb(1,2) w(4)
    by (simp add: rmap_append)
  with ib(3) pb(3) show ?thesis
    by (simp add: read_file_def rfold_append read_block_def)
qed

text \<open>C21: What the writer writes the reader reads back: the interfaces as they were, and the packets
  with their bytes, their times rounded down to the interface's unit, and their wire lengths;
  provided the names do not end in NUL and the resolutions are powers of ten, below 128.\<close>

theorem pcapng_round_trip:
  assumes "write_file application ifs pks = Inr bs" "list_all storable ifs"
  shows "read_file bs = Inr (ifs, map (stored ifs) pks)"
  by (rule read_write_file[OF assms])

section \<open>Tagging\<close>

text \<open>What tagging does to a packet, and a file whose sections are little-endian and whose packet
  blocks hold as many bytes as they say.\<close>

definition tags_packet :: "(int, int) dict \<Rightarrow> interface list \<Rightarrow> packet \<Rightarrow> bool" where
  "tags_packet vlans ifs p \<longleftrightarrow> dget vlans (pk_interface p) \<noteq> None
     \<and> if_link_type (ifs ! nat (pk_interface p)) = ETHERNET"

definition retag :: "(int, int) dict \<Rightarrow> interface list \<Rightarrow> packet \<Rightarrow> packet" where
  "retag vlans ifs p =
     (if tags_packet vlans ifs p
      then p\<lparr>pk_data := tag (pk_data p) (the (dget vlans (pk_interface p))),
             pk_original_len := map_option (\<lambda>n. n + 4) (pk_original_len p)\<rparr>
      else p)"

definition whole :: "raw_block \<Rightarrow> bool" where
  "whole = (\<lambda>(kind, body, e). e = Little \<and>
     (kind = EPB \<longrightarrow> 20 + nat (num_of (take 4 (drop 12 body))) \<le> length body))"

lemma length_tag [simp]: "length (tag data v) = length data + 4"
  by (simp add: tag_def VLAN_ETHERTYPE_def)

lemma finish_block_parts:
  "finish_block kind e tot before rest short behind = Inr (b, behind') \<Longrightarrow>
   behind' = behind \<and> b = (kind, before @ take (length rest - 4) rest, e)"
  by (auto simp: finish_block_def rbind_Inr_iff split: if_splits)

lemma next_block_plain:
  assumes "next_block e bs = Inr (b, behind)" "snd (snd b) = Little"
  shows "plain b"
proof (cases "num_of (take 4 (take 8 bs)) = SHB")
  case False
  with assms show ?thesis
    by (auto simp: next_block_def plain_def Let_def rbind_Inr_iff dest!: finish_block_parts split: if_splits)
next
  case True
  let ?m = "take 4 (drop 8 bs)"
  from True assms have m: "length ?m = 4" "num_of ?m = MAGIC" and b: "take 4 (fst (snd b)) = ?m"
    by (auto simp: next_block_def Let_def rbind_Inr_iff dest!: finish_block_parts split: if_splits)
  have "bytes_of (length ?m) (num_of ?m) = ?m" by (rule bytes_num_of)
  with m b assms(2) show ?thesis by (auto simp: plain_def split: prod.splits)
qed

lemma blocks_plain:
  "blocks e bs = (xs, err) \<Longrightarrow> list_all whole xs \<Longrightarrow> list_all plain xs"
proof (induction e bs arbitrary: xs err rule: blocks.induct)
  case (1 e bs)
  show ?case
  proof (cases "bs = [] \<or> (\<exists>err. next_block e bs = Inl err)")
    case True
    with "1.prems"(1) show ?thesis by (subst (asm) blocks.simps) (auto split: if_splits)
  next
    case False
    then obtain b behind where n: "bs \<noteq> []" "next_block e bs = Inr (b, behind)" by (cases "next_block e bs") auto
    obtain ys err' where ys: "blocks (snd (snd b)) behind = (ys, err')" by fastforce
    from "1.prems"(1) n ys have xs: "xs = b # ys" by (subst (asm) blocks.simps) simp
    from "1.IH"[OF n(1) n(2) refl ys] "1.prems"(2) next_block_plain[OF n(2)] show ?thesis
      unfolding xs by (auto simp: whole_def split: prod.splits)
  qed
qed

lemma tag_packet_read:
  assumes "tag_packet body Little vlan = Inr body'" "read_packet body Little base ifs = Inr p"
    "20 + nat (num_of (take 4 (drop 12 body))) \<le> length body"
  shows "read_packet body' Little base ifs
    = Inr (p\<lparr>pk_data := tag (pk_data p) vlan, pk_original_len := map_option (\<lambda>n. n + 4) (pk_original_len p)\<rparr>)"
proof -
  let ?cap = "num_of (take 4 (drop 12 body))" and ?orig = "num_of (take 4 (drop 16 body))"
  let ?data = "tag (take (nat ?cap) (drop 20 body)) vlan"
  have cap: "min (length body - 20) (nat ?cap) = nat ?cap" "min (length body - 16) 4 = 4" using assms(3) by simp_all
  then have ld: "int (length ?data) = ?cap + 4" by simp
  from assms(1) obtain tl where b: "body' = take 12 body @ bytes_of 4 (?cap + 4) @ bytes_of 4 (?orig + 4) @ ?data @ tl"
    and n: "?cap + 4 < 4294967296" "?orig + 4 < 4294967296"
    by (auto simp: tag_packet_def unpack_from_def unpack_def Let_def rbind_Inr_iff pack_Inr cap split: if_splits)
  have len: "length (take 12 body) = 12" using assms(3) by simp
  have word: "take 4 (drop off body') = take 4 (drop off body)" if "off \<le> 8" for off
    using that len unfolding b by (simp add: drop_take)
  have words: "num_of (take 4 (drop 12 body')) = ?cap + 4" "num_of (take 4 (drop 16 body')) = ?orig + 4"
    "take (nat (?cap + 4)) (drop 20 body') = ?data" "20 \<le> length body'"
    using len n ld unfolding b by (simp_all add: num_bytes_of)
  from assms(2,3) show ?thesis
    using word[of 0] word[of 4] word[of 8] words by (auto simp: read_packet_def Let_def split: if_splits)
qed

lemma read_packet_interface:
  "read_packet body e base ifs = Inr p \<Longrightarrow>
   pk_interface p = int (base + nat (num_of (in_order e (take 4 body)))) \<and> pk_interface p < int (length ifs)"
  by (auto simp: read_packet_def Let_def split: if_splits)

text \<open>The tagger and a reader of its input are in step when they know the same interfaces.\<close>

definition in_step :: "tagging \<Rightarrow> reading \<Rightarrow> bool" where
  "in_step t r \<longleftrightarrow> tn_interfaces t = rd_interfaces r \<and> tn_base t = rd_base r"

lemma tag_block_step:
  assumes "tag_block vlans b t = Inr t'" "read_block b r = Inr r'" "in_step t r" "whole b" "plain b"
  shows "\<exists>b' bb ps. copy b' = Inr bb \<and> plain b' \<and> tn_out t' = tn_out t @ bb \<and> in_step t' r'
    \<and> rd_packets r' = rd_packets r @ ps \<and> (\<exists>is. rd_interfaces r' = rd_interfaces r @ is)
    \<and> (\<forall>p\<in>set ps. 0 \<le> pk_interface p \<and> pk_interface p < int (length (rd_interfaces r)))
    \<and> tn_tagged t' = tn_tagged t + length (filter (tags_packet vlans (rd_interfaces r)) ps)
    \<and> (\<forall>q. rd_interfaces q = rd_interfaces r \<longrightarrow> rd_base q = rd_base r \<longrightarrow>
        read_block b' q = Inr (q\<lparr>rd_interfaces := rd_interfaces r', rd_base := rd_base r',
          rd_packets := rd_packets q @ map (retag vlans (rd_interfaces r)) ps\<rparr>))"
proof -
  obtain kind body e where b: "b = (kind, body, e)" by (cases b)
  with assms(4,5) have [simp]: "e = Little" by (simp add: whole_def)
  consider "kind = SHB" | "kind = IDB" | "kind = EPB" | "kind \<noteq> SHB" "kind \<noteq> IDB" "kind \<noteq> EPB" by blast
  then show ?thesis
  proof cases
    case 3
    with assms(2) b obtain p where p: "read_packet body Little (rd_base r) (rd_interfaces r) = Inr p"
      and r': "r' = r\<lparr>rd_packets := rd_packets r @ [p]\<rparr>" by (auto simp: read_block_def rbind_Inr_iff EPB_def SHB_def IDB_def)
    note i = read_packet_interface[OF p]
    from assms(4) b 3 have fits: "20 + nat (num_of (take 4 (drop 12 body))) \<le> length body" by (simp add: whole_def)
    show ?thesis
    proof (cases "tags_packet vlans (rd_interfaces r) p")
      case True
      then obtain v where v: "dget vlans (pk_interface p) = Some v"
        "if_link_type (rd_interfaces r ! nat (pk_interface p)) = ETHERNET" by (auto simp: tags_packet_def)
      from assms(1,3) b 3 i v fits obtain body' bb where t: "tag_packet body Little v = Inr body'" "copy_block EPB body' Little = Inr bb"
        "t' = t\<lparr>tn_tagged := tn_tagged t + 1, tn_out := tn_out t @ bb\<rparr>"
        by (auto simp: tag_block_def in_step_def Let_def rbind_Inr_iff EPB_def SHB_def IDB_def unpack_from_def unpack_def
            split: if_splits)
      from tag_packet_read[OF t(1) p fits] assms(3) 3 b t(2,3) r' True v i show ?thesis
        by (intro exI[of _ "(EPB, body', Little)"] exI[of _ bb] exI[of _ "[p]"])
          (simp add: copy_def plain_def in_step_def read_block_def EPB_def SHB_def IDB_def retag_def)
    next
      case False
      with assms(1,3) b 3 i obtain bb where t: "copy_block EPB body Little = Inr bb" "t' = t\<lparr>tn_out := tn_out t @ bb\<rparr>"
        by (auto simp: tag_block_def in_step_def Let_def rbind_Inr_iff EPB_def SHB_def IDB_def unpack_from_def unpack_def
            tags_packet_def split: if_splits option.splits)
      from p assms(3) 3 b t r' False i show ?thesis
        by (intro exI[of _ "(EPB, body, Little)"] exI[of _ bb] exI[of _ "[p]"])
          (simp add: copy_def plain_def in_step_def read_block_def EPB_def SHB_def IDB_def retag_def)
    qed
  next
    case 1
    with assms(1,3) b obtain bb where "copy_block SHB body Little = Inr bb"
      "t' = t\<lparr>tn_base := length (rd_interfaces r), tn_out := tn_out t @ bb\<rparr>"
      by (auto simp: tag_block_def in_step_def rbind_Inr_iff)
    with assms(2,3,5) b 1 show ?thesis
      by (intro exI[of _ b] exI[of _ bb] exI[of _ "[]"]) (auto simp: copy_def in_step_def read_block_def intro!: reading.equality)
  next
    case 2
    with assms(1,3) b obtain bb i where "copy_block IDB body Little = Inr bb" "read_interface body Little = Inr i"
      "t' = t\<lparr>tn_interfaces := rd_interfaces r @ [i], tn_out := tn_out t @ bb\<rparr>"
      by (auto simp: tag_block_def in_step_def rbind_Inr_iff IDB_def SHB_def)
    with assms(2,3,5) b 2 show ?thesis
      by (intro exI[of _ b] exI[of _ bb] exI[of _ "[]"])
        (auto simp: copy_def in_step_def read_block_def IDB_def SHB_def intro!: reading.equality)
  next
    case 4
    with assms(1,3) b obtain bb where "copy_block kind body Little = Inr bb" "t' = t\<lparr>tn_out := tn_out t @ bb\<rparr>"
      by (auto simp: tag_block_def in_step_def rbind_Inr_iff)
    with assms(2,3,5) b 4 show ?thesis
      by (intro exI[of _ b] exI[of _ bb] exI[of _ "[]"]) (auto simp: copy_def in_step_def read_block_def intro!: reading.equality)
  qed
qed

lemma retag_later:
  "0 \<le> pk_interface p \<Longrightarrow> pk_interface p < int (length ifs) \<Longrightarrow>
   retag vlans (ifs @ is) p = retag vlans ifs p \<and> tags_packet vlans (ifs @ is) p = tags_packet vlans ifs p"
  by (auto simp: retag_def tags_packet_def nth_append)

lemma tag_blocks_steps:
  assumes "rfold (tag_block vlans) xs t = Inr t'" "rfold read_block xs r = Inr r'" "in_step t r"
    "list_all whole xs" "list_all plain xs"
  shows "\<exists>ys bbs ps. rmap copy ys = Inr bbs \<and> list_all plain ys \<and> tn_out t' = tn_out t @ concat bbs
    \<and> rd_packets r' = rd_packets r @ ps \<and> (\<exists>is. rd_interfaces r' = rd_interfaces r @ is)
    \<and> tn_tagged t' = tn_tagged t + length (filter (tags_packet vlans (rd_interfaces r')) ps)
    \<and> (\<forall>q. rd_interfaces q = rd_interfaces r \<longrightarrow> rd_base q = rd_base r \<longrightarrow>
        rfold read_block ys q = Inr (q\<lparr>rd_interfaces := rd_interfaces r', rd_base := rd_base r',
          rd_packets := rd_packets q @ map (retag vlans (rd_interfaces r')) ps\<rparr>))"
  using assms
proof (induction xs arbitrary: t r)
  case Nil
  then show ?case by (intro exI[of _ "[]"]) simp
next
  case (Cons b xs)
  then obtain t1 r1 where one: "tag_block vlans b t = Inr t1" "read_block b r = Inr r1"
    "rfold (tag_block vlans) xs t1 = Inr t'" "rfold read_block xs r1 = Inr r'" by (auto simp: rbind_Inr_iff)
  from tag_block_step[OF one(1,2) Cons.prems(3)] Cons.prems(4,5) obtain b' bb ps1 is1 where
    b': "copy b' = Inr bb" "plain b'" "tn_out t1 = tn_out t @ bb" "in_step t1 r1" "rd_packets r1 = rd_packets r @ ps1"
      "rd_interfaces r1 = rd_interfaces r @ is1"
      "\<forall>p\<in>set ps1. 0 \<le> pk_interface p \<and> pk_interface p < int (length (rd_interfaces r))"
      "tn_tagged t1 = tn_tagged t + length (filter (tags_packet vlans (rd_interfaces r)) ps1)"
    and q1: "\<And>q. rd_interfaces q = rd_interfaces r \<Longrightarrow> rd_base q = rd_base r \<Longrightarrow>
        read_block b' q = Inr (q\<lparr>rd_interfaces := rd_interfaces r1, rd_base := rd_base r1,
          rd_packets := rd_packets q @ map (retag vlans (rd_interfaces r)) ps1\<rparr>)" by auto
  from Cons.IH[OF one(3,4) b'(4)] Cons.prems(4,5) obtain ys bbs ps is2 where
    ys: "rmap copy ys = Inr bbs" "list_all plain ys" "tn_out t' = tn_out t1 @ concat bbs"
      "rd_packets r' = rd_packets r1 @ ps" "rd_interfaces r' = rd_interfaces r1 @ is2"
      "tn_tagged t' = tn_tagged t1 + length (filter (tags_packet vlans (rd_interfaces r')) ps)"
    and q2: "\<And>q. rd_interfaces q = rd_interfaces r1 \<Longrightarrow> rd_base q = rd_base r1 \<Longrightarrow>
        rfold read_block ys q = Inr (q\<lparr>rd_interfaces := rd_interfaces r', rd_base := rd_base r',
          rd_packets := rd_packets q @ map (retag vlans (rd_interfaces r')) ps\<rparr>)" by auto
  have ifs: "rd_interfaces r' = rd_interfaces r @ is1 @ is2" using b'(6) ys(5) by simp
  have "map (retag vlans (rd_interfaces r)) ps1 = map (retag vlans (rd_interfaces r')) ps1"
    "filter (tags_packet vlans (rd_interfaces r)) ps1 = filter (tags_packet vlans (rd_interfaces r')) ps1"
    unfolding ifs using b'(7) by (auto simp: retag_later intro!: filter_cong)
  with b' ys q1 q2 ifs show ?case
    by (intro exI[of _ "b' # ys"] exI[of _ "bb # bbs"] exI[of _ "ps1 @ ps"]) simp
qed

text \<open>C22: Inserting tags is what it says of the packets: of a readable file with little-endian
  sections, in which no packet claims more captured bytes than its block holds, the result reads as the same interfaces and the same packets in the same order, those
  of an Ethernet interface with a VLAN carrying the tag after the two MAC addresses and four bytes
  more on the wire, the others untouched; and the count returned is the number of packets tagged.\<close>

theorem insert_tags_packets:
  assumes "read_file bs = Inr (ifs, pks)" "insert_tags vlans bs = Inr (n, out)"
    "list_all whole (fst (blocks Little bs))"
  shows "read_file out = Inr (ifs, map (retag vlans ifs) pks) \<and> n = length (filter (tags_packet vlans ifs) pks)"
proof -
  obtain xs err where xs: "blocks Little bs = (xs, err)" by fastforce
  from assms(1,2) xs have [simp]: "err = None" by (cases err) (auto simp: read_file_def rbind_Inr_iff)
  from assms(1,2) xs obtain r t where
    r: "rfold read_block xs \<lparr>rd_interfaces = [], rd_base = 0, rd_packets = []\<rparr> = Inr r" "rd_interfaces r = ifs" "rd_packets r = pks"
    and t: "rfold (tag_block vlans) xs \<lparr>tn_interfaces = [], tn_base = 0, tn_tagged = 0, tn_out = []\<rparr> = Inr t"
      "tn_tagged t = n" "tn_out t = out" by (auto simp: read_file_def insert_tags_def rbind_Inr_iff)
  have w: "list_all whole xs" using assms(3) xs by simp
  from tag_blocks_steps[OF t(1) r(1) _ w blocks_plain[OF xs w]] r(2,3) t(2,3) obtain ys bbs where
    ys: "rmap copy ys = Inr bbs" "list_all plain ys" "out = concat bbs" "n = length (filter (tags_packet vlans ifs) pks)"
      "rfold read_block ys \<lparr>rd_interfaces = [], rd_base = 0, rd_packets = []\<rparr>
       = Inr \<lparr>rd_interfaces = ifs, rd_base = rd_base r, rd_packets = map (retag vlans ifs) pks\<rparr>"
    by (auto simp: in_step_def)
  from blocks_copied[OF ys(1,2)] ys(3-5) show ?thesis by (simp add: read_file_def)
qed

section \<open>Examples\<close>

definition demo_interfaces :: "interface list" where
  "demo_interfaces = [\<lparr>if_name = [0x62, 0x72], if_link_type = ETHERNET, if_tsresol = 6\<rparr>]"

definition demo_packets :: "packet list" where
  "demo_packets = [\<lparr>pk_interface = 0, pk_timestamp_ns = 1234567, pk_data = map of_nat [0..<15], pk_original_len = Some 60\<rparr>]"

text \<open>A big-endian file: a section header and one interface.\<close>

definition big_endian_file :: bytes where
  "big_endian_file =
     (let shb = rev (bytes_of 4 MAGIC) @ [0, 1, 0, 0] @ replicate 8 0xFF;
          idb = [0, 1, 0, 0, 0, 0, 0, 0]
      in rev (bytes_of 4 SHB) @ rev (bytes_of 4 28) @ shb @ rev (bytes_of 4 28)
         @ rev (bytes_of 4 IDB) @ rev (bytes_of 4 20) @ idb @ rev (bytes_of 4 20))"

lemma demo_file_written:
  "let r = write_file [0x74] demo_interfaces demo_packets
   in case r of Inl e \<Rightarrow> False | Inr bs \<Rightarrow> bs \<noteq> [] \<and> list_all whole (fst (blocks Little bs))
     \<and> (case insert_tags [(0, 42)] bs of Inl e \<Rightarrow> False | Inr (n, out) \<Rightarrow> n = 1)"
  by code_simp

lemma demo_file_parts:
  obtains bs out where "write_file [0x74] demo_interfaces demo_packets = Inr bs"
    "list_all whole (fst (blocks Little bs))" "insert_tags [(0, 42)] bs = Inr (1, out)"
  using demo_file_written by (auto simp: Let_def split: sum.splits prod.splits)

theorem pcapng_round_trip_witness:
  "\<exists>bs. write_file [0x74] demo_interfaces demo_packets = Inr bs
    \<and> read_file bs = Inr (demo_interfaces, map (stored demo_interfaces) demo_packets)"
  by (rule demo_file_parts)
    (use pcapng_round_trip in \<open>auto simp: demo_interfaces_def storable_def\<close>)

theorem insert_tags_packets_witness:
  "\<exists>bs out. write_file [0x74] demo_interfaces demo_packets = Inr bs \<and> insert_tags [(0, 42)] bs = Inr (1, out)
    \<and> read_file out = Inr (demo_interfaces, map (retag [(0, 42)] demo_interfaces) (map (stored demo_interfaces) demo_packets))"
proof (rule demo_file_parts)
  fix bs out
  assume w: "write_file [0x74] demo_interfaces demo_packets = Inr bs" "list_all whole (fst (blocks Little bs))"
    "insert_tags [(0, 42)] bs = Inr (1, out)"
  have "list_all storable demo_interfaces" by (simp add: demo_interfaces_def storable_def)
  from insert_tags_packets[OF read_write_file[OF w(1) this] w(3) w(2)] w(1,3) show ?thesis by blast
qed

text \<open>The block type is read little-endian whatever the section's byte order: the interface block of a
  big-endian file is not seen, and a copy that tags nothing is not a copy.\<close>

lemma big_endian_not_read:
  "read_file big_endian_file = Inr ([], [])"
  "case insert_tags [] big_endian_file of Inl e \<Rightarrow> False | Inr (n, out) \<Rightarrow> out \<noteq> big_endian_file"
  by code_simp+

text \<open>A block that gives its own length as 8 is a \<open>struct.error\<close>, as 6 a \<open>ValueError\<close>, not a \<open>PcapngError\<close>.\<close>

lemma short_block_error: "read_file (bytes_of 4 IDB @ bytes_of 4 8) = Inl Struct"
  "read_file (bytes_of 4 IDB @ bytes_of 4 6) = Inl NegativeRead"
  by code_simp+

end
