(* ===== verification/Sampling.thy ===== *)
theory Sampling
  imports IR
begin

text \<open>
  Random choices and operational time (\<open>core/tiergen/core/sampling.py\<close>,
  \<open>runtime/behaviour/sampling.py\<close>). The generator is Python's \<open>random.Random\<close>: its
  primitive draws are the fields of a record of functions on the generator's state, and
  \<open>random_ok\<close> states what their documentation promises; \<open>choices\<close>, which the loop draws with,
  is modelled as the library computes it, binary search included. Times are rationals; a moment
  of local time is the number of microseconds since a Monday's midnight, as a
  \<^verbatim>\<open>datetime\<close> keeps it.
\<close>

section \<open>Streams\<close>

datatype stream = BehaviourStream | SelectionStream | ImplStream

fun stream_str :: "stream \<Rightarrow> string" where
  "stream_str BehaviourStream = ''behaviour''"
| "stream_str SelectionStream = ''selection''"
| "stream_str ImplStream = ''impl''"

text \<open>\<open>digest8\<close> is the 8-byte \<open>blake2b\<close> of a text, most significant byte first.\<close>

definition instance_seed :: "(string \<Rightarrow> nat list) \<Rightarrow> int \<Rightarrow> string \<Rightarrow> stream \<Rightarrow> nat" where
  "instance_seed digest8 seed instnc strm =
     fold (\<lambda>b n. 256 * n + b) (digest8 (show_int seed @ ''|'' @ instnc @ ''|'' @ stream_str strm)) 0"

record 's random_source =
  seeded :: "nat \<Rightarrow> 's"
  uniform :: "'s \<Rightarrow> rat \<times> 's"
  randbelow :: "nat \<Rightarrow> 's \<Rightarrow> nat \<times> 's"
  expovariate :: "rat \<Rightarrow> 's \<Rightarrow> rat \<times> 's"
  lognormvariate :: "rat \<Rightarrow> rat \<Rightarrow> 's \<Rightarrow> rat \<times> 's"
  weibullvariate :: "rat \<Rightarrow> rat \<Rightarrow> 's \<Rightarrow> rat \<times> 's"

definition rng :: "'s random_source \<Rightarrow> (string \<Rightarrow> nat list) \<Rightarrow> int \<Rightarrow> string \<Rightarrow> stream \<Rightarrow> 's" where
  "rng G digest8 seed instnc strm = seeded G (instance_seed digest8 seed instnc strm)"

definition random_ok :: "'s random_source \<Rightarrow> bool" where
  "random_ok G \<longleftrightarrow> (\<forall>s. 0 \<le> fst (uniform G s) \<and> fst (uniform G s) < 1)
     \<and> (\<forall>n s. 0 < n \<longrightarrow> fst (randbelow G n s) < n)
     \<and> (\<forall>a s. 0 < a \<longrightarrow> 0 \<le> fst (expovariate G a s))
     \<and> (\<forall>a b s. 0 \<le> fst (lognormvariate G a b s))
     \<and> (\<forall>a b s. 0 < a \<longrightarrow> 0 < b \<longrightarrow> 0 \<le> fst (weibullvariate G a b s))"

section \<open>Weighted choices\<close>

datatype agent_error = IndexErr | ValueErr | ZeroDivisionErr | KeyErr string | AssertErr

fun accumulate :: "rat \<Rightarrow> rat list \<Rightarrow> rat list" where
  "accumulate a [] = []"
| "accumulate a (w # ws) = (a + w) # accumulate (a + w) ws"

text \<open>\<open>bisect.bisect\<close> between \<open>lo\<close> and \<open>hi\<close>.\<close>

function bisect :: "rat list \<Rightarrow> rat \<Rightarrow> nat \<Rightarrow> nat \<Rightarrow> nat" where
  "bisect a x lo hi =
     (if lo < hi then let mid = (lo + hi) div 2
        in if x < a ! mid then bisect a x lo mid else bisect a x (mid + 1) hi
      else lo)"
  by pat_completeness auto
termination by (relation "measure (\<lambda>(a, x, lo, hi). hi - lo)") auto

definition draw :: "'s random_source \<Rightarrow> rat list \<Rightarrow> 's \<Rightarrow> agent_error + nat \<times> 's" where
  "draw G weights s =
     (if weights = [] then Inl IndexErr
      else let cum = accumulate 0 weights; tot = last cum
           in if tot \<le> 0 then Inl ValueErr
              else let (u, s) = uniform G s
                   in Inr (bisect cum (u * tot) 0 (length weights - 1), s))"

definition weighted :: "'s random_source \<Rightarrow> (string, rat) dict \<Rightarrow> 's \<Rightarrow> agent_error + string \<times> 's" where
  "weighted G weights s =
     (let ks = sorted_set (dkeys weights)
      in if ks = [] then Inl ValueErr
         else rbind (draw G (map (\<lambda>k. dget_or weights k 0) ks) s) (\<lambda>(i, s). Inr (ks ! i, s)))"

section \<open>Holding times\<close>

text \<open>The floats of a program are finite, because the codec that reads it refuses the others.\<close>

definition num :: "pyfloat \<Rightarrow> rat" where
  "num x = (case x of Fin q \<Rightarrow> q | _ \<Rightarrow> 0)"

definition dwell :: "'s random_source \<Rightarrow> distribution \<Rightarrow> 's \<Rightarrow> agent_error + rat \<times> 's" where
  "dwell G d s =
     (case dist_params d of
        Res _ \<Rightarrow> Inl AssertErr
      | Inline ps \<Rightarrow>
          if dist_family d = ''exponential''
          then (if ps = [] then Inl IndexErr
                else if num (ps ! 0) = 0 then Inl ZeroDivisionErr
                else Inr (expovariate G (1 / num (ps ! 0)) s))
          else if dist_family d = ''lognormal''
          then (if length ps < 2 then Inl IndexErr else Inr (lognormvariate G (num (ps ! 0)) (num (ps ! 1)) s))
          else if dist_family d = ''weibull''
          then (if length ps \<noteq> 2 then Inl ValueErr else Inr (weibullvariate G (num (ps ! 1)) (num (ps ! 0)) s))
          else if ps = [] then Inl IndexErr
          else (let (i, s) = randbelow G (length ps) s in Inr (num (ps ! i), s)))"

section \<open>The rate curve\<close>

definition hour_us :: int where "hour_us = 3600000000"

definition hour_of :: "int \<Rightarrow> nat" where
  "hour_of local = nat ((local div hour_us) mod 24)"

definition weekday_of :: "int \<Rightarrow> nat" where
  "weekday_of local = nat ((local div (24 * hour_us)) mod 7)"

definition into_hour :: "int \<Rightarrow> rat" where
  "into_hour local = of_int (local mod hour_us) / 1000000"

text \<open>A \<open>timedelta\<close> of fractional seconds is rounded to microseconds, halves to even.\<close>

definition round_even :: "rat \<Rightarrow> int" where
  "round_even x = (let f = \<lfloor>x\<rfloor>; d = x - of_int f
     in if d < 1/2 \<or> d = 1/2 \<and> even f then f else f + 1)"

definition multiplier :: "pyfloat list option \<Rightarrow> int \<Rightarrow> agent_error + rat" where
  "multiplier curve local =
     (case curve of
        None \<Rightarrow> Inr 1
      | Some c \<Rightarrow> let i = if length c = 24 then hour_of local else weekday_of local * 24 + hour_of local
          in if i < length c then Inr (num (c ! i)) else Inl IndexErr)"

definition boundary :: "int \<Rightarrow> rat \<Rightarrow> rat" where
  "boundary local left_wall = min (3600 - into_hour local) left_wall"

definition work_left :: "rat \<Rightarrow> rat \<Rightarrow> rat \<Rightarrow> nat" where
  "work_left limit elapsed left = (if left \<le> 0 then 0 else Suc (nat \<lceil>(limit - elapsed) * 1000000\<rceil>))"

lemma into_hour_bound: "0 \<le> into_hour local \<and> into_hour local \<le> 3600 - 1 / 1000000"
proof -
  have "0 \<le> local mod hour_us" "local mod hour_us \<le> 3599999999"
    using pos_mod_bound[of hour_us local] by (simp_all add: hour_us_def)
  then have "(0 :: rat) \<le> of_int (local mod hour_us)" "of_int (local mod hour_us) \<le> (3599999999 :: rat)"
    by (simp_all add: of_int_le_numeral_iff)
  then show ?thesis unfolding into_hour_def by (simp add: field_simps)
qed

lemma work_left_boundary:
  assumes "0 < left" "elapsed < limit"
  shows "work_left limit (elapsed + boundary local (limit - elapsed)) left' < work_left limit elapsed left"
proof -
  let ?b = "boundary local (limit - elapsed)"
  have pos: "0 < \<lceil>(limit - elapsed) * 1000000\<rceil>" using assms(2) by simp
  have "nat \<lceil>(limit - (elapsed + ?b)) * 1000000\<rceil> < nat \<lceil>(limit - elapsed) * 1000000\<rceil>"
  proof (cases "?b = limit - elapsed")
    case True
    with pos show ?thesis by simp
  next
    case False
    then have "1 / 1000000 \<le> ?b" using into_hour_bound[of local] by (auto simp: boundary_def min_def)
    then have "(limit - (elapsed + ?b)) * 1000000 \<le> (limit - elapsed) * 1000000 - 1" by (simp add: field_simps)
    then have "\<lceil>(limit - (elapsed + ?b)) * 1000000\<rceil> \<le> \<lceil>(limit - elapsed) * 1000000\<rceil> - 1"
      by (metis ceiling_diff_one ceiling_mono)
    with pos show ?thesis by linarith
  qed
  with assms(1) show ?thesis by (simp add: work_left_def)
qed

text \<open>The loop of \<open>advance\<close>: the wall seconds elapsed and the operational seconds left.\<close>

function pass :: "rat \<Rightarrow> rat \<Rightarrow> int \<Rightarrow> pyfloat list option \<Rightarrow> rat \<Rightarrow> rat \<Rightarrow> rat \<Rightarrow> agent_error + rat \<times> rat" where
  "pass t limit start curve factor elapsed left =
     (if 0 < left \<and> elapsed < limit
      then let local = start + round_even ((t + elapsed) * 1000000)
           in rbind (multiplier curve local) (\<lambda>m.
                let rate = factor * m; b = boundary local (limit - elapsed)
                in if 0 < rate \<and> left / rate \<le> b
                   then pass t limit start curve factor (elapsed + left / rate) 0
                   else pass t limit start curve factor (elapsed + b) (left - b * rate))
      else Inr (elapsed, left))"
  by pat_completeness auto
termination
  by (relation "measure (\<lambda>(t, limit, start, curve, factor, elapsed, left). work_left limit elapsed left)")
    (auto simp: work_left_boundary, auto simp: work_left_def)

definition advance :: "rat \<Rightarrow> rat \<Rightarrow> rat \<Rightarrow> int \<Rightarrow> pyfloat list option \<Rightarrow> rat \<Rightarrow> agent_error + rat \<times> rat" where
  "advance operational t limit start curve factor =
     rbind (pass t limit start curve factor 0 operational) (\<lambda>(elapsed, left).
     Inr (elapsed, operational - max left 0))"

section \<open>What is drawn\<close>

declare bisect.simps [simp del] pass.simps [simp del]

lemma bisect_between:
  assumes "sorted a" "lo \<le> hi" "hi \<le> length a"
  shows "lo \<le> bisect a x lo hi \<and> bisect a x lo hi \<le> hi
    \<and> (\<forall>j. lo \<le> j \<and> j < bisect a x lo hi \<longrightarrow> a ! j \<le> x) \<and> (\<forall>j. bisect a x lo hi \<le> j \<and> j < hi \<longrightarrow> x < a ! j)"
  using assms
proof (induction a x lo hi rule: bisect.induct)
  case (1 a x lo hi)
  let ?mid = "(lo + hi) div 2"
  show ?case
  proof (cases "lo < hi")
    case False
    with "1.prems" show ?thesis by (simp add: bisect.simps[of a x lo] bisect.simps[of a x hi])
  next
    case True
    then have mid: "lo \<le> ?mid" "?mid < hi" by auto
    show ?thesis
    proof (cases "x < a ! ?mid")
      case less: True
      from "1.IH"(1)[OF True refl less] "1.prems" mid have ih: "lo \<le> bisect a x lo ?mid" "bisect a x lo ?mid \<le> ?mid"
        "\<forall>j. lo \<le> j \<and> j < bisect a x lo ?mid \<longrightarrow> a ! j \<le> x" "\<forall>j. bisect a x lo ?mid \<le> j \<and> j < ?mid \<longrightarrow> x < a ! j" by auto
      have "x < a ! j" if "?mid \<le> j" "j < hi" for j
        using less sorted_nth_mono[OF "1.prems"(1), of ?mid j] that "1.prems"(3) by simp
      with ih mid True less show ?thesis by (auto simp: bisect.simps[of a x lo hi] Let_def not_less) (metis not_le)
    next
      case ge: False
      from "1.IH"(2)[OF True refl ge] "1.prems" mid have ih: "?mid + 1 \<le> bisect a x (?mid + 1) hi" "bisect a x (?mid + 1) hi \<le> hi"
        "\<forall>j. ?mid + 1 \<le> j \<and> j < bisect a x (?mid + 1) hi \<longrightarrow> a ! j \<le> x"
        "\<forall>j. bisect a x (?mid + 1) hi \<le> j \<and> j < hi \<longrightarrow> x < a ! j" by auto
      have "a ! j \<le> x" if "j \<le> ?mid" for j
        using ge sorted_nth_mono[OF "1.prems"(1) that] mid "1.prems"(3) by simp
      with ih mid True ge show ?thesis
        by (auto simp: bisect.simps[of a x lo hi] Let_def) (metis Suc_leI not_le Suc_eq_plus1)
    qed
  qed
qed

lemma length_accumulate [simp]: "length (accumulate a ws) = length ws"
  by (induction ws arbitrary: a) auto

lemma accumulate_nth: "i < length ws \<Longrightarrow> accumulate a ws ! i = a + sum_list (take (Suc i) ws)"
proof (induction ws arbitrary: a i)
  case (Cons w ws)
  then show ?case by (cases i) (auto simp: add.assoc)
qed simp

lemma sorted_accumulate: "\<forall>w\<in>set ws. 0 \<le> w \<Longrightarrow> sorted (accumulate a ws) \<and> (\<forall>x\<in>set (accumulate a ws). a \<le> x)"
  by (induction ws arbitrary: a) (auto, force)

lemma last_accumulate: "ws \<noteq> [] \<Longrightarrow> last (accumulate a ws) = a + sum_list ws"
proof -
  assume ws: "ws \<noteq> []"
  then have "accumulate a ws \<noteq> []" using length_accumulate[of a ws] by (metis length_0_conv)
  then have "last (accumulate a ws) = accumulate a ws ! (length ws - 1)" by (simp add: last_conv_nth)
  with ws show ?thesis by (simp add: accumulate_nth)
qed

lemma draw_between:
  assumes "random_ok G" "\<forall>w\<in>set ws. 0 \<le> w" "draw G ws s = Inr (i, s')"
  shows "i < length ws \<and> sum_list (take i ws) \<le> fst (uniform G s) * sum_list ws
    \<and> fst (uniform G s) * sum_list ws < sum_list (take (Suc i) ws) \<and> s' = snd (uniform G s)"
proof -
  let ?u = "fst (uniform G s)" and ?n = "length ws - 1" and ?a = "accumulate 0 ws"
  let ?x = "?u * sum_list ws"
  from assms(3) have ne: "ws \<noteq> []" and pos: "0 < sum_list ws" and i: "i = bisect ?a ?x 0 ?n" "s' = snd (uniform G s)"
    by (auto simp: draw_def Let_def last_accumulate case_prod_unfold split: if_splits)
  have u: "0 \<le> ?u" "?u < 1" using assms(1) by (auto simp: random_ok_def)
  from sorted_accumulate[OF assms(2)] have "sorted ?a" by blast
  from bisect_between[OF this, of 0 ?n ?x] ne i(1) have b: "i \<le> ?n" "\<forall>j<i. ?a ! j \<le> ?x" "\<forall>j. i \<le> j \<and> j < ?n \<longrightarrow> ?x < ?a ! j"
    by auto
  from b(1) ne have in_n: "i < length ws" by (cases ws) auto
  have "?x < sum_list (take (Suc i) ws)"
  proof (cases "i < ?n")
    case True
    with b(3) have "?x < ?a ! i" by simp
    with in_n show ?thesis by (simp add: accumulate_nth)
  next
    case False
    with b(1) in_n have "take (Suc i) ws = ws" by simp
    with u pos show ?thesis by simp
  qed
  moreover have "sum_list (take i ws) \<le> ?x"
  proof (cases i)
    case 0
    with u pos show ?thesis by simp
  next
    case (Suc k)
    with b(2) in_n have "?a ! k \<le> ?x" by simp
    with Suc in_n show ?thesis by (simp add: accumulate_nth)
  qed
  ultimately show ?thesis using in_n i(2) by simp
qed

lemma draw_positive:
  assumes "random_ok G" "\<forall>w\<in>set ws. 0 \<le> w" "draw G ws s = Inr (i, s')"
  shows "i < length ws \<and> 0 < ws ! i"
proof -
  from draw_between[OF assms] have "i < length ws" "sum_list (take i ws) < sum_list (take (Suc i) ws)" by auto
  then show ?thesis by (simp add: take_Suc_conv_app_nth)
qed

lemma draw_total: "ws \<noteq> [] \<Longrightarrow> 0 < sum_list ws \<Longrightarrow> \<exists>i s'. draw G ws s = Inr (i, s')"
  by (auto simp: draw_def Let_def last_accumulate case_prod_unfold)

lemma weighted_key:
  assumes "random_ok G" "\<forall>(k, w)\<in>set d. 0 \<le> w" "weighted G d s = Inr (k, s')"
  shows "\<exists>w. dget d k = Some w \<and> 0 < w"
proof -
  let ?ks = "sorted_set (dkeys d)" and ?w = "\<lambda>k. dget_or d k 0"
  from assms(3) obtain i where i: "draw G (map ?w ?ks) s = Inr (i, s')" "k = ?ks ! i"
    by (auto simp: weighted_def Let_def rbind_Inr_iff split: if_splits)
  have w: "0 \<le> ?w k" for k using assms(2) by (auto simp: dget_or_def split: option.split dest: dget_Some_in)
  from draw_positive[OF assms(1) _ i(1)] w have "i < length ?ks" "0 < map ?w ?ks ! i" by auto
  with i(2) show ?thesis by (auto simp: dget_or_def split: option.splits)
qed

lemma weighted_total:
  assumes "dkeys d \<noteq> []" "dict_ok d" "\<forall>(k, w)\<in>set d. 0 < w"
  shows "\<exists>k s'. weighted G d s = Inr (k, s')"
proof -
  let ?ks = "sorted_set (dkeys d)" and ?w = "\<lambda>k. dget_or d k 0"
  from assms(1) have ne: "?ks \<noteq> []" by simp
  have pos: "0 < ?w k" if "k \<in> set ?ks" for k
    using that assms(3) by (fastforce simp: dget_or_def set_dkeys dest: dget_Some_in)
  have "0 < sum_list (map ?w ks)" if "ks \<noteq> []" "\<forall>k\<in>set ks. 0 < ?w k" for ks
    using that
  proof (induction ks)
    case (Cons k ks)
    then show ?case by (cases "ks = []") (auto intro: add_pos_pos)
  qed simp
  with ne pos have "0 < sum_list (map ?w ?ks)" by blast
  from draw_total[OF _ this, of G s] ne show ?thesis by (auto simp: weighted_def Let_def)
qed

text \<open>A weighted choice picks the index whose slice of the total weight holds the random number:
  the weights before it sum to at most the number's share of the total, the weights up to it to
  more. So each index is picked on a slice as long as its weight, and one of weight zero never.\<close>

lemma draw_slice:
  assumes "random_ok G" "\<forall>w\<in>set ws. 0 \<le> w" "draw G ws s = Inr (i, s')"
  shows "i < length ws \<and> sum_list (take i ws) \<le> fst (uniform G s) * sum_list ws
    \<and> fst (uniform G s) * sum_list ws < sum_list (take (Suc i) ws) \<and> s' = snd (uniform G s)"
  by (rule draw_between[OF assms])

section \<open>How time passes\<close>

definition speeds_below :: "pyfloat list option \<Rightarrow> rat \<Rightarrow> bool" where
  "speeds_below curve cap \<longleftrightarrow> (\<forall>c x. curve = Some c \<longrightarrow> x \<in> set c \<longrightarrow> 0 \<le> num x \<and> num x \<le> cap)
     \<and> (curve = None \<longrightarrow> 1 \<le> cap)"

lemma multiplier_below:
  "speeds_below curve cap \<Longrightarrow> multiplier curve local = Inr m \<Longrightarrow> 0 \<le> m \<and> m \<le> cap"
  by (auto simp: multiplier_def speeds_below_def Let_def split: option.splits if_splits)

lemma boundary_pos: "elapsed < limit \<Longrightarrow> 0 < boundary local (limit - elapsed) \<and> boundary local (limit - elapsed) \<le> limit - elapsed"
  using into_hour_bound[of local] by (auto simp: boundary_def)

lemma mult_div_self: "r \<noteq> 0 \<Longrightarrow> x = r * (x / r)" for x :: rat
  by simp

lemma pass_bounds:
  assumes "pass t limit start curve factor elapsed left = Inr (e, l)"
    "speeds_below curve cap" "0 \<le> factor" "0 \<le> left" "elapsed \<le> limit"
  shows "elapsed \<le> e \<and> e \<le> limit \<and> 0 \<le> l \<and> l \<le> left \<and> (l = 0 \<or> e = limit) \<and> left - l \<le> factor * cap * (e - elapsed)"
  using assms
proof (induction t limit start curve factor elapsed left rule: pass.induct)
  case (1 t limit start curve factor elapsed left)
  show ?case
  proof (cases "0 < left \<and> elapsed < limit")
    case False
    with "1.prems" show ?thesis by (auto simp: pass.simps[of t limit start curve factor elapsed left])
  next
    case True
    let ?local = "start + round_even ((t + elapsed) * 1000000)"
    let ?b = "boundary ?local (limit - elapsed)"
    from "1.prems"(1) True obtain m where m: "multiplier curve ?local = Inr m"
      by (auto simp: pass.simps[of t limit start curve factor elapsed left] Let_def rbind_Inr_iff)
    let ?rate = "factor * m"
    from multiplier_below[OF "1.prems"(2) m] "1.prems"(3) have rate: "0 \<le> ?rate" "?rate \<le> factor * cap"
      by (auto intro: mult_left_mono)
    from True boundary_pos have b: "0 < ?b" "?b \<le> limit - elapsed" by auto
    show ?thesis
    proof (cases "0 < ?rate \<and> left / ?rate \<le> ?b")
      case fin: True
      with "1.prems"(1) True m have e: "e = elapsed + left / ?rate" "l = 0"
        by (auto simp: pass.simps[of t limit start curve factor elapsed left]
            pass.simps[of t limit start curve factor "elapsed + left / ?rate" 0] Let_def)
      have "?rate \<noteq> 0" using fin by linarith
      then have "left = ?rate * (left / ?rate)" by (rule mult_div_self)
      also have "\<dots> \<le> factor * cap * (left / ?rate)" using rate fin True by (intro mult_right_mono) auto
      finally show ?thesis using e fin b True by (auto simp: field_simps)
    next
      case cont: False
      with "1.prems"(1) True m have p: "pass t limit start curve factor (elapsed + ?b) (left - ?b * ?rate) = Inr (e, l)"
        by (auto simp: pass.simps[of t limit start curve factor elapsed left] Let_def)
      have "?b * ?rate \<le> left"
      proof (cases "?rate = 0")
        case False
        with rate have r: "0 < ?rate" by linarith
        with cont have "?b < left / ?rate" by linarith
        with r show ?thesis by (simp only: pos_less_divide_eq less_imp_le)
      next
        case True
        with \<open>0 < left \<and> elapsed < limit\<close> show ?thesis by (simp only: mult_zero_right) simp
      qed
      with "1.IH"(2)[OF True refl m refl refl cont p] "1.prems"(2,3) b have ih: "elapsed + ?b \<le> e" "e \<le> limit" "0 \<le> l"
        "l \<le> left - ?b * ?rate" "l = 0 \<or> e = limit" "left - ?b * ?rate - l \<le> factor * cap * (e - (elapsed + ?b))" by auto
      have "?rate * ?b \<le> factor * cap * ?b" by (rule mult_right_mono[OF rate(2) less_imp_le[OF b(1)]])
      moreover have "0 \<le> ?rate * ?b" by (rule mult_nonneg_nonneg[OF rate(1) less_imp_le[OF b(1)]])
      moreover have "?b * ?rate = ?rate * ?b" by (rule mult.commute)
      moreover have "factor * cap * (e - elapsed) = factor * cap * (e - (elapsed + ?b)) + factor * cap * ?b"
        by (simp add: algebra_simps)
      ultimately have "left - l \<le> factor * cap * (e - elapsed)" "l \<le> left" "elapsed \<le> e"
        using ih b(1) by linarith+
      with ih show ?thesis by blast
    qed
  qed
qed

text \<open>\<open>advance\<close> never passes more wall time than its limit nor more operational time than asked; it
  stops early only because the limit came; and operational time passes no faster than the factor
  times the fastest entry of the curve.\<close>

lemma advance_bounds:
  assumes "advance operational t limit start curve factor = Inr (wall, passed)"
    "speeds_below curve cap" "0 \<le> factor" "0 \<le> operational" "0 \<le> limit"
  shows "0 \<le> wall \<and> wall \<le> limit \<and> 0 \<le> passed \<and> passed \<le> operational
    \<and> (passed = operational \<or> wall = limit) \<and> passed \<le> factor * cap * wall"
proof -
  from assms(1) obtain l where p: "pass t limit start curve factor 0 operational = Inr (wall, l)"
    "passed = operational - max l 0" by (auto simp: advance_def rbind_Inr_iff)
  from pass_bounds[OF p(1) assms(2-5)] p(2) show ?thesis by auto
qed

text \<open>Without a curve and with a positive factor, time is only scaled.\<close>

lemma pass_flat:
  assumes "0 < factor" "0 \<le> left" "elapsed \<le> limit"
  shows "pass t limit start None factor elapsed left
    = Inr (min limit (elapsed + left / factor), max 0 (left - factor * (limit - elapsed)))"
  using assms
proof (induction t limit start "None :: pyfloat list option" factor elapsed left rule: pass.induct)
  case (1 t limit start factor elapsed left)
  let ?p = "pass t limit start None factor"
  note unf = pass.simps[of t limit start None factor elapsed left]
  show ?case
  proof (cases "0 < left \<and> elapsed < limit")
    case False
    with "1.prems" show ?thesis by (auto simp: unf min_def max_def field_simps mult_nonneg_nonneg)
  next
    case True
    let ?b = "boundary (start + round_even ((t + elapsed) * 1000000)) (limit - elapsed)"
    from True boundary_pos have b: "0 < ?b" "?b \<le> limit - elapsed" by auto
    show ?thesis
    proof (cases "left / factor \<le> ?b")
      case True
      with b have "left / factor \<le> limit - elapsed" by simp
      then have ends: "min limit (elapsed + left / factor) = elapsed + left / factor" "max 0 (left - factor * (limit - elapsed)) = 0"
        using "1.prems"(1) by (auto simp: min_def max_def field_simps)
      have "?p elapsed left = ?p (elapsed + left / factor) 0"
        using True \<open>0 < left \<and> elapsed < limit\<close> "1.prems"(1) by (subst unf) (simp add: multiplier_def Let_def)
      also have "\<dots> = Inr (elapsed + left / factor, 0)" by (simp add: pass.simps[of t limit start None factor _ 0])
      finally show ?thesis unfolding ends .
    next
      case False
      then have less: "factor * ?b < left" using "1.prems"(1) by (simp add: field_simps)
      have eqs: "elapsed + ?b + (left - ?b * (factor * 1)) / factor = elapsed + left / factor"
        "left - ?b * (factor * 1) - factor * (limit - (elapsed + ?b)) = left - factor * (limit - elapsed)"
        using "1.prems"(1) by (simp_all add: field_simps)
      have "?p elapsed left = ?p (elapsed + ?b) (left - ?b * (factor * 1))"
        using True False by (subst unf) (simp add: multiplier_def Let_def)
      also have "\<dots> = Inr (min limit (elapsed + left / factor), max 0 (left - factor * (limit - elapsed)))"
        unfolding eqs[symmetric]
        by (rule "1.hyps"(2)[OF True refl _ refl refl]) (use False less b "1.prems"(1) in \<open>auto simp: multiplier_def mult.commute\<close>)
      finally show ?thesis .
    qed
  qed
qed

text \<open>Without a rate curve \<open>advance\<close> is the linear time change: a holding time takes its length
  over the factor on the wall, unless the limit comes first.\<close>

lemma advance_flat:
  assumes "0 < factor" "0 \<le> operational" "0 \<le> limit"
  shows "advance operational t limit start None factor
    = Inr (min limit (operational / factor), min operational (factor * limit))"
  using pass_flat[OF assms, of t start] by (auto simp: advance_def min_def max_def)

lemma pass_total:
  assumes "\<And>local. \<exists>m. multiplier curve local = Inr m"
  shows "\<exists>e l. pass t limit start curve factor elapsed left = Inr (e, l)"
  using assms
proof (induction t limit start curve factor elapsed left rule: pass.induct)
  case (1 t limit start curve factor elapsed left)
  note unf = pass.simps[of t limit start curve factor elapsed left]
  show ?case
  proof (cases "0 < left \<and> elapsed < limit")
    case True
    let ?local = "start + round_even ((t + elapsed) * 1000000)"
    obtain m where m: "multiplier curve ?local = Inr m" using "1.prems" by blast
    from "1.IH"[OF True refl m refl refl _ "1.prems"] True m show ?thesis by (auto simp: unf Let_def)
  qed (auto simp: unf)
qed

lemma multiplier_total:
  assumes "case curve of None \<Rightarrow> True | Some c \<Rightarrow> length c = 24 \<or> length c = 168"
  shows "\<exists>m. multiplier curve local = Inr m"
proof -
  have "hour_of local < 24" "weekday_of local < 7" by (auto simp: hour_of_def weekday_of_def nat_less_iff)
  with assms show ?thesis by (auto simp: multiplier_def Let_def split: option.splits)
qed

section \<open>A generator for the examples\<close>

definition demo_random :: "nat random_source" where
  "demo_random = \<lparr>seeded = (\<lambda>n. n), uniform = (\<lambda>s. (1/2, Suc s)), randbelow = (\<lambda>n s. (s mod n, Suc s)),
     expovariate = (\<lambda>a s. (1 / a, Suc s)), lognormvariate = (\<lambda>a b s. (1, Suc s)),
     weibullvariate = (\<lambda>a b s. (a, Suc s))\<rparr>"

lemma demo_random_ok: "random_ok demo_random"
  by (simp add: random_ok_def demo_random_def)

end
