(* ===== verification/Agent.thy ===== *)
theory Agent
  imports Sampling Program Interfaces
begin

text \<open>
  The agent: what it holds a program to before anything runs
  (\<open>runtime/agent_linux/program.py\<close>) and the loop of one behaviour
  (\<open>runtime/behaviour/loop.py\<close>). The world the loop runs in (clock, stamps, attribution,
  implementations) is a record of functions, as the code takes them as arguments; one pass of the
  loop is a step on its state, which returns, goes on, or raises.
\<close>

section \<open>Holding a program\<close>

definition families :: "string list" where
  "families = [''exponential'', ''lognormal'', ''weibull'', ''empirical'']"

definition dwell_problem :: "distribution \<Rightarrow> msg option" where
  "dwell_problem d =
     (case dist_params d of
        Res n \<Rightarrow> Some [L ''parameters are the unresolved resource '', R n]
      | Inline ps \<Rightarrow>
          if dist_family d = ''exponential''
          then (if length ps \<noteq> 1 \<or> fl_le (ps ! 0) (Fin 0) then Some [L ''exponential takes one positive mean''] else None)
          else if dist_family d = ''lognormal''
          then (if length ps \<noteq> 2 \<or> fl_lt (ps ! 1) (Fin 0) then Some [L ''lognormal takes mu and a non-negative sigma''] else None)
          else if dist_family d = ''weibull''
          then (if length ps \<noteq> 2 \<or> fl_le (ps ! 0) (Fin 0) \<or> fl_le (ps ! 1) (Fin 0)
                then Some [L ''weibull takes a positive shape and a positive scale''] else None)
          else if dist_family d = ''empirical''
          then (if ps = [] \<or> list_ex (\<lambda>p. fl_lt p (Fin 0)) ps
                then Some [L ''empirical takes one or more non-negative samples''] else None)
          else Some ([L ''unknown family '', R (dist_family d), L ''; the agent knows ''] @ join_str '', '' families))"

definition behaviour_problems :: "program \<Rightarrow> resolved_behaviour \<Rightarrow> msg list" where
  "behaviour_problems p b =
     (let loc = [L ''behaviour '', R (rb_name b)]
      in (if length (rb_dwell b) \<noteq> length (rb_states b)
          then [loc @ [L '': '', I (length (rb_dwell b)), L '' dwell distributions for '', I (length (rb_states b)), L '' states'']]
          else [])
       @ concat (map (\<lambda>(st, d). case dwell_problem d of None \<Rightarrow> [] | Some m \<Rightarrow> [loc @ [L '', state '', R st, L '': ''] @ m])
           (zip (rb_states b) (rb_dwell b)))
       @ (case rb_rate b of
            None \<Rightarrow> []
          | Some c \<Rightarrow> if length c \<noteq> 24 \<and> length c \<noteq> 168
              then [loc @ [L '': a rate curve has 24 or 168 entries, not '', I (length c)]] else [])
       @ concat (map (\<lambda>(st, act).
            (if st \<notin> set (rb_states b) then [loc @ [L '': the action map names a state '', R st, L '' it lacks'']] else [])
            @ (case act of
                 None \<Rightarrow> []
               | Some a \<Rightarrow> if ra_signature a \<notin> set (dkeys (pg_impls p))
                   then [loc @ [L '', state '', R st, L '': no implementation selected for '', R (ra_signature a)]] else []))
           (rb_action_map b)))"

fun repr_arg :: "event_arg \<Rightarrow> msg" where
  "repr_arg (AStr s) = [R s]"
| "repr_arg (ANum x) = [FR x]"
| "repr_arg ANone = [L ''None'']"

definition event_problems :: "program \<Rightarrow> schedule_event \<Rightarrow> msg list" where
  "event_problems p e =
     (if ev_op e \<in> {OpStart, OpStop} \<and> (\<forall>b\<in>set (pg_behaviours p). ev_arg e \<noteq> AStr (rb_name b))
      then [[L ''schedule: '', L (op_str (ev_op e)), L '' ''] @ repr_arg (ev_arg e) @ [L '' names no behaviour of this instance'']] else [])
     @ (if ev_op e = OpSetRate \<and> (case ev_arg e of ANum x \<Rightarrow> fl_lt x (Fin 0) | _ \<Rightarrow> True)
        then [[L ''schedule: set_rate at '', FG (ev_at_s e), L '' s has no non-negative multiplier'']] else [])"

text \<open>The first problem is raised; none of the tests before it can raise anything else.\<close>

definition program_problems :: "program \<Rightarrow> msg list" where
  "program_problems p =
     concat (map (behaviour_problems p) (pg_behaviours p)) @ concat (map (event_problems p) (pg_schedule p))
     @ concat (map (\<lambda>sg. if sg \<notin> set (dkeys (pg_impls p)) then [[L ''services: no implementation selected for '', R sg]] else [])
         (pg_services p))"

definition validate :: "program \<Rightarrow> msg + unit" where
  "validate p = (case program_problems p of [] \<Rightarrow> Inr () | m # _ \<Rightarrow> Inl m)"

section \<open>The loop's world and state\<close>

record invocation_context =
  ic_label :: label_key
  ic_invocation :: string
  ic_targets :: "peer list"
  ic_ties :: "(string, peer list) dict"
  ic_variant :: "string option"

text \<open>\<open>wo_sleep now d\<close> is the time after sleeping \<open>d\<close>; \<open>wo_run\<close> is an implementation's run, which
  gives its outcome or raises, and takes time; \<open>wo_start\<close> is the local time the scenario
  starts at.\<close>

record 's world =
  wo_source :: "'s random_source"
  wo_digest :: "string \<Rightarrow> nat list"
  wo_start :: int
  wo_sleep :: "rat \<Rightarrow> rat \<Rightarrow> rat"
  wo_stamp :: "rat \<Rightarrow> clock_stamp"
  wo_principal :: "string \<Rightarrow> attribution_key"
  wo_run :: "invocation_context \<Rightarrow> string \<Rightarrow> (string, scalar) dict \<Rightarrow> rat \<Rightarrow> 's \<Rightarrow> outcome option \<times> rat \<times> 's"

record 's loop_state =
  lo_now :: rat
  lo_pending :: "schedule_event list"
  lo_factor :: rat
  lo_active :: bool
  lo_state :: "nat option"
  lo_left :: rat
  lo_n :: nat
  lo_behaviour :: 's
  lo_selection :: 's
  lo_impl :: 's
  lo_records :: "invocation_record list"

definition stream_id :: "string \<Rightarrow> string \<Rightarrow> string" where
  "stream_id instnc behaviour = instnc @ ''/'' @ behaviour"

definition own_events :: "program \<Rightarrow> resolved_behaviour \<Rightarrow> schedule_event list" where
  "own_events p b = sort_key (\<lambda>e. num (ev_at_s e))
     (filter (\<lambda>e. ev_op e = OpSetRate \<or> ev_op e \<in> {OpStart, OpStop} \<and> ev_arg e = AStr (rb_name b)) (pg_schedule p))"

definition loop_init :: "'s world \<Rightarrow> program \<Rightarrow> resolved_behaviour \<Rightarrow> rat \<Rightarrow> 's loop_state" where
  "loop_init w p b now =
     (let key = stream_id (pg_instance p) (rb_name b); gen = rng (wo_source w) (wo_digest w) (pg_seed p) key
      in \<lparr>lo_now = now, lo_pending = own_events p b, lo_factor = 1, lo_active = False, lo_state = None,
          lo_left = 0, lo_n = 0, lo_behaviour = gen BehaviourStream, lo_selection = gen SelectionStream,
          lo_impl = gen ImplStream, lo_records = []\<rparr>)"

section \<open>Entering a state\<close>

definition draw_param :: "'s world \<Rightarrow> resolved_param \<Rightarrow> 's \<Rightarrow> agent_error + scalar \<times> 's" where
  "draw_param w v s =
     (case v of
        RScalar x \<Rightarrow> Inr (x, s)
      | RChoice c \<Rightarrow> rbind (draw (wo_source w) (map num (ch_weights c)) s) (\<lambda>(i, s).
          if i < length (ch_options c) then Inr (ch_options c ! i, s) else Inl IndexErr))"

definition action_params :: "'s world \<Rightarrow> (string, resolved_param) dict \<Rightarrow> 's \<Rightarrow> agent_error + (string, scalar) dict \<times> 's" where
  "action_params w ps s = rfold (\<lambda>(k, v) (found, s).
     rbind (draw_param w v s) (\<lambda>(x, s). Inr (found @ [(k, x)], s))) ps ([], s)"

definition pick_targets :: "'s world \<Rightarrow> program \<Rightarrow> resolved_action \<Rightarrow> 's \<Rightarrow> peer list \<times> 's" where
  "pick_targets w p act s =
     (let peers = dget_or (pg_peers p) (ra_tie act) []
      in if ra_select act = Some SelOne
         then (if peers = [] then ([], s)
               else let (i, s) = randbelow (wo_source w) (length peers) s in ([peers ! i], s))
         else (peers, s))"

definition label_for :: "program \<Rightarrow> resolved_behaviour \<Rightarrow> string \<Rightarrow> string \<Rightarrow> impl_ref \<Rightarrow> peer list \<Rightarrow> label_key" where
  "label_for p b name invocation r aimed =
     \<lparr>lk_scenario = pg_scenario p, lk_instance = pg_instance p, lk_behaviour = rb_name b, lk_action = name,
      lk_invocation = invocation, lk_impl = if_impl r, lk_variant = if_variant r,
      lk_targets = map pe_instance aimed\<rparr>"

definition invoke :: "'s world \<Rightarrow> program \<Rightarrow> resolved_behaviour \<Rightarrow> string \<Rightarrow> resolved_action
    \<Rightarrow> 's loop_state \<Rightarrow> agent_error + 's loop_state" where
  "invoke w p b name act s =
     (let (aimed, sel) = pick_targets w p act (lo_selection s)
      in if aimed = [] then Inr (s\<lparr>lo_selection := sel\<rparr>)
         else let n = lo_n s + 1; invocation = invocation_id (pg_instance p) (rb_name b) n
           in rbind (or_raise (KeyErr (ra_signature act)) (dget (pg_impls p) (ra_signature act))) (\<lambda>choices.
              rbind (weighted (wo_source w) (map (\<lambda>(k, x). (k, num x)) choices) sel) (\<lambda>(chosen, sel).
              rbind (action_params w (ra_params act) sel) (\<lambda>(params, sel).
                let r = impl_ref_parse chosen; lab = label_for p b name invocation r aimed;
                    ctx = \<lparr>ic_label = lab, ic_invocation = invocation, ic_targets = aimed,
                      ic_ties = pg_peers p, ic_variant = if_variant r\<rparr>;
                    (outcome, now, gen) = wo_run w ctx (ra_signature act) params (lo_now s) (lo_impl s);
                    begun = wo_stamp w (lo_now s); ended = wo_stamp w now
                in Inr (s\<lparr>lo_n := n, lo_selection := sel, lo_impl := gen, lo_now := now,
                     lo_records := lo_records s @ [\<lparr>ir_key = lab, ir_principal = wo_principal w invocation,
                       ir_start = cs_wall begun, ir_end = cs_wall ended,
                       ir_outcome = (case outcome of None \<Rightarrow> Failed | Some x \<Rightarrow> x), ir_clock = begun\<rparr>]\<rparr>)))))"

definition enter :: "'s world \<Rightarrow> program \<Rightarrow> resolved_behaviour \<Rightarrow> nat \<Rightarrow> 's loop_state \<Rightarrow> agent_error + 's loop_state" where
  "enter w p b i s =
     (if length (rb_states b) \<le> i then Inl IndexErr
      else rbind (case dget (rb_action_map b) (rb_states b ! i) of
                    Some (Some act) \<Rightarrow> invoke w p b (rb_states b ! i) act s
                  | _ \<Rightarrow> Inr s) (\<lambda>s.
           if length (rb_dwell b) \<le> i then Inl IndexErr
           else rbind (dwell (wo_source w) (rb_dwell b ! i) (lo_behaviour s)) (\<lambda>(left, gen).
             Inr (s\<lparr>lo_state := Some i, lo_left := left, lo_behaviour := gen\<rparr>))))"

section \<open>One pass of the loop\<close>

definition apply_event :: "schedule_event \<Rightarrow> 's loop_state \<Rightarrow> agent_error + 's loop_state" where
  "apply_event e s =
     (case ev_op e of
        OpStart \<Rightarrow> Inr (if lo_active s then s else s\<lparr>lo_active := True, lo_state := None\<rparr>)
      | OpStop \<Rightarrow> Inr (s\<lparr>lo_active := False, lo_state := None\<rparr>)
      | OpSetRate \<Rightarrow> (case ev_arg e of ANum x \<Rightarrow> Inr (s\<lparr>lo_factor := num x\<rparr>) | _ \<Rightarrow> Inl AssertErr)
      | OpRunSequence \<Rightarrow> Inr s)"

definition due :: "rat \<Rightarrow> schedule_event \<Rightarrow> bool" where
  "due now e \<longleftrightarrow> num (ev_at_s e) \<le> now"

definition apply_due :: "'s loop_state \<Rightarrow> agent_error + 's loop_state" where
  "apply_due s = rbind (rfold apply_event (takeWhile (due (lo_now s)) (lo_pending s)) s)
     (\<lambda>s'. Inr (s'\<lparr>lo_pending := dropWhile (due (lo_now s)) (lo_pending s)\<rparr>))"

definition horizon :: "program \<Rightarrow> 's loop_state \<Rightarrow> rat" where
  "horizon p s = (case lo_pending s of [] \<Rightarrow> num (pg_duration_s p)
     | e # _ \<Rightarrow> min (num (pg_duration_s p)) (num (ev_at_s e)))"

text \<open>The pass after the events that are due; the result says whether the loop has returned.\<close>

definition loop_body :: "'s world \<Rightarrow> program \<Rightarrow> resolved_behaviour \<Rightarrow> 's loop_state
    \<Rightarrow> agent_error + bool \<times> 's loop_state" where
  "loop_body w p b s =
     (let now = lo_now s; limit = horizon p s - now
      in if num (pg_duration_s p) \<le> now then Inr (True, s)
         else if \<not> lo_active s then Inr (False, s\<lparr>lo_now := wo_sleep w now limit\<rparr>)
         else case lo_state s of
           None \<Rightarrow> rbind (draw (wo_source w) (map num (rb_initial b)) (lo_behaviour s)) (\<lambda>(i, gen).
             rbind (enter w p b i (s\<lparr>lo_behaviour := gen\<rparr>)) (\<lambda>s. Inr (False, s)))
         | Some i \<Rightarrow>
             rbind (advance (lo_left s) now limit (wo_start w) (rb_rate b) (lo_factor s)) (\<lambda>(wall, passed).
               let s = s\<lparr>lo_now := wo_sleep w now wall, lo_left := lo_left s - passed\<rparr>
               in if 0 < lo_left s then Inr (False, s)
                  else if length (rb_transitions b) \<le> i then Inl IndexErr
                  else rbind (draw (wo_source w) (map num (rb_transitions b ! i)) (lo_behaviour s)) (\<lambda>(k, gen).
                    rbind (enter w p b k (s\<lparr>lo_behaviour := gen\<rparr>)) (\<lambda>s. Inr (False, s)))))"

definition loop_step :: "'s world \<Rightarrow> program \<Rightarrow> resolved_behaviour \<Rightarrow> 's loop_state
    \<Rightarrow> agent_error + bool \<times> 's loop_state" where
  "loop_step w p b s = rbind (apply_due s) (loop_body w p b)"

fun loop_run :: "'s world \<Rightarrow> program \<Rightarrow> resolved_behaviour \<Rightarrow> nat \<Rightarrow> 's loop_state
    \<Rightarrow> agent_error + bool \<times> 's loop_state" where
  "loop_run w p b 0 s = Inr (False, s)"
| "loop_run w p b (Suc n) s = rbind (loop_step w p b s) (\<lambda>(returned, s).
     if returned then Inr (True, s) else loop_run w p b n s)"

inductive reaches :: "'s world \<Rightarrow> program \<Rightarrow> resolved_behaviour \<Rightarrow> 's loop_state \<Rightarrow> bool"
  for w p b where
  init: "reaches w p b (loop_init w p b now)"
| step: "reaches w p b s \<Longrightarrow> loop_step w p b s = Inr (returned, s') \<Longrightarrow> reaches w p b s'"

inductive_cases reaches_cases: "reaches w p b s"

section \<open>What is recorded\<close>

text \<open>What a record says is what the program says: the action of its state, aimed at peers of the
  action's tie, through an implementation chosen for its signature.\<close>

definition record_ok :: "program \<Rightarrow> resolved_behaviour \<Rightarrow> invocation_record \<Rightarrow> bool" where
  "record_ok p b v \<longleftrightarrow> (\<exists>act choices choice weight.
     lk_scenario (ir_key v) = pg_scenario p \<and> lk_instance (ir_key v) = pg_instance p \<and> lk_behaviour (ir_key v) = rb_name b
     \<and> dget (rb_action_map b) (lk_action (ir_key v)) = Some (Some act)
     \<and> lk_targets (ir_key v) \<noteq> []
     \<and> set (lk_targets (ir_key v)) \<subseteq> pe_instance ` set (dget_or (pg_peers p) (ra_tie act) [])
     \<and> (if ra_select act = Some SelOne then length (lk_targets (ir_key v)) = 1
         else lk_targets (ir_key v) = map pe_instance (dget_or (pg_peers p) (ra_tie act) []))
     \<and> dget (pg_impls p) (ra_signature act) = Some choices \<and> dget choices choice = Some weight \<and> 0 < num weight
     \<and> lk_impl (ir_key v) = if_impl (impl_ref_parse choice) \<and> lk_variant (ir_key v) = if_variant (impl_ref_parse choice))"

definition kept :: "'s loop_state \<Rightarrow> 's loop_state \<Rightarrow> bool" where
  "kept s s' \<longleftrightarrow> lo_n s' = lo_n s \<and> lo_records s' = lo_records s \<and> lo_impl s' = lo_impl s"

definition recorded :: "program \<Rightarrow> resolved_behaviour \<Rightarrow> 's loop_state \<Rightarrow> 's loop_state \<Rightarrow> bool" where
  "recorded p b s s' \<longleftrightarrow> (\<exists>v. lo_n s' = lo_n s + 1 \<and> lo_records s' = lo_records s @ [v]
     \<and> lk_invocation (ir_key v) = invocation_id (pg_instance p) (rb_name b) (lo_n s + 1) \<and> record_ok p b v)"

definition weights_ok :: "program \<Rightarrow> bool" where
  "weights_ok p \<longleftrightarrow> (\<forall>(sg, choices)\<in>set (pg_impls p). \<forall>(k, x)\<in>set choices. 0 \<le> num x)"

lemma dget_num: "dget (map (\<lambda>(k, x). (k, num x)) d) k = map_option num (dget d k)"
  by (induction d) auto

lemma pick_targets_in:
  assumes "random_ok (wo_source w)" "pick_targets w p act gen = (aimed, sel)"
  shows "set aimed \<subseteq> set (dget_or (pg_peers p) (ra_tie act) [])
    \<and> (if ra_select act = Some SelOne then length aimed \<le> 1 else aimed = dget_or (pg_peers p) (ra_tie act) [])"
proof -
  let ?peers = "dget_or (pg_peers p) (ra_tie act) []"
  have "fst (randbelow (wo_source w) (length ?peers) gen) < length ?peers" if "?peers \<noteq> []"
    using assms(1) that by (auto simp: random_ok_def)
  with assms(2) show ?thesis
    by (auto simp: pick_targets_def Let_def case_prod_unfold split: if_splits)
qed

lemma invoke_records:
  assumes "random_ok (wo_source w)" "weights_ok p" "dget (rb_action_map b) name = Some (Some act)"
    "invoke w p b name act s = Inr s'"
  shows "kept s s' \<or> recorded p b s s'"
proof -
  obtain aimed sel where aim: "pick_targets w p act (lo_selection s) = (aimed, sel)" by fastforce
  note a = pick_targets_in[OF assms(1) aim]
  show ?thesis
  proof (cases "aimed = []")
    case True
    with assms(4) aim have "kept s s'" by (auto simp: invoke_def kept_def)
    then show ?thesis ..
  next
    case False
    with assms(4) aim obtain choices chosen sel1 v where
      c: "dget (pg_impls p) (ra_signature act) = Some choices"
        "weighted (wo_source w) (map (\<lambda>(k, x). (k, num x)) choices) sel = Inr (chosen, sel1)"
      and s': "lo_n s' = lo_n s + 1" "lo_records s' = lo_records s @ [v]"
      and v: "ir_key v = label_for p b name (invocation_id (pg_instance p) (rb_name b) (lo_n s + 1)) (impl_ref_parse chosen) aimed"
      by (auto simp: invoke_def Let_def rbind_Inr_iff case_prod_unfold or_raise_def split: option.splits)
    from assms(2) c(1) have "\<forall>(k, x)\<in>set (map (\<lambda>(k, x). (k, num x)) choices). 0 \<le> x"
      by (fastforce simp: weights_ok_def dest: dget_Some_in)
    from weighted_key[OF assms(1) this c(2)] obtain weight where "dget choices chosen = Some weight" "0 < num weight"
      by (auto simp: dget_num)
    with a False c(1) assms(3) v have "record_ok p b v"
      by (auto simp: record_ok_def label_for_def le_Suc_eq length_Suc_conv)
    with s' v show ?thesis by (auto simp: recorded_def label_for_def)
  qed
qed

definition untouched :: "'s loop_state \<Rightarrow> 's loop_state \<Rightarrow> bool" where
  "untouched s s' \<longleftrightarrow> kept s s' \<and> lo_now s' = lo_now s \<and> lo_left s' = lo_left s"

interpretation untouched: state_relation untouched
  by unfold_locales (simp_all add: untouched_def kept_def)

lemma apply_event_untouched: "apply_event e s = Inr s' \<Longrightarrow> untouched s s'"
  by (auto simp: apply_event_def untouched_def kept_def split: schedule_op.splits event_arg.splits if_splits)

lemmas apply_events_untouched = untouched.rfold_related[OF apply_event_untouched]

lemma apply_due_kept:
  assumes "apply_due s = Inr s'"
  shows "kept s s' \<and> lo_now s' = lo_now s \<and> lo_left s' = lo_left s \<and> lo_pending s' = dropWhile (due (lo_now s)) (lo_pending s)"
proof -
  from assms obtain s1 where s1: "rfold apply_event (takeWhile (due (lo_now s)) (lo_pending s)) s = Inr s1"
    "s' = s1\<lparr>lo_pending := dropWhile (due (lo_now s)) (lo_pending s)\<rparr>" by (auto simp: apply_due_def rbind_Inr_iff)
  with apply_events_untouched[OF _ s1(1)] show ?thesis by (simp add: untouched_def kept_def)
qed

text \<open>Only an invocation changes what the passes of a loop keep: a relation that the invocations
  of a behaviour are in, and that does not see the rest of a pass, holds across a whole pass.\<close>

locale pass_relation =
  fixes rel :: "'s loop_state \<Rightarrow> 's loop_state \<Rightarrow> bool"
  assumes kept_rel: "kept s s' \<Longrightarrow> rel s s'"
    and rel_kept: "kept s t \<Longrightarrow> rel t u \<Longrightarrow> kept u s' \<Longrightarrow> rel s s'"
begin

definition invoking :: "'s world \<Rightarrow> program \<Rightarrow> resolved_behaviour \<Rightarrow> bool" where
  "invoking w p b \<longleftrightarrow> (\<forall>name act s s'. dget (rb_action_map b) name = Some (Some act)
     \<longrightarrow> invoke w p b name act s = Inr s' \<longrightarrow> rel s s')"

lemma enter_rel:
  assumes "invoking w p b" "enter w p b i s = Inr s'"
  shows "rel s s'"
proof -
  from assms(2) obtain s1 left gen where
    s1: "(case dget (rb_action_map b) (rb_states b ! i) of
            Some (Some act) \<Rightarrow> invoke w p b (rb_states b ! i) act s | _ \<Rightarrow> Inr s) = Inr s1"
    and s': "s' = s1\<lparr>lo_state := Some i, lo_left := left, lo_behaviour := gen\<rparr>"
    by (auto simp: enter_def rbind_Inr_iff split: if_splits)
  from s1 assms(1) have "rel s s1"
    by (auto simp: invoking_def kept_def intro: kept_rel split: option.splits)
  with s' show ?thesis by (auto simp: kept_def intro: rel_kept[of s s s1])
qed

lemma loop_body_rel:
  assumes "invoking w p b" "loop_body w p b s = Inr (returned, s')"
  shows "rel s s'"
proof -
  have enter: "rel s s'" if "enter w p b i (s1\<lparr>lo_behaviour := gen\<rparr>) = Inr s'" "kept s s1" for i gen s1
    using rel_kept[OF _ enter_rel[OF assms(1) that(1)], of s s'] that(2) by (simp add: kept_def)
  from assms(2) have "kept s s' \<or> rel s s'"
    by (auto simp: loop_body_def Let_def rbind_Inr_iff case_prod_unfold kept_def
        split: if_splits option.splits dest!: enter)
  then show ?thesis by (auto intro: kept_rel)
qed

lemma loop_step_rel:
  assumes "invoking w p b" "loop_step w p b s = Inr (returned, s')"
  shows "rel s s'"
proof -
  from assms(2) obtain s1 where s1: "apply_due s = Inr s1" "loop_body w p b s1 = Inr (returned, s')"
    by (auto simp: loop_step_def rbind_Inr_iff)
  from apply_due_kept[OF s1(1)] have "kept s s1" by simp
  from rel_kept[OF this loop_body_rel[OF assms(1) s1(2)]] show ?thesis by (simp add: kept_def)
qed

end

interpretation recording: pass_relation "\<lambda>s s'. kept s s' \<or> recorded p b s s'" for p b
  by unfold_locales (auto simp: kept_def recorded_def)

lemma invoking_records: "random_ok (wo_source w) \<Longrightarrow> weights_ok p \<Longrightarrow> recording.invoking p b w p b"
  by (auto simp: recording.invoking_def dest: invoke_records)

lemmas loop_step_records = recording.loop_step_rel[OF invoking_records]

lemma loop_records_ok:
  assumes "random_ok (wo_source w)" "weights_ok p" "reaches w p b s"
  shows "map (\<lambda>v. lk_invocation (ir_key v)) (lo_records s)
      = map (invocation_id (pg_instance p) (rb_name b)) [1..<Suc (lo_n s)]
    \<and> list_all (record_ok p b) (lo_records s)"
  using assms(3)
proof induction
  case (init now)
  show ?case by (simp add: loop_init_def Let_def)
next
  case (step s returned s')
  from loop_step_records[OF assms(1,2) step.hyps(2)] step.IH show ?case by (auto simp: kept_def recorded_def)
qed

text \<open>C26: Whatever the clock, the implementations and the random numbers do, the records of a loop carry
  the invocation ids \<open>instance/behaviour#1\<close> to \<open>#n\<close> in this order, and each is justified by the
  program: its action is mapped to a state of the behaviour, its targets are peers of the action's
  tie (one of them for \<open>select="one"\<close>, otherwise all), and its implementation and variant have a
  positive weight among the choices for the action's signature.\<close>

theorem loop_records_justified:
  assumes "random_ok (wo_source w)" "weights_ok p" "reaches w p b s"
  shows "map (\<lambda>v. lk_invocation (ir_key v)) (lo_records s)
      = map (invocation_id (pg_instance p) (rb_name b)) [1..<Suc (lo_n s)]
    \<and> list_all (record_ok p b) (lo_records s)"
  by (rule loop_records_ok[OF assms])

section \<open>A behaviour for the examples\<close>

definition demo_get :: resolved_behaviour where
  "demo_get = \<lparr>rb_name = ''b'', rb_states = [''get'', ''idle''], rb_initial = [Fin 1, Fin 0],
     rb_transitions = [[Fin 0, Fin 1], [Fin 1, Fin 0]],
     rb_dwell = [\<lparr>dist_family = ''empirical'', dist_params = Inline [Fin 60]\<rparr>,
       \<lparr>dist_family = ''exponential'', dist_params = Inline [Fin 30]\<rparr>],
     rb_rate = None,
     rb_action_map = [(''get'', Some \<lparr>ra_signature = ''h.c'', ra_tie = ''t'',
       ra_params = [(''n'', RChoice \<lparr>ch_options = [SInt 1, SInt 2], ch_weights = [Fin 1, Fin 3]\<rparr>)], ra_select = Some SelOne\<rparr>)]\<rparr>"

definition demo_get_program :: program where
  "demo_get_program = \<lparr>pg_scenario = ''sc'', pg_instance = ''g/c[0]'', pg_group = ''g'', pg_kind = ''c'', pg_platform = Linux,
     pg_hostname = ''g-c-0'', pg_seed = 7, pg_start = ''2026-01-05'', pg_duration_s = Fin 200, pg_behaviours = [demo_get],
     pg_impls = [(''h.c'', [(''curl:fast'', Fin 1)])], pg_services = [],
     pg_peers = [(''t'', [\<lparr>pe_instance = ''g/s[0]'', pe_address = ''10.0.0.2'', pe_served = []\<rparr>])], pg_routes = [],
     pg_schedule = [\<lparr>ev_at_s = Fin 10, ev_target = ''g'', ev_op = OpStart, ev_arg = AStr ''b''\<rparr>,
       \<lparr>ev_at_s = Fin 100, ev_target = ''g'', ev_op = OpSetRate, ev_arg = ANum (Fin 2)\<rparr>],
     pg_forwards = False, pg_credentials = None\<rparr>"

definition demo_world :: "nat world" where
  "demo_world = \<lparr>wo_source = demo_random, wo_digest = (\<lambda>_. [1, 2]), wo_start = 0, wo_sleep = (\<lambda>now d. now + d),
     wo_stamp = (\<lambda>now. \<lparr>cs_wall = now + 5, cs_monotonic = now, cs_offset = 5\<rparr>),
     wo_principal = (\<lambda>_. \<lparr>ak_platform = Linux, ak_principal = ''cgroup:1''\<rparr>),
     wo_run = (\<lambda>ctx sg params now s. (if ic_variant ctx = None then None else Some Succeeded, now + 2, Suc s))\<rparr>"

definition demo_loop :: "nat \<Rightarrow> agent_error + bool \<times> nat loop_state" where
  "demo_loop n = loop_run demo_world demo_get_program demo_get n (loop_init demo_world demo_get_program demo_get 0)"

lemma demo_weights: "weights_ok demo_get_program"
  by (simp add: weights_ok_def demo_get_program_def num_def)

lemma loop_run_reaches: "reaches w p b s \<Longrightarrow> loop_run w p b n s = Inr (returned, s') \<Longrightarrow> reaches w p b s'"
proof (induction n arbitrary: s)
  case (Suc n)
  then obtain r s1 where s1: "loop_step w p b s = Inr (r, s1)" "if r then s' = s1 else loop_run w p b n s1 = Inr (returned, s')"
    by (auto simp: rbind_Inr_iff split: if_splits)
  with reaches.step[OF Suc.prems(1) s1(1)] Suc.IH[of s1] show ?case by (auto split: if_splits)
qed simp

lemma demo_loop_twice: "map_sum id (\<lambda>(r, s). (r, lo_n s, map ir_start (lo_records s))) (demo_loop 5) = Inr (False, 2, [15, 106])"
  by code_simp

theorem loop_records_justified_witness:
  "\<exists>s. demo_loop 5 = Inr (False, s)
    \<and> map (\<lambda>v. lk_invocation (ir_key v)) (lo_records s) = [''g/c[0]/b#1'', ''g/c[0]/b#2'']
    \<and> list_all (record_ok demo_get_program demo_get) (lo_records s)"
proof -
  from demo_loop_twice obtain s where s: "demo_loop 5 = Inr (False, s)" "lo_n s = 2"
    by (cases "demo_loop 5") auto
  have "random_ok (wo_source demo_world)" using demo_random_ok by (simp add: demo_world_def)
  note loop_records_justified[OF this demo_weights loop_run_reaches[OF reaches.init s(1)[unfolded demo_loop_def]]] s
  moreover have "map (invocation_id (pg_instance demo_get_program) (rb_name demo_get)) [1..<Suc 2] = [''g/c[0]/b#1'', ''g/c[0]/b#2'']"
    by code_simp
  ultimately show ?thesis by simp
qed

end
