(* ===== verification/Agent_Runs.thy ===== *)
theory Agent_Runs
  imports Agent
begin

text \<open>
  The loop runs to its end: a program the agent has validated, whose processes and choices are as
  the checks want them, never makes the loop raise; and if its holding times do not get
  arbitrarily short, the loop returns once the program's duration has passed.
\<close>

section \<open>A program the loop can run\<close>

definition row_ok :: "nat \<Rightarrow> pyfloat list \<Rightarrow> bool" where
  "row_ok n row \<longleftrightarrow> length row = n \<and> list_all (\<lambda>x. 0 \<le> num x) row \<and> 0 < sum_list (map num row)"

definition process_ok :: "resolved_behaviour \<Rightarrow> bool" where
  "process_ok b \<longleftrightarrow> row_ok (length (rb_states b)) (rb_initial b)
     \<and> length (rb_transitions b) = length (rb_states b) \<and> list_all (row_ok (length (rb_states b))) (rb_transitions b)"

definition choices_ok :: "program \<Rightarrow> bool" where
  "choices_ok p \<longleftrightarrow> list_all (\<lambda>(sg, choices). choices \<noteq> [] \<and> dict_ok choices \<and> list_all (\<lambda>(k, x). 0 < num x) choices) (pg_impls p)"

fun param_ok :: "resolved_param \<Rightarrow> bool" where
  "param_ok (RScalar x) = True"
| "param_ok (RChoice c) \<longleftrightarrow> ch_options c \<noteq> [] \<and> length (ch_weights c) = length (ch_options c)
     \<and> list_all (\<lambda>x. 0 < num x) (ch_weights c)"

definition params_ok :: "resolved_behaviour \<Rightarrow> bool" where
  "params_ok b \<longleftrightarrow> list_all (\<lambda>(st, act). case act of None \<Rightarrow> True | Some a \<Rightarrow> list_all (\<lambda>(k, v). param_ok v) (ra_params a))
     (rb_action_map b)"

definition dwells_finite :: "resolved_behaviour \<Rightarrow> bool" where
  "dwells_finite b \<longleftrightarrow> list_all (\<lambda>d. case dist_params d of Res _ \<Rightarrow> True | Inline ps \<Rightarrow> list_all fl_isfinite ps) (rb_dwell b)"

definition runnable :: "program \<Rightarrow> resolved_behaviour \<Rightarrow> bool" where
  "runnable p b \<longleftrightarrow> process_ok b \<and> choices_ok p \<and> params_ok b \<and> dwells_finite b"

lemma choices_weights: "choices_ok p \<Longrightarrow> weights_ok p"
  by (force simp: choices_ok_def weights_ok_def list_all_iff)

section \<open>What validation gives\<close>

lemma validated_behaviour:
  assumes "validate p = Inr ()" "b \<in> set (pg_behaviours p)"
  shows "length (rb_dwell b) = length (rb_states b) \<and> (\<forall>d\<in>set (rb_dwell b). dwell_problem d = None)
    \<and> (case rb_rate b of None \<Rightarrow> True | Some c \<Rightarrow> length c = 24 \<or> length c = 168)
    \<and> (\<forall>st a. (st, Some a) \<in> set (rb_action_map b) \<longrightarrow> ra_signature a \<in> set (dkeys (pg_impls p)))"
proof -
  from assms have nil: "behaviour_problems p b = []"
    by (auto simp: validate_def program_problems_def split: list.splits)
  then have len: "length (rb_dwell b) = length (rb_states b)"
    by (auto simp: behaviour_problems_def Let_def split: if_splits)
  have "dwell_problem d = None" if "d \<in> set (rb_dwell b)" for d
  proof -
    from that len obtain st where "(st, d) \<in> set (zip (rb_states b) (rb_dwell b))"
      by (metis in_set_impl_in_set_zip2)
    with nil show ?thesis by (fastforce simp: behaviour_problems_def Let_def split: option.splits)
  qed
  moreover have "case rb_rate b of None \<Rightarrow> True | Some c \<Rightarrow> length c = 24 \<or> length c = 168"
    using nil by (auto simp: behaviour_problems_def Let_def split: option.splits if_splits)
  moreover have "ra_signature a \<in> set (dkeys (pg_impls p))" if "(st, Some a) \<in> set (rb_action_map b)" for st a
    using nil that by (fastforce simp: behaviour_problems_def Let_def split: if_splits)
  ultimately show ?thesis using len by blast
qed

lemma validated_event:
  assumes "validate p = Inr ()" "e \<in> set (pg_schedule p)" "ev_op e = OpSetRate"
  shows "\<exists>x. ev_arg e = ANum x \<and> 0 \<le> num x"
proof -
  from assms(1,2) have "event_problems p e = []"
    by (auto simp: validate_def program_problems_def split: list.splits)
  with assms(3) show ?thesis
    by (auto simp: event_problems_def num_def split: event_arg.splits if_splits pyfloat.splits)
qed

lemma list_two: "length ps = 2 \<longleftrightarrow> (\<exists>x y. ps = [x, y])"
  by (cases ps; cases "tl ps") auto

lemma list_one: "length ps = Suc 0 \<longleftrightarrow> (\<exists>x. ps = [x])"
  by (cases ps) auto

lemma finite_num: "fl_isfinite x \<longleftrightarrow> (\<exists>q. x = Fin q)"
  by (cases x) auto

lemma dwell_total:
  assumes G: "random_ok G" and d: "dwell_problem d = None" and p: "dist_params d = Inline ps" "list_all fl_isfinite ps"
  shows "\<exists>x s'. dwell G d s = Inr (x, s') \<and> 0 \<le> x"
proof -
  note g = G[unfolded random_ok_def]
  have "dist_family d \<in> set families"
    using d p(1) by (simp add: dwell_problem_def families_def split: if_splits)
  then consider "dist_family d = ''exponential''" | "dist_family d = ''lognormal''" | "dist_family d = ''weibull''"
    | "dist_family d = ''empirical''" by (auto simp: families_def)
  then show ?thesis
  proof cases
    case 1
    with d p(1) have "length ps = Suc 0" "\<not> fl_le (ps ! 0) (Fin 0)" by (simp_all add: dwell_problem_def split: if_splits)
    with p(2) obtain q where "ps = [Fin q]" "0 < q" by (auto simp: list_one finite_num)
    moreover from this g have "0 \<le> fst (expovariate G (1 / q) s)" by simp
    ultimately show ?thesis using 1 p(1) by (simp add: dwell_def num_def) (metis prod.collapse)
  next
    case 2
    with d p(1) have "length ps = 2" by (simp add: dwell_problem_def split: if_splits)
    moreover have "0 \<le> fst (lognormvariate G x y s)" for x y using g by blast
    ultimately show ?thesis using 2 p(1) by (simp add: dwell_def) (metis prod.collapse)
  next
    case 3
    with d p(1) have "length ps = 2" "\<not> fl_le (ps ! 0) (Fin 0)" "\<not> fl_le (ps ! 1) (Fin 0)"
      by (simp_all add: dwell_problem_def split: if_splits)
    with p(2) obtain m q where "ps = [Fin m, Fin q]" "0 < m" "0 < q" by (auto simp: list_two finite_num)
    moreover from this g have "0 \<le> fst (weibullvariate G q m s)" by simp
    ultimately show ?thesis using 3 p(1) by (simp add: dwell_def num_def) (metis prod.collapse)
  next
    case 4
    with d p(1) have e: "ps \<noteq> []" "\<not> list_ex (\<lambda>p. fl_lt p (Fin 0)) ps" by (simp_all add: dwell_problem_def split: if_splits)
    with g have i: "fst (randbelow G (length ps) s) < length ps" by simp
    with e(2) have "\<not> fl_lt (ps ! fst (randbelow G (length ps) s)) (Fin 0)" by (simp add: list_ex_iff)
    then have "0 \<le> num (ps ! fst (randbelow G (length ps) s))"
      by (cases "ps ! fst (randbelow G (length ps) s)") (auto simp: num_def)
    with 4 p(1) e(1) show ?thesis by (simp add: dwell_def case_prod_unfold Let_def)
  qed
qed

lemma sum_positive: "xs \<noteq> [] \<Longrightarrow> \<forall>x\<in>set xs. 0 < x \<Longrightarrow> 0 < sum_list xs" for xs :: "rat list"
proof (induction xs)
  case (Cons x xs)
  then show ?case by (cases xs) auto
qed simp

section \<open>No pass raises\<close>

lemma row_draw:
  assumes "random_ok G" "row_ok n row"
  shows "\<exists>i s'. draw G (map num row) s = Inr (i, s') \<and> i < n"
proof -
  from assms(2) have "map num row \<noteq> []" by (auto simp: row_ok_def)
  from draw_total[OF this, of G s] assms(2) obtain i s' where d: "draw G (map num row) s = Inr (i, s')"
    by (auto simp: row_ok_def)
  from draw_positive[OF assms(1) _ d] assms(2) d show ?thesis by (auto simp: row_ok_def list_all_iff)
qed

lemma draw_param_total:
  assumes "random_ok (wo_source w)" "param_ok v"
  shows "\<exists>x s'. draw_param w v s = Inr (x, s')"
proof (cases v)
  case (RChoice c)
  with assms(2) have c: "ch_options c \<noteq> []" "length (ch_weights c) = length (ch_options c)" "list_all (\<lambda>x. 0 < num x) (ch_weights c)"
    by auto
  then have "0 < sum_list (map num (ch_weights c))" by (intro sum_positive) (auto simp: list_all_iff)
  with c have "row_ok (length (ch_options c)) (ch_weights c)" by (auto simp: row_ok_def list_all_iff)
  from row_draw[OF assms(1) this, of s] RChoice show ?thesis by (auto simp: draw_param_def)
qed (simp add: draw_param_def)

lemma action_params_total:
  assumes "random_ok (wo_source w)" "list_all (\<lambda>(k, v). param_ok v) ps"
  shows "\<exists>x. action_params w ps s = Inr x"
proof -
  have "\<exists>x. rfold (\<lambda>(k, v) (found, s). rbind (draw_param w v s) (\<lambda>(x, s). Inr (found @ [(k, x)], s))) ps (found, s) = Inr x" for found
    using assms(2)
  proof (induction ps arbitrary: found s)
    case (Cons kv ps)
    obtain k v where kv: "kv = (k, v)" by fastforce
    with Cons.prems draw_param_total[OF assms(1), of v s] obtain x s' where "draw_param w v s = Inr (x, s')" by auto
    with kv Cons show ?case by auto
  qed simp
  then show ?thesis by (simp add: action_params_def)
qed

text \<open>A clock that does not wake early and implementations that do not take negative time.\<close>

definition world_ok :: "'s world \<Rightarrow> bool" where
  "world_ok w \<longleftrightarrow> random_ok (wo_source w) \<and> (\<forall>t d. 0 \<le> d \<longrightarrow> t + d \<le> wo_sleep w t d)
     \<and> (\<forall>ctx sg params now s. now \<le> fst (snd (wo_run w ctx sg params now s)))"

lemma invoke_total:
  assumes "world_ok w" "choices_ok p" "list_all (\<lambda>(k, v). param_ok v) (ra_params act)"
    "ra_signature act \<in> set (dkeys (pg_impls p))"
  shows "\<exists>s'. invoke w p b name act s = Inr s'"
proof -
  obtain aimed sel where aim: "pick_targets w p act (lo_selection s) = (aimed, sel)" by fastforce
  from assms(4) obtain choices where c: "dget (pg_impls p) (ra_signature act) = Some choices"
    using dget_None_iff[of "pg_impls p" "ra_signature act"] by (auto simp: dkeys_def)
  then have "choices \<noteq> []" "dict_ok choices" "list_all (\<lambda>(k, x). 0 < num x) choices"
    using assms(2) by (auto simp: choices_ok_def list_all_iff dest!: dget_Some_in)
  then have "dkeys (map (\<lambda>(k, x). (k, num x)) choices) \<noteq> []" "dict_ok (map (\<lambda>(k, x). (k, num x)) choices)"
    "\<forall>(k, x)\<in>set (map (\<lambda>(k, x). (k, num x)) choices). 0 < x"
    by (auto simp: dkeys_def dict_ok_def list_all_iff comp_def case_prod_unfold)
  from weighted_total[OF this, of "wo_source w" sel] obtain k sel1 where
    k: "weighted (wo_source w) (map (\<lambda>(k, x). (k, num x)) choices) sel = Inr (k, sel1)" by blast
  from assms(1) have "random_ok (wo_source w)" by (simp add: world_ok_def)
  from action_params_total[OF this assms(3), of sel1] obtain ps where "action_params w (ra_params act) sel1 = Inr ps" ..
  with aim c k show ?thesis
    by (auto simp: invoke_def Let_def or_raise_def case_prod_unfold)
qed

lemma invoke_frame:
  assumes "world_ok w" "invoke w p b name act s = Inr s'"
  shows "lo_pending s' = lo_pending s \<and> lo_factor s' = lo_factor s \<and> lo_active s' = lo_active s \<and> lo_now s \<le> lo_now s'"
  using assms by (auto simp: invoke_def world_ok_def Let_def rbind_Inr_iff case_prod_unfold split: if_splits)

definition framed :: "'s loop_state \<Rightarrow> 's loop_state \<Rightarrow> bool" where
  "framed s s' \<longleftrightarrow> lo_pending s' = lo_pending s \<and> lo_factor s' = lo_factor s \<and> lo_active s' = lo_active s \<and> lo_now s \<le> lo_now s'"

lemma enter_total:
  assumes w: "world_ok w" and valid: "validate p = Inr ()" "b \<in> set (pg_behaviours p)" and run: "runnable p b"
    and i: "i < length (rb_states b)"
  shows "\<exists>s' x gen. enter w p b i s = Inr s' \<and> lo_state s' = Some i \<and> 0 \<le> lo_left s' \<and> framed s s'
    \<and> dwell (wo_source w) (rb_dwell b ! i) gen = Inr (lo_left s', x)"
proof -
  note v = validated_behaviour[OF valid]
  let ?act = "case dget (rb_action_map b) (rb_states b ! i) of
      Some (Some act) \<Rightarrow> invoke w p b (rb_states b ! i) act s | _ \<Rightarrow> Inr s"
  have "\<exists>s1. ?act = Inr s1 \<and> framed s s1"
  proof (cases "dget (rb_action_map b) (rb_states b ! i)")
    case (Some a)
    show ?thesis
    proof (cases a)
      case (Some act)
      with \<open>dget _ _ = Some a\<close> have act: "(rb_states b ! i, Some act) \<in> set (rb_action_map b)" by (auto dest: dget_Some_in)
      from run have "choices_ok p" by (simp add: runnable_def)
      moreover from run act have "list_all (\<lambda>(k, v). param_ok v) (ra_params act)"
        by (force simp: runnable_def params_ok_def list_all_iff)
      moreover from v act have "ra_signature act \<in> set (dkeys (pg_impls p))" by blast
      ultimately obtain s1 where s1: "invoke w p b (rb_states b ! i) act s = Inr s1" using invoke_total[OF w] by blast
      from s1 invoke_frame[OF w s1] Some \<open>dget _ _ = Some a\<close> show ?thesis by (simp add: framed_def)
    qed (simp add: Some framed_def)
  qed (simp add: framed_def)
  then obtain s1 where s1: "?act = Inr s1" "framed s s1" by blast
  from v i have d: "rb_dwell b ! i \<in> set (rb_dwell b)" "dwell_problem (rb_dwell b ! i) = None" by auto
  then obtain ps where ps: "dist_params (rb_dwell b ! i) = Inline ps" by (auto simp: dwell_problem_def split: ref.splits)
  with run d(1) have "list_all fl_isfinite ps" by (force simp: runnable_def dwells_finite_def list_all_iff)
  from dwell_total[OF _ d(2) ps this] w obtain left gen where
    "dwell (wo_source w) (rb_dwell b ! i) (lo_behaviour s1) = Inr (left, gen)" "0 \<le> left" by (metis world_ok_def)
  with s1 i v show ?thesis by (auto simp: enter_def framed_def)
qed

definition fit_state :: "program \<Rightarrow> resolved_behaviour \<Rightarrow> rat \<Rightarrow> 's loop_state \<Rightarrow> bool" where
  "fit_state p b top_factor s \<longleftrightarrow> (\<forall>i. lo_state s = Some i \<longrightarrow> i < length (rb_states b)) \<and> 0 \<le> lo_left s
     \<and> 0 \<le> lo_factor s \<and> lo_factor s \<le> top_factor \<and> set (lo_pending s) \<subseteq> set (pg_schedule p)"

definition factors_below :: "program \<Rightarrow> rat \<Rightarrow> bool" where
  "factors_below p f \<longleftrightarrow> 1 \<le> f \<and> (\<forall>e\<in>set (pg_schedule p). \<forall>x. ev_op e = OpSetRate \<longrightarrow> ev_arg e = ANum x \<longrightarrow> num x \<le> f)"

lemma factors_below_ex: "\<exists>f. factors_below p f"
proof -
  let ?xs = "1 # map (\<lambda>e. case ev_arg e of ANum x \<Rightarrow> num x | _ \<Rightarrow> 0) (pg_schedule p)"
  have "x \<le> Max (set ?xs)" if "x \<in> set ?xs" for x using that by simp
  moreover have "num x \<in> set ?xs" if "e \<in> set (pg_schedule p)" "ev_arg e = ANum x" for e x
    using that by (force simp: image_iff)
  ultimately have "factors_below p (Max (set ?xs))" unfolding factors_below_def by (meson list.set_intros(1))
  then show ?thesis ..
qed

lemma apply_events_total:
  assumes "validate p = Inr ()" "factors_below p f" "fit_state p b f s" "set es \<subseteq> set (pg_schedule p)"
  shows "\<exists>s'. rfold apply_event es s = Inr s' \<and> fit_state p b f s'"
  using assms(3,4)
proof (induction es arbitrary: s)
  case (Cons e es)
  have "\<exists>s1. apply_event e s = Inr s1 \<and> fit_state p b f s1"
  proof (cases "ev_op e")
    case OpSetRate
    with validated_event[OF assms(1), of e] Cons.prems obtain x where "ev_arg e = ANum x" "0 \<le> num x" by auto
    with OpSetRate assms(2) Cons.prems show ?thesis by (auto simp: apply_event_def fit_state_def factors_below_def)
  qed (use Cons.prems in \<open>auto simp: apply_event_def fit_state_def\<close>)
  with Cons show ?case by auto
qed simp

lemma apply_due_total:
  assumes "validate p = Inr ()" "factors_below p f" "fit_state p b f s"
  shows "\<exists>s'. apply_due s = Inr s' \<and> fit_state p b f s'"
proof -
  let ?due = "due (lo_now s)"
  have pending: "set (lo_pending s) \<subseteq> set (pg_schedule p)" using assms(3) by (simp add: fit_state_def)
  have "set (takeWhile ?due (lo_pending s)) \<subseteq> set (lo_pending s)" by (auto dest: set_takeWhileD)
  from apply_events_total[OF assms order_trans[OF this pending]] obtain s1 where
    "rfold apply_event (takeWhile ?due (lo_pending s)) s = Inr s1" "fit_state p b f s1" by blast
  moreover have "set (dropWhile ?due (lo_pending s)) \<subseteq> set (lo_pending s)" by (auto dest: set_dropWhileD)
  note order_trans[OF this pending]
  ultimately show ?thesis by (simp add: apply_due_def fit_state_def)
qed

definition held :: "'s world \<Rightarrow> resolved_behaviour \<Rightarrow> 's loop_state \<Rightarrow> bool" where
  "held w b s \<longleftrightarrow> lo_state s \<noteq> None \<and> (\<exists>d\<in>set (rb_dwell b). \<exists>gen gen'. dwell (wo_source w) d gen = Inr (lo_left s, gen'))"

text \<open>The three passes that go on: asleep until the next event, entering the first state, and holding
  a state, to its end or not.\<close>

definition slept :: "'s world \<Rightarrow> program \<Rightarrow> 's loop_state \<Rightarrow> 's loop_state \<Rightarrow> bool" where
  "slept w p s s' \<longleftrightarrow> \<not> lo_active s \<and> s' = s\<lparr>lo_now := wo_sleep w (lo_now s) (horizon p s - lo_now s)\<rparr>"

definition started :: "'s world \<Rightarrow> resolved_behaviour \<Rightarrow> 's loop_state \<Rightarrow> 's loop_state \<Rightarrow> bool" where
  "started w b s s' \<longleftrightarrow> lo_active s \<and> lo_state s = None \<and> held w b s' \<and> lo_now s \<le> lo_now s'"

definition moved :: "'s world \<Rightarrow> program \<Rightarrow> resolved_behaviour \<Rightarrow> 's loop_state \<Rightarrow> 's loop_state \<Rightarrow> bool" where
  "moved w p b s s' \<longleftrightarrow> lo_active s \<and> lo_state s \<noteq> None \<and> (\<exists>wall passed.
     advance (lo_left s) (lo_now s) (horizon p s - lo_now s) (wo_start w) (rb_rate b) (lo_factor s) = Inr (wall, passed)
     \<and> (if passed < lo_left s then s' = s\<lparr>lo_now := wo_sleep w (lo_now s) wall, lo_left := lo_left s - passed\<rparr>
        else wo_sleep w (lo_now s) wall \<le> lo_now s' \<and> held w b s'))"

lemma entered:
  assumes "world_ok w" "validate p = Inr ()" "b \<in> set (pg_behaviours p)" "runnable p b" "fit_state p b f s"
    "row_ok (length (rb_states b)) row"
  shows "\<exists>i gen s'. draw (wo_source w) (map num row) (lo_behaviour s) = Inr (i, gen)
    \<and> enter w p b i (s\<lparr>lo_behaviour := gen\<rparr>) = Inr s' \<and> fit_state p b f s' \<and> framed s s' \<and> held w b s'"
proof -
  from assms(1) have "random_ok (wo_source w)" by (simp add: world_ok_def)
  from row_draw[OF this assms(6)] obtain i gen where
    i: "draw (wo_source w) (map num row) (lo_behaviour s) = Inr (i, gen)" "i < length (rb_states b)" by blast
  from enter_total[OF assms(1-4) i(2), of "s\<lparr>lo_behaviour := gen\<rparr>"] obtain s' x g where
    s': "enter w p b i (s\<lparr>lo_behaviour := gen\<rparr>) = Inr s'" "lo_state s' = Some i" "0 \<le> lo_left s'" "framed s s'"
    "dwell (wo_source w) (rb_dwell b ! i) g = Inr (lo_left s', x)" by (auto simp: framed_def)
  from validated_behaviour[OF assms(2,3)] i(2) have "rb_dwell b ! i \<in> set (rb_dwell b)" by auto
  with s' i assms(5) show ?thesis by (auto simp: fit_state_def framed_def held_def)
qed

lemma advance_total:
  assumes "case curve of None \<Rightarrow> True | Some c \<Rightarrow> length c = 24 \<or> length c = 168"
  shows "\<exists>wall passed. advance operational t limit start curve factor = Inr (wall, passed) \<and> passed \<le> operational"
proof -
  from pass_total[OF multiplier_total[OF assms]] obtain e l where "pass t limit start curve factor 0 operational = Inr (e, l)"
    by blast
  then show ?thesis by (simp add: advance_def)
qed

lemma loop_body_total:
  assumes w: "world_ok w" and valid: "validate p = Inr ()" "b \<in> set (pg_behaviours p)" and run: "runnable p b"
    and fit: "fit_state p b f s"
  shows "if num (pg_duration_s p) \<le> lo_now s then loop_body w p b s = Inr (True, s)
    else \<exists>s'. loop_body w p b s = Inr (False, s') \<and> fit_state p b f s' \<and> lo_pending s' = lo_pending s \<and> lo_active s' = lo_active s
      \<and> (slept w p s s' \<or> started w b s s' \<or> moved w p b s s')"
proof (cases "num (pg_duration_s p) \<le> lo_now s")
  case False
  from run have rows: "row_ok (length (rb_states b)) (rb_initial b)" "length (rb_transitions b) = length (rb_states b)"
    "i < length (rb_states b) \<Longrightarrow> row_ok (length (rb_states b)) (rb_transitions b ! i)" for i
    by (auto simp: runnable_def process_ok_def list_all_length)
  show ?thesis
  proof (cases "lo_active s")
    case inactive: False
    with False fit show ?thesis by (auto simp: loop_body_def Let_def slept_def fit_state_def)
  next
    case active: True
    show ?thesis
    proof (cases "lo_state s")
      case None
      from entered[OF assms rows(1)] False active None show ?thesis
        by (auto simp: loop_body_def Let_def started_def framed_def)
    next
      case (Some i)
      with fit have i: "i < length (rb_states b)" by (simp add: fit_state_def)
      from advance_total[of "rb_rate b"] validated_behaviour[OF valid] obtain wall passed where
        adv: "advance (lo_left s) (lo_now s) (horizon p s - lo_now s) (wo_start w) (rb_rate b) (lo_factor s) = Inr (wall, passed)"
          "passed \<le> lo_left s" by metis
      let ?s = "s\<lparr>lo_now := wo_sleep w (lo_now s) wall, lo_left := lo_left s - passed\<rparr>"
      show ?thesis
      proof (cases "passed < lo_left s")
        case True
        with False active Some adv fit show ?thesis by (auto simp: loop_body_def Let_def moved_def fit_state_def)
      next
        case over: False
        have "\<exists>k gen s'. draw (wo_source w) (map num (rb_transitions b ! i)) (lo_behaviour s) = Inr (k, gen)
          \<and> enter w p b k (?s\<lparr>lo_behaviour := gen\<rparr>) = Inr s' \<and> fit_state p b f s' \<and> framed ?s s' \<and> held w b s'"
        proof -
          from fit adv(2) have "fit_state p b f ?s" by (simp add: fit_state_def)
          from entered[OF w valid run this rows(3)[OF i]] show ?thesis by simp
        qed
        with False active Some adv over i rows(2) show ?thesis
          by (auto simp: loop_body_def Let_def moved_def framed_def)
      qed
    qed
  qed
qed (auto simp: loop_body_def)

lemma loop_step_total:
  assumes "world_ok w" "validate p = Inr ()" "b \<in> set (pg_behaviours p)" "runnable p b" "factors_below p f" "fit_state p b f s"
  shows "\<exists>returned s'. loop_step w p b s = Inr (returned, s') \<and> fit_state p b f s'"
proof -
  from apply_due_total[OF assms(2,5,6)] obtain s1 where s1: "apply_due s = Inr s1" "fit_state p b f s1" by blast
  from loop_body_total[OF assms(1-4) s1(2)] s1 show ?thesis
    by (auto simp: loop_step_def split: if_splits)
qed

lemma init_fit: "factors_below p f \<Longrightarrow> fit_state p b f (loop_init w p b now)"
  by (auto simp: fit_state_def loop_init_def factors_below_def own_events_def Let_def)

lemma loop_never_raises:
  assumes "world_ok w" "validate p = Inr ()" "b \<in> set (pg_behaviours p)" "runnable p b" "reaches w p b s"
  shows "\<exists>returned s'. loop_step w p b s = Inr (returned, s')"
proof -
  obtain f where f: "factors_below p f" using factors_below_ex by blast
  from assms(5) have "fit_state p b f s"
  proof induction
    case (init now)
    show ?case by (rule init_fit[OF f])
  next
    case (step s returned s')
    with loop_step_total[OF assms(1-4) f, of s] show ?case by auto
  qed
  from loop_step_total[OF assms(1-4) f this] show ?thesis by blast
qed

section \<open>The loop returns\<close>

definition settled :: "'s loop_state \<Rightarrow> bool" where
  "settled s \<longleftrightarrow> (\<forall>e es. lo_pending s = e # es \<longrightarrow> \<not> due (lo_now s) e)"

definition dwells_above :: "'s world \<Rightarrow> resolved_behaviour \<Rightarrow> rat \<Rightarrow> bool" where
  "dwells_above w b \<delta> \<longleftrightarrow> 0 < \<delta> \<and> (\<forall>d\<in>set (rb_dwell b). \<forall>s x s'. dwell (wo_source w) d s = Inr (x, s') \<longrightarrow> \<delta> \<le> x)"

definition events_left :: "program \<Rightarrow> 's loop_state \<Rightarrow> nat" where
  "events_left p s = length (lo_pending s) + (if lo_now s < num (pg_duration_s p) then 1 else 0)"

definition time_left :: "program \<Rightarrow> rat \<Rightarrow> rat \<Rightarrow> 's loop_state \<Rightarrow> rat" where
  "time_left p k \<delta> s = k * (num (pg_duration_s p) - lo_now s) - min (lo_left s) \<delta>"

definition passes_left :: "program \<Rightarrow> rat \<Rightarrow> rat \<Rightarrow> 's loop_state \<Rightarrow> nat" where
  "passes_left p k \<delta> s = 2 * events_left p s + nat \<lceil>(time_left p k \<delta> s + \<delta>) / \<delta>\<rceil> + (if lo_state s = None then 1 else 0)"

lemma apply_due_idle: "dropWhile (due (lo_now s)) (lo_pending s) = lo_pending s \<Longrightarrow> apply_due s = Inr s"
proof -
  assume d: "dropWhile (due (lo_now s)) (lo_pending s) = lo_pending s"
  then have "takeWhile (due (lo_now s)) (lo_pending s) = []"
    by (metis append_self_conv2 takeWhile_dropWhile_id)
  with d show ?thesis by (simp add: apply_due_def)
qed

lemma apply_due_settled: "apply_due s = Inr s' \<Longrightarrow> settled s'"
proof -
  assume "apply_due s = Inr s'"
  from apply_due_kept[OF this] show ?thesis
    by (auto simp: settled_def dest: hd_dropWhile[of "due (lo_now s)" "lo_pending s", simplified])
      (metis dropWhile_eq_Cons_conv)
qed

lemma events_left_due:
  assumes "apply_due s' = Inr s''" "lo_pending s' = lo_pending s" "lo_now s \<le> lo_now s'"
  shows "events_left p s'' < events_left p s \<or> s'' = s'"
proof -
  let ?d = "dropWhile (due (lo_now s')) (lo_pending s')"
  note k = apply_due_kept[OF assms(1)]
  show ?thesis
  proof (cases "?d = lo_pending s'")
    case True
    with apply_due_idle[OF True] assms(1) show ?thesis by simp
  next
    case False
    have "length ?d \<le> length (lo_pending s')" by (rule length_dropWhile_le)
    moreover have "length ?d \<noteq> length (lo_pending s')"
      using False by (metis append_eq_append_conv append_self_conv2 takeWhile_dropWhile_id)
    ultimately show ?thesis using k assms(2,3) by (auto simp: events_left_def)
  qed
qed

lemma events_left_horizon:
  assumes "apply_due s' = Inr s''" "lo_pending s' = lo_pending s" "lo_now s < num (pg_duration_s p)" "horizon p s \<le> lo_now s'"
    "lo_now s \<le> lo_now s'"
  shows "events_left p s'' < events_left p s"
proof (cases "num (pg_duration_s p) \<le> lo_now s'")
  case True
  note k = apply_due_kept[OF assms(1)]
  have "length (lo_pending s'') \<le> length (lo_pending s)" using k assms(2) by (simp add: length_dropWhile_le)
  with True assms(3) k show ?thesis by (simp add: events_left_def)
next
  case False
  with assms(4) obtain e es where e: "lo_pending s = e # es" "num (ev_at_s e) \<le> lo_now s'"
    by (auto simp: horizon_def split: list.splits)
  note k = apply_due_kept[OF assms(1)]
  from e k assms(2) have "lo_pending s'' = dropWhile (due (lo_now s')) es" by (simp add: due_def)
  with length_dropWhile_le[of "due (lo_now s')" es] e False assms(3) k show ?thesis by (simp add: events_left_def)
qed

lemma less_time:
  assumes "0 < \<delta>" "time_left p k \<delta> s' \<le> time_left p k \<delta> s"
  shows "nat \<lceil>(time_left p k \<delta> s' + \<delta>) / \<delta>\<rceil> \<le> nat \<lceil>(time_left p k \<delta> s + \<delta>) / \<delta>\<rceil>"
  using assms by (intro nat_mono ceiling_mono divide_right_mono) auto

lemma less_time_strict:
  assumes "0 < \<delta>" "time_left p k \<delta> s' \<le> time_left p k \<delta> s - \<delta>" "0 < time_left p k \<delta> s + \<delta>"
  shows "nat \<lceil>(time_left p k \<delta> s' + \<delta>) / \<delta>\<rceil> < nat \<lceil>(time_left p k \<delta> s + \<delta>) / \<delta>\<rceil>"
proof -
  let ?x = "(time_left p k \<delta> s + \<delta>) / \<delta>"
  have "(time_left p k \<delta> s' + \<delta>) / \<delta> \<le> ?x - 1"
    using assms(1) divide_right_mono[OF assms(2), of \<delta>] by (simp add: add_divide_distrib diff_divide_distrib)
  then have "\<lceil>(time_left p k \<delta> s' + \<delta>) / \<delta>\<rceil> \<le> \<lceil>?x\<rceil> - 1" by (metis ceiling_diff_one ceiling_mono)
  moreover have "0 < \<lceil>?x\<rceil>" using assms(1,3) by simp
  ultimately show ?thesis by linarith
qed

text \<open>What a pass takes off the time left, at most \<open>k\<close> operational seconds passing in a second.\<close>

lemma pass_time:
  assumes w: "world_ok w" and floor: "dwells_above w b \<delta>" and cap: "speeds_below (rb_rate b) cap" and cap0: "0 \<le> cap"
    and k: "f * cap + 1 = k" and fit: "fit_state p b f s" and set: "settled s" and now: "lo_now s < num (pg_duration_s p)"
    and pass: "slept w p s s' \<or> started w b s s' \<or> moved w p b s s'"
  shows "lo_now s \<le> lo_now s' \<and> time_left p k \<delta> s' \<le> time_left p k \<delta> s
    \<and> (horizon p s \<le> lo_now s' \<or> (lo_state s = None \<and> lo_state s' \<noteq> None)
      \<or> (lo_state s \<noteq> None \<and> lo_state s' \<noteq> None \<and> time_left p k \<delta> s' \<le> time_left p k \<delta> s - \<delta>))"
proof -
  from fit have f: "0 \<le> lo_factor s" "lo_factor s \<le> f" "0 \<le> lo_left s" by (auto simp: fit_state_def)
  with cap0 k have k1: "1 \<le> k" "lo_factor s * cap \<le> k" 
    by (auto intro: mult_nonneg_nonneg mult_right_mono order_trans add_increasing2)
  have hor: "lo_now s < horizon p s"
    using set now by (auto simp: horizon_def settled_def due_def split: list.splits)
  have sleep: "t + d \<le> wo_sleep w t d" if "0 \<le> d" for t d using w that by (simp add: world_ok_def)
  have k_now: "k * (num (pg_duration_s p) - t') \<le> k * (num (pg_duration_s p) - t) - k * (t' - t)" for t t'
    by (simp add: algebra_simps)
  have k_nonneg: "0 \<le> k * (t' - t)" if "t \<le> t'" for t t' using k1 that by simp
  from pass consider "slept w p s s'" | "started w b s s'" | "moved w p b s s'" by blast
  then show ?thesis
  proof cases
    case 1
    with sleep[of "horizon p s - lo_now s" "lo_now s"] hor have "horizon p s \<le> lo_now s'" "lo_left s' = lo_left s"
      by (auto simp: slept_def)
    with hor k_now[of "lo_now s'" "lo_now s"] k_nonneg[of "lo_now s" "lo_now s'"] show ?thesis
      by (auto simp: time_left_def)
  next
    case 2
    with floor have "\<delta> \<le> lo_left s'" by (auto simp: started_def held_def dwells_above_def)
    with 2 k_now[of "lo_now s'" "lo_now s"] k_nonneg[of "lo_now s" "lo_now s'"] show ?thesis
      by (auto simp: time_left_def started_def held_def)
  next
    case 3
    then obtain wall passed where adv:
      "advance (lo_left s) (lo_now s) (horizon p s - lo_now s) (wo_start w) (rb_rate b) (lo_factor s) = Inr (wall, passed)"
      and ends: "if passed < lo_left s then s' = s\<lparr>lo_now := wo_sleep w (lo_now s) wall, lo_left := lo_left s - passed\<rparr>
        else wo_sleep w (lo_now s) wall \<le> lo_now s' \<and> held w b s'" by (auto simp: moved_def)
    have "0 \<le> horizon p s - lo_now s" using hor by simp
    from advance_bounds[OF adv cap f(1,3) this] have a: "0 \<le> wall" "wall \<le> horizon p s - lo_now s" "0 \<le> passed" "passed \<le> lo_left s"
      "passed = lo_left s \<or> wall = horizon p s - lo_now s" "passed \<le> lo_factor s * cap * wall" by auto
    from sleep[OF a(1), of "lo_now s"] ends have now': "lo_now s + wall \<le> lo_now s'" by (auto split: if_splits)
    have "lo_factor s * cap * wall \<le> k * wall" using k1 a(1) by (intro mult_right_mono) auto
    moreover have "k * wall \<le> k * (lo_now s' - lo_now s)" using now' k1 by (intro mult_left_mono) auto
    ultimately have spent: "passed \<le> k * (lo_now s' - lo_now s)" using a(6) by linarith
    show ?thesis
    proof (cases "passed < lo_left s")
      case True
      with ends a(5) now' have "lo_left s' = lo_left s - passed" "horizon p s \<le> lo_now s'" by auto
      with spent k_now[of "lo_now s'" "lo_now s"] hor a(3) show ?thesis by (auto simp: time_left_def min_def)
    next
      case False
      with ends floor have "\<delta> \<le> lo_left s'" "lo_state s' \<noteq> None" by (auto simp: held_def dwells_above_def)
      with False 3 spent k_now[of "lo_now s'" "lo_now s"] now' a(1,4) floor show ?thesis
        by (auto simp: time_left_def moved_def dwells_above_def min_def)
    qed
  qed
qed

lemma passes_left_less:
  assumes w: "world_ok w" and floor: "dwells_above w b \<delta>" and cap: "speeds_below (rb_rate b) cap" and cap0: "0 \<le> cap"
    and k: "f * cap + 1 = k" and fit: "fit_state p b f s" and set: "settled s" and now: "lo_now s < num (pg_duration_s p)"
    and pass: "slept w p s s' \<or> started w b s s' \<or> moved w p b s s'"
    and pending: "lo_pending s' = lo_pending s" and due: "apply_due s' = Inr s''"
  shows "passes_left p k \<delta> s'' < passes_left p k \<delta> s"
proof -
  note t = pass_time[OF w floor cap cap0 k fit set now pass]
  have \<delta>: "0 < \<delta>" using floor by (simp add: dwells_above_def)
  have same: "time_left p k \<delta> s'' = time_left p k \<delta> s'" using apply_due_kept[OF due] by (simp add: time_left_def)
  with t less_time[OF \<delta>, of p k s' s] have le: "nat \<lceil>(time_left p k \<delta> s'' + \<delta>) / \<delta>\<rceil> \<le> nat \<lceil>(time_left p k \<delta> s + \<delta>) / \<delta>\<rceil>"
    by simp
  show ?thesis
  proof (cases "events_left p s'' < events_left p s")
    case True
    with le show ?thesis by (simp add: passes_left_def)
  next
    case False
    with events_left_due[OF due pending, of p] t have s'': "s'' = s'" by blast
    from False events_left_horizon[OF due pending now] t have "\<not> horizon p s \<le> lo_now s'" by blast
    with t consider "lo_state s = None" "lo_state s' \<noteq> None"
      | "lo_state s \<noteq> None" "lo_state s' \<noteq> None" "time_left p k \<delta> s' \<le> time_left p k \<delta> s - \<delta>"
      by (elim conjE disjE) simp_all
    then show ?thesis
    proof cases
      case 1
      have "events_left p s'' \<le> events_left p s"
        using s'' pending t by (simp add: events_left_def)
      with 1 s'' le show ?thesis by (auto simp: passes_left_def)
    next
      case 2
      have "1 \<le> k" using k cap0 fit by (auto simp: fit_state_def intro: mult_nonneg_nonneg)
      with now have "0 < k * (num (pg_duration_s p) - lo_now s)" by simp
      then have "0 < time_left p k \<delta> s + \<delta>" by (simp add: time_left_def min_def)
      from less_time_strict[OF \<delta> 2(3) this] s'' 2 pending t show ?thesis by (auto simp: passes_left_def events_left_def)
    qed
  qed
qed

lemma loop_returns_from:
  assumes w: "world_ok w" and valid: "validate p = Inr ()" "b \<in> set (pg_behaviours p)" and run: "runnable p b"
    and f: "factors_below p f" and cap: "speeds_below (rb_rate b) cap" "0 \<le> cap" and floor: "dwells_above w b \<delta>"
  shows "fit_state p b f s0 \<Longrightarrow> apply_due s0 = Inr s
    \<Longrightarrow> \<exists>n s'. loop_run w p b n s0 = Inr (True, s') \<and> num (pg_duration_s p) \<le> lo_now s'"
proof (induction "passes_left p (f * cap + 1) \<delta> s" arbitrary: s s0 rule: less_induct)
  case less
  from apply_due_total[OF valid(1) f less.prems(1)] less.prems(2) have fit: "fit_state p b f s" by auto
  have step: "loop_step w p b s0 = loop_body w p b s" using less.prems(2) by (simp add: loop_step_def)
  show ?case
  proof (cases "num (pg_duration_s p) \<le> lo_now s")
    case True
    with loop_body_total[OF w valid run fit] step have "loop_run w p b (Suc 0) s0 = Inr (True, s)" by simp
    with True show ?thesis by blast
  next
    case False
    with loop_body_total[OF w valid run fit] obtain s' where s': "loop_body w p b s = Inr (False, s')" "fit_state p b f s'"
      "lo_pending s' = lo_pending s" "slept w p s s' \<or> started w b s s' \<or> moved w p b s s'" by auto
    from apply_due_total[OF valid(1) f s'(2)] obtain s'' where s'': "apply_due s' = Inr s''" by blast
    from False have "lo_now s < num (pg_duration_s p)" by simp
    from passes_left_less[OF w floor cap refl fit apply_due_settled[OF less.prems(2)] this s'(4,3) s'']
    have "passes_left p (f * cap + 1) \<delta> s'' < passes_left p (f * cap + 1) \<delta> s" .
    from less.hyps[OF this s'(2) s''] obtain n t where
      n: "loop_run w p b n s' = Inr (True, t)" "num (pg_duration_s p) \<le> lo_now t" by blast
    with s'(1) step have "loop_run w p b (Suc n) s0 = Inr (True, t)" by simp
    with n(2) show ?thesis by blast
  qed
qed

definition rate_nonneg :: "resolved_behaviour \<Rightarrow> bool" where
  "rate_nonneg b \<longleftrightarrow> (case rb_rate b of None \<Rightarrow> True | Some c \<Rightarrow> list_all (\<lambda>x. 0 \<le> num x) c)"

lemma speeds_below_ex: "rate_nonneg b \<Longrightarrow> \<exists>cap. speeds_below (rb_rate b) cap \<and> 0 \<le> cap"
proof (cases "rb_rate b")
  case None
  then show ?thesis by (intro exI[of _ 1]) (simp add: speeds_below_def)
next
  case (Some c)
  assume "rate_nonneg b"
  let ?m = "Max (insert 0 (num ` set c))"
  have "num x \<le> ?m" if "x \<in> set c" for x using that by simp
  moreover have "0 \<le> ?m" by simp
  moreover have "0 \<le> num x" if "x \<in> set c" for x
    using \<open>rate_nonneg b\<close> Some that by (simp add: rate_nonneg_def list_all_iff)
  ultimately have "speeds_below (rb_rate b) ?m" using Some unfolding speeds_below_def by auto
  with \<open>0 \<le> ?m\<close> show ?thesis by blast
qed

lemma loop_returns_run:
  assumes "world_ok w" "validate p = Inr ()" "b \<in> set (pg_behaviours p)" "runnable p b" "rate_nonneg b" "dwells_above w b \<delta>"
  shows "\<exists>n s. loop_run w p b n (loop_init w p b now) = Inr (True, s) \<and> num (pg_duration_s p) \<le> lo_now s"
proof -
  obtain f where f: "factors_below p f" using factors_below_ex by blast
  obtain cap where cap: "speeds_below (rb_rate b) cap" "0 \<le> cap" using speeds_below_ex[OF assms(5)] by blast
  from apply_due_total[OF assms(2) f init_fit[OF f]] obtain s where "apply_due (loop_init w p b now) = Inr s" by blast
  from loop_returns_from[OF assms(1-4) f cap assms(6) init_fit[OF f] this] show ?thesis .
qed

text \<open>C24: The loop of a behaviour of a validated program whose processes and choices are as the checks
  want them returns without raising, once the duration has passed, under any clock that does not
  wake early and any implementations, if no holding time is shorter than some positive bound and
  the rate curve is nowhere negative.\<close>

theorem loop_returns:
  assumes "world_ok w" "validate p = Inr ()" "b \<in> set (pg_behaviours p)" "runnable p b" "rate_nonneg b" "dwells_above w b \<delta>"
  shows "\<exists>n s. loop_run w p b n (loop_init w p b now) = Inr (True, s) \<and> num (pg_duration_s p) \<le> lo_now s"
  by (rule loop_returns_run[OF assms])

section \<open>Examples\<close>

lemma demo_world_ok: "world_ok demo_world"
  using demo_random_ok by (simp add: world_ok_def demo_world_def)

lemma demo_validated: "validate demo_get_program = Inr ()" "demo_get \<in> set (pg_behaviours demo_get_program)"
  by code_simp (simp add: demo_get_program_def)

lemma demo_runnable: "runnable demo_get_program demo_get"
  by code_simp

lemma demo_dwells: "dwells_above demo_world demo_get 30"
  by (auto simp: dwells_above_def demo_get_def dwell_def demo_world_def demo_random_def num_def)

theorem loop_returns_witness:
  "\<exists>n s. loop_run demo_world demo_get_program demo_get n (loop_init demo_world demo_get_program demo_get 0) = Inr (True, s) \<and> 200 \<le> lo_now s"
proof -
  have "rate_nonneg demo_get" by (simp add: rate_nonneg_def demo_get_def)
  from loop_returns[OF demo_world_ok demo_validated demo_runnable this demo_dwells, of 0] show ?thesis
    by (simp add: demo_get_program_def num_def)
qed

end
