(* ===== verification/Agent_Checks.thy ===== *)
theory Agent_Checks
  imports Run_Checks Agent_Runs Assembly
begin

text \<open>
  From the checks to the agent: the programs of a scenario without errors are ones the loop can
  run, and what the loop records is what the label join looks up.
\<close>

section \<open>What the checks leave in a program\<close>

text \<open>A program's data as the codec reads it: its floats are finite and its dictionaries have each key
  once.\<close>

definition program_data :: "program \<Rightarrow> bool" where
  "program_data p \<longleftrightarrow> list_all (\<lambda>b. list_all (list_all fl_isfinite) (rb_initial b # rb_transitions b) \<and> dwells_finite b) (pg_behaviours p)
     \<and> list_all (\<lambda>(sg, choices). dict_ok choices) (pg_impls p)"

lemma stochastic_row_ok:
  assumes "stochastic row = None" "list_all fl_isfinite row" "length row = n"
  shows "row_ok n row"
proof -
  from stochastic_None[OF assms(2)] assms(1) obtain xs where row: "row = map Fin xs" "\<forall>x\<in>set xs. 0 \<le> x"
    "\<bar>sum_list xs - 1\<bar> \<le> tolerance" by (auto simp: stochastic_row_def)
  have "map num (map Fin xs) = xs" by (simp add: num_def comp_def)
  moreover from row(3) have "0 < sum_list xs" unfolding tolerance_def by linarith
  ultimately show ?thesis using row(1,2) assms(3) by (simp add: row_ok_def list_all_iff num_def)
qed

lemma resolve_behaviour_parts:
  assumes "resolve_behaviour rs name beh = Inr b"
  shows "res_states rs (beh_process beh) = Some (rb_states b)" "res_initial rs (beh_process beh) = Some (rb_initial b)"
    "res_transitions rs (beh_process beh) = Some (rb_transitions b)"
    "\<exists>dwell. res_dwell rs (beh_process beh) = Some dwell"
    "\<exists>am. res_action_map rs beh = Some am \<and> rmap (\<lambda>(state, act). case act of None \<Rightarrow> Inr (state, None)
        | Some a \<Rightarrow> rbind (resolve_action rs a) (\<lambda>ra. Inr (state, Some ra))) am = Inr (rb_action_map b)"
  using assms by (auto simp: resolve_behaviour_def Let_def rbind_Inr_iff split: option.splits)

lemma checked_process:
  assumes checks: "errors_of (c04_check c) = []" and kind: "kind \<in> set (sc_kinds (cx_scenario c))"
    and beh: "beh \<in> set (kd_behaviours kind)" and b: "resolve_behaviour (cx_resources c) name beh = Inr b"
    and fin: "list_all (list_all fl_isfinite) (rb_initial b # rb_transitions b)"
  shows "process_ok b"
proof -
  note r = resolve_behaviour_parts[OF b]
  from r(4) obtain dwell where d: "cx_dwell c (beh_process beh) = Some dwell" by blast
  from c04_processes[OF checks kind beh] obtain path where "errors_of (c04_process c path (beh_process beh)) = []" ..
  note p = c04_process_ok[OF this r(1-3) d]
  from p(2-5) fin show ?thesis by (auto simp: process_ok_def list_all_iff intro!: stochastic_row_ok)
qed

lemma c03_client:
  assumes "errors_of (c03_check c) = []" "kind \<in> set (sc_kinds (cx_scenario c))" "beh \<in> set (kd_behaviours kind)"
    "cx_states c (beh_process beh) = Some states" "cx_action_map c beh = Some am" "(state, Some act) \<in> set am"
  shows "\<exists>sg. dget (cx_signatures c) (act_signature act) = Some sg \<and> sg_role sg = Client"
proof -
  from enumerate0_ex[OF assms(2)] obtain k where k: "(k, kind) \<in> set (enumerate0 (sc_kinds (cx_scenario c)))" ..
  from enumerate0_ex[OF assms(3)] obtain b where b: "(b, beh) \<in> set (enumerate0 (kd_behaviours kind))" ..
  from assms(1) k b have "errors_of (c03_behaviour c (behaviour_path k b) beh) = []"
    by (fastforce simp: c03_check_def errors_of_concat simp del: in_enumerate0)
  with assms(4,5) have "errors_of (concat (map (c03_entry c (behaviour_path k b) beh states) am)) = []"
    by (simp add: c03_behaviour_def)
  with assms(6) have "errors_of (c03_entry c (behaviour_path k b) beh states (state, Some act)) = []"
    unfolding errors_of_concat by auto
  then show ?thesis by (auto simp: c03_entry_def Let_def split: option.splits if_splits)
qed

lemma c16_params:
  assumes "errors_of (c16_check c) = []" "kind \<in> set (sc_kinds (cx_scenario c))" "(path, act) \<in> set (cx_actions c kind)"
    "dget (cx_signatures c) (act_signature act) = Some sg" "sg_role sg = Client" "(name, v) \<in> set (act_params act)"
    "param_choice c v = Some ch"
  shows "ch_options ch \<noteq> [] \<and> length (ch_weights ch) = length (ch_options ch) \<and> (\<forall>x\<in>set (ch_weights ch). 0 < num x)"
proof -
  from assms(1-3) have "errors_of (c16_action c kind (path, act)) = []"
    by (force simp: c16_check_def errors_of_concat)
  with assms(4,5) have "errors_of (concat (map (c16_param c path act (dict_of (map (\<lambda>p. (pm_name p, p)) (sg_params sg)))) (act_params act))) = []"
    by (auto simp: c16_action_def Let_def)
  with assms(6) have e: "errors_of (c16_param c path act (dict_of (map (\<lambda>p. (pm_name p, p)) (sg_params sg))) (name, v)) = []"
    unfolding errors_of_concat by auto
  then have "errors_of (c16_choice (path @ ''.'' @ at_key ''params'' name) ch) = []"
    using assms(7) by (auto simp: c16_param_def Let_def split: option.splits)
  then show ?thesis
    by (auto simp: c16_choice_def list_ex_iff finite_num num_def split: if_splits)
qed

lemma resolved_param_ok:
  assumes "resolve_param (cx_resources c) v = Inr rp"
    "\<And>ch. param_choice c v = Some ch \<Longrightarrow> ch_options ch \<noteq> [] \<and> length (ch_weights ch) = length (ch_options ch)
      \<and> (\<forall>x\<in>set (ch_weights ch). 0 < num x)"
  shows "param_ok rp"
  using assms by (cases v) (auto simp: rbind_Inr_iff or_raise_def list_all_iff res_choice_def split: option.splits)

lemma checked_params:
  assumes checks: "errors_of (c03_check c) = []" "errors_of (c16_check c) = []" and kind: "kind \<in> set (sc_kinds (cx_scenario c))"
    and beh: "beh \<in> set (kd_behaviours kind)" and b: "resolve_behaviour (cx_resources c) name beh = Inr b"
  shows "params_ok b"
proof -
  note r = resolve_behaviour_parts[OF b]
  from r(5) obtain am where am: "cx_action_map c beh = Some am"
    "rmap (\<lambda>(state, act). case act of None \<Rightarrow> Inr (state, None)
        | Some a \<Rightarrow> rbind (resolve_action (cx_resources c) a) (\<lambda>ra. Inr (state, Some ra))) am = Inr (rb_action_map b)" by blast
  have "list_all (\<lambda>(k, v). param_ok v) (ra_params ra)" if ra: "(st, Some ra) \<in> set (rb_action_map b)" for st ra
  proof -
    from rmap_in[OF am(2) ra] obtain act where act: "(st, Some act) \<in> set am" "resolve_action (cx_resources c) act = Inr ra"
      by (auto simp: rbind_Inr_iff split: option.splits)
    from cx_actions_ex[OF beh am(1) act(1)] obtain path where path: "(path, act) \<in> set (cx_actions c kind)" ..
    from c03_client[OF checks(1) kind beh r(1) am(1) act(1)] obtain sg where
      sg: "dget (cx_signatures c) (act_signature act) = Some sg" "sg_role sg = Client" by blast
    from act(2) have ps: "rmap (\<lambda>(name, value). rbind (resolve_param (cx_resources c) value) (\<lambda>p. Inr (name, p))) (act_params act)
        = Inr (ra_params ra)" by (auto simp: resolve_action_def rbind_Inr_iff)
    have "param_ok rp" if rp: "(name, rp) \<in> set (ra_params ra)" for name rp
    proof -
      from rmap_in[OF ps rp] obtain v where v: "(name, v) \<in> set (act_params act)" "resolve_param (cx_resources c) v = Inr rp"
        by (auto simp: rbind_Inr_iff)
      from c16_params[OF checks(2) kind path sg v(1)] show ?thesis by (rule resolved_param_ok[OF v(2)])
    qed
    then show ?thesis by (auto simp: list_all_iff)
  qed
  then show ?thesis by (fastforce simp: params_ok_def list_all_iff split: option.splits)
qed

lemma checked_choices:
  assumes checks: "errors_of (c08_check c) = []" and b: "binding \<in> set (sc_bindings (cx_scenario c))"
    and impls: "resolve_impls (cx_resources c) binding = Inr (pg_impls p)"
    and data: "list_all (\<lambda>(sg, choices). dict_ok choices) (pg_impls p)"
  shows "choices_ok p"
proof -
  from impls obtain kvs where kvs: "rmap (\<lambda>s. rbind (or_raise (Unresolved [L ''choices for '', R (sel_signature s)])
      (cx_choices c s)) (\<lambda>x. Inr (sel_signature s, x))) (bi_impls binding) = Inr kvs" "pg_impls p = dict_of kvs"
    by (auto simp: resolve_impls_def rbind_Inr_iff)
  have "choices \<noteq> [] \<and> list_all (\<lambda>(k, x). 0 < num x) choices" if in_p: "(sg, choices) \<in> set (pg_impls p)" for sg choices
  proof -
    from in_p kvs(2) have "(sg, choices) \<in> set kvs" by (auto dest: dict_of_in)
    from rmap_in[OF kvs(1) this] obtain sel where sel: "sel \<in> set (bi_impls binding)" "cx_choices c sel = Some choices"
      by (auto simp: rbind_Inr_iff)
    from enumerate0_ex[OF b] obtain i where i: "(i, binding) \<in> set (enumerate0 (sc_bindings (cx_scenario c)))" ..
    from enumerate0_ex[OF sel(1)] obtain j where j: "(j, sel) \<in> set (enumerate0 (bi_impls binding))" ..
    from checks have "errors_of (concat (map (\<lambda>(i, b). concat (map (c08_selection c i) (enumerate0 (bi_impls b))))
        (enumerate0 (sc_bindings (cx_scenario c))))) = []" by (simp add: c08_check_def)
    with i j have e: "errors_of (c08_selection c i (j, sel)) = []"
      by (fastforce simp: errors_of_concat simp del: in_enumerate0)
    with sel(2) have ne: "choices \<noteq> []"
      "errors_of (concat (map (c08_choice c (at_index ''bindings'' i @ ''.'' @ at_index ''impls'' j) (sel_signature sel)) choices)) = []"
      by (auto simp: c08_selection_def Let_def split: if_splits)
    have "0 < num x" if kx: "(k, x) \<in> set choices" for k x
    proof -
      from ne(2) kx have "errors_of (c08_choice c (at_index ''bindings'' i @ ''.'' @ at_index ''impls'' j) (sel_signature sel) (k, x)) = []"
        unfolding errors_of_concat by auto
      then show ?thesis by (auto simp: c08_choice_def Let_def finite_num num_def split: if_splits)
    qed
    with ne(1) show ?thesis by (auto simp: list_all_iff)
  qed
  with data show ?thesis by (fastforce simp: choices_ok_def list_all_iff)
qed

lemma checked_runnable:
  assumes ok: "well_formed digest has_offset c"
    and built: "build_programs (cx_scenario c) topo plan routes (cx_resources c) sigs = Inr programs" "dget programs i = Some p"
    and data: "program_data p" and b: "b \<in> set (pg_behaviours p)"
  shows "runnable p b"
proof -
  note checks = well_formed_checks[OF ok]
  from build_programs_get[OF built] obtain path kind_name where
    "program_of (cx_scenario c) topo plan routes (cx_resources c) sigs (path, kind_name, i) = Inr p" by blast
  then obtain kind binding peers where k: "dget (kinds_by_name (cx_scenario c)) kind_name = Some kind"
    "dget (bindings_by_kind (cx_scenario c)) kind_name = Some binding"
    "rmap (resolve_behaviour (cx_resources c) kind_name) (kd_behaviours kind) = Inr (pg_behaviours p)"
    "resolve_impls (cx_resources c) binding = Inr (pg_impls p)" by (rule program_of_parts)
  from kinds_by_name_get(2)[OF k(1)] have kind: "kind \<in> set (sc_kinds (cx_scenario c))" by blast
  from bindings_by_kind_get k(2) have bind: "binding \<in> set (sc_bindings (cx_scenario c))" by blast
  from rmap_in[OF k(3) b] obtain beh where beh: "beh \<in> set (kd_behaviours kind)"
    "resolve_behaviour (cx_resources c) kind_name beh = Inr b" by blast
  from data b have "list_all (list_all fl_isfinite) (rb_initial b # rb_transitions b)" "dwells_finite b"
    "list_all (\<lambda>(sg, choices). dict_ok choices) (pg_impls p)" by (auto simp: program_data_def list_all_iff)
  with checked_process[OF checks(4) kind beh] checked_params[OF checks(3,11) kind beh]
    checked_choices[OF checks(7) bind k(4)] show ?thesis by (simp add: runnable_def)
qed

text \<open>C23: From the checks to the run: in a scenario the checks find no error in, a behaviour of a program
  that has been built from it, and that the agent has validated, is run without raising: no draw
  fails for want of a positive weight, no index leaves its list, no implementation is missing and
  no holding time is drawn from parameters its family does not take.\<close>

theorem well_formed_runs:
  assumes "well_formed digest has_offset c"
    "build_programs (cx_scenario c) topo plan routes (cx_resources c) sigs = Inr programs" "dget programs i = Some p"
    "program_data p" "b \<in> set (pg_behaviours p)" "validate p = Inr ()" "world_ok w" "reaches w p b s"
  shows "\<exists>returned s'. loop_step w p b s = Inr (returned, s')"
  by (rule loop_never_raises[OF assms(7,6,5) checked_runnable[OF assms(1-5)] assms(8)])

section \<open>Labels of a run\<close>

definition run_entries :: "program list \<Rightarrow> (signature_key \<times> string) list" where
  "run_entries programs = concat (map (\<lambda>p. concat (map (\<lambda>b. concat (map (\<lambda>(state, act).
     case act of None \<Rightarrow> [] | Some a \<Rightarrow> [((pg_instance p, rb_name b, state), ra_signature a)]) (rb_action_map b)))
     (pg_behaviours p))) programs)"

lemma fold_entries:
  assumes "\<And>x d. f x d = fold (\<lambda>(k, v) d. dset k v d) (g x) d"
  shows "fold f xs d = fold (\<lambda>(k, v) d. dset k v d) (concat (map g xs)) d"
  using assms by (induction xs arbitrary: d) auto

lemma run_signatures_entries: "run_signatures programs = dict_of (run_entries programs)"
  unfolding run_signatures_def run_entries_def dict_of_def
  by (intro fold_entries) (auto split: option.splits)

lemma in_run_entries:
  "((i, n, st), sg) \<in> set (run_entries programs) \<longleftrightarrow> (\<exists>p\<in>set programs. \<exists>b\<in>set (pg_behaviours p). \<exists>act.
     pg_instance p = i \<and> rb_name b = n \<and> (st, Some act) \<in> set (rb_action_map b) \<and> ra_signature act = sg)"
  by (fastforce simp: run_entries_def split: option.splits)

lemma run_signatures_total:
  assumes "p \<in> set programs" "b \<in> set (pg_behaviours p)" "(st, Some act) \<in> set (rb_action_map b)"
  shows "dget (run_signatures programs) (pg_instance p, rb_name b, st) \<noteq> None"
proof -
  from assms in_run_entries[of "pg_instance p" "rb_name b" st "ra_signature act" programs]
  have "(pg_instance p, rb_name b, st) \<in> fst ` set (run_entries programs)" by force
  then show ?thesis by (simp add: run_signatures_entries dom_dict_of[symmetric] dom_def)
qed

text \<open>What makes a label's key unambiguous: one program per instance, behaviours and states by name.\<close>

definition named_apart :: "program list \<Rightarrow> bool" where
  "named_apart programs \<longleftrightarrow> distinct (map pg_instance programs)
     \<and> list_all (\<lambda>p. distinct (map rb_name (pg_behaviours p)) \<and> list_all (\<lambda>b. dict_ok (rb_action_map b)) (pg_behaviours p)) programs"

lemma named_apart_same:
  assumes "named_apart programs" "p \<in> set programs" "b \<in> set (pg_behaviours p)" "(st, act) \<in> set (rb_action_map b)"
    "q \<in> set programs" "c \<in> set (pg_behaviours q)" "(st, act') \<in> set (rb_action_map c)"
    "pg_instance p = pg_instance q" "rb_name b = rb_name c"
  shows "p = q \<and> b = c \<and> act = act'"
proof -
  have pq: "p = q" using assms(1,2,5,8) by (auto simp: named_apart_def dest: inj_onD[OF distinct_map[THEN iffD1, THEN conjunct2]])
  with assms(1,2,3,6,9) have bc: "b = c" by (auto simp: named_apart_def list_all_iff distinct_map dest: inj_onD)
  with assms(1-4,7) show ?thesis using pq by (auto simp: named_apart_def list_all_iff dget_in_iff)
qed

text \<open>An invocation the loop of one of the programs has recorded.\<close>

definition invoked_by :: "program list \<Rightarrow> invocation_record \<Rightarrow> bool" where
  "invoked_by programs v \<longleftrightarrow> (\<exists>p\<in>set programs. \<exists>b\<in>set (pg_behaviours p). record_ok p b v)"

lemma invoked_signature:
  assumes "invoked_by programs v"
  shows "dget (run_signatures programs) (lk_instance (ir_key v), lk_behaviour (ir_key v), lk_action (ir_key v)) \<noteq> None"
proof -
  from assms obtain p b where pb: "p \<in> set programs" "b \<in> set (pg_behaviours p)" "record_ok p b v" by (auto simp: invoked_by_def)
  then obtain act where "dget (rb_action_map b) (lk_action (ir_key v)) = Some (Some act)"
    "lk_instance (ir_key v) = pg_instance p" "lk_behaviour (ir_key v) = rb_name b" by (auto simp: record_ok_def)
  with run_signatures_total[OF pb(1,2) dget_Some_in] show ?thesis by simp
qed

definition label_true :: "program list \<Rightarrow> label \<Rightarrow> bool" where
  "label_true programs l \<longleftrightarrow> (\<exists>p\<in>set programs. \<exists>b\<in>set (pg_behaviours p). \<exists>act choices choice weight.
      lk_instance (la_key l) = pg_instance p \<and> lk_behaviour (la_key l) = rb_name b
      \<and> dget (rb_action_map b) (lk_action (la_key l)) = Some (Some act) \<and> la_signature l = ra_signature act
      \<and> set (lk_targets (la_key l)) \<subseteq> pe_instance ` set (dget_or (pg_peers p) (ra_tie act) [])
      \<and> dget (pg_impls p) (ra_signature act) = Some choices \<and> dget choices choice = Some weight \<and> 0 < num weight
      \<and> lk_impl (la_key l) = if_impl (impl_ref_parse choice))"

text \<open>C25: Joining what the loops of the programs have recorded with what the kernel saw never fails, and
  every label it makes is true of the programs: its instance, behaviour and action name an action
  of one of them, its signature is that action's, its targets are peers of the action's tie, and its
  implementation has a positive weight for the signature.\<close>

theorem labels_true:
  assumes "named_apart programs" "\<forall>v\<in>set invs. \<exists>p\<in>set programs. \<exists>b\<in>set (pg_behaviours p). \<exists>w s.
      random_ok (wo_source w) \<and> weights_ok p \<and> reaches w p b s \<and> v \<in> set (lo_records s)"
  shows "\<exists>j. label_join conns records invs (run_signatures programs) instance_of tol = Inr j
    \<and> (\<forall>sensor. \<forall>l\<in>set (dget_or (jo_labels j) sensor []). label_true programs l)"
proof -
  have inv: "invoked_by programs v" if "v \<in> set invs" for v
    using bspec[OF assms(2) that] loop_records_ok unfolding invoked_by_def list_all_iff by metis
  have "\<exists>j. label_join conns records invs (run_signatures programs) instance_of tol = Inr j"
    by (rule label_join_total) (rule invoked_signature[OF inv])
  then obtain j where j: "label_join conns records invs (run_signatures programs) instance_of tol = Inr j" ..
  have known: "\<exists>p\<in>set programs. \<exists>b\<in>set (pg_behaviours p). record_ok p b v
      \<and> (\<forall>act. dget (rb_action_map b) (lk_action (ir_key v)) = Some (Some act) \<longrightarrow> sg = ra_signature act)"
    if v: "v \<in> set invs" and sg: "dget (run_signatures programs) (lk_instance (ir_key v), lk_behaviour (ir_key v), lk_action (ir_key v)) = Some sg"
    for v sg
  proof -
    from inv[OF v] obtain p b where pb: "p \<in> set programs" "b \<in> set (pg_behaviours p)" "record_ok p b v" by (auto simp: invoked_by_def)
    from sg have "((lk_instance (ir_key v), lk_behaviour (ir_key v), lk_action (ir_key v)), sg) \<in> set (run_entries programs)"
      unfolding run_signatures_entries by (rule dict_of_in[OF dget_Some_in])
    then obtain q c act where q: "q \<in> set programs" "c \<in> set (pg_behaviours q)" "pg_instance q = lk_instance (ir_key v)"
      "rb_name c = lk_behaviour (ir_key v)" "(lk_action (ir_key v), Some act) \<in> set (rb_action_map c)" "ra_signature act = sg"
      unfolding in_run_entries by blast
    have "act' = act" if "dget (rb_action_map b) (lk_action (ir_key v)) = Some (Some act')" for act'
    proof -
      from pb(3) have "pg_instance p = pg_instance q" "rb_name b = rb_name c" using q(3,4) by (auto simp: record_ok_def)
      from named_apart_same[OF assms(1) pb(1,2) dget_Some_in[OF that] q(1,2,5) this] show ?thesis by simp
    qed
    with q(6) have "\<forall>act'. dget (rb_action_map b) (lk_action (ir_key v)) = Some (Some act') \<longrightarrow> sg = ra_signature act'" by auto
    with pb show ?thesis by (intro bexI[of _ p] bexI[of _ b] conjI)
  qed
  show ?thesis
  proof (intro exI[of _ j] conjI j allI ballI)
    fix sensor l assume "l \<in> set (dget_or (jo_labels j) sensor [])"
    from label_backed[OF j this] obtain v where v: "v \<in> set invs" "la_key l = ir_key v"
      "dget (run_signatures programs) (lk_instance (ir_key v), lk_behaviour (ir_key v), lk_action (ir_key v)) = Some (la_signature l)"
      by blast
    from known[OF v(1,3)] obtain p b where pb: "p \<in> set programs" "b \<in> set (pg_behaviours p)" "record_ok p b v"
      "\<And>act. dget (rb_action_map b) (lk_action (ir_key v)) = Some (Some act) \<Longrightarrow> la_signature l = ra_signature act" by blast
    from pb(3)[unfolded record_ok_def] pb(4) v(2) show "label_true programs l"
      unfolding label_true_def by (intro bexI[OF _ pb(1)] bexI[OF _ pb(2)]) metis
  qed
qed

section \<open>Examples\<close>

lemma demo_program_checked:
  "let p = demo_program ''o/c[0]'' in program_data p \<and> validate p = Inr () \<and> map rb_name (pg_behaviours p) = [''u'']"
  by code_simp

definition demo_run_conns :: "conn_event list" where
  "demo_run_conns = [(hd demo_conns)\<lparr>ce_start := 21\<rparr>]"

definition demo_run_seen :: "attribution_record list" where
  "demo_run_seen = [(hd demo_seen)\<lparr>ar_instance := ''g/c[0]'',
     ar_principal := \<lparr>ak_platform = Linux, ak_principal = ''cgroup:1''\<rparr>, ar_start := 21, ar_end := 22\<rparr>]"

definition demo_run_records :: "invocation_record list" where
  "demo_run_records = lo_records (snd (projr (demo_loop 5)))"

lemma demo_run_join:
  "let r = label_join demo_run_conns demo_run_seen demo_run_records (run_signatures [demo_get_program]) [(''10.0.0.2'', ''g/c[0]'')] 1
   in case r of Inl _ \<Rightarrow> False | Inr j \<Rightarrow> map la_signature (dget_or (jo_labels j) ''z'' []) = [''h.c'']"
  by code_simp

lemma demo_run_recorded:
  assumes "v \<in> set demo_run_records"
  shows "\<exists>s. reaches demo_world demo_get_program demo_get s \<and> v \<in> set (lo_records s)"
proof -
  from demo_loop_twice obtain s where s: "demo_loop 5 = Inr (False, s)" by (cases "demo_loop 5") auto
  from loop_run_reaches[OF reaches.init s[unfolded demo_loop_def]] assms s show ?thesis
    by (auto simp: demo_run_records_def)
qed

lemma label_true_demo: "label_true [demo_get_program] l \<Longrightarrow> set (lk_targets (la_key l)) \<subseteq> {''g/s[0]''}"
proof -
  assume "label_true [demo_get_program] l"
  then obtain act :: resolved_action where "set (lk_targets (la_key l)) \<subseteq> pe_instance ` set (dget_or (pg_peers demo_get_program) (ra_tie act) [])"
    by (auto simp: label_true_def)
  then show ?thesis by (auto simp: demo_get_program_def dget_or_def split: if_splits)
qed

theorem well_formed_runs_witness:
  "\<exists>b. b \<in> set (pg_behaviours (demo_program ''o/c[0]'')) \<and> (\<exists>returned s'.
     loop_step demo_world (demo_program ''o/c[0]'') b (loop_init demo_world (demo_program ''o/c[0]'') b 0) = Inr (returned, s'))"
proof -
  from demo_program_checked obtain b where p: "program_data (demo_program ''o/c[0]'')" "validate (demo_program ''o/c[0]'') = Inr ()"
    "b \<in> set (pg_behaviours (demo_program ''o/c[0]''))" by (auto simp: Let_def)
  from well_formed_runs[OF demo_well_formed, unfolded demo_context_simps, OF demo_programs_run demo_program_get p(1,3,2)
      demo_world_ok reaches.init] p(3) show ?thesis by blast
qed

theorem labels_true_witness:
  "\<exists>j l. label_join demo_run_conns demo_run_seen demo_run_records (run_signatures [demo_get_program])
      [(''10.0.0.2'', ''g/c[0]'')] 1 = Inr j
    \<and> l \<in> set (dget_or (jo_labels j) ''z'' []) \<and> la_signature l = ''h.c'' \<and> set (lk_targets (la_key l)) \<subseteq> {''g/s[0]''}"
proof -
  have apart: "named_apart [demo_get_program]" by code_simp
  have recorded: "\<forall>v\<in>set demo_run_records. \<exists>p\<in>set [demo_get_program]. \<exists>b\<in>set (pg_behaviours p). \<exists>(w :: nat world) s.
      random_ok (wo_source w) \<and> weights_ok p \<and> reaches w p b s \<and> v \<in> set (lo_records s)"
  proof
    fix v assume "v \<in> set demo_run_records"
    from demo_run_recorded[OF this] obtain s where s: "reaches demo_world demo_get_program demo_get s" "v \<in> set (lo_records s)" by blast
    have "random_ok (wo_source demo_world)" using demo_world_ok by (simp add: world_ok_def)
    with demo_weights s have "\<exists>(w :: nat world) s. random_ok (wo_source w) \<and> weights_ok demo_get_program
      \<and> reaches w demo_get_program demo_get s \<and> v \<in> set (lo_records s)" by blast
    with demo_validated(2) show "\<exists>p\<in>set [demo_get_program]. \<exists>b\<in>set (pg_behaviours p). \<exists>(w :: nat world) s.
      random_ok (wo_source w) \<and> weights_ok p \<and> reaches w p b s \<and> v \<in> set (lo_records s)" by auto
  qed
  from labels_true[OF apart recorded, of demo_run_conns demo_run_seen "[(''10.0.0.2'', ''g/c[0]'')]" 1]
  obtain j where j: "label_join demo_run_conns demo_run_seen demo_run_records (run_signatures [demo_get_program])
      [(''10.0.0.2'', ''g/c[0]'')] 1 = Inr j"
    and labels: "\<forall>sensor. \<forall>l\<in>set (dget_or (jo_labels j) sensor []). label_true [demo_get_program] l"
    by blast
  from demo_run_join j obtain l where "l \<in> set (dget_or (jo_labels j) ''z'' [])" "la_signature l = ''h.c''"
    by (auto simp: Let_def)
  with j labels label_true_demo show ?thesis by blast
qed

end
