(* ===== verification/Manifests.thy ===== *)
theory Manifests
  imports Program Interfaces
begin

text \<open>
  The run manifests (\<open>backends/infra/_base/manifest.py\<close>): one per backend the bindings name, with
  the hosts bound to it and the networks those hosts join. \<open>digest6\<close> is the 6-byte \<open>blake2b\<close>.
\<close>

section \<open>Building\<close>

datatype manifest_error = NoKey string | NoHostRef string

definition agent_image :: "platform \<Rightarrow> string option" where
  "agent_image p = (case p of Linux \<Rightarrow> Some ''tiergen/base-linux'' | Windows \<Rightarrow> None)"

definition run_mount :: string where "run_mount = ''/tiergen/run''"

definition gate :: string where "gate = ''/tiergen/go''"

definition agent_command :: "string \<Rightarrow> string list" where
  "agent_command instnc = [''tiergen-agent'', run_mount @ ''/program.'' @ flat_id instnc @ ''.json'', ''--go'', gate]"

definition bridge_name :: "(string \<Rightarrow> nat list) \<Rightarrow> string \<Rightarrow> string \<Rightarrow> string" where
  "bridge_name digest6 run segment =
     ''tg-'' @ concat (map (\<lambda>b. [hex_digit (b div 16), hex_digit (b mod 16)]) (digest6 (run @ ''|'' @ segment)))"

definition image_and_command :: "host \<Rightarrow> string \<Rightarrow> manifest_error + string \<times> string list \<times> bool" where
  "image_and_command h instnc =
     (case host_ref_parse (ho_ref h) of
        None \<Rightarrow> Inl (NoHostRef (ho_ref h))
      | Some r \<Rightarrow>
          if hr_kind r = HDefault
          then rbind (or_raise (NoKey (platform_str (ho_platform h))) (agent_image (ho_platform h)))
                 (\<lambda>img. Inr (img, agent_command instnc, True))
          else Inr (hr_ref r, [], False))"

text \<open>\<open>str.upper\<close> on the names of capabilities, which are ASCII.\<close>

definition upper_char :: "char \<Rightarrow> char" where
  "upper_char c = (if 97 \<le> (of_char c :: nat) \<and> of_char c \<le> (122 :: nat) then char_of (of_char c - 32 :: nat) else c)"

definition impl_capabilities :: "impl_selection \<Rightarrow> (string, impl_descriptor) dict \<Rightarrow> resources \<Rightarrow> string list" where
  "impl_capabilities sel impls rs =
     concat (map (\<lambda>choice. case dget impls (if_impl (impl_ref_parse choice)) of
         None \<Rightarrow> []
       | Some impl \<Rightarrow> map (map upper_char) (hq_capabilities (im_host impl)))
       (case res_choices rs sel of None \<Rightarrow> [] | Some c \<Rightarrow> dkeys c))"

definition groups_by_path :: "scenario \<Rightarrow> (string, group) dict" where
  "groups_by_path s = dict_of (map (\<lambda>g. (gr_path g, g)) (sc_groups s))"

definition management_segments :: "topology \<Rightarrow> string list" where
  "management_segments topo = map seg_name (filter (\<lambda>n. seg_plane n = ManagementPlane) (top_segments topo))"

definition joined_segments :: "topology \<Rightarrow> group \<Rightarrow> string \<Rightarrow> string list" where
  "joined_segments topo g kind = dget_or (gr_attachments g) kind [] @ management_segments topo"

definition host_of_instance :: "scenario \<Rightarrow> topology \<Rightarrow> address_plan \<Rightarrow> route_plan \<Rightarrow> (string, impl_descriptor) dict
    \<Rightarrow> resources \<Rightarrow> string \<times> string \<times> string \<Rightarrow> manifest_error + string \<times> host_spec" where
  "host_of_instance s topo plan routes impls rs = (\<lambda>(path, kind, instnc).
     rbind (or_raise (NoKey kind) (dget (bindings_by_kind s) kind)) (\<lambda>b.
     rbind (image_and_command (bi_host b) instnc) (\<lambda>(img, command, agent).
     rbind (or_raise (NoKey path) (dget (groups_by_path s) path)) (\<lambda>g.
     rbind (or_raise (NoKey instnc) (dget (pl_addresses plan) instnc)) (\<lambda>addresses.
     rbind (or_raise (NoKey instnc) (dget (pl_hostnames plan) instnc)) (\<lambda>host.
     rbind (rmap (\<lambda>n. rbind (or_raise (NoKey n) (dget addresses n)) (\<lambda>a.
         Inr \<lparr>at_network = n, at_address = a, at_mac = dget (dget_or (pl_macs plan) instnc []) n\<rparr>)) (joined_segments topo g kind)) (\<lambda>attached.
     rbind (or_raise (NoKey kind) (dget (kinds_by_name s) kind)) (\<lambda>k.
     Inr (ho_backend (bi_host b),
       \<lparr>hs_instance = instnc, hs_kind = kind, hs_platform = ho_platform (bi_host b), hs_hostname = host,
        hs_image = img, hs_command = command,
        hs_cap_add = sorted_set (concat (map (\<lambda>sel. impl_capabilities sel impls rs) (bi_impls b))),
        hs_attachments = attached,
        hs_routes = map (\<lambda>r. \<lparr>ro_cidr = rt_cidr r, ro_via = rt_via r\<rparr>) (dget_or (rp_routes routes) instnc []),
        hs_forwards = kd_forwards k, hs_agent = agent, hs_gate = (if agent then Some gate else None)\<rparr>)))))))))"

definition network_of_segment :: "(string \<Rightarrow> nat list) \<Rightarrow> scenario \<Rightarrow> address_plan \<Rightarrow> segment \<Rightarrow> manifest_error + network_spec" where
  "network_of_segment digest6 s plan n =
     rbind (or_raise (NoKey (seg_name n)) (dget (pl_gateways plan) (seg_name n))) (\<lambda>gw.
     Inr \<lparr>ns_name = seg_name n, ns_cidr = seg_cidr n, ns_gateway = gw, ns_plane = seg_plane n,
       ns_internal = (seg_plane n = DataPlane \<and> sc_egress s = EgressNone),
       ns_bridge = bridge_name digest6 (sc_name s) (seg_name n)\<rparr>)"

definition used_networks :: "host_spec list \<Rightarrow> string list" where
  "used_networks specs = concat (map (\<lambda>h. map at_network (hs_attachments h)) specs)"

definition manifest_of :: "(string \<Rightarrow> nat list) \<Rightarrow> scenario \<Rightarrow> topology \<Rightarrow> address_plan
    \<Rightarrow> string \<times> host_spec list \<Rightarrow> manifest_error + string \<times> run_manifest" where
  "manifest_of digest6 s topo plan = (\<lambda>(backend, specs).
     rbind (rmap (network_of_segment digest6 s plan)
         (filter (\<lambda>n. seg_name n \<in> set (used_networks specs)) (top_segments topo))) (\<lambda>networks.
     Inr (backend, \<lparr>rm_run = sc_name s, rm_backend = backend, rm_networks = networks, rm_hosts = specs\<rparr>)))"

definition build_manifests :: "(string \<Rightarrow> nat list) \<Rightarrow> scenario \<Rightarrow> topology \<Rightarrow> address_plan \<Rightarrow> route_plan
    \<Rightarrow> (string, impl_descriptor) dict \<Rightarrow> resources \<Rightarrow> manifest_error + (string, run_manifest) dict" where
  "build_manifests digest6 s topo plan routes impls rs =
     rbind (rmap (host_of_instance s topo plan routes impls rs) (instance_ids s)) (\<lambda>hosts.
     rmap (manifest_of digest6 s topo plan) (fold (\<lambda>(backend, h) d. dappend backend h d) hosts []))"

section \<open>What a manifest holds\<close>

definition backend_of :: "scenario \<Rightarrow> string \<Rightarrow> string option" where
  "backend_of s kind = map_option (\<lambda>b. ho_backend (bi_host b)) (dget (bindings_by_kind s) kind)"

text \<open>The instances bound to a backend, in the order the code names instances.\<close>

definition bound_to :: "scenario \<Rightarrow> string \<Rightarrow> string list" where
  "bound_to s backend = map (\<lambda>(path, kind, i). i) (filter (\<lambda>(path, kind, i). backend_of s kind = Some backend) (instance_ids s))"

text \<open>A host as planned: its name and addresses are the plan's, on its group's segments and every
  management segment, and its routes are the route plan's.\<close>

definition host_planned :: "scenario \<Rightarrow> topology \<Rightarrow> address_plan \<Rightarrow> route_plan \<Rightarrow> host_spec \<Rightarrow> bool" where
  "host_planned s topo plan routes h \<longleftrightarrow> (\<exists>path g. (path, hs_kind h, hs_instance h) \<in> set (instance_ids s)
     \<and> dget (groups_by_path s) path = Some g
     \<and> map at_network (hs_attachments h) = joined_segments topo g (hs_kind h)
     \<and> (\<forall>a\<in>set (hs_attachments h). plan_at plan (hs_instance h) (at_network a) = Some (at_address a))
     \<and> dget (pl_hostnames plan) (hs_instance h) = Some (hs_hostname h)
     \<and> map (\<lambda>r. (ro_cidr r, ro_via r)) (hs_routes h) = map (\<lambda>r. (rt_cidr r, rt_via r)) (dget_or (rp_routes routes) (hs_instance h) [])
     \<and> (hs_agent h \<longleftrightarrow> hs_gate h \<noteq> None))"

lemma host_of_instance_facts:
  assumes "host_of_instance s topo plan routes impls rs (path, kind, i) = Inr (backend, h)" "(path, kind, i) \<in> set (instance_ids s)"
  shows "backend_of s kind = Some backend \<and> hs_instance h = i \<and> host_planned s topo plan routes h"
proof -
  from assms(1) obtain b g addresses host attached where
    parts: "dget (bindings_by_kind s) kind = Some b" "backend = ho_backend (bi_host b)" "dget (groups_by_path s) path = Some g"
      "dget (pl_addresses plan) i = Some addresses" "dget (pl_hostnames plan) i = Some host"
    and att: "rmap (\<lambda>n. rbind (or_raise (NoKey n) (dget addresses n)) (\<lambda>a.
         Inr \<lparr>at_network = n, at_address = a, at_mac = dget (dget_or (pl_macs plan) i []) n\<rparr>)) (joined_segments topo g kind) = Inr attached"
    and h: "hs_instance h = i" "hs_kind h = kind" "hs_hostname h = host" "hs_attachments h = attached"
      "hs_routes h = map (\<lambda>r. \<lparr>ro_cidr = rt_cidr r, ro_via = rt_via r\<rparr>) (dget_or (rp_routes routes) i [])"
      "hs_gate h = (if hs_agent h then Some gate else None)"
    by (auto simp: host_of_instance_def rbind_Inr_iff)
  have "map at_network attached = map (\<lambda>n. n) (joined_segments topo g kind)"
    by (rule rmap_projected[OF att]) (auto simp: rbind_Inr_iff)
  then have names: "map at_network attached = joined_segments topo g kind" by simp
  have "plan_at plan i (at_network a) = Some (at_address a)" if "a \<in> set attached" for a
    using rmap_in[OF att that] parts(4) by (auto simp: rbind_Inr_iff plan_at_def dget_or_def)
  with parts names assms(2) show ?thesis by (auto simp: h backend_of_def host_planned_def comp_def)
qed

text \<open>C28: The run manifests share the instances out: each backend's manifest holds, in order, a host for
  every instance bound to the backend and no other host; each host is as planned, with its
  addresses from the address plan on the segments of its group and the management segments; every
  network a host joins that the topology has is described in the manifest, with the topology's CIDR
  and the plan's gateway, on a bridge named by the scenario and the segment alone, so that
  backends sharing a segment share its bridge; and every instance is in some manifest.\<close>

theorem manifests_share_out:
  assumes "build_manifests digest6 s topo plan routes impls rs = Inr ms"
  shows "dict_ok ms \<and> (\<forall>(backend, m)\<in>set ms. rm_backend m = backend \<and> rm_run m = sc_name s
      \<and> map hs_instance (rm_hosts m) = bound_to s backend \<and> list_all (host_planned s topo plan routes) (rm_hosts m)
      \<and> set (map ns_name (rm_networks m)) = set (used_networks (rm_hosts m)) \<inter> set (map seg_name (top_segments topo))
      \<and> (\<forall>n\<in>set (rm_networks m). \<exists>seg\<in>set (top_segments topo). ns_name n = seg_name seg \<and> ns_cidr n = seg_cidr seg
          \<and> dget (pl_gateways plan) (seg_name seg) = Some (ns_gateway n)
          \<and> ns_bridge n = bridge_name digest6 (sc_name s) (seg_name seg)))
    \<and> (\<forall>(path, kind, i)\<in>set (instance_ids s). \<exists>backend\<in>set (dkeys ms). i \<in> set (bound_to s backend))"
proof -
  let ?group = "\<lambda>hosts. fold (\<lambda>(backend, h) d. dappend backend h d) hosts ([] :: (string, host_spec list) dict)"
  from assms obtain hosts where hosts: "rmap (host_of_instance s topo plan routes impls rs) (instance_ids s) = Inr hosts"
    and ms: "rmap (manifest_of digest6 s topo plan) (?group hosts) = Inr ms" by (auto simp: build_manifests_def rbind_Inr_iff)
  have facts: "backend_of s kind = Some backend \<and> hs_instance h = i \<and> host_planned s topo plan routes h"
    if "(path, kind, i) \<in> set (instance_ids s)" "host_of_instance s topo plan routes impls rs (path, kind, i) = Inr (backend, h)"
    for path kind i backend h using host_of_instance_facts that by blast
  have keys: "map fst ms = map fst (?group hosts)"
    by (rule rmap_projected[OF ms]) (auto simp: manifest_of_def rbind_Inr_iff)
  have "dict_ok (?group hosts)" by (rule grouped_ok) (simp add: dict_ok_def)
  with keys have ok: "dict_ok ms" by (simp add: dict_ok_def)
  have each: "rm_backend m = backend \<and> rm_run m = sc_name s
      \<and> map hs_instance (rm_hosts m) = bound_to s backend \<and> list_all (host_planned s topo plan routes) (rm_hosts m)
      \<and> set (map ns_name (rm_networks m)) = set (used_networks (rm_hosts m)) \<inter> set (map seg_name (top_segments topo))
      \<and> (\<forall>n\<in>set (rm_networks m). \<exists>seg\<in>set (top_segments topo). ns_name n = seg_name seg \<and> ns_cidr n = seg_cidr seg
          \<and> dget (pl_gateways plan) (seg_name seg) = Some (ns_gateway n)
          \<and> ns_bridge n = bridge_name digest6 (sc_name s) (seg_name seg))"
    if m: "(backend, m) \<in> set ms" for backend m
  proof -
    from rmap_in[OF ms m] obtain specs networks where specs: "(backend, specs) \<in> set (?group hosts)"
      and nets: "rmap (network_of_segment digest6 s plan)
         (filter (\<lambda>n. seg_name n \<in> set (used_networks specs)) (top_segments topo)) = Inr networks"
      and parts: "rm_backend m = backend" "rm_run m = sc_name s" "rm_hosts m = specs" "rm_networks m = networks"
      by (auto simp: manifest_of_def rbind_Inr_iff)
    from grouped_entry[OF specs] have sp: "specs = map snd (filter (\<lambda>x. fst x = backend) hosts)" .
    have "map (\<lambda>x. hs_instance (snd x)) (filter (\<lambda>x. fst x = backend) hosts)
        = map (\<lambda>(path, kind, i). i) (filter (\<lambda>(path, kind, i). backend_of s kind = Some backend) (instance_ids s))"
      by (rule rmap_filtered[OF hosts]) (auto dest: facts)
    then have "map hs_instance specs = bound_to s backend" by (simp add: sp bound_to_def comp_def)
    moreover have "host_planned s topo plan routes h" if "h \<in> set specs" for h
    proof -
      from that sp have "(backend, h) \<in> set hosts" by auto
      from rmap_in[OF hosts this] show ?thesis by (auto dest: facts)
    qed
    moreover have "map ns_name networks = map seg_name (filter (\<lambda>n. seg_name n \<in> set (used_networks specs)) (top_segments topo))"
      by (rule rmap_projected[OF nets]) (auto simp: network_of_segment_def rbind_Inr_iff)
    then have "set (map ns_name networks) = set (used_networks specs) \<inter> set (map seg_name (top_segments topo))" by auto
    moreover have "\<exists>seg\<in>set (top_segments topo). ns_name n = seg_name seg \<and> ns_cidr n = seg_cidr seg
          \<and> dget (pl_gateways plan) (seg_name seg) = Some (ns_gateway n)
          \<and> ns_bridge n = bridge_name digest6 (sc_name s) (seg_name seg)" if "n \<in> set networks" for n
      using rmap_in[OF nets that] by (auto simp: network_of_segment_def rbind_Inr_iff)
    ultimately show ?thesis by (simp add: parts list_all_iff)
  qed
  have "\<exists>backend\<in>set (dkeys ms). i \<in> set (bound_to s backend)" if id: "(path, kind, i) \<in> set (instance_ids s)" for path kind i
  proof -
    from rmap_each[OF hosts id] obtain x where "host_of_instance s topo plan routes impls rs (path, kind, i) = Inr x" "x \<in> set hosts" ..
    then obtain backend h where h: "host_of_instance s topo plan routes impls rs (path, kind, i) = Inr (backend, h)" "(backend, h) \<in> set hosts"
      by (cases x) auto
    have "backend \<in> set (dkeys ms)" using h(2) keys grouped_keys[of hosts "[]"]
      by (metis dkeys_def image_eqI fst_conv list.set_map UnCI)
    moreover have "i \<in> set (bound_to s backend)" using facts[OF id h(1)] id by (force simp: bound_to_def)
    ultimately show ?thesis by blast
  qed
  with ok each show ?thesis by blast
qed

section \<open>The example's manifest\<close>

definition demo_manifests :: "manifest_error + (string, run_manifest) dict" where
  "demo_manifests = build_manifests (\<lambda>_. [1, 2, 3, 4, 5, 171]) demo_scenario demo_topology (fst demo_plan) (fst demo_routes) []
     (dict_resources [] [''cfg''])"

lemma demo_manifests_checked:
  "let r = demo_manifests in case r of Inl _ \<Rightarrow> False
    | Inr ms \<Rightarrow> dkeys ms = [''k''] \<and> map (\<lambda>n. (ns_name n, ns_bridge n)) (rm_networks (snd (hd ms)))
        = [(''x'', ''tg-0102030405ab''), (''y'', ''tg-0102030405ab''), (''m'', ''tg-0102030405ab'')]"
  by code_simp

theorem manifests_share_out_witness:
  "\<exists>m. demo_manifests = Inr [(''k'', m)] \<and> map hs_instance (rm_hosts m) = bound_to demo_scenario ''k''
    \<and> ''o/c[1]'' \<in> set (bound_to demo_scenario ''k'')"
proof -
  from demo_manifests_checked obtain m where m: "demo_manifests = Inr [(''k'', m)]"
    by (auto simp: Let_def dkeys_def split: sum.splits)
  have "(''o/c'', ''c'', ''o/c[1]'') \<in> set (instance_ids demo_scenario) \<or> (''o'', ''c'', ''o/c[1]'') \<in> set (instance_ids demo_scenario)"
    by code_simp
  with manifests_share_out[OF m[unfolded demo_manifests_def]] m show ?thesis by (fastforce simp: dkeys_def)
qed

end
