(* ===== verification/Capture.thy ===== *)
theory Capture
  imports Interfaces
begin

text \<open>
  Where a run is captured and on which clock (\<open>runtime/capture/points.py\<close>, \<open>offsets.py\<close>): the
  bridges a capture point listens on, in the order of the file's interfaces, the VLAN of each,
  and every host's offset from the capture host's clock.
\<close>

section \<open>Capture points\<close>

record point =
  po_name :: string
  po_segments :: "string list"
  po_bridges :: "string list"
  po_vlans :: "int option list"
  po_tagged :: bool

definition vlan_by_interface :: "point \<Rightarrow> (nat, int) dict" where
  "vlan_by_interface p = concat (map (\<lambda>(i, v). case v of None \<Rightarrow> [] | Some v \<Rightarrow> [(i, v)]) (enumerate0 (po_vlans p)))"

text \<open>\<open>Run.bridges\<close>: later backends override earlier ones.\<close>

definition run_bridges :: "(string, run_state) dict \<Rightarrow> (string, string) dict" where
  "run_bridges states = fold (\<lambda>(backend, st) found. fold (\<lambda>(seg, br) d. dset seg br d) (rst_bridges st) found) states []"

datatype capture_error = NoBridge string "string list" | NoTopology | NoStates | UnknownName string

definition capture_point_of :: "topology \<Rightarrow> (string, string) dict \<Rightarrow> string \<Rightarrow> capture_error + point" where
  "capture_point_of topo bridges name =
     rbind (or_raise (UnknownName name) (dget (dict_of (map (\<lambda>cp. (cp_name cp, cp)) (top_capture_points topo))) name)) (\<lambda>cp.
     let missing = filter (\<lambda>s. s \<notin> set (dkeys bridges)) (cp_segments cp)
     in if missing \<noteq> [] then Inl (NoBridge name missing)
        else rbind (rmap (\<lambda>s. rbind (or_raise (UnknownName s) (dget (dict_of (map (\<lambda>g. (seg_name g, g)) (top_segments topo))) s))
            (\<lambda>g. Inr (seg_vlan g))) (cp_segments cp)) (\<lambda>vlans.
          Inr \<lparr>po_name = name, po_segments = cp_segments cp,
            po_bridges = map (\<lambda>s. dget_or bridges s []) (cp_segments cp), po_vlans = vlans, po_tagged = cp_tagged cp\<rparr>))"

definition capture_points :: "scenario \<Rightarrow> topology \<Rightarrow> (string, string) dict \<Rightarrow> capture_error + point list" where
  "capture_points s topo bridges = rmap (capture_point_of topo bridges) (sc_capture_points s)"

section \<open>Clock offsets\<close>

datatype offset_method = SharedKernel | GuestAgent | NotMeasured

fun offset_method_str :: "offset_method \<Rightarrow> string" where
  "offset_method_str SharedKernel = ''shared-kernel''"
| "offset_method_str GuestAgent = ''guest-agent''"
| "offset_method_str NotMeasured = ''unmeasured''"

record clock_offset =
  off_seconds :: "rat option"
  off_method :: offset_method

definition offset_of :: "string \<Rightarrow> host_state \<Rightarrow> clock_offset" where
  "offset_of backend h =
     (if backend = ''docker'' then \<lparr>off_seconds = Some 0, off_method = SharedKernel\<rparr>
      else case hst_clock_offset h of
        Some x \<Rightarrow> \<lparr>off_seconds = Some x, off_method = GuestAgent\<rparr>
      | None \<Rightarrow> \<lparr>off_seconds = None, off_method = NotMeasured\<rparr>)"

definition host_offsets :: "(string, run_state) dict \<Rightarrow> (string, clock_offset) dict" where
  "host_offsets states = fold (\<lambda>(backend, st) found. fold (\<lambda>(i, h) d. dset i (offset_of backend h) d) (rst_hosts st) found) states []"

end
