(* ===== verification/Scheduler.thy ===== *)
theory Scheduler
  imports Capture Collector Sampling Demo
begin

text \<open>
  One run of a built scenario (\<open>runtime/scheduler/scheduler.py\<close>). What the scheduler drives is a
  record of functions on a world, as the code takes it as callables; every call may raise. The
  state holds the run directory's state files and record, the undo steps and, for the theorems,
  the calls made. A step that raises ends the way up and the steps done are undone in reverse;
  a \<open>KeyboardInterrupt\<close> is not an \<open>Exception\<close>, so it ends the undoing too. The log is left out.
\<close>

section \<open>Ports and state\<close>

datatype exn = Failure msg | Interrupt

datatype undo = TakeDown run_manifest | Detach string | StopCapture

datatype call = Up run_manifest | Collect run_manifest | Down run_manifest | Attach string run_manifest
  | CallDetach string | Quiesce run_manifest | StartCapture "point list" | CallStopCapture | Release run_manifest
  | Dump string

text \<open>\<open>po_dump\<close> says whether a file of the run directory could be written.\<close>

record 'w ports =
  po_infra :: "string list"
  po_attrib :: "string list"
  po_up :: "run_manifest \<Rightarrow> 'w \<Rightarrow> (exn + run_state) \<times> 'w"
  po_start :: "run_manifest \<Rightarrow> run_state \<Rightarrow> 'w \<Rightarrow> (exn + unit) \<times> 'w"
  po_quiesce :: "run_manifest \<Rightarrow> run_state \<Rightarrow> 'w \<Rightarrow> (exn + run_state) \<times> 'w"
  po_collect :: "run_manifest \<Rightarrow> run_state \<Rightarrow> 'w \<Rightarrow> (exn + unit) \<times> 'w"
  po_down :: "run_manifest \<Rightarrow> 'w \<Rightarrow> (exn + unit) \<times> 'w"
  po_attach :: "string \<Rightarrow> run_manifest \<Rightarrow> run_state \<Rightarrow> 'w \<Rightarrow> (exn + run_state) \<times> 'w"
  po_detach :: "string \<Rightarrow> 'w \<Rightarrow> (exn + unit) \<times> 'w"
  po_capture_start :: "string \<Rightarrow> point list \<Rightarrow> 'w \<Rightarrow> (exn + unit) \<times> 'w"
  po_capture_stop :: "'w \<Rightarrow> (exn + unit) \<times> 'w"
  po_dump :: "string \<Rightarrow> 'w \<Rightarrow> (exn + unit) \<times> 'w"
  po_clock :: "'w \<Rightarrow> rat"
  po_sleep :: "rat \<Rightarrow> 'w \<Rightarrow> (exn + unit) \<times> 'w"

record 'w run_dir =
  rd_world :: 'w
  rd_files :: "(string, run_state) dict"
  rd_record :: "run_record option"
  rd_offsets :: "(string, clock_offset) dict option"
  rd_states :: "(string, run_state) dict"
  rd_undo :: "undo list"
  rd_calls :: "(call \<times> bool) list"

text \<open>A step returns or raises, and leaves a state either way.\<close>

type_synonym ('w, 'a) run_step = "'w run_dir \<Rightarrow> (exn + 'a) \<times> 'w run_dir"

definition return_step :: "'a \<Rightarrow> ('w, 'a) run_step" where
  "return_step x s = (Inr x, s)"

definition raise_step :: "exn \<Rightarrow> ('w, 'a) run_step" where
  "raise_step e s = (Inl e, s)"

definition andthen :: "('w, 'a) run_step \<Rightarrow> ('a \<Rightarrow> ('w, 'b) run_step) \<Rightarrow> ('w, 'b) run_step" where
  "andthen m f s = (case m s of (Inl e, s') \<Rightarrow> (Inl e, s') | (Inr x, s') \<Rightarrow> f x s')"

definition update_step :: "('w run_dir \<Rightarrow> 'w run_dir) \<Rightarrow> ('w, unit) run_step" where
  "update_step f s = (Inr (), f s)"

fun each :: "('a \<Rightarrow> ('w, unit) run_step) \<Rightarrow> 'a list \<Rightarrow> ('w, unit) run_step" where
  "each f [] = return_step ()"
| "each f (x # xs) = andthen (f x) (\<lambda>_. each f xs)"

text \<open>A call of a port, remembered with whether it returned.\<close>

definition port_call :: "call \<Rightarrow> ('w \<Rightarrow> (exn + 'a) \<times> 'w) \<Rightarrow> ('w, 'a) run_step" where
  "port_call c f s = (case f (rd_world s) of (r, w) \<Rightarrow>
     (r, s\<lparr>rd_world := w, rd_calls := rd_calls s @ [(c, \<not> isl r)]\<rparr>))"

definition state_of :: "'w run_dir \<Rightarrow> run_manifest \<Rightarrow> run_state" where
  "state_of s m = the (dget (rd_states s) (rm_backend m))"

definition push_undo :: "undo \<Rightarrow> ('w, unit) run_step" where
  "push_undo u = update_step (\<lambda>s. s\<lparr>rd_undo := rd_undo s @ [u]\<rparr>)"

definition set_state :: "run_manifest \<Rightarrow> run_state \<Rightarrow> ('w, unit) run_step" where
  "set_state m st = update_step (\<lambda>s. s\<lparr>rd_states := dset (rm_backend m) st (rd_states s)\<rparr>)"

definition state_file :: "string \<Rightarrow> string" where
  "state_file backend = ''state.'' @ backend @ ''.json''"

definition dump_state :: "'w ports \<Rightarrow> run_manifest \<Rightarrow> ('w, unit) run_step" where
  "dump_state P m = andthen (port_call (Dump (state_file (rm_backend m))) (po_dump P (state_file (rm_backend m))))
     (\<lambda>_. update_step (\<lambda>s. s\<lparr>rd_files := dset (rm_backend m) (state_of s m) (rd_files s)\<rparr>))"

section \<open>The way up\<close>

definition bring_up :: "'w ports \<Rightarrow> run_manifest \<Rightarrow> ('w, unit) run_step" where
  "bring_up P m =
     andthen (port_call (Up m) (po_up P m)) (\<lambda>st.
     andthen (set_state m st) (\<lambda>_.
     andthen (push_undo (TakeDown m)) (\<lambda>_. dump_state P m)))"

definition attach_one :: "'w ports \<Rightarrow> run_manifest \<Rightarrow> string \<Rightarrow> ('w, unit) run_step" where
  "attach_one P m name =
     (\<lambda>s. andthen (port_call (Attach name m) (po_attach P name m (state_of s m))) (\<lambda>st.
       andthen (set_state m st) (\<lambda>_.
       andthen (push_undo (Detach name)) (\<lambda>_. dump_state P m))) s)"

definition attach_all :: "'w ports \<Rightarrow> run_manifest \<Rightarrow> ('w, unit) run_step" where
  "attach_all P m = each (attach_one P m) (sorted_set (dkeys (backends_for m)))"

fun capture_message :: "capture_error \<Rightarrow> msg" where
  "capture_message (NoBridge name missing) =
     [L ''capture point '', R name, L '': no bridge in the run state for ''] @ join_str '', '' missing"
| "capture_message NoTopology = [L ''the topology of the scenario does not resolve'']"
| "capture_message NoStates = [L ''no run state; is the run up?'']"
| "capture_message (UnknownName n) = [R n]"

definition load_points :: "scenario \<Rightarrow> topology option \<Rightarrow> 'w run_dir \<Rightarrow> capture_error + point list" where
  "load_points sc topo s =
     (case topo of None \<Rightarrow> Inl NoTopology
      | Some t \<Rightarrow> if rd_files s = [] then Inl NoStates else capture_points sc t (run_bridges (sort_key (\<lambda>(b, _). state_file b) (rd_files s))))"

definition find_points :: "scenario \<Rightarrow> topology option \<Rightarrow> ('w, point list) run_step" where
  "find_points sc topo s = (case load_points sc topo s of
     Inl e \<Rightarrow> raise_step (Failure (capture_message e)) s | Inr ps \<Rightarrow> return_step ps s)"

text \<open>A backend may write into the run state it is given, which the record of the run then holds.\<close>

definition quiesce_one :: "'w ports \<Rightarrow> run_manifest \<Rightarrow> ('w, unit) run_step" where
  "quiesce_one P m = (\<lambda>s. andthen (port_call (Quiesce m) (po_quiesce P m (state_of s m))) (set_state m) s)"

definition release_one :: "'w ports \<Rightarrow> run_manifest \<Rightarrow> ('w, unit) run_step" where
  "release_one P m s = port_call (Release m) (po_start P m (state_of s m)) s"

definition write_offsets :: "'w ports \<Rightarrow> ('w, unit) run_step" where
  "write_offsets P = andthen (port_call (Dump ''offsets.json'') (po_dump P ''offsets.json''))
     (\<lambda>_. update_step (\<lambda>s. s\<lparr>rd_offsets := Some (host_offsets (rd_states s))\<rparr>))"

definition way_up :: "'w ports \<Rightarrow> scenario \<Rightarrow> topology option \<Rightarrow> run_manifest list \<Rightarrow> ('w, rat) run_step" where
  "way_up P sc topo found =
     andthen (each (bring_up P) found) (\<lambda>_.
     andthen (each (attach_all P) found) (\<lambda>_.
     andthen (find_points sc topo) (\<lambda>points.
     andthen (each (quiesce_one P) found) (\<lambda>_.
     andthen (port_call (StartCapture points) (po_capture_start P (sc_name sc) points)) (\<lambda>_.
     andthen (push_undo StopCapture) (\<lambda>_.
     andthen (write_offsets P) (\<lambda>_ s.
     let started = po_clock P (rd_world s)
     in andthen (each (release_one P) found) (\<lambda>_. return_step started) s)))))))"

section \<open>The way down\<close>

text \<open>\<open>_down\<close>: the hosts go down whether or not what they wrote could be collected, and the state
  file goes only when they went down.\<close>

definition take_down :: "'w ports \<Rightarrow> run_manifest \<Rightarrow> ('w, unit) run_step" where
  "take_down P m s =
     (case port_call (Collect m) (po_collect P m (state_of s m)) s of (collected, s) \<Rightarrow>
      case port_call (Down m) (po_down P m) s of
        (Inl e, s) \<Rightarrow> (Inl e, s)
      | (Inr _, s) \<Rightarrow> (collected, s\<lparr>rd_files := AList.delete (rm_backend m) (rd_files s)\<rparr>))"

definition undo_one :: "'w ports \<Rightarrow> undo \<Rightarrow> ('w, unit) run_step" where
  "undo_one P u = (case u of
     TakeDown m \<Rightarrow> take_down P m
   | Detach name \<Rightarrow> port_call (CallDetach name) (po_detach P name)
   | StopCapture \<Rightarrow> port_call CallStopCapture (po_capture_stop P))"

fun undo_all :: "'w ports \<Rightarrow> undo list \<Rightarrow> exn option \<Rightarrow> ('w, exn option) run_step" where
  "undo_all P [] first s = (Inr first, s)"
| "undo_all P (u # us) first s =
     (case undo_one P u s of
        (Inl Interrupt, s) \<Rightarrow> (Inl Interrupt, s)
      | (Inl e, s) \<Rightarrow> undo_all P us (case first of None \<Rightarrow> Some e | Some f \<Rightarrow> Some f) s
      | (Inr _, s) \<Rightarrow> undo_all P us first s)"

definition unwind :: "'w ports \<Rightarrow> ('w, exn option) run_step" where
  "unwind P = (\<lambda>s. andthen (undo_all P (rev (rd_undo s)) None) (\<lambda>first.
     andthen (update_step (\<lambda>s. s\<lparr>rd_undo := []\<rparr>)) (\<lambda>_. return_step first)) s)"

section \<open>The run\<close>

text \<open>The waiting loop, with fuel: \<open>None\<close> when the fuel is spent. An interrupt cuts the run.\<close>

fun wait :: "'w ports \<Rightarrow> nat \<Rightarrow> rat \<Rightarrow> 'w run_dir \<Rightarrow> ((exn + bool) \<times> 'w run_dir) option" where
  "wait P 0 until s = None"
| "wait P (Suc n) until s =
     (let left = until - po_clock P (rd_world s)
      in if left \<le> 0 then Some (Inr False, s)
         else case po_sleep P (min 1 left) (rd_world s) of
           (Inl Interrupt, w) \<Rightarrow> Some (Inr True, s\<lparr>rd_world := w\<rparr>)
         | (Inl e, w) \<Rightarrow> Some (Inl e, s\<lparr>rd_world := w\<rparr>)
         | (Inr _, w) \<Rightarrow> wait P n until (s\<lparr>rd_world := w\<rparr>))"

definition run_id :: "(rat \<Rightarrow> string) \<Rightarrow> string \<Rightarrow> rat \<Rightarrow> string" where
  "run_id utc scenario started = scenario @ ''-'' @ utc started"

definition write_record :: "'w ports \<Rightarrow> run_record \<Rightarrow> ('w, run_record) run_step" where
  "write_record P r = andthen (port_call (Dump ''run.json'') (po_dump P ''run.json''))
     (\<lambda>_. andthen (update_step (\<lambda>s. s\<lparr>rd_record := Some r\<rparr>)) (\<lambda>_. return_step r))"

definition finish :: "'w ports \<Rightarrow> (rat \<Rightarrow> string) \<Rightarrow> scenario \<Rightarrow> rat \<Rightarrow> ('w, run_record) run_step" where
  "finish P utc sc started = (\<lambda>s.
     let ran = po_clock P (rd_world s) - started
     in andthen (unwind P) (\<lambda>failure. case failure of
          Some e \<Rightarrow> raise_step e
        | None \<Rightarrow> (\<lambda>s. write_record P \<lparr>rr_run = run_id utc (sc_name sc) started, rr_scenario = sc_name sc,
            rr_started = started, rr_duration = ran, rr_states = rd_states s\<rparr> s)) s)"

definition missing_backends :: "'w ports \<Rightarrow> run_manifest list \<Rightarrow> msg option" where
  "missing_backends P found =
     (let absent = filter (\<lambda>n. n \<notin> set (po_infra P)) (sorted_set (map rm_backend found));
          unwatched = filter (\<lambda>n. n \<notin> set (po_attrib P)) (sorted_set (concat (map (\<lambda>m. dkeys (backends_for m)) found)))
      in if absent \<noteq> [] then Some ([L ''no runtime installed for backend(s): ''] @ join_str '', '' absent)
         else if unwatched \<noteq> [] then Some ([L ''no attribution backend installed: ''] @ join_str '', '' unwatched)
         else None)"

text \<open>\<open>None\<close> only when the fuel of the waiting loop is spent.\<close>

definition run_scenario :: "'w ports \<Rightarrow> (rat \<Rightarrow> string) \<Rightarrow> nat \<Rightarrow> scenario \<Rightarrow> topology option \<Rightarrow> run_manifest list
    \<Rightarrow> rat option \<Rightarrow> 'w run_dir \<Rightarrow> ((exn + run_record) \<times> 'w run_dir) option" where
  "run_scenario P utc fuel sc topo found for_s s =
     (if found = [] then Some (Inl (Failure [L ''the run directory holds no manifest; was it written by tiergen build?'']), s)
      else case missing_backends P found of
        Some m \<Rightarrow> Some (Inl (Failure m), s)
      | None \<Rightarrow>
          let s = s\<lparr>rd_states := [], rd_undo := []\<rparr>; duration = (case for_s of None \<Rightarrow> num (sc_duration_s sc) | Some d \<Rightarrow> d)
          in case way_up P sc topo found s of
               (Inl e, s) \<Rightarrow> (case unwind P s of (Inl i, s) \<Rightarrow> Some (Inl i, s) | (Inr _, s) \<Rightarrow> Some (Inl e, s))
             | (Inr started, s) \<Rightarrow> (case wait P fuel (started + duration) s of
                 None \<Rightarrow> None
               | Some (Inl e, s) \<Rightarrow> Some (Inl e, s)
               | Some (Inr interrupted, s) \<Rightarrow> Some (finish P utc sc started s)))"

section \<open>What comes up and what goes down\<close>

fun came_up_by :: "call \<times> bool \<Rightarrow> undo list" where
  "came_up_by (Up m, True) = [TakeDown m]"
| "came_up_by (Attach name m, True) = [Detach name]"
| "came_up_by (StartCapture ps, True) = [StopCapture]"
| "came_up_by _ = []"

fun went_down_by :: "call \<times> bool \<Rightarrow> undo list" where
  "went_down_by (Down m, _) = [TakeDown m]"
| "went_down_by (CallDetach name, _) = [Detach name]"
| "went_down_by (CallStopCapture, _) = [StopCapture]"
| "went_down_by _ = []"

fun gathered_by :: "call \<times> bool \<Rightarrow> run_manifest list" where
  "gathered_by (Collect m, _) = [m]"
| "gathered_by _ = []"

definition came_up :: "(call \<times> bool) list \<Rightarrow> undo list" where
  "came_up calls = concat (map came_up_by calls)"

definition went_down :: "(call \<times> bool) list \<Rightarrow> undo list" where
  "went_down calls = concat (map went_down_by calls)"

definition gathered :: "(call \<times> bool) list \<Rightarrow> run_manifest list" where
  "gathered calls = concat (map gathered_by calls)"

lemma log_simps [simp]:
  "came_up [] = []" "came_up (c # cs) = came_up_by c @ came_up cs" "came_up (xs @ ys) = came_up xs @ came_up ys"
  "went_down [] = []" "went_down (c # cs) = went_down_by c @ went_down cs" "went_down (xs @ ys) = went_down xs @ went_down ys"
  "gathered [] = []" "gathered (c # cs) = gathered_by c @ gathered cs" "gathered (xs @ ys) = gathered xs @ gathered ys"
  by (simp_all add: came_up_def went_down_def gathered_def)

text \<open>On the way up the undo steps are what has been opened, and nothing is closed.\<close>

definition tracks :: "'w run_dir \<Rightarrow> 'w run_dir \<Rightarrow> bool" where
  "tracks s s' \<longleftrightarrow> (\<exists>log. rd_calls s' = rd_calls s @ log \<and> rd_undo s' = rd_undo s @ came_up log \<and> went_down log = []
     \<and> gathered log = [] \<and> rd_record s' = rd_record s)"

definition keeps :: "('w run_dir \<Rightarrow> 'w run_dir \<Rightarrow> bool) \<Rightarrow> ('w, 'a) run_step \<Rightarrow> bool" where
  "keeps rel m \<longleftrightarrow> (\<forall>s r s'. m s = (r, s') \<longrightarrow> rel s s')"

text \<open>A relation kept by loops of steps is kept by everything the steps of a run are put together of.\<close>

locale run_relation = state_relation rel
  for rel :: "'w run_dir \<Rightarrow> 'w run_dir \<Rightarrow> bool"
begin

lemma keeps_return: "keeps rel (return_step x)" "keeps rel (raise_step e)"
  by (auto simp: keeps_def return_step_def raise_step_def related_refl)

lemma keeps_andthen: "keeps rel m \<Longrightarrow> (\<And>x. keeps rel (f x)) \<Longrightarrow> keeps rel (andthen m f)"
  unfolding keeps_def andthen_def by (fastforce split: prod.splits sum.splits intro: related_trans)

lemma keeps_each: "(\<And>x. keeps rel (f x)) \<Longrightarrow> keeps rel (each f xs)"
  by (induction xs) (auto intro: keeps_return keeps_andthen)

end

interpretation tracking: run_relation tracks
proof
  show "tracks s s" for s :: "'w run_dir" unfolding tracks_def by (rule exI[of _ "[]"]) simp
  show "tracks s t \<Longrightarrow> tracks t u \<Longrightarrow> tracks s u" for s t u :: "'w run_dir"
    unfolding tracks_def by (elim exE, rename_tac l1 l2, rule_tac x = "l1 @ l2" in exI) simp
qed

lemma keeps_at: "(\<And>t. keeps tracks (f t)) \<Longrightarrow> keeps tracks (\<lambda>s. f s s)"
  by (auto simp: keeps_def)

definition quiet :: "('w run_dir \<Rightarrow> 'w run_dir) \<Rightarrow> bool" where
  "quiet f \<longleftrightarrow> (\<forall>s. rd_calls (f s) = rd_calls s \<and> rd_undo (f s) = rd_undo s \<and> rd_record (f s) = rd_record s)"

lemma keeps_update: "quiet f \<Longrightarrow> keeps tracks (update_step f)"
  unfolding keeps_def update_step_def quiet_def tracks_def by (auto intro!: exI[of _ "[]"])

lemma keeps_call:
  "(\<And>b. came_up_by (c, b) = [] \<and> went_down_by (c, b) = [] \<and> gathered_by (c, b) = []) \<Longrightarrow> keeps tracks (port_call c f)"
  unfolding keeps_def port_call_def tracks_def by (auto split: prod.splits)

lemma keeps_dump: "keeps tracks (port_call (Dump n) f)"
  by (rule keeps_call) simp

lemma keeps_dump_state: "keeps tracks (dump_state P m)"
  unfolding dump_state_def by (intro tracking.keeps_andthen keeps_dump keeps_update) (simp add: quiet_def)

lemma keeps_opening:
  assumes "came_up_by (c, True) = [u]" "came_up_by (c, False) = []" "\<And>b. went_down_by (c, b) = [] \<and> gathered_by (c, b) = []"
    "\<And>x. quiet (h x)" "keeps tracks k"
  shows "keeps tracks (andthen (port_call c f) (\<lambda>x. andthen (update_step (h x)) (\<lambda>_. andthen (push_undo u) (\<lambda>_. k))))"
proof -
  have "tracks s s'" if run: "andthen (port_call c f) (\<lambda>x. andthen (update_step (h x)) (\<lambda>_. andthen (push_undo u) (\<lambda>_. k))) s = (r, s')"
    for s r s'
  proof -
    obtain y w where fw: "f (rd_world s) = (y, w)" by fastforce
    show ?thesis
    proof (cases y)
      case (Inl e)
      with run fw assms(2,3) show ?thesis
        unfolding tracks_def by (auto simp: andthen_def port_call_def)
    next
      case (Inr x)
      let ?t = "h x (s\<lparr>rd_world := w, rd_calls := rd_calls s @ [(c, True)]\<rparr>)"
      let ?u = "?t\<lparr>rd_undo := rd_undo ?t @ [u]\<rparr>"
      from Inr run fw have "k ?u = (r, s')" by (simp add: andthen_def port_call_def update_step_def push_undo_def)
      with assms(5) have "tracks ?u s'" by (simp add: keeps_def)
      moreover have "tracks s ?u"
        using assms(1,3,4) unfolding tracks_def quiet_def by (intro exI[of _ "[(c, True)]"]) simp
      ultimately show ?thesis by (rule tracking.related_trans[rotated])
    qed
  qed
  then show ?thesis unfolding keeps_def by blast
qed

lemma keeps_bring_up: "keeps tracks (bring_up P m)"
  unfolding bring_up_def set_state_def
  by (rule keeps_opening) (simp_all add: quiet_def keeps_dump_state)

lemma keeps_attach_one: "keeps tracks (attach_one P m name)"
  unfolding attach_one_def set_state_def
  by (rule keeps_at[where f = "\<lambda>t. andthen (port_call (Attach name m) (po_attach P name m (state_of t m))) _"])
    (rule keeps_opening; simp add: quiet_def keeps_dump_state)

lemma keeps_find_points: "keeps tracks (find_points sc topo)"
  by (auto simp: keeps_def find_points_def return_step_def raise_step_def tracking.related_refl split: sum.splits)

lemma andthen_skip: "andthen (update_step (\<lambda>s. s)) g = g ()"
  by (rule ext) (simp add: andthen_def update_step_def)

lemma keeps_starting:
  assumes "keeps tracks k"
  shows "keeps tracks (andthen (port_call (StartCapture ps) f) (\<lambda>_. andthen (push_undo StopCapture) (\<lambda>_. k)))"
proof -
  have "andthen (port_call (StartCapture ps) f) (\<lambda>_. andthen (push_undo StopCapture) (\<lambda>_. k))
      = andthen (port_call (StartCapture ps) f) (\<lambda>_. andthen (update_step (\<lambda>s. s)) (\<lambda>_. andthen (push_undo StopCapture) (\<lambda>_. k)))"
    by (simp add: andthen_skip)
  then show ?thesis by (rule ssubst) (rule keeps_opening; simp add: quiet_def assms)
qed

lemma keeps_way_up: "keeps tracks (way_up P sc topo found)"
proof -
  have quiesce: "keeps tracks (quiesce_one P m)" for m
    unfolding quiesce_one_def by (rule keeps_at[where f = "\<lambda>s. andthen (port_call (Quiesce m) (po_quiesce P m (state_of s m))) (set_state m)"],
      rule tracking.keeps_andthen, rule keeps_call, simp, unfold set_state_def, rule keeps_update, simp add: quiet_def)
  have release: "keeps tracks (release_one P m)" for m
    unfolding release_one_def by (rule keeps_at[where f = "\<lambda>s. port_call (Release m) (po_start P m (state_of s m))"], rule keeps_call) simp
  have last: "keeps tracks (\<lambda>s. let started = po_clock P (rd_world s) in andthen (each (release_one P) found) (\<lambda>_. return_step started) s)"
    unfolding Let_def
    by (rule keeps_at[where f = "\<lambda>s. andthen (each (release_one P) found) (\<lambda>_. return_step (po_clock P (rd_world s)))"])
      (intro tracking.keeps_andthen tracking.keeps_each release tracking.keeps_return)
  have offsets: "keeps tracks (write_offsets P)"
    unfolding write_offsets_def by (intro tracking.keeps_andthen keeps_dump keeps_update) (simp add: quiet_def)
  show ?thesis
    unfolding way_up_def attach_all_def
    by (intro tracking.keeps_andthen tracking.keeps_each keeps_bring_up keeps_attach_one keeps_find_points quiesce keeps_starting offsets last)
qed

text \<open>Undoing with no interrupt takes every step, whatever fails on the way.\<close>

definition calm :: "'w ports \<Rightarrow> bool" where
  "calm P \<longleftrightarrow> (\<forall>m st w. fst (po_collect P m st w) \<noteq> Inl Interrupt) \<and> (\<forall>m w. fst (po_down P m w) \<noteq> Inl Interrupt)
     \<and> (\<forall>n w. fst (po_detach P n w) \<noteq> Inl Interrupt) \<and> (\<forall>w. fst (po_capture_stop P w) \<noteq> Inl Interrupt)
     \<and> (\<forall>d w e. fst (po_sleep P d w) = Inl e \<longrightarrow> e = Interrupt)"

definition hosts_of :: "undo list \<Rightarrow> run_manifest list" where
  "hosts_of us = concat (map (\<lambda>u. case u of TakeDown m \<Rightarrow> [m] | _ \<Rightarrow> []) us)"

definition undone :: "undo list \<Rightarrow> 'w run_dir \<Rightarrow> 'w run_dir \<Rightarrow> bool" where
  "undone us s s' \<longleftrightarrow> (\<exists>log. rd_calls s' = rd_calls s @ log \<and> went_down log = us \<and> gathered log = hosts_of us \<and> came_up log = []
     \<and> rd_record s' = rd_record s \<and> rd_states s' = rd_states s \<and> rd_undo s' = rd_undo s)"

lemma undone_trans: "undone us s t \<Longrightarrow> undone vs t u \<Longrightarrow> undone (us @ vs) s u"
  unfolding undone_def hosts_of_def by (elim exE, rename_tac l1 l2, rule_tac x = "l1 @ l2" in exI) simp

lemma undo_one_undone:
  assumes "calm P" "undo_one P u s = (r, s')"
  shows "undone [u] s s' \<and> r \<noteq> Inl Interrupt"
proof (cases u)
  case (TakeDown m)
  obtain c w where c: "po_collect P m (state_of s m) (rd_world s) = (c, w)" by fastforce
  obtain d v where d: "po_down P m w = (d, v)" by fastforce
  have "c \<noteq> Inl Interrupt" "d \<noteq> Inl Interrupt" using assms(1) c d unfolding calm_def by (metis fst_conv)+
  with assms(2) TakeDown c d show ?thesis
    unfolding undone_def hosts_of_def
    by (auto simp: undo_one_def take_down_def port_call_def split: sum.splits
        intro!: exI[of _ "[(Collect m, \<not> isl c), (Down m, \<not> isl d)]"])
next
  case (Detach n)
  obtain d v where d: "po_detach P n (rd_world s) = (d, v)" by fastforce
  have "d \<noteq> Inl Interrupt" using assms(1) d unfolding calm_def by (metis fst_conv)
  with assms(2) Detach d show ?thesis
    unfolding undone_def hosts_of_def by (auto simp: undo_one_def port_call_def)
next
  case StopCapture
  obtain d v where d: "po_capture_stop P (rd_world s) = (d, v)" by fastforce
  have "d \<noteq> Inl Interrupt" using assms(1) d unfolding calm_def by (metis fst_conv)
  with assms(2) StopCapture d show ?thesis
    unfolding undone_def hosts_of_def by (auto simp: undo_one_def port_call_def)
qed

lemma undo_all_undone:
  assumes "calm P" "undo_all P us first s = (r, s')"
  shows "undone us s s' \<and> (\<exists>f. r = Inr f)"
  using assms(2)
proof (induction us arbitrary: first s)
  case Nil
  then show ?case by (auto simp: undone_def hosts_of_def intro!: exI[of _ "[]"])
next
  case (Cons u us)
  obtain y t where y: "undo_one P u s = (y, t)" by fastforce
  note one = undo_one_undone[OF assms(1) y]
  from Cons.prems y one obtain first' where "undo_all P us first' t = (r, s')"
    by (cases y) (auto split: exn.splits)
  from Cons.IH[OF this] undone_trans[of "[u]" s t us s'] one show ?case by auto
qed

lemma unwind_undone:
  assumes "calm P" "unwind P s = (r, s')"
  shows "\<exists>t. undone (rev (rd_undo s)) s t \<and> s' = t\<lparr>rd_undo := []\<rparr> \<and> (\<exists>f. r = Inr f)"
proof -
  obtain y t where y: "undo_all P (rev (rd_undo s)) None s = (y, t)" by fastforce
  from undo_all_undone[OF assms(1) y] assms(2) y show ?thesis
    by (intro exI[of _ t]) (auto simp: unwind_def andthen_def update_step_def return_step_def)
qed

lemma wait_keeps: "wait P n limit s = Some (r, s') \<Longrightarrow> \<exists>w. s' = s\<lparr>rd_world := w\<rparr>"
proof (induction n arbitrary: s)
  case (Suc n)
  obtain y w where y: "po_sleep P (min 1 (limit - po_clock P (rd_world s))) (rd_world s) = (y, w)" by fastforce
  from Suc.prems y show ?case
    by (auto simp: Let_def split: if_splits sum.splits exn.splits intro: exI[of _ "rd_world s"] dest!: Suc.IH)
qed simp

lemma wait_calm: "calm P \<Longrightarrow> wait P n limit s = Some (r, s') \<Longrightarrow> \<exists>cut_short. r = Inr cut_short"
proof (induction n arbitrary: s)
  case (Suc n)
  obtain y w where y: "po_sleep P (min 1 (limit - po_clock P (rd_world s))) (rd_world s) = (y, w)" by fastforce
  have "y = Inl e \<Longrightarrow> e = Interrupt" for e using Suc.prems(1) y unfolding calm_def by (metis fst_conv)
  with Suc y show ?case by (auto simp: Let_def split: if_splits sum.splits exn.splits)
qed simp

definition balanced :: "'w run_dir \<Rightarrow> bool" where
  "balanced s \<longleftrightarrow> went_down (rd_calls s) = rev (came_up (rd_calls s)) \<and> gathered (rd_calls s) = hosts_of (went_down (rd_calls s))"

lemma came_down:
  assumes "calm P" "rd_calls s = []" "tracks (s\<lparr>rd_states := [], rd_undo := []\<rparr>) t" "unwind P (t\<lparr>rd_world := w\<rparr>) = (r, s')"
  shows "balanced s' \<and> rd_undo s' = [] \<and> rd_record s' = rd_record s \<and> (\<exists>f. r = Inr f)"
proof -
  from assms(2,3) obtain log where log: "rd_calls t = log" "rd_undo t = came_up log" "went_down log = []" "gathered log = []"
    "rd_record t = rd_record s" by (auto simp: tracks_def)
  from unwind_undone[OF assms(1,4)] obtain u f where u: "undone (rev (came_up log)) (t\<lparr>rd_world := w\<rparr>) u"
    "s' = u\<lparr>rd_undo := []\<rparr>" "r = Inr f" using log(2) by auto
  from u(1) obtain log' where "rd_calls u = log @ log'" "went_down log' = rev (came_up log)" "gathered log' = hosts_of (rev (came_up log))"
    "came_up log' = []" "rd_record u = rd_record s" using log by (auto simp: undone_def)
  with log u(2,3) show ?thesis by (simp add: balanced_def)
qed

lemma write_record_run:
  assumes "write_record P rec s = (r, s')"
  shows "rd_undo s' = rd_undo s \<and> (balanced s \<longrightarrow> balanced s') \<and> rd_states s' = rd_states s
    \<and> (case r of Inl e \<Rightarrow> rd_record s' = rd_record s | Inr x \<Rightarrow> x = rec \<and> rd_record s' = Some rec)"
  using assms by (auto simp: write_record_def andthen_def port_call_def update_step_def return_step_def balanced_def
      split: prod.splits sum.splits)

text \<open>C27: However the ports behave, what a run brought up it takes down: whether the run ends with a
  record, with an error on the way up or on the way down, every backend that came up, every
  collector attached and the capture are closed once, in the reverse of the order they were opened
  in, each backend's output collected before its hosts go; and the run directory has a record of
  the run exactly when the run returned it. The undo steps must not be interrupted.\<close>

theorem run_unwinds:
  assumes "calm P" "run_scenario P utc fuel sc topo found for_s s = Some (r, s')" "rd_calls s = []"
  shows "balanced s' \<and> (case r of Inl e \<Rightarrow> rd_record s' = rd_record s
    | Inr rec \<Rightarrow> rd_record s' = Some rec \<and> rr_states rec = rd_states s' \<and> rr_scenario rec = sc_name sc)"
proof -
  let ?s = "s\<lparr>rd_states := [], rd_undo := []\<rparr>"
  consider "s' = s" "isl r" | "found \<noteq> []" "missing_backends P found = None"
    using assms(2) by (auto simp: run_scenario_def split: if_splits option.splits)
  then show ?thesis
  proof cases
    case 1
    with assms(3) show ?thesis by (cases r) (auto simp: balanced_def hosts_of_def)
  next
    case 2
    obtain y t where y: "way_up P sc topo found ?s = (y, t)" by fastforce
    with keeps_way_up have t: "tracks ?s t" unfolding keeps_def by blast
    show ?thesis
    proof (cases y)
      case (Inl e)
      obtain z u where z: "unwind P t = (z, u)" by fastforce
      from came_down[OF assms(1,3) t, of "rd_world t" z u] z have u: "balanced u" "rd_record u = rd_record s" "\<exists>f. z = Inr f" by simp_all
      with assms(2) 2 y Inl z show ?thesis by (auto simp: run_scenario_def Let_def)
    next
      case (Inr started)
      define limit where "limit = started + (case for_s of None \<Rightarrow> num (sc_duration_s sc) | Some d \<Rightarrow> d)"
      from assms(2) 2 y Inr have "(case wait P fuel limit t of None \<Rightarrow> None | Some (Inl e, s) \<Rightarrow> Some (Inl e, s)
          | Some (Inr c, s) \<Rightarrow> Some (finish P utc sc started s)) = Some (r, s')"
        by (simp add: run_scenario_def limit_def Let_def)
      then obtain z u where w: "wait P fuel limit t = Some (z, u)"
        "case z of Inl e \<Rightarrow> r = Inl e \<and> s' = u | Inr c \<Rightarrow> finish P utc sc started u = (r, s')"
        by (auto split: option.splits prod.splits sum.splits)
      from wait_calm[OF assms(1) w(1)] w(2) have fin: "finish P utc sc started u = (r, s')" by auto
      from wait_keeps[OF w(1)] obtain v where u: "u = t\<lparr>rd_world := v\<rparr>" ..
      obtain f x where x: "unwind P u = (f, x)" by fastforce
      from came_down[OF assms(1,3) t, of v f x] x u have down: "balanced x" "rd_record x = rd_record s" "\<exists>g. f = Inr g" by simp_all
      then obtain failure where f: "f = Inr failure" by blast
      show ?thesis
      proof (cases failure)
        case (Some e)
        with fin x f down show ?thesis by (auto simp: finish_def Let_def andthen_def raise_step_def)
      next
        case None
        with fin x f obtain ran where "write_record P \<lparr>rr_run = run_id utc (sc_name sc) started, rr_scenario = sc_name sc,
            rr_started = started, rr_duration = ran, rr_states = rd_states x\<rparr> x = (r, s')"
          by (auto simp: finish_def Let_def andthen_def)
        from write_record_run[OF this] down show ?thesis by (auto split: sum.splits)
      qed
    qed
  qed
qed

text \<open>The waiting ends: each sleep of at most a second takes a second off what is left, or all of it.\<close>

lemma wait_returns:
  assumes "\<And>d w. 0 < d \<Longrightarrow> po_clock P w + d \<le> po_clock P (snd (po_sleep P d w))"
  shows "\<exists>n r s'. wait P n limit s = Some (r, s')"
proof (induction "nat \<lceil>limit - po_clock P (rd_world s)\<rceil>" arbitrary: s rule: less_induct)
  case less
  let ?left = "limit - po_clock P (rd_world s)"
  show ?case
  proof (cases "?left \<le> 0")
    case True
    then have "wait P 1 limit s = Some (Inr False, s)" by simp
    then show ?thesis by blast
  next
    case False
    obtain y w where y: "po_sleep P (min 1 ?left) (rd_world s) = (y, w)" by fastforce
    from assms[of "min 1 ?left" "rd_world s"] False y have "limit - po_clock P w \<le> ?left - min 1 ?left" by simp
    then have "limit - po_clock P w \<le> max (?left - 1) 0" by (auto simp: min_def max_def)
    then have "\<lceil>limit - po_clock P w\<rceil> \<le> max (\<lceil>?left\<rceil> - 1) 0" by (simp add: ceiling_le_iff max_def split: if_splits) linarith
    moreover have "0 < \<lceil>?left\<rceil>" using False by simp
    ultimately have "nat \<lceil>limit - po_clock P w\<rceil> < nat \<lceil>?left\<rceil>" by linarith
    from less[of "s\<lparr>rd_world := w\<rparr>"] this obtain n r s' where "wait P n limit (s\<lparr>rd_world := w\<rparr>) = Some (r, s')" by auto
    with False y have "\<exists>r s'. wait P (Suc n) limit s = Some (r, s')"
      by (cases y) (auto simp: Let_def split: exn.splits)
    then show ?thesis by blast
  qed
qed

lemma run_ends:
  assumes "\<And>d w. 0 < d \<Longrightarrow> po_clock P w + d \<le> po_clock P (snd (po_sleep P d w))"
  shows "\<exists>fuel r s'. run_scenario P utc fuel sc topo found for_s s = Some (r, s')"
proof -
  obtain y t where y: "way_up P sc topo found (s\<lparr>rd_states := [], rd_undo := []\<rparr>) = (y, t)" by fastforce
  from wait_returns[OF assms, where s = t and limit = "projr y + (case for_s of None \<Rightarrow> num (sc_duration_s sc) | Some d \<Rightarrow> d)"]
  obtain n r u where "wait P n (projr y + (case for_s of None \<Rightarrow> num (sc_duration_s sc) | Some d \<Rightarrow> d)) t = Some (r, u)" by blast
  with y have "\<exists>r s'. run_scenario P utc n sc topo found for_s s = Some (r, s')"
    by (cases y) (auto simp: run_scenario_def Let_def split: option.splits prod.splits sum.splits)
  then show ?thesis by blast
qed

section \<open>Example\<close>

definition demo_run_manifest :: run_manifest where
  "demo_run_manifest = \<lparr>rm_run = ''demo'', rm_backend = ''docker'', rm_networks = [],
     rm_hosts = [\<lparr>hs_instance = ''o/c[0]'', hs_kind = ''c'', hs_platform = Linux, hs_hostname = ''o-c-0'', hs_image = ''i'',
       hs_command = [], hs_cap_add = [], hs_attachments = [], hs_routes = [], hs_forwards = False, hs_agent = False, hs_gate = None\<rparr>]\<rparr>"

text \<open>The world is the time. The hosts' output cannot be collected.\<close>

definition demo_ports :: "rat ports" where
  "demo_ports = \<lparr>po_infra = [''docker''], po_attrib = [''linux_ebpf''],
     po_up = (\<lambda>m w. (Inr \<lparr>rst_run = ''demo'', rst_backend = rm_backend m, rst_hosts = [(''o/c[0]'',
         \<lparr>hst_name = ''h'', hst_id = ''1'', hst_clock_offset = None\<rparr>)], rst_bridges = [(''x'', ''tg-1'')], rst_images = []\<rparr>, w + 1)),
     po_start = (\<lambda>m st w. (Inr (), w)), po_quiesce = (\<lambda>m st w. (Inr st, w)),
     po_collect = (\<lambda>m st w. (Inl (Failure [L ''no output'']), w)), po_down = (\<lambda>m w. (Inr (), w)),
     po_attach = (\<lambda>n m st w. (Inr (st\<lparr>rst_images := [(''collector'', ''sha'')]\<rparr>), w)), po_detach = (\<lambda>n w. (Inr (), w)),
     po_capture_start = (\<lambda>n ps w. (Inr (), w)), po_capture_stop = (\<lambda>w. (Inr (), w)), po_dump = (\<lambda>f w. (Inr (), w)),
     po_clock = (\<lambda>w. w), po_sleep = (\<lambda>d w. (Inr (), w + d))\<rparr>"

definition demo_dir :: "rat run_dir" where
  "demo_dir = \<lparr>rd_world = 0, rd_files = [], rd_record = None, rd_offsets = None, rd_states = [], rd_undo = [], rd_calls = []\<rparr>"

definition demo_scheduled :: "((exn + run_record) \<times> rat run_dir) option" where
  "demo_scheduled = run_scenario demo_ports (\<lambda>_. ''now'') 5 demo_scenario (Some demo_topology) [demo_run_manifest] (Some (5/2)) demo_dir"

lemma demo_scheduled_fails:
  "case demo_scheduled of None \<Rightarrow> False | Some (r, s) \<Rightarrow> r = Inl (Failure [L ''no output''])
     \<and> map fst (rd_calls s) = [Up demo_run_manifest, Dump ''state.docker.json'', Attach ''linux_ebpf'' demo_run_manifest,
         Dump ''state.docker.json'', Quiesce demo_run_manifest,
         StartCapture [\<lparr>po_name = ''p'', po_segments = [''x''], po_bridges = [''tg-1''], po_vlans = [None], po_tagged = False\<rparr>],
         Dump ''offsets.json'', Release demo_run_manifest, CallStopCapture, CallDetach ''linux_ebpf'',
         Collect demo_run_manifest, Down demo_run_manifest]"
  by code_simp

lemma demo_calm: "calm demo_ports"
  by (simp add: calm_def demo_ports_def)

theorem run_unwinds_witness:
  "\<exists>s'. demo_scheduled = Some (Inl (Failure [L ''no output'']), s') \<and> balanced s' \<and> rd_record s' = None"
proof -
  from demo_scheduled_fails obtain s' where s': "demo_scheduled = Some (Inl (Failure [L ''no output'']), s')"
    by (auto split: option.splits)
  from run_unwinds[OF demo_calm s'[unfolded demo_scheduled_def]] s' show ?thesis by (intro exI[of _ s']) (simp add: demo_dir_def)
qed

end
