(* ===== verification/Substrate.thy ===== *)
theory Substrate
  imports Scheduler Manifests
begin

text \<open>
  The Docker backend (\<open>backends/infra/docker/backend.py\<close>, \<open>image.py\<close>): a run manifest's networks and
  containers on a daemon. The daemon, the file system and the build context are a record of
  functions on a world, each of which may raise, as the backend takes its \<open>Client\<close>. Paths are
  strings, the run directory resolved, and the paths of a build context are ASCII. The theorems follow what the daemon holds under every
  label through \<open>up\<close>, its failures and \<open>down\<close>.
\<close>

section \<open>Actions\<close>

type_synonym ('w, 'a) action = "'w \<Rightarrow> (exn + 'a) \<times> 'w"

definition act_return :: "'a \<Rightarrow> ('w, 'a) action" where
  "act_return x w = (Inr x, w)"

definition act_raise :: "exn \<Rightarrow> ('w, 'a) action" where
  "act_raise e w = (Inl e, w)"

definition act_bind :: "('w, 'a) action \<Rightarrow> ('a \<Rightarrow> ('w, 'b) action) \<Rightarrow> ('w, 'b) action" where
  "act_bind m f w = (case m w of (Inl e, w') \<Rightarrow> (Inl e, w') | (Inr x, w') \<Rightarrow> f x w')"

fun act_fold :: "('x \<Rightarrow> 'a \<Rightarrow> ('w, 'a) action) \<Rightarrow> 'x list \<Rightarrow> 'a \<Rightarrow> ('w, 'a) action" where
  "act_fold f [] a = act_return a"
| "act_fold f (x # xs) a = act_bind (f x a) (act_fold f xs)"

abbreviation act_each :: "('x \<Rightarrow> ('w, unit) action) \<Rightarrow> 'x list \<Rightarrow> ('w, unit) action" where
  "act_each f xs \<equiv> act_fold (\<lambda>x _. f x) xs ()"

definition act_when :: "bool \<Rightarrow> ('w, unit) action \<Rightarrow> ('w, unit) action" where
  "act_when b m = (if b then m else act_return ())"

text \<open>\<open>try: m except Exception: cleanup; raise\<close>. What the cleanup raises replaces the exception; an
  interrupt is no \<open>Exception\<close>.\<close>

definition or_undo :: "('w, 'a) action \<Rightarrow> ('w, unit) action \<Rightarrow> ('w, 'a) action" where
  "or_undo m cleanup w = (case m w of
      (Inl (Failure e), w') \<Rightarrow> act_bind cleanup (\<lambda>_. act_raise (Failure e)) w'
    | (r, w') \<Rightarrow> (r, w'))"

lemma act_bind_Inr:
  "act_bind m f w = (Inr y, w') \<longleftrightarrow> (\<exists>x v. m w = (Inr x, v) \<and> f x v = (Inr y, w'))"
  by (auto simp: act_bind_def split: prod.splits sum.splits)

lemma act_bind_Inl:
  "act_bind m f w = (Inl e, w') \<longleftrightarrow> m w = (Inl e, w') \<or> (\<exists>x v. m w = (Inr x, v) \<and> f x v = (Inl e, w'))"
  by (auto simp: act_bind_def split: prod.splits sum.splits)

text \<open>What an action does to the state, whether it returns or raises.\<close>

definition acts :: "('w \<Rightarrow> 'w \<Rightarrow> bool) \<Rightarrow> ('w, 'a) action \<Rightarrow> bool" where
  "acts rel m \<longleftrightarrow> (\<forall>w. rel w (snd (m w)))"

locale action_relation = state_relation rel
  for rel :: "'w \<Rightarrow> 'w \<Rightarrow> bool"
begin

lemma acts_return: "acts rel (act_return x)" "acts rel (act_raise e)"
  by (simp_all add: acts_def act_return_def act_raise_def related_refl)

lemma acts_bind: "acts rel m \<Longrightarrow> (\<And>x. acts rel (f x)) \<Longrightarrow> acts rel (act_bind m f)"
  by (auto simp: acts_def act_bind_def split: prod.splits sum.splits) (metis related_trans snd_conv)+

lemma acts_fold: "(\<And>x a. x \<in> set xs \<Longrightarrow> acts rel (f x a)) \<Longrightarrow> acts rel (act_fold f xs a)"
  by (induction xs arbitrary: a) (auto intro: acts_return acts_bind)

lemma acts_when: "acts rel m \<Longrightarrow> acts rel (act_when b m)"
  by (simp add: act_when_def acts_return)

lemma acts_undo:
  fixes m :: "('w, 'a) action"
  assumes "acts rel m" "acts rel cleanup"
  shows "acts rel (or_undo m cleanup)"
proof -
  have "acts rel (act_bind cleanup (\<lambda>_. act_raise e :: ('w, 'a) action))" for e
    by (rule acts_bind, rule assms(2), rule acts_return)
  then have again: "rel v (snd (act_bind cleanup (\<lambda>_. act_raise e :: ('w, 'a) action) v))" for e v
    by (simp add: acts_def)
  from assms(1) have m: "rel w (snd (m w))" for w by (simp add: acts_def)
  have "rel w (snd (or_undo m cleanup w))" for w
  proof (cases "m w")
    case (Pair r w')
    with m[of w] have first: "rel w w'" by simp
    show ?thesis
      using Pair first related_trans[OF first again[of w']] by (simp add: or_undo_def split: sum.split exn.split)
  qed
  then show ?thesis by (simp add: acts_def)
qed

lemmas acts_intros = acts_return acts_bind acts_fold acts_when acts_undo

end

section \<open>The client\<close>

type_synonym labels = "(string, string) dict"

text \<open>The arguments of \<open>create_network\<close> and \<open>create_container\<close>.\<close>

record network_args =
  na_name :: string
  na_cidr :: string
  na_gateway :: string
  na_internal :: bool
  na_bridge :: string
  na_labels :: labels

record container_args =
  cn_name :: string
  cn_image :: string
  cn_command :: "string list"
  cn_cap_add :: "string list"
  cn_labels :: labels
  cn_network :: string
  cn_address :: string
  cn_mac :: "string option"
  cn_hostname :: string
  cn_sysctls :: "(string, string) dict"
  cn_mounts :: "(string \<times> string \<times> bool) list"
  cn_cgroupns :: "string option"

text \<open>The \<open>Client\<close> protocol, with the connection to the daemon, \<open>setfacl\<close>, \<open>mkdir\<close> and the assembly of
  the agent image's build context: its files by path, sorted, with their bytes.\<close>

record 'w docker_client =
  dk_connect :: "('w, unit) action"
  dk_acl :: "string list \<Rightarrow> ('w, unit) action"
  dk_mkdir :: "string \<Rightarrow> ('w, unit) action"
  dk_context :: "('w, (string \<times> nat list) list) action"
  dk_userns :: "('w, (int \<times> int) option) action"
  dk_image_id :: "string \<Rightarrow> ('w, string option) action"
  dk_build_image :: "string \<Rightarrow> ('w, string) action"
  dk_ensure_image :: "string \<Rightarrow> ('w, unit) action"
  dk_create_network :: "network_args \<Rightarrow> ('w, unit) action"
  dk_create_container :: "container_args \<Rightarrow> ('w, string) action"
  dk_attach :: "string \<Rightarrow> string \<Rightarrow> string \<Rightarrow> string option \<Rightarrow> ('w, unit) action"
  dk_start :: "string \<Rightarrow> ('w, unit) action"
  dk_exec :: "string \<Rightarrow> string list \<Rightarrow> ('w, unit) action"
  dk_containers :: "labels \<Rightarrow> ('w, string list) action"
  dk_networks :: "labels \<Rightarrow> ('w, string list) action"
  dk_remove_container :: "string \<Rightarrow> ('w, unit) action"
  dk_remove_network :: "string \<Rightarrow> ('w, unit) action"
  dk_run_helper :: "string \<Rightarrow> string list \<Rightarrow> string \<Rightarrow> string list \<Rightarrow> ('w, string) action"

section \<open>The backend\<close>

definition run_label :: string where "run_label = ''tiergen.run''"

definition instance_label :: string where "instance_label = ''tiergen.instance''"

definition network_label :: string where "network_label = ''tiergen.network''"

definition out_mount :: string where "out_mount = ''/tiergen/out''"

definition quiesce_script :: string where
  "quiesce_script = ''for d in /sys/class/net/eth*; do ethtool -K $(basename $d) tso off gso off tx off; done''"

definition needs_remap :: msg where
  "needs_remap = [L ''the daemon runs without a user-namespace remap, which agent hosts need (design decision 4.19): set '',
     L (CHR 0x22 # ''userns-remap'' @ [CHR 0x22]), L '' in daemon.json and restart the daemon'']"

definition network_name :: "string \<Rightarrow> string \<Rightarrow> string" where
  "network_name run network = ''tiergen-'' @ run @ ''-'' @ network"

definition container_name :: "string \<Rightarrow> string \<Rightarrow> string" where
  "container_name run instnc =
     (let flat = replace_char CHR '']'' '''' (replace_char CHR ''['' ''-'' (replace_char CHR ''/'' ''-'' instnc))
      in ''tiergen-'' @ run @ ''-'' @ flat)"

text \<open>\<open>image.digest\<close>, \<open>tag\<close> and \<open>ensure\<close>, with \<open>digest6\<close> the 6-byte \<open>blake2b\<close>.\<close>

definition agent_image_name :: string where "agent_image_name = ''tiergen/base-linux''"

definition context_bytes :: "(string \<times> nat list) list \<Rightarrow> nat list" where
  "context_bytes ctx = concat (map (\<lambda>(path, data). map of_char path @ data) ctx)"

definition hex_bytes :: "nat list \<Rightarrow> string" where
  "hex_bytes bs = concat (map (\<lambda>b. [hex_digit (b div 16), hex_digit (b mod 16)]) bs)"

definition image_tag :: "(nat list \<Rightarrow> nat list) \<Rightarrow> string \<Rightarrow> (string \<times> nat list) list \<Rightarrow> string" where
  "image_tag digest6 name ctx = name @ '':'' @ hex_bytes (digest6 (context_bytes ctx))"

definition ensure_agent :: "(nat list \<Rightarrow> nat list) \<Rightarrow> 'w docker_client \<Rightarrow> run_state \<Rightarrow> ('w, string \<times> run_state) action" where
  "ensure_agent digest6 D st =
     act_bind (dk_context D) (\<lambda>ctx. let found = image_tag digest6 agent_image_name ctx in
     act_bind (dk_image_id D found) (\<lambda>existing.
     act_bind (case existing of Some i \<Rightarrow> act_return i | None \<Rightarrow> dk_build_image D found) (\<lambda>i.
     act_return (found, st\<lparr>rst_images := dset agent_image_name i (rst_images st)\<rparr>))))"

definition create_host :: "'w docker_client \<Rightarrow> string \<Rightarrow> host_spec \<Rightarrow> string \<Rightarrow> string \<Rightarrow> int option \<Rightarrow> ('w, host_state) action" where
  "create_host D run h img run_dir uid =
     (case hs_attachments h of
        [] \<Rightarrow> act_raise (Failure [L ''not enough values to unpack (expected at least 1, got 0)''])
      | first # others \<Rightarrow>
          (let name = container_name run (hs_instance h);
               caps = sorted_set (hs_cap_add h @ (if hs_routes h \<noteq> [] then [''NET_ADMIN''] else []));
               sysctls = (if hs_forwards h then [(''net.ipv4.ip_forward'', ''1'')] else []);
               out = run_dir @ ''/out/'' @ flat_id (hs_instance h) in
           act_bind (if \<not> hs_agent h then act_return ([], None)
             else case uid of None \<Rightarrow> act_raise (Failure [])
               | Some u \<Rightarrow>
                   act_bind (dk_mkdir D out) (\<lambda>_.
                   act_bind (dk_acl D [''-m'', ''u:'' @ show_int u @ '':rwx'', out]) (\<lambda>_.
                   act_return ([(run_dir, run_mount, True), (out, out_mount, False)], Some ''private'')))) (\<lambda>(mounts, cgroupns).
           act_bind (dk_create_container D
               \<lparr>cn_name = name, cn_image = img, cn_command = hs_command h, cn_cap_add = caps,
                cn_labels = [(run_label, run), (instance_label, hs_instance h)], cn_network = network_name run (at_network first),
                cn_address = at_address first, cn_mac = at_mac first, cn_hostname = hs_hostname h, cn_sysctls = sysctls,
                cn_mounts = mounts, cn_cgroupns = cgroupns\<rparr>) (\<lambda>cid.
           act_bind (act_each (\<lambda>a. dk_attach D name (network_name run (at_network a)) (at_address a) (at_mac a)) others) (\<lambda>_.
           act_return \<lparr>hst_name = name, hst_id = cid, hst_clock_offset = None\<rparr>)))))"

definition open_gate :: "'w docker_client \<Rightarrow> run_state \<Rightarrow> host_spec \<Rightarrow> ('w, unit) action" where
  "open_gate D st h = (case hs_gate h of None \<Rightarrow> act_return ()
     | Some g \<Rightarrow> (case dget (rst_hosts st) (hs_instance h) of
           None \<Rightarrow> act_raise (Failure [R (hs_instance h)])
         | Some hst \<Rightarrow> dk_exec D (hst_name hst) [''touch'', g]))"

definition open_gates :: "'w docker_client \<Rightarrow> run_manifest \<Rightarrow> run_state \<Rightarrow> ('w, unit) action" where
  "open_gates D m st = act_each (open_gate D st) (rm_hosts m)"

definition remove_run :: "'w docker_client \<Rightarrow> string \<Rightarrow> ('w, unit) action" where
  "remove_run D run =
     act_bind (dk_containers D [(run_label, run)]) (\<lambda>names.
     act_bind (act_each (dk_remove_container D) names) (\<lambda>_.
     act_bind (dk_networks D [(run_label, run)]) (\<lambda>nets. act_each (dk_remove_network D) nets)))"

definition network_up :: "'w docker_client \<Rightarrow> string \<Rightarrow> network_spec \<Rightarrow> run_state \<Rightarrow> ('w, run_state) action" where
  "network_up D run n st =
     act_bind (dk_create_network D
       \<lparr>na_name = network_name run (ns_name n), na_cidr = ns_cidr n, na_gateway = ns_gateway n, na_internal = ns_internal n,
        na_bridge = ns_bridge n, na_labels = [(run_label, run), (network_label, ns_name n)]\<rparr>) (\<lambda>_.
     act_return (st\<lparr>rst_bridges := dset (ns_name n) (ns_bridge n) (rst_bridges st)\<rparr>))"

definition host_up :: "'w docker_client \<Rightarrow> string \<Rightarrow> (string, string) dict \<Rightarrow> string \<Rightarrow> int option \<Rightarrow> host_spec
    \<Rightarrow> run_state \<Rightarrow> ('w, run_state) action" where
  "host_up D run tags run_dir uid h st =
     act_bind (create_host D run h (dget_or tags (hs_image h) (hs_image h)) run_dir uid) (\<lambda>hst.
     act_return (st\<lparr>rst_hosts := dset (hs_instance h) hst (rst_hosts st)\<rparr>))"

definition host_run :: "'w docker_client \<Rightarrow> string \<Rightarrow> host_spec \<Rightarrow> ('w, unit) action" where
  "host_run D run h = (let name = container_name run (hs_instance h) in
     act_bind (dk_start D name) (\<lambda>_.
     act_each (\<lambda>r. dk_exec D name [''ip'', ''route'', ''add'', ro_cidr r, ''via'', ro_via r]) (hs_routes h)))"

definition bring_hosts_up :: "'w docker_client \<Rightarrow> run_manifest \<Rightarrow> string \<Rightarrow> bool \<Rightarrow> (string, string) dict \<Rightarrow> int option
    \<Rightarrow> run_state \<Rightarrow> ('w, run_state) action" where
  "bring_hosts_up D m run_dir start tags uid st =
     act_bind (act_each (dk_ensure_image D) (sorted_set (map hs_image (filter (\<lambda>h. hs_image h \<notin> set (dkeys tags)) (rm_hosts m))))) (\<lambda>_.
     act_bind (act_fold (network_up D (rm_run m)) (rm_networks m) st) (\<lambda>st.
     act_bind (act_fold (host_up D (rm_run m) tags run_dir uid) (rm_hosts m) st) (\<lambda>st.
     act_bind (act_each (host_run D (rm_run m)) (rm_hosts m)) (\<lambda>_.
     act_bind (act_when start (open_gates D m st)) (\<lambda>_. act_return st)))))"

definition prepare_agents :: "(nat list \<Rightarrow> nat list) \<Rightarrow> 'w docker_client \<Rightarrow> run_manifest \<Rightarrow> string \<Rightarrow> run_state
    \<Rightarrow> ('w, (string, string) dict \<times> int option \<times> run_state) action" where
  "prepare_agents digest6 D m run_dir st =
     (if \<not> list_ex hs_agent (rm_hosts m) then act_return ([], None, st)
      else act_bind (dk_userns D) (\<lambda>ids. case ids of
          None \<Rightarrow> act_raise (Failure needs_remap)
        | Some (uid, gid) \<Rightarrow>
            act_bind (dk_acl D [''-R'', ''-m'', ''u:'' @ show_int uid @ '':rX'', run_dir]) (\<lambda>_.
            act_bind (ensure_agent digest6 D st) (\<lambda>(found, st). act_return ([(agent_image_name, found)], Some uid, st)))))"

definition docker_up :: "(nat list \<Rightarrow> nat list) \<Rightarrow> 'w docker_client \<Rightarrow> run_manifest \<Rightarrow> string \<Rightarrow> bool \<Rightarrow> ('w, run_state) action" where
  "docker_up digest6 D m run_dir start =
     act_bind (dk_connect D) (\<lambda>_.
     act_bind (prepare_agents digest6 D m run_dir
       \<lparr>rst_run = rm_run m, rst_backend = ''docker'', rst_hosts = [], rst_bridges = [], rst_images = []\<rparr>) (\<lambda>(tags, uid, st).
     or_undo (bring_hosts_up D m run_dir start tags uid st) (remove_run D (rm_run m))))"

definition docker_start :: "'w docker_client \<Rightarrow> run_manifest \<Rightarrow> run_state \<Rightarrow> ('w, unit) action" where
  "docker_start D m st = act_bind (dk_connect D) (\<lambda>_. open_gates D m st)"

definition docker_collect :: "run_manifest \<Rightarrow> run_state \<Rightarrow> ('w, unit) action" where
  "docker_collect m st = act_return ()"

definition docker_down :: "'w docker_client \<Rightarrow> run_manifest \<Rightarrow> ('w, unit) action" where
  "docker_down D m = act_bind (dk_connect D) (\<lambda>_. remove_run D (rm_run m))"

text \<open>The state the code passes to \<open>ensure\<close> is changed in place; here the changed one is the result, as the
  scheduler's port has it.\<close>

definition docker_quiesce :: "(nat list \<Rightarrow> nat list) \<Rightarrow> 'w docker_client \<Rightarrow> run_manifest \<Rightarrow> run_state \<Rightarrow> ('w, run_state) action" where
  "docker_quiesce digest6 D m st =
     act_bind (dk_connect D) (\<lambda>_.
     act_bind (ensure_agent digest6 D st) (\<lambda>(found, st).
     act_bind (act_each (\<lambda>h. act_bind (dk_run_helper D found [''sh'', ''-c'', quiesce_script]
         (''container:'' @ container_name (rm_run m) (hs_instance h)) [''NET_ADMIN'']) (\<lambda>_. act_return ())) (rm_hosts m)) (\<lambda>_.
     act_return st)))"

section \<open>What the daemon holds\<close>

datatype sort = ContainerSort | NetworkSort

text \<open>A view of the world: the containers and networks the daemon holds by name, with their labels.
  What the backend relies on: names are the daemon's own, creating one makes it with its labels
  if it returns, and makes no other if it raises; removing takes that one; listing filters by
  labels; nothing else creates or removes.\<close>

type_synonym ('w, 'k, 'v) view = "'w \<Rightarrow> 'k \<Rightarrow> 'v option"

definition leaves_held :: "('w, 'k, 'v) view \<Rightarrow> ('w, 'a) action \<Rightarrow> bool" where
  "leaves_held held m \<longleftrightarrow> acts (\<lambda>w w'. held w' = held w) m"

definition creates :: "('w, 'k, 'v) view \<Rightarrow> 'k \<Rightarrow> 'v \<Rightarrow> ('w, 'a) action \<Rightarrow> bool" where
  "creates held k ls m \<longleftrightarrow> (\<forall>w. case m w of
      (Inr _, w') \<Rightarrow> held w k = None \<and> held w' = (held w)(k \<mapsto> ls)
    | (Inl _, w') \<Rightarrow> held w' = held w \<or> held w k = None \<and> held w' = (held w)(k \<mapsto> ls))"

definition removes :: "('w, 'k, 'v) view \<Rightarrow> 'k \<Rightarrow> ('w, unit) action \<Rightarrow> bool" where
  "removes held k m \<longleftrightarrow> (\<forall>w. case m w of
      (Inr _, w') \<Rightarrow> held w' = (held w)(k := None)
    | (Inl _, w') \<Rightarrow> held w' = held w \<or> held w' = (held w)(k := None))"

definition carries :: "labels \<Rightarrow> labels \<Rightarrow> bool" where
  "carries asked ls \<longleftrightarrow> list_all (\<lambda>(k, v). dget ls k = Some v) asked"

definition lists_held :: "('w, sort \<times> string, labels) view \<Rightarrow> sort \<Rightarrow> labels \<Rightarrow> ('w, string list) action \<Rightarrow> bool" where
  "lists_held held srt asked m \<longleftrightarrow> leaves_held held m
     \<and> (\<forall>w names w'. m w = (Inr names, w') \<longrightarrow> set names = {n. \<exists>ls. held w (srt, n) = Some ls \<and> carries asked ls})"

definition daemon_ok :: "('w, sort \<times> string, labels) view \<Rightarrow> 'w docker_client \<Rightarrow> bool" where
  "daemon_ok held D \<longleftrightarrow>
     leaves_held held (dk_connect D) \<and> leaves_held held (dk_context D) \<and> leaves_held held (dk_userns D)
     \<and> (\<forall>x. leaves_held held (dk_acl D x)) \<and> (\<forall>x. leaves_held held (dk_mkdir D x))
     \<and> (\<forall>x. leaves_held held (dk_image_id D x)) \<and> (\<forall>x. leaves_held held (dk_build_image D x))
     \<and> (\<forall>x. leaves_held held (dk_ensure_image D x)) \<and> (\<forall>x. leaves_held held (dk_start D x))
     \<and> (\<forall>c n a mac. leaves_held held (dk_attach D c n a mac)) \<and> (\<forall>c x. leaves_held held (dk_exec D c x))
     \<and> (\<forall>a. creates held (NetworkSort, na_name a) (na_labels a) (dk_create_network D a))
     \<and> (\<forall>a. creates held (ContainerSort, cn_name a) (cn_labels a) (dk_create_container D a))
     \<and> (\<forall>n. removes held (ContainerSort, n) (dk_remove_container D n)) \<and> (\<forall>n. removes held (NetworkSort, n) (dk_remove_network D n))
     \<and> (\<forall>ls. lists_held held ContainerSort ls (dk_containers D ls)) \<and> (\<forall>ls. lists_held held NetworkSort ls (dk_networks D ls))"

text \<open>What is held that a run does not claim; a run claims what carries its label.\<close>

definition without :: "('k \<Rightarrow> 'v \<Rightarrow> bool) \<Rightarrow> ('k \<Rightarrow> 'v option) \<Rightarrow> 'k \<Rightarrow> 'v option" where
  "without P h k = (case h k of None \<Rightarrow> None | Some v \<Rightarrow> if P k v then None else Some v)"

definition spares :: "('w, 'k, 'v) view \<Rightarrow> ('k \<Rightarrow> 'v \<Rightarrow> bool) \<Rightarrow> 'w \<Rightarrow> 'w \<Rightarrow> bool" where
  "spares held P w w' \<longleftrightarrow> without P (held w') = without P (held w)"

definition of_run :: "string \<Rightarrow> sort \<times> string \<Rightarrow> labels \<Rightarrow> bool" where
  "of_run run k ls \<longleftrightarrow> dget ls run_label = Some run"

abbreviation elsewhere :: "string \<Rightarrow> (sort \<times> string \<Rightarrow> labels option) \<Rightarrow> sort \<times> string \<Rightarrow> labels option" where
  "elsewhere run \<equiv> without (of_run run)"

interpretation sparing: action_relation "spares held P" for held :: "('w, 'k, 'v) view" and P
  by unfold_locales (auto simp: spares_def)

interpretation leaving: action_relation "\<lambda>w w'. held w' = held w" for held :: "('w, 'k, 'v) view"
  by unfold_locales simp_all

lemmas leaves_intros = leaving.acts_intros[folded leaves_held_def]

lemma leaves_snd: "leaves_held held m \<Longrightarrow> held (snd (m w)) = held w"
  by (simp add: leaves_held_def acts_def)

lemma leaves_spares: "leaves_held held m \<Longrightarrow> acts (spares held P) m"
  by (simp add: leaves_snd acts_def spares_def)

lemma creates_spares:
  assumes "creates held k ls m" "P k ls"
  shows "acts (spares held P) m"
  unfolding acts_def spares_def
proof
  fix w
  have "without P ((held w)(k \<mapsto> ls)) = without P (held w)" if "held w k = None"
    using that assms(2) by (auto simp: without_def fun_eq_iff)
  moreover from assms(1) have "held (snd (m w)) = held w \<or> held w k = None \<and> held (snd (m w)) = (held w)(k \<mapsto> ls)"
    by (cases "m w"; cases "fst (m w)") (auto simp: creates_def dest: spec[of _ w])
  ultimately show "without P (held (snd (m w))) = without P (held w)" by auto
qed

text \<open>A loop over what was listed that removes some of it, all claimed, and leaves the rest.\<close>

lemma remove_each:
  assumes "\<And>x. Q x \<Longrightarrow> removes held (key x) (f x)" "\<And>x. \<not> Q x \<Longrightarrow> leaves_held held (f x)"
    "\<And>x v. x \<in> set xs \<Longrightarrow> Q x \<Longrightarrow> held w (key x) = Some v \<Longrightarrow> P (key x) v" "act_each f xs w = (r, w')"
  shows "spares held P w w' \<and> (\<forall>u. r = Inr u \<longrightarrow> held w' = (\<lambda>k. if k \<in> key ` {x \<in> set xs. Q x} then None else held w k))"
  using assms(3,4)
proof (induction xs arbitrary: w)
  case (Cons y xs)
  obtain x v where f: "f y w = (x, v)" by fastforce
  have step: "spares held P w v \<and> (\<forall>u. x = Inr u \<longrightarrow> held v = (if Q y then (held w)(key y := None) else held w))"
  proof (cases "Q y")
    case True
    have "without P ((held w)(key y := None)) = without P (held w)"
      using Cons.prems(1)[of y] True by (auto simp: without_def fun_eq_iff split: option.split)
    with f spec[OF assms(1)[OF True, unfolded removes_def], of w] True show ?thesis
      by (cases x) (auto simp: spares_def)
  next
    case False
    with f leaves_snd[OF assms(2), of y w] show ?thesis by (simp add: spares_def)
  qed
  show ?case
  proof (cases x)
    case (Inl e)
    with f Cons.prems(2) have "r = Inl e" "w' = v" by (simp_all add: act_bind_def)
    with step show ?thesis by simp
  next
    case (Inr u)
    with f Cons.prems(2) have rest: "act_each f xs v = (r, w')" by (simp add: act_bind_def)
    from Inr step have v: "held v = (if Q y then (held w)(key y := None) else held w)" by simp
    have "spares held P v w' \<and> (\<forall>u. r = Inr u \<longrightarrow> held w' = (\<lambda>k. if k \<in> key ` {x \<in> set xs. Q x} then None else held v k))"
      by (rule Cons.IH[OF _ rest]) (use Cons.prems(1) in \<open>auto simp: v split: if_splits\<close>)
    moreover have "(\<lambda>k. if k \<in> key ` {x \<in> set xs. Q x} then None else held v k)
        = (\<lambda>k. if k \<in> key ` {x \<in> set (y # xs). Q x} then None else held w k)"
    proof -
      have "key ` {x \<in> set (y # xs). Q x} = (if Q y then insert (key y) (key ` {x \<in> set xs. Q x}) else key ` {x \<in> set xs. Q x})"
        by auto
      then show ?thesis by (simp add: v fun_eq_iff)
    qed
    ultimately show ?thesis using step by (simp add: spares_def)
  qed
qed (auto simp: act_return_def spares_def)

text \<open>A stage of a cleanup removes what is claimed of some sorts.\<close>

definition clears :: "('w, 's \<times> 'k, 'v) view \<Rightarrow> ('s \<times> 'k \<Rightarrow> 'v \<Rightarrow> bool) \<Rightarrow> 's set \<Rightarrow> ('w, unit) action \<Rightarrow> bool" where
  "clears held P srts m \<longleftrightarrow> (\<forall>w r w'. m w = (r, w') \<longrightarrow> spares held P w w'
     \<and> (\<forall>u. r = Inr u \<longrightarrow> held w' = without (\<lambda>k v. fst k \<in> srts \<and> P k v) (held w)))"

lemma clears_listed:
  assumes "leaves_held held listed" "\<And>x. Q x \<Longrightarrow> removes held (key x) (f x)" "\<And>x. \<not> Q x \<Longrightarrow> leaves_held held (f x)"
    "\<And>w xs w' k v. listed w = (Inr xs, w') \<Longrightarrow> held w k = Some v \<Longrightarrow> k \<in> key ` {x \<in> set xs. Q x} \<longleftrightarrow> fst k = srt \<and> P k v"
  shows "clears held P {srt} (act_bind listed (act_each f))"
proof -
  have "spares held P w w' \<and> (\<forall>u. r = Inr u \<longrightarrow> held w' = without (\<lambda>k v. fst k \<in> {srt} \<and> P k v) (held w))"
    if run: "act_bind listed (act_each f) w = (r, w')" for w r w'
  proof -
    obtain y v where y: "listed w = (y, v)" by fastforce
    with leaves_snd[OF assms(1), of w] have v: "held v = held w" by simp
    show ?thesis
    proof (cases y)
      case (Inl e)
      with run y v show ?thesis by (auto simp: act_bind_def spares_def)
    next
      case (Inr xs)
      with run y have each: "act_each f xs v = (r, w')" by (simp add: act_bind_def)
      note found = assms(4)[OF y[unfolded Inr]]
      have "spares held P v w' \<and> (\<forall>u. r = Inr u \<longrightarrow> held w' = (\<lambda>k. if k \<in> key ` {x \<in> set xs. Q x} then None else held v k))"
      proof (rule remove_each[OF assms(2,3) _ each])
        fix x z
        assume "x \<in> set xs" "Q x" "held v (key x) = Some z"
        with found[of "key x" z] v show "P (key x) z" by simp
      qed
      moreover have "(\<lambda>k. if k \<in> key ` {x \<in> set xs. Q x} then None else held v k) = without (\<lambda>k v. fst k \<in> {srt} \<and> P k v) (held w)"
      proof
        fix k
        show "(if k \<in> key ` {x \<in> set xs. Q x} then None else held v k) = without (\<lambda>k v. fst k \<in> {srt} \<and> P k v) (held w) k"
          using found[of k] by (cases "held w k") (simp_all add: without_def v)
      qed
      ultimately show ?thesis by (simp add: spares_def v)
    qed
  qed
  then show ?thesis by (simp add: clears_def)
qed

lemma clears_bind:
  assumes "clears held P A m" "clears held P B n"
  shows "clears held P (A \<union> B) (act_bind m (\<lambda>_. n))"
proof -
  have "spares held P w w' \<and> (\<forall>u. r = Inr u \<longrightarrow> held w' = without (\<lambda>k v. fst k \<in> A \<union> B \<and> P k v) (held w))"
    if run: "act_bind m (\<lambda>_. n) w = (r, w')" for w r w'
  proof -
    obtain y v where y: "m w = (y, v)" by fastforce
    with assms(1) have v: "spares held P w v" "\<And>u. y = Inr u \<Longrightarrow> held v = without (\<lambda>k v. fst k \<in> A \<and> P k v) (held w)"
      unfolding clears_def by blast+
    show ?thesis
    proof (cases y)
      case (Inl e)
      with run y have "r = Inl e" "w' = v" by (simp_all add: act_bind_def)
      with v(1) show ?thesis by simp
    next
      case (Inr u)
      with run y have "n v = (r, w')" by (simp add: act_bind_def)
      with assms(2) have "spares held P v w'" "\<And>u. r = Inr u \<Longrightarrow> held w' = without (\<lambda>k v. fst k \<in> B \<and> P k v) (held v)"
        unfolding clears_def by blast+
      moreover have "without (\<lambda>k v. fst k \<in> B \<and> P k v) (without (\<lambda>k v. fst k \<in> A \<and> P k v) h)
          = without (\<lambda>k v. fst k \<in> A \<union> B \<and> P k v) h" for h :: "'b \<times> 'c \<Rightarrow> 'd option"
        by (auto simp: without_def fun_eq_iff split: option.splits)
      ultimately show ?thesis using v Inr by (simp add: spares_def)
    qed
  qed
  then show ?thesis by (simp add: clears_def)
qed

lemma act_bind_assoc: "act_bind (act_bind m f) g = act_bind m (\<lambda>x. act_bind (f x) g)"
  by (rule ext) (simp add: act_bind_def split: prod.split sum.split)

lemma carries_run: "carries [(run_label, run)] ls \<longleftrightarrow> of_run run k ls"
  by (simp add: carries_def of_run_def)

lemma lists_clears:
  assumes "lists_held held srt [(run_label, run)] listed" "\<And>n. removes held (srt, n) (f n)"
  shows "clears held (of_run run) {srt} (act_bind listed (act_each f))"
proof (rule clears_listed[where Q = "\<lambda>_. True" and key = "Pair srt"])
  fix w xs w' k v
  assume "listed w = (Inr xs, w')" "held w k = Some v"
  with assms(1) have "set xs = {n. \<exists>ls. held w (srt, n) = Some ls \<and> carries [(run_label, run)] ls}" by (simp add: lists_held_def)
  with \<open>held w k = Some v\<close> show "k \<in> Pair srt ` {x \<in> set xs. True} \<longleftrightarrow> fst k = srt \<and> of_run run k v"
    by (cases k) (auto simp: carries_run[of run _ k] image_iff)
qed (use assms in \<open>auto simp: lists_held_def\<close>)

lemma remove_run_held:
  assumes "daemon_ok held D" "remove_run D run w = (r, w')"
  shows "spares held (of_run run) w w' \<and> (\<forall>u. r = Inr u \<longrightarrow> held w' = elsewhere run (held w))"
proof -
  have "clears held (of_run run) ({ContainerSort} \<union> {NetworkSort}) (remove_run D run)"
    unfolding remove_run_def act_bind_assoc[symmetric, of "dk_containers D _"]
    by (intro clears_bind lists_clears) (use assms(1) in \<open>simp_all add: daemon_ok_def\<close>)
  moreover have "fst k \<in> {ContainerSort} \<union> {NetworkSort}" for k :: "sort \<times> string" by (cases "fst k") simp_all
  then have "(\<lambda>k v. fst k \<in> {ContainerSort} \<union> {NetworkSort} \<and> of_run run k v) = of_run run" by (simp add: fun_eq_iff)
  ultimately show ?thesis using assms(2) unfolding clears_def by presburger
qed

section \<open>What comes up\<close>

text \<open>What an action that returns adds to what is held.\<close>

definition grown :: "('k \<Rightarrow> 'v option) \<Rightarrow> ('k \<times> 'v) list \<Rightarrow> ('k \<Rightarrow> 'v option) \<Rightarrow> bool" where
  "grown h ths h' \<longleftrightarrow> h' = h ++ map_of ths \<and> distinct (map fst ths) \<and> (\<forall>k\<in>set (map fst ths). h k = None)"

lemma grown_append: "grown h a g \<Longrightarrow> grown g b h' \<Longrightarrow> grown h (a @ b) h'"
proof -
  assume ab: "grown h a g" "grown g b h'"
  then have apart: "set (map fst a) \<inter> set (map fst b) = {}"
    by (force simp: grown_def map_add_def map_of_eq_None_iff split: option.splits)
  then have "map_of (a @ b) = map_of a ++ map_of b"
    by (simp add: map_of_append map_add_comm dom_map_of_conv_image_fst inf_commute)
  moreover have "h k = None" if "k \<in> set (map fst b)" for k
    using ab that by (force simp: grown_def map_add_def split: option.splits)
  ultimately show ?thesis using ab apart by (auto simp: grown_def)
qed

definition makes :: "('w, 'k, 'v) view \<Rightarrow> ('k \<times> 'v) list \<Rightarrow> ('w, 'a) action \<Rightarrow> bool" where
  "makes held ths m \<longleftrightarrow> (\<forall>w x w'. m w = (Inr x, w') \<longrightarrow> grown (held w) ths (held w'))"

lemma makes_leaves: "leaves_held held m \<Longrightarrow> makes held [] m"
proof -
  assume same: "leaves_held held m"
  have "held w' = held w" if "m w = (Inr x, w')" for w x w'
    using leaves_snd[OF same, of w] that by simp
  then show ?thesis by (simp add: makes_def grown_def)
qed

lemma makes_creates: "creates held k ls m \<Longrightarrow> makes held [(k, ls)] m"
proof -
  assume new: "creates held k ls m"
  have "held w k = None \<and> held w' = (held w)(k \<mapsto> ls)" if "m w = (Inr x, w')" for w x w'
    using spec[OF new[unfolded creates_def], of w] that by simp
  then show ?thesis by (auto simp: makes_def grown_def)
qed

lemma makes_return: "makes held [] (act_return x)" "makes held ths (act_raise e)"
  by (simp_all add: makes_def grown_def act_return_def act_raise_def)

lemma makes_bind: "makes held a m \<Longrightarrow> (\<And>x. makes held b (f x)) \<Longrightarrow> makes held (a @ b) (act_bind m f)"
  unfolding makes_def act_bind_Inr by (blast intro: grown_append)

lemma makes_then: "makes held [] m \<Longrightarrow> (\<And>x. makes held b (f x)) \<Longrightarrow> makes held b (act_bind m f)"
  using makes_bind[of held "[]" m b f] by simp

lemma makes_last: "makes held b m \<Longrightarrow> (\<And>x. makes held [] (f x)) \<Longrightarrow> makes held b (act_bind m f)"
  using makes_bind[of held b m "[]" f] by simp

lemma makes_fold: "(\<And>x a. makes held (g x) (f x a)) \<Longrightarrow> makes held (concat (map g xs)) (act_fold f xs a)"
  by (induction xs arbitrary: a) (auto intro: makes_return makes_bind)

lemma makes_fold_none: "(\<And>x a. makes held [] (f x a)) \<Longrightarrow> makes held [] (act_fold f xs a)"
  using makes_fold[of held "\<lambda>_. []" f xs a] by (simp add: concat_eq_Nil_conv[THEN iffD2])

lemma makes_undo: "makes held b m \<Longrightarrow> makes held b (or_undo m cleanup)"
  by (fastforce simp: makes_def or_undo_def act_bind_def act_raise_def split: prod.splits sum.splits exn.splits)

lemma makes_when: "makes held [] m \<Longrightarrow> makes held [] (act_when b m)"
  by (simp add: act_when_def makes_return)

lemmas makes_intros = makes_return makes_fold_none makes_when makes_leaves

text \<open>The containers and networks of a manifest.\<close>

definition network_thing :: "string \<Rightarrow> network_spec \<Rightarrow> (sort \<times> string) \<times> labels" where
  "network_thing run n = ((NetworkSort, network_name run (ns_name n)), [(run_label, run), (network_label, ns_name n)])"

definition host_thing :: "string \<Rightarrow> host_spec \<Rightarrow> (sort \<times> string) \<times> labels" where
  "host_thing run h = ((ContainerSort, container_name run (hs_instance h)), [(run_label, run), (instance_label, hs_instance h)])"

definition run_things :: "run_manifest \<Rightarrow> ((sort \<times> string) \<times> labels) list" where
  "run_things m = map (network_thing (rm_run m)) (rm_networks m) @ map (host_thing (rm_run m)) (rm_hosts m)"

lemma daemon_creates:
  assumes "daemon_ok held D"
  shows "na_name a = n \<Longrightarrow> na_labels a = ls \<Longrightarrow> creates held (NetworkSort, n) ls (dk_create_network D a)"
    "cn_name c = n \<Longrightarrow> cn_labels c = ls \<Longrightarrow> creates held (ContainerSort, n) ls (dk_create_container D c)"
  using assms by (auto simp: daemon_ok_def)

lemma daemon_calls:
  assumes "daemon_ok held D"
  shows "leaves_held held (dk_connect D)" "leaves_held held (dk_context D)" "leaves_held held (dk_userns D)"
    "leaves_held held (dk_acl D x)" "leaves_held held (dk_mkdir D p)" "leaves_held held (dk_image_id D p)"
    "leaves_held held (dk_build_image D p)" "leaves_held held (dk_ensure_image D p)" "leaves_held held (dk_start D p)"
    "leaves_held held (dk_attach D p n a mac)" "leaves_held held (dk_exec D p x)"
  using assms by (simp_all add: daemon_ok_def)

lemma mounts_leave:
  assumes "daemon_ok held D"
  shows "leaves_held held (if \<not> b then act_return ([], None) else case uid of None \<Rightarrow> act_raise (Failure [])
     | Some u \<Rightarrow> act_bind (dk_mkdir D out) (\<lambda>_. act_bind (dk_acl D (args u)) (\<lambda>_. act_return (ms, Some g))))"
  by (cases uid) (auto intro: leaves_intros daemon_calls[OF assms])

lemma network_up_makes: "daemon_ok held D \<Longrightarrow> makes held [network_thing run n] (network_up D run n st)"
  unfolding network_up_def network_thing_def
  by (rule makes_last[OF makes_creates makes_return(1)], rule daemon_creates(1)) simp_all

lemma create_host_makes:
  assumes "daemon_ok held D"
  shows "makes held [host_thing run h] (create_host D run h img dir uid)"
proof (cases "hs_attachments h")
  case (Cons first others)
  show ?thesis
    unfolding create_host_def Cons host_thing_def Let_def list.case case_prod_unfold
    by (rule makes_then[OF makes_leaves[OF mounts_leave[OF assms]]], rule makes_last[OF makes_creates],
        rule daemon_creates(2)[OF assms]) (simp_all add: makes_leaves leaves_intros daemon_calls[OF assms])
qed (simp add: create_host_def makes_return)

lemma open_gates_leave: "daemon_ok held D \<Longrightarrow> leaves_held held (open_gates D m st)"
  unfolding open_gates_def open_gate_def
  by (rule leaves_intros(4)) (auto intro: leaves_intros daemon_calls split: option.split)

lemma bring_hosts_up_makes:
  assumes "daemon_ok held D"
  shows "makes held (run_things m) (bring_hosts_up D m dir start tags uid st)"
proof -
  have nets: "makes held (concat (map (\<lambda>n. [network_thing run n]) ns)) (act_fold (network_up D run) ns st)" for run ns st
    by (rule makes_fold) (rule network_up_makes[OF assms])
  have hosts: "makes held (concat (map (\<lambda>h. [host_thing run h]) hs)) (act_fold (host_up D run tags dir uid) hs st)" for run hs st
    by (rule makes_fold) (auto simp: host_up_def intro!: makes_last create_host_makes[OF assms] makes_return)
  have run: "leaves_held held (act_each (host_run D run) hs)" for run hs
    unfolding host_run_def Let_def by (intro leaves_intros daemon_calls[OF assms])
  have images: "leaves_held held (act_each (dk_ensure_image D) is)" for "is"
    by (intro leaves_intros daemon_calls[OF assms])
  have gates: "leaves_held held (act_when start (open_gates D m st))" for st
    by (intro leaves_intros open_gates_leave[OF assms])
  show ?thesis
    unfolding bring_hosts_up_def run_things_def
    using nets hosts
    by (intro makes_then[OF makes_leaves[OF images]] makes_bind makes_last[where b = "map (host_thing (rm_run m)) (rm_hosts m)"])
      (simp_all add: concat_map_singleton makes_leaves[OF run] makes_last makes_return makes_leaves[OF gates])
qed

section \<open>Nothing of another run is touched\<close>

lemma create_host_spares:
  assumes "daemon_ok held D"
  shows "acts (spares held (of_run run)) (create_host D run h img dir uid)"
proof (cases "hs_attachments h")
  case (Cons first others)
  have made: "acts (spares held (of_run run)) (dk_create_container D c)" if "dget (cn_labels c) run_label = Some run" for c
    by (rule creates_spares, rule daemon_creates(2)[OF assms refl refl]) (simp add: of_run_def that)
  have attached: "leaves_held held (act_each (\<lambda>a. dk_attach D n (network_name run (at_network a)) (at_address a) (at_mac a)) others)" for n
    by (intro leaves_intros daemon_calls[OF assms])
  show ?thesis
    unfolding create_host_def Cons Let_def list.case case_prod_unfold
    by (intro sparing.acts_bind sparing.acts_return leaves_spares[OF mounts_leave[OF assms]] made leaves_spares[OF attached]) simp
qed (simp add: create_host_def sparing.acts_return)

lemma network_up_spares:
  assumes "daemon_ok held D"
  shows "acts (spares held (of_run run)) (network_up D run n st)"
  unfolding network_up_def
  by (intro sparing.acts_bind sparing.acts_return creates_spares[OF daemon_creates(1)[OF assms refl refl]])
    (simp add: of_run_def run_label_def network_label_def)

lemma remove_run_spares: "daemon_ok held D \<Longrightarrow> acts (spares held (of_run run)) (remove_run D run)"
  unfolding acts_def using remove_run_held by (metis prod.collapse)

lemma bring_hosts_up_spares:
  assumes "daemon_ok held D"
  shows "acts (spares held (of_run (rm_run m))) (bring_hosts_up D m dir start tags uid st)"
  unfolding bring_hosts_up_def host_up_def host_run_def Let_def
  by (intro sparing.acts_intros network_up_spares[OF assms] create_host_spares[OF assms] leaves_spares
      leaves_intros daemon_calls[OF assms] open_gates_leave[OF assms])

lemma prepare_agents_leave:
  assumes "daemon_ok held D"
  shows "leaves_held held (prepare_agents digest6 D m dir st)"
  unfolding prepare_agents_def ensure_agent_def Let_def
  by (auto intro!: leaves_intros daemon_calls[OF assms] split: option.split prod.split)

section \<open>The state of a run\<close>

definition named_hosts :: "(string, host_state) dict \<Rightarrow> (string, string) dict" where
  "named_hosts d = map (\<lambda>(i, x). (i, hst_name x)) d"

lemma named_dset: "named_hosts (dset i x d) = dset i (hst_name x) (named_hosts d)"
  by (induction d) (auto simp: named_hosts_def)

lemma networks_up_state:
  "act_fold (network_up D run) ns st w = (Inr st', w')
   \<Longrightarrow> st' = st\<lparr>rst_bridges := fold (\<lambda>(k, v) d. dset k v d) (map (\<lambda>n. (ns_name n, ns_bridge n)) ns) (rst_bridges st)\<rparr>"
proof (induction ns arbitrary: st w)
  case (Cons n ns)
  from Cons.prems obtain v where
    "act_fold (network_up D run) ns (st\<lparr>rst_bridges := dset (ns_name n) (ns_bridge n) (rst_bridges st)\<rparr>) v = (Inr st', w')"
    by (auto simp: act_bind_Inr network_up_def[of D run n] act_return_def)
  from Cons.IH[OF this] show ?case by simp
qed (simp add: act_return_def)

lemma host_up_Inr:
  "host_up D run tags dir uid h st w = (Inr st', w') \<longleftrightarrow> (\<exists>x. create_host D run h (dget_or tags (hs_image h) (hs_image h)) dir uid w = (Inr x, w')
     \<and> st' = st\<lparr>rst_hosts := dset (hs_instance h) x (rst_hosts st)\<rparr>)"
  by (auto simp: act_bind_Inr host_up_def act_return_def)

lemma create_host_name: "create_host D run h img dir uid w = (Inr x, w') \<Longrightarrow> hst_name x = container_name run (hs_instance h)"
  by (auto simp: create_host_def Let_def act_bind_Inr act_return_def act_raise_def split: list.splits prod.splits)

lemma hosts_up_state:
  "act_fold (host_up D run tags dir uid) hs st w = (Inr st', w')
   \<Longrightarrow> (\<exists>d. st' = st\<lparr>rst_hosts := d\<rparr>) \<and> named_hosts (rst_hosts st')
       = fold (\<lambda>(k, v) d. dset k v d) (map (\<lambda>h. (hs_instance h, container_name run (hs_instance h))) hs) (named_hosts (rst_hosts st))"
proof (induction hs arbitrary: st w)
  case (Cons h hs)
  then obtain x v where "create_host D run h (dget_or tags (hs_image h) (hs_image h)) dir uid w = (Inr x, v)"
    and rest: "act_fold (host_up D run tags dir uid) hs (st\<lparr>rst_hosts := dset (hs_instance h) x (rst_hosts st)\<rparr>) v = (Inr st', w')"
    by (auto simp: act_bind_Inr host_up_Inr)
  from create_host_name[OF this(1)] Cons.IH[OF rest] show ?case by (auto simp: named_dset)
next
  case Nil
  then have "st' = st" by (simp add: act_return_def)
  then show ?case by (auto intro: exI[of _ "rst_hosts st"])
qed

lemma prepare_agents_state:
  "prepare_agents digest6 D m dir st w = (Inr (tags, uid, st'), w') \<Longrightarrow> \<exists>i. st' = st\<lparr>rst_images := i\<rparr>"
  by (auto simp: prepare_agents_def ensure_agent_def Let_def act_bind_Inr act_return_def act_raise_def split: if_splits option.splits prod.splits)
    (metis run_state.surjective run_state.update_convs(5))?

lemma or_undo_Inr: "or_undo m c w = (Inr x, w') \<longleftrightarrow> m w = (Inr x, w')"
  by (auto simp: or_undo_def act_bind_def act_raise_def split: prod.splits sum.splits exn.splits)

lemma docker_up_Inr:
  assumes "docker_up digest6 D m dir start w = (Inr st, w')"
  shows "\<exists>i d. st = \<lparr>rst_run = rm_run m, rst_backend = ''docker'', rst_hosts = d,
       rst_bridges = dict_of (map (\<lambda>n. (ns_name n, ns_bridge n)) (rm_networks m)), rst_images = i\<rparr>
     \<and> named_hosts d = dict_of (map (\<lambda>h. (hs_instance h, container_name (rm_run m) (hs_instance h))) (rm_hosts m))"
proof -
  from assms obtain tags uid st1 v1 v2 where prep: "prepare_agents digest6 D m dir
      \<lparr>rst_run = rm_run m, rst_backend = ''docker'', rst_hosts = [], rst_bridges = [], rst_images = []\<rparr> v1 = (Inr (tags, uid, st1), v2)"
    and up: "bring_hosts_up D m dir start tags uid st1 v2 = (Inr st, w')"
    by (auto simp: docker_up_def act_bind_Inr or_undo_Inr)
  from prepare_agents_state[OF prep] obtain i where st1: "st1 = \<lparr>rst_run = rm_run m, rst_backend = ''docker'', rst_hosts = [],
      rst_bridges = [], rst_images = i\<rparr>" by auto
  from up obtain st2 v3 v4 v5 where "act_fold (network_up D (rm_run m)) (rm_networks m) st1 v3 = (Inr st2, v4)"
    and "act_fold (host_up D (rm_run m) tags dir uid) (rm_hosts m) st2 v4 = (Inr st, v5)"
    by (auto simp: bring_hosts_up_def act_bind_Inr act_return_def)
  from hosts_up_state[OF this(2)] networks_up_state[OF this(1)] show ?thesis
    by (auto simp: st1 dict_of_def named_hosts_def)
qed

lemma docker_up_makes: "daemon_ok held D \<Longrightarrow> makes held (run_things m) (docker_up digest6 D m dir start)"
  unfolding docker_up_def case_prod_unfold
  by (rule makes_then[OF makes_leaves[OF daemon_calls(1)]], assumption, rule makes_then[OF makes_leaves[OF prepare_agents_leave]])
    (auto intro: makes_undo bring_hosts_up_makes)

text \<open>The cleanup's own calls return.\<close>

definition tidy :: "'w docker_client \<Rightarrow> bool" where
  "tidy D \<longleftrightarrow> (\<forall>ls w. \<not> isl (fst (dk_containers D ls w))) \<and> (\<forall>ls w. \<not> isl (fst (dk_networks D ls w)))
     \<and> (\<forall>n w. \<not> isl (fst (dk_remove_container D n w))) \<and> (\<forall>n w. \<not> isl (fst (dk_remove_network D n w)))"

lemma bind_returns: "\<not> isl (fst (m w)) \<Longrightarrow> (\<And>x v. \<not> isl (fst (f x v))) \<Longrightarrow> \<not> isl (fst (act_bind m f w))"
  by (auto simp: act_bind_def split: prod.splits sum.splits)

lemma each_returns: "(\<And>x w. \<not> isl (fst (f x w))) \<Longrightarrow> \<not> isl (fst (act_each f xs w))"
proof (induction xs arbitrary: w)
  case (Cons x xs)
  have "\<not> isl (fst (act_fold (\<lambda>x _. f x) xs u v))" for u v
    using Cons by (cases u) simp
  with Cons.prems show ?case by (simp add: bind_returns)
qed (simp add: act_return_def)

lemma remove_run_returns: "tidy D \<Longrightarrow> \<not> isl (fst (remove_run D run w))"
  unfolding remove_run_def by (intro bind_returns each_returns) (simp_all add: tidy_def)

text \<open>A Docker \<open>up\<close> that returns adds to the daemon exactly the networks and containers of its manifest,
  each under the name and the labels of the run and of its segment or instance, none of them there
  before and no two under one name; and the run state it returns gives every segment its bridge and every
  instance the name of its container.\<close>

theorem docker_up_holds:
  assumes "daemon_ok held D" "docker_up digest6 D m dir start w = (Inr st, w')"
  shows "grown (held w) (run_things m) (held w') \<and> rst_run st = rm_run m
    \<and> rst_bridges st = dict_of (map (\<lambda>n. (ns_name n, ns_bridge n)) (rm_networks m))
    \<and> named_hosts (rst_hosts st) = dict_of (map (\<lambda>h. (hs_instance h, container_name (rm_run m) (hs_instance h))) (rm_hosts m))"
  using docker_up_Inr[OF assms(2)] docker_up_makes[OF assms(1), of m digest6 dir start] assms(2)
  by (auto simp: makes_def)

text \<open>A Docker \<open>up\<close> that fails, at whatever call, leaves the daemon holding what it held before: every
  network and container it had created is removed, and no other run's. The calls that clean up must
  return, and nothing of the run was there before.\<close>

theorem docker_up_undone:
  assumes "daemon_ok held D" "tidy D" "elsewhere (rm_run m) (held w) = held w"
    "docker_up digest6 D m dir start w = (Inl (Failure e), w')"
  shows "held w' = held w"
proof -
  obtain x w1 where x: "dk_connect D w = (x, w1)" by fastforce
  with leaves_snd[OF daemon_calls(1)[OF assms(1)], of w] have w1: "held w1 = held w" by simp
  let ?st = "\<lparr>rst_run = rm_run m, rst_backend = ''docker'', rst_hosts = [], rst_bridges = [], rst_images = []\<rparr>"
  obtain y w2 where y: "prepare_agents digest6 D m dir ?st w1 = (y, w2)" by fastforce
  with leaves_snd[OF prepare_agents_leave[OF assms(1)], of digest6 m dir ?st w1] have w2: "held w2 = held w" by (simp add: w1)
  show ?thesis
  proof (cases x)
    case (Inl f)
    with x w1 assms(4) show ?thesis by (simp add: docker_up_def act_bind_def)
  next
    case (Inr u)
    show ?thesis
    proof (cases y)
      case (Inl f)
      with x Inr y w2 assms(4) show ?thesis by (simp add: docker_up_def act_bind_def)
    next
      case (Inr p)
      obtain tags uid st where p: "p = (tags, uid, st)" by (cases p)
      let ?m = "bring_hosts_up D m dir start tags uid st"
      from x \<open>x = Inr u\<close> y Inr p assms(4) have up: "or_undo ?m (remove_run D (rm_run m)) w2 = (Inl (Failure e), w')"
        by (simp add: docker_up_def act_bind_def)
      obtain r w3 where r: "?m w2 = (r, w3)" by fastforce
      with bring_hosts_up_spares[OF assms(1), of m dir start tags uid st] have w3: "elsewhere (rm_run m) (held w3) = held w"
        by (auto simp: acts_def spares_def w2 assms(3) dest: spec[of _ w2])
      obtain z w4 where z: "remove_run D (rm_run m) w3 = (z, w4)" by fastforce
      with remove_run_returns[OF assms(2), of "rm_run m" w3] obtain v where v: "z = Inr v" by (cases z) auto
      with remove_run_held[OF assms(1) z] w3 have "held w4 = held w" by simp
      moreover from up r z v have "w' = w4"
        by (auto simp: or_undo_def act_bind_def act_raise_def split: sum.splits exn.splits)
      ultimately show ?thesis by simp
    qed
  qed
qed

text \<open>Docker's \<open>down\<close> takes back what \<open>up\<close> brought: after both return the daemon holds what it held
  before, whatever other runs it holds.\<close>

theorem docker_down_restores:
  assumes "daemon_ok held D" "elsewhere (rm_run m) (held w) = held w"
    "docker_up digest6 D m dir start w = (Inr st, w')" "docker_down D m w' = (Inr (), w'')"
  shows "held w'' = held w"
proof -
  have labelled: "of_run (rm_run m) k ls" if "(k, ls) \<in> set (run_things m)" for k ls
    using that by (auto simp: run_things_def network_thing_def host_thing_def of_run_def run_label_def network_label_def instance_label_def)
  from assms(3) docker_up_makes[OF assms(1)] have grown: "grown (held w) (run_things m) (held w')" by (auto simp: makes_def)
  have "elsewhere (rm_run m) (held w') = held w"
  proof
    fix k
    show "elsewhere (rm_run m) (held w') k = held w k"
    proof (cases "map_of (run_things m) k")
      case None
      with grown have "held w' k = held w k" by (simp add: grown_def map_add_def)
      with fun_cong[OF assms(2), of k] show ?thesis by (simp add: without_def)
    next
      case (Some ls)
      with grown have "held w k = None" "held w' k = Some ls" by (force simp: grown_def map_add_def dest: map_of_SomeD)+
      with labelled[OF map_of_SomeD[OF Some]] show ?thesis by (simp add: without_def)
    qed
  qed
  moreover from assms(4) obtain v where "dk_connect D w' = (Inr (), v)" "remove_run D (rm_run m) v = (Inr (), w'')"
    by (auto simp: docker_down_def act_bind_Inr)
  moreover from this(1) leaves_snd[OF daemon_calls(1)[OF assms(1)], of w'] have "held v = held w'" by simp
  ultimately show ?thesis using remove_run_held[OF assms(1)] by metis
qed

section \<open>Names\<close>

text \<open>A run and an instance are not read back from a container's name, nor a context from its bytes.\<close>

lemma container_name_flat: "container_name run i = ''tiergen-'' @ run @ ''-'' @ flat_id i"
  by (simp add: container_name_def flat_id_def Let_def)

lemma container_name_shared: "container_name ''lab'' ''east/web/c[0]'' = container_name ''lab-east'' ''web/c[0]''"
  by code_simp

lemma context_bytes_shared: "context_bytes [(''a'', [98])] = context_bytes [(''ab'', [])]"
  by code_simp

section \<open>Example\<close>

text \<open>A daemon whose world is what it holds; \<open>failing\<close> names the container in which commands fail.\<close>

definition demo_lists :: "sort \<Rightarrow> labels \<Rightarrow> (((sort \<times> string) \<times> labels) list, string list) action" where
  "demo_lists srt asked w = (Inr (map snd (filter (\<lambda>k. fst k = srt \<and> (case map_of w k of None \<Rightarrow> False | Some ls \<Rightarrow> carries asked ls)) (map fst w))), w)"

definition demo_creates :: "sort \<times> string \<Rightarrow> labels \<Rightarrow> 'a \<Rightarrow> (((sort \<times> string) \<times> labels) list, 'a) action" where
  "demo_creates k ls x w = (if map_of w k = None then (Inr x, (k, ls) # w) else (Inl (Failure [L ''in use'']), w))"

definition demo_removes :: "sort \<times> string \<Rightarrow> (((sort \<times> string) \<times> labels) list, unit) action" where
  "demo_removes k w = (Inr (), AList.delete k w)"

definition demo_docker :: "string \<Rightarrow> ((sort \<times> string) \<times> labels) list docker_client" where
  "demo_docker failing = \<lparr>dk_connect = act_return (), dk_acl = (\<lambda>_. act_return ()), dk_mkdir = (\<lambda>_. act_return ()),
     dk_context = act_return [(''Dockerfile'', [70])], dk_userns = act_return (Some (100000, 100000)),
     dk_image_id = (\<lambda>_. act_return None), dk_build_image = (\<lambda>_. act_return ''sha256:1''), dk_ensure_image = (\<lambda>_. act_return ()),
     dk_create_network = (\<lambda>a. demo_creates (NetworkSort, na_name a) (na_labels a) ()),
     dk_create_container = (\<lambda>a. demo_creates (ContainerSort, cn_name a) (cn_labels a) ''id''),
     dk_attach = (\<lambda>_ _ _ _. act_return ()), dk_start = (\<lambda>_. act_return ()),
     dk_exec = (\<lambda>n _. if n = failing then act_raise (Failure [L ''no route'']) else act_return ()),
     dk_containers = demo_lists ContainerSort, dk_networks = demo_lists NetworkSort,
     dk_remove_container = (\<lambda>n. demo_removes (ContainerSort, n)), dk_remove_network = (\<lambda>n. demo_removes (NetworkSort, n)),
     dk_run_helper = (\<lambda>_ _ _ _. act_return [])\<rparr>"

definition demo_up_manifest :: run_manifest where
  "demo_up_manifest = \<lparr>rm_run = ''r'', rm_backend = ''docker'',
     rm_networks = [\<lparr>ns_name = ''x'', ns_cidr = ''10.0.0.0/24'', ns_gateway = ''10.0.0.1'', ns_plane = DataPlane, ns_internal = True, ns_bridge = ''tg-1''\<rparr>],
     rm_hosts = map (\<lambda>(i, agent). \<lparr>hs_instance = i, hs_kind = ''c'', hs_platform = Linux, hs_hostname = i,
       hs_image = (if agent then agent_image_name else ''web''), hs_command = [], hs_cap_add = [],
       hs_attachments = [\<lparr>at_network = ''x'', at_address = ''10.0.0.2'', at_mac = None\<rparr>], hs_routes = [\<lparr>ro_cidr = ''10.1.0.0/24'', ro_via = ''10.0.0.3''\<rparr>],
       hs_forwards = False, hs_agent = agent, hs_gate = (if agent then Some gate else None)\<rparr>) [(''o/c[0]'', True), (''o/c[1]'', False)]\<rparr>"

text \<open>A container of another run.\<close>

definition demo_held :: "((sort \<times> string) \<times> labels) list" where
  "demo_held = [((ContainerSort, ''tiergen-q-o-c-0''), [(run_label, ''q'')])]"

lemma demo_lists_held: "lists_held map_of srt ls (demo_lists srt ls)"
proof -
  have "set (map snd (filter (\<lambda>k. fst k = srt \<and> (case map_of w k of None \<Rightarrow> False | Some ls' \<Rightarrow> carries ls ls')) (map fst w)))
      = {n. \<exists>ls'. map_of w (srt, n) = Some ls' \<and> carries ls ls'}" for w :: "((sort \<times> string) \<times> labels) list"
    by (force simp: image_iff dest: map_of_SomeD split: option.splits)
  then show ?thesis by (simp add: lists_held_def leaves_held_def acts_def demo_lists_def)
qed

lemma demo_daemon_ok: "daemon_ok map_of (demo_docker failing)"
proof -
  have unit: "creates map_of k ls (demo_creates k ls ())" for k ls
    by (simp add: creates_def demo_creates_def)
  have ids: "creates map_of k ls (demo_creates k ls ''id'')" for k ls
    by (simp add: creates_def demo_creates_def)
  have gone: "removes map_of k (demo_removes k)" for k
    by (simp add: removes_def demo_removes_def delete_conv')
  show ?thesis
    by (simp add: daemon_ok_def demo_docker_def demo_lists_held unit ids gone leaves_intros)
qed

lemma demo_tidy: "tidy (demo_docker failing)"
  by (simp add: tidy_def demo_docker_def demo_lists_def demo_removes_def)

definition demo_up :: "string \<Rightarrow> (exn + run_state) \<times> ((sort \<times> string) \<times> labels) list" where
  "demo_up failing = docker_up (take 6) (demo_docker failing) demo_up_manifest ''/run'' True demo_held"

lemma demo_up_runs:
  "map (\<lambda>k. snd (fst k)) (snd (demo_up '''')) = [''tiergen-r-o-c-1'', ''tiergen-r-o-c-0'', ''tiergen-r-x'', ''tiergen-q-o-c-0'']"
  "\<not> isl (fst (demo_up ''''))"
  "fst (demo_up ''tiergen-r-o-c-1'') = Inl (Failure [L ''no route''])"
  "\<not> isl (fst (docker_down (demo_docker '''') demo_up_manifest (snd (demo_up ''''))))"
  by code_simp+

lemma demo_elsewhere: "elsewhere (rm_run demo_up_manifest) (map_of demo_held) = map_of demo_held"
  by (auto simp: fun_eq_iff without_def of_run_def demo_held_def demo_up_manifest_def)

theorem docker_up_holds_witness:
  "\<exists>st w'. demo_up '''' = (Inr st, w') \<and> grown (map_of demo_held) (run_things demo_up_manifest) (map_of w')"
proof -
  obtain r w' where r: "demo_up '''' = (r, w')" by fastforce
  with demo_up_runs(2) obtain st where "r = Inr st" by (cases r) auto
  with docker_up_holds[OF demo_daemon_ok] r show ?thesis unfolding demo_up_def by blast
qed

theorem docker_up_undone_witness:
  "map_of (snd (demo_up ''tiergen-r-o-c-1'')) = map_of demo_held"
proof -
  obtain w' where "demo_up ''tiergen-r-o-c-1'' = (Inl (Failure [L ''no route'']), w')"
    using demo_up_runs(3) by (metis prod.collapse)
  with docker_up_undone[OF demo_daemon_ok demo_tidy demo_elsewhere] show ?thesis by (simp add: demo_up_def)
qed

theorem docker_down_restores_witness:
  "map_of (snd (docker_down (demo_docker '''') demo_up_manifest (snd (demo_up '''')))) = map_of demo_held"
proof -
  obtain r w' where r: "demo_up '''' = (r, w')" by fastforce
  with demo_up_runs(2) obtain st where st: "r = Inr st" by (cases r) auto
  obtain x w'' where x: "docker_down (demo_docker '''') demo_up_manifest w' = (x, w'')" by fastforce
  with demo_up_runs(4) r have "x = Inr ()" by (cases x) auto
  with x docker_down_restores[OF demo_daemon_ok demo_elsewhere r[unfolded demo_up_def st]] show ?thesis by (simp add: r)
qed

end
