(* ===== verification/Simulation.thy ===== *)
theory Simulation
  imports Agent_Checks
begin

text \<open>
  A scenario simulated without a host (\<open>sim/tiergen/sim/simulate.py\<close>): programs built as for a
  run, every behaviour's loop under a clock that jumps and an implementation that records its
  call, and the events a sensor over every segment would have reported. The moment a scenario
  starts at is a parameter: its local time and its timestamp, \<open>None\<close> where Python's reading of
  an ISO time raises. Writing the run directory is not modelled.
\<close>

section \<open>Integers in text\<close>

text \<open>\<open>s.strip()\<close>, and \<open>int(s)\<close>: a sign, and digits with single underscores between them.\<close>

definition strip_if :: "(char \<Rightarrow> bool) \<Rightarrow> string \<Rightarrow> string" where
  "strip_if P s = rev (dropWhile P (rev (dropWhile P s)))"

definition str_space :: "char \<Rightarrow> bool" where
  "str_space c \<longleftrightarrow> (of_char c :: nat) \<in> {9, 10, 11, 12, 13, 28, 29, 30, 31, 32, 133, 160}"

definition int_space :: "char \<Rightarrow> bool" where
  "int_space c \<longleftrightarrow> (of_char c :: nat) \<in> {9, 10, 11, 12, 13, 32, 133, 160}"

definition int_digits :: "string \<Rightarrow> bool" where
  "int_digits s \<longleftrightarrow> list_all (\<lambda>part. part \<noteq> [] \<and> list_all is_digit part) (split_on CHR ''_'' s)
     \<and> length (filter is_digit s) \<le> 4300"

definition read_digits :: "string \<Rightarrow> int option" where
  "read_digits s = (if int_digits s then Some (int (read_nat (filter is_digit s))) else None)"

definition py_int :: "string \<Rightarrow> int option" where
  "py_int s = (case strip_if int_space s of
       [] \<Rightarrow> None
     | c # cs \<Rightarrow> if c = CHR ''-'' then map_option uminus (read_digits cs)
         else if c = CHR ''+'' then read_digits cs
         else read_digits (c # cs))"

section \<open>The calls recorded\<close>

record sim_call =
  cl_invocation :: string
  cl_signature :: string
  cl_params :: "(string, scalar) dict"
  cl_targets :: "peer list"

type_synonym sim_calls = "(string, sim_call) dict"

datatype sim_error = SimErr msg | BuildRaised build_error | BadTime | LoopRaised agent_error | NotReturned
  | BadNumber string | NoSignature string

text \<open>The recorder is shared by every loop: the implementations' stream carries what it holds, and no
  draw touches it.\<close>

definition with_calls :: "'g random_source \<Rightarrow> sim_calls \<Rightarrow> ('g \<times> sim_calls) random_source" where
  "with_calls G calls =
     \<lparr>seeded = (\<lambda>n. (seeded G n, calls)),
      uniform = (\<lambda>(g, c). let (x, g) = uniform G g in (x, (g, c))),
      randbelow = (\<lambda>n (g, c). let (x, g) = randbelow G n g in (x, (g, c))),
      expovariate = (\<lambda>a (g, c). let (x, g) = expovariate G a g in (x, (g, c))),
      lognormvariate = (\<lambda>a b (g, c). let (x, g) = lognormvariate G a b g in (x, (g, c))),
      weibullvariate = (\<lambda>a b (g, c). let (x, g) = weibullvariate G a b g in (x, (g, c)))\<rparr>"

text \<open>\<open>run(ctx, signature, **params)\<close>: a parameter with the name of an argument is a \<open>TypeError\<close>, which the
  loop records as a failure; \<open>None\<close> is raising.\<close>

definition unbindable :: "string \<Rightarrow> bool" where
  "unbindable k \<longleftrightarrow> k \<in> {''self'', ''ctx'', ''signature''}"

definition recorder_run :: "invocation_context \<Rightarrow> string \<Rightarrow> (string, scalar) dict \<Rightarrow> 'g \<times> sim_calls
    \<Rightarrow> outcome option \<times> 'g \<times> sim_calls" where
  "recorder_run ctx sg params s =
     (if list_ex unbindable (map fst params) then (None, s)
      else (Some Succeeded, (fst s, dset (ic_invocation ctx) \<lparr>cl_invocation = ic_invocation ctx, cl_signature = sg,
        cl_params = params, cl_targets = ic_targets ctx\<rparr> (snd s))))"

definition sim_sleep :: "rat \<Rightarrow> rat \<Rightarrow> rat" where
  "sim_sleep now seconds = now + max seconds 0"

definition sim_stamp :: "rat \<Rightarrow> rat \<Rightarrow> clock_stamp" where
  "sim_stamp epoch now = \<lparr>cs_wall = epoch + now, cs_monotonic = now, cs_offset = 0\<rparr>"

definition sim_principal :: "string \<Rightarrow> attribution_key" where
  "sim_principal invocation = \<lparr>ak_platform = Linux, ak_principal = ''sim:'' @ invocation\<rparr>"

definition sim_world :: "'g random_source \<Rightarrow> (string \<Rightarrow> nat list) \<Rightarrow> int \<Rightarrow> rat \<Rightarrow> sim_calls \<Rightarrow> ('g \<times> sim_calls) world" where
  "sim_world G digest start epoch calls =
     \<lparr>wo_source = with_calls G calls, wo_digest = digest, wo_start = start, wo_sleep = sim_sleep,
      wo_stamp = sim_stamp epoch, wo_principal = sim_principal,
      wo_run = (\<lambda>ctx sg params now s. let (outcome, s) = recorder_run ctx sg params s in (outcome, now, s))\<rparr>"

section \<open>Programs and their loops\<close>

text \<open>\<open>times\<close> gives a start's local time and its timestamp.\<close>

record 'g sim_setting =
  sx_source :: "'g random_source"
  sx_digest :: "string \<Rightarrow> nat list"
  sx_times :: "string \<Rightarrow> (int \<times> rat) option"
  sx_fuel :: nat

definition simulate_behaviour :: "'g sim_setting \<Rightarrow> rat \<Rightarrow> program \<Rightarrow> resolved_behaviour
    \<Rightarrow> invocation_record list \<times> sim_calls \<Rightarrow> sim_error + invocation_record list \<times> sim_calls" where
  "simulate_behaviour G epoch p b = (\<lambda>(records, calls).
     rbind (or_raise BadTime (sx_times G (pg_start p))) (\<lambda>(start, _).
       let w = sim_world (sx_source G) (sx_digest G) start epoch calls
       in case loop_run w p b (sx_fuel G) (loop_init w p b 0) of
            Inl e \<Rightarrow> Inl (LoopRaised e)
          | Inr (returned, s) \<Rightarrow> if returned then Inr (records @ lo_records s, snd (lo_impl s)) else Inl NotReturned))"

definition simulate_program :: "'g sim_setting \<Rightarrow> rat \<Rightarrow> program
    \<Rightarrow> invocation_record list \<times> sim_calls \<Rightarrow> sim_error + invocation_record list \<times> sim_calls" where
  "simulate_program G epoch p = rfold (simulate_behaviour G epoch p) (pg_behaviours p)"

definition by_time :: "invocation_record \<Rightarrow> rat \<times> string" where
  "by_time r = (ir_start r, lk_invocation (ir_key r))"

definition sorted_programs :: "(string, program) dict \<Rightarrow> program list" where
  "sorted_programs programs = map (\<lambda>i. the (dget programs i)) (sort (dkeys programs))"

definition simulate_programs :: "'g sim_setting \<Rightarrow> (string, program) dict \<Rightarrow> rat
    \<Rightarrow> sim_error + invocation_record list \<times> sim_calls" where
  "simulate_programs G programs epoch =
     rbind (rfold (simulate_program G epoch) (sorted_programs programs) ([], []))
       (\<lambda>(records, calls). Inr (sort_key by_time records, calls))"

definition server_ids :: "string list" where
  "server_ids = map sg_id (filter (\<lambda>s. sg_role s = Server) (dvalues signatures))"

definition programs_for :: "(string \<Rightarrow> nat list) \<Rightarrow> scenario \<Rightarrow> resources
    \<Rightarrow> sim_error + address_plan \<times> (string, program) dict" where
  "programs_for digest sc rs =
     rbind (or_raise (SimErr [S (sc_name sc), L '': the topology does not resolve'']) (res_topology rs sc)) (\<lambda>topo.
       case plan_addresses digest sc topo of
         (plan, p # _) \<Rightarrow> Inl (SimErr ([S (sc_name sc), L '': '', S (pr_path p), L '': ''] @ pr_message p))
       | (plan, []) \<Rightarrow>
           let routes = fst (plan_routes sc topo plan)
           in case build_programs sc topo plan routes rs server_ids of
                Inl e \<Rightarrow> Inl (BuildRaised e) | Inr programs \<Rightarrow> Inr (plan, programs))"

section \<open>Events\<close>

definition sim_sensor :: string where "sim_sensor = ''sim''"
definition sim_point :: string where "sim_point = ''all''"
definition ephemeral :: int where "ephemeral = 49152"

definition sim_source :: "address_plan \<Rightarrow> string \<Rightarrow> peer \<Rightarrow> string" where
  "sim_source plan instnc target =
     (let mine = dget_or (pl_addresses plan) instnc []
      in case first_such (\<lambda>(seg, a). a = pe_address target \<and> seg \<in> set (dkeys mine))
           (dget_or (pl_addresses plan) (pe_instance target) []) of
           Some (seg, _) \<Rightarrow> dget_or mine seg []
         | None \<Rightarrow> (case mine of [] \<Rightarrow> ''0.0.0.0'' | (_, a) # _ \<Rightarrow> a))"

definition port_range :: "string \<Rightarrow> sim_error + int list" where
  "port_range part =
     (case partition_on CHR ''-'' (strip_if str_space part) of (lo, _, hi) \<Rightarrow>
        rbind (or_raise (BadNumber lo) (py_int lo)) (\<lambda>l.
        rbind (or_raise (BadNumber hi) (py_int (if hi = [] then lo else hi))) (\<lambda>h. Inr [l..h])))"

text \<open>A Boolean is an integer to \<open>isinstance\<close>.\<close>

definition sim_ports :: "signature \<Rightarrow> (string, scalar) dict \<Rightarrow> peer \<Rightarrow> sim_error + int list" where
  "sim_ports sg params target =
     (case ts_port (sg_shape sg) of
        Some port \<Rightarrow> Inr [port]
      | None \<Rightarrow>
          if sg_endpoints sg \<noteq> []
          then Inr (case first_such (\<lambda>e. ep_protocol e \<in> set (sg_endpoints sg)) (pe_served target) of
                      None \<Rightarrow> [] | Some e \<Rightarrow> [ep_port e])
          else case dget params ''ports'' of
                 Some (SStr spec) \<Rightarrow> rbind (rmap port_range (split_on CHR '','' spec)) (\<lambda>ps. Inr (concat ps))
               | Some (SInt port) \<Rightarrow> Inr [port]
               | Some (SBool b) \<Rightarrow> Inr [of_bool b]
               | _ \<Rightarrow> Inr [])"

fun scalar_json :: "scalar \<Rightarrow> json" where
  "scalar_json (SStr s) = JStr s"
| "scalar_json (SInt i) = JInt i"
| "scalar_json (SFloat x) = JFloat x"
| "scalar_json (SBool b) = JBool b"

fun holds_text :: "string \<Rightarrow> string \<Rightarrow> bool" where
  "holds_text needle s = (starts_with needle s \<or> (case s of [] \<Rightarrow> False | _ # s \<Rightarrow> holds_text needle s))"

declare holds_text.simps [simp del]

definition is_scan :: "signature \<Rightarrow> bool" where
  "is_scan sg \<longleftrightarrow> sg_endpoints sg = [] \<and> ts_port (sg_shape sg) = None"

definition conn_total :: "signature \<Rightarrow> nat" where
  "conn_total sg = (if is_scan sg then 1 else case ts_connections (sg_shape sg) of Exactly n \<Rightarrow> nat n | Many \<Rightarrow> 1)"

definition sim_flow :: "nat \<Rightarrow> sensor_flow_id" where
  "sim_flow n = \<lparr>sf_sensor = sim_sensor, sf_capture_point = sim_point, sf_native = show_nat n\<rparr>"

definition sim_conn :: "address_plan \<Rightarrow> invocation_record \<Rightarrow> signature \<Rightarrow> peer \<Rightarrow> int \<Rightarrow> nat \<Rightarrow> conn_event" where
  "sim_conn plan record sg target port n =
     \<lparr>ce_flow = sim_flow n,
      ce_five_tuple = \<lparr>ft_orig_addr = sim_source plan (lk_instance (ir_key record)) target,
        ft_orig_port = ephemeral + int (n mod 16384), ft_resp_addr = pe_address target, ft_resp_port = port,
        ft_proto = transport_str (ts_transport (sg_shape sg))\<rparr>,
      ce_start = ir_start record, ce_duration = None, ce_orig_bytes = None, ce_resp_bytes = None,
      ce_orig_pkts = None, ce_resp_pkts = None, ce_state = (if is_scan sg then CRejected else CClosed),
      ce_raw = [(''invocation'', JStr (lk_invocation (ir_key record)))]\<rparr>"

definition sim_app :: "invocation_record \<Rightarrow> sim_call \<Rightarrow> signature \<Rightarrow> peer \<Rightarrow> nat \<Rightarrow> app_event" where
  "sim_app record call sg target n =
     \<lparr>ae_flow = sim_flow n, ae_index = 0, ae_ts = ir_start record, ae_protocol = ''http'',
      ae_fields = [(''method'', JStr (if holds_text ''post'' (sg_id sg) then ''POST'' else ''GET'')),
          (''host'', JStr (pe_address target))]
        @ (case dget (cl_params call) ''path'' of
             Some x \<Rightarrow> [(''uri'', scalar_json x)]
           | None \<Rightarrow> (case dget (cl_params call) ''start_path'' of
               Some x \<Rightarrow> [(''uri'', scalar_json x)] | None \<Rightarrow> [])),
      ae_raw = []\<rparr>"

definition emit :: "address_plan \<Rightarrow> invocation_record \<Rightarrow> sim_call \<Rightarrow> signature \<Rightarrow> peer \<Rightarrow> int
    \<Rightarrow> nat \<times> event list \<Rightarrow> nat \<times> event list" where
  "emit plan record call sg target port = (\<lambda>(n, events).
     let n = n + 1
     in (n, events @ [Conn (sim_conn plan record sg target port n)]
          @ (if sg_protocol sg = ''http'' \<and> \<not> is_scan sg then [App (sim_app record call sg target n)] else [])))"

definition target_events :: "address_plan \<Rightarrow> invocation_record \<Rightarrow> sim_call \<Rightarrow> signature \<Rightarrow> peer
    \<Rightarrow> nat \<times> event list \<Rightarrow> sim_error + nat \<times> event list" where
  "target_events plan record call sg target acc =
     rbind (sim_ports sg (cl_params call) target) (\<lambda>ports.
       Inr (fold (emit plan record call sg target) (concat (map (replicate (conn_total sg)) ports)) acc))"

definition record_events :: "address_plan \<Rightarrow> sim_calls \<Rightarrow> invocation_record
    \<Rightarrow> nat \<times> event list \<Rightarrow> sim_error + nat \<times> event list" where
  "record_events plan calls record acc =
     (case dget calls (lk_invocation (ir_key record)) of
        None \<Rightarrow> Inr acc
      | Some call \<Rightarrow>
          rbind (or_raise (NoSignature (cl_signature call)) (dget signatures (cl_signature call))) (\<lambda>sg.
            rfold (target_events plan record call sg) (cl_targets call) acc))"

definition sim_events :: "address_plan \<Rightarrow> sim_calls \<Rightarrow> invocation_record list \<Rightarrow> sim_error + event list" where
  "sim_events plan calls records = rbind (rfold (record_events plan calls) records (0, [])) (\<lambda>(n, events). Inr events)"

section \<open>A simulation\<close>

record simulated =
  si_scenario :: scenario
  si_plan :: address_plan
  si_programs :: "(string, program) dict"
  si_records :: "invocation_record list"
  si_calls :: sim_calls
  si_events :: "event list"

definition simulate :: "'g sim_setting \<Rightarrow> scenario \<Rightarrow> resources \<Rightarrow> int option \<Rightarrow> pyfloat option \<Rightarrow> string list option
    \<Rightarrow> sim_error + simulated" where
  "simulate G sc rs seed duration instances =
     (let sc = (case seed of None \<Rightarrow> sc | Some n \<Rightarrow> sc\<lparr>sc_seed := n\<rparr>);
          sc = (case duration of None \<Rightarrow> sc | Some x \<Rightarrow> sc\<lparr>sc_duration_s := x\<rparr>)
      in rbind (programs_for (sx_digest G) sc rs) (\<lambda>(plan, programs).
         rbind (case instances of
                  None \<Rightarrow> Inr programs
                | Some ids \<Rightarrow>
                    let missing = sorted_set (filter (\<lambda>i. i \<notin> set (dkeys programs)) ids)
                    in if missing \<noteq> [] then Inl (SimErr (L ''no such instance(s): '' # join_msg '', '' (map (\<lambda>i. [S i]) missing)))
                       else Inr (filter (\<lambda>(i, p). i \<in> set ids) programs)) (\<lambda>programs.
         rbind (or_raise BadTime (sx_times G (sc_start sc))) (\<lambda>(_, epoch).
         rbind (simulate_programs G programs epoch) (\<lambda>(records, calls).
         rbind (sim_events plan calls records) (\<lambda>events.
           Inr \<lparr>si_scenario = sc, si_plan = plan, si_programs = programs, si_records = records, si_calls = calls,
             si_events = events\<rparr>))))))"

section \<open>What is recorded is what was called\<close>

lemma with_calls_random: "random_ok G \<Longrightarrow> random_ok (with_calls G calls)"
  by (auto simp: random_ok_def with_calls_def case_prod_unfold Let_def)

lemma sim_world_ok: "random_ok G \<Longrightarrow> world_ok (sim_world G digest start epoch calls)"
  by (auto simp: world_ok_def sim_world_def with_calls_random sim_sleep_def recorder_run_def case_prod_unfold Let_def)

text \<open>The parameters of a call are those of its action, each a value the action allows.\<close>

definition param_from :: "string \<times> resolved_param \<Rightarrow> string \<times> scalar \<Rightarrow> bool" where
  "param_from kv kx \<longleftrightarrow> fst kx = fst kv
     \<and> (case snd kv of RScalar x \<Rightarrow> snd kx = x | RChoice c \<Rightarrow> snd kx \<in> set (ch_options c))"

definition call_ok :: "program \<Rightarrow> resolved_behaviour \<Rightarrow> invocation_record \<Rightarrow> sim_call \<Rightarrow> bool" where
  "call_ok p b v c \<longleftrightarrow> lk_instance (ir_key v) = pg_instance p \<and> lk_behaviour (ir_key v) = rb_name b
     \<and> cl_invocation c = lk_invocation (ir_key v) \<and> map pe_instance (cl_targets c) = lk_targets (ir_key v)
     \<and> (\<exists>act. dget (rb_action_map b) (lk_action (ir_key v)) = Some (Some act) \<and> cl_signature c = ra_signature act
        \<and> list_all2 param_from (ra_params act) (cl_params c)
        \<and> set (cl_targets c) \<subseteq> set (dget_or (pg_peers p) (ra_tie act) []))"

text \<open>What the recorder holds of a record: its call, or nothing if the action has a parameter the recorder
  cannot be called with.\<close>

definition unbound :: "program \<Rightarrow> resolved_behaviour \<Rightarrow> invocation_record \<Rightarrow> bool" where
  "unbound p b v \<longleftrightarrow> lk_instance (ir_key v) = pg_instance p \<and> lk_behaviour (ir_key v) = rb_name b
     \<and> (\<exists>act. dget (rb_action_map b) (lk_action (ir_key v)) = Some (Some act) \<and> list_ex unbindable (map fst (ra_params act)))"

definition noted :: "program \<Rightarrow> resolved_behaviour \<Rightarrow> invocation_record \<Rightarrow> sim_call option \<Rightarrow> bool" where
  "noted p b v found = (case found of
       Some c \<Rightarrow> ir_outcome v = Succeeded \<and> call_ok p b v c
     | None \<Rightarrow> ir_outcome v = Failed \<and> unbound p b v)"

definition with_call :: "string \<Rightarrow> sim_call option \<Rightarrow> sim_calls \<Rightarrow> sim_calls" where
  "with_call k found calls = (case found of None \<Rightarrow> calls | Some c \<Rightarrow> dset k c calls)"

definition called :: "program \<Rightarrow> resolved_behaviour \<Rightarrow> ('g \<times> sim_calls) loop_state \<Rightarrow> ('g \<times> sim_calls) loop_state \<Rightarrow> bool" where
  "called p b s s' \<longleftrightarrow> (\<exists>v found. lo_n s' = lo_n s + 1 \<and> lo_records s' = lo_records s @ [v]
     \<and> lk_invocation (ir_key v) = invocation_id (pg_instance p) (rb_name b) (lo_n s + 1)
     \<and> snd (lo_impl s') = with_call (lk_invocation (ir_key v)) found (snd (lo_impl s)) \<and> noted p b v found)"

interpretation calling: pass_relation "\<lambda>s s'. kept s s' \<or> called p b s s'" for p b
  by unfold_locales (auto simp: kept_def called_def)

lemma action_params_from:
  assumes "action_params w ps s = Inr (found, s')"
  shows "list_all2 param_from ps found"
proof -
  let ?f = "\<lambda>(k, v) (found, s). rbind (draw_param w v s) (\<lambda>(x, s). Inr (found @ [(k, x)], s))"
  have "\<exists>new. found' = found @ new \<and> list_all2 param_from ps new" if "rfold ?f ps (found, s) = Inr (found', s')" for found found' s s'
    using that
  proof (induction ps arbitrary: found s)
    case (Cons kv ps)
    obtain k v where kv: "kv = (k, v)" by fastforce
    with Cons.prems obtain x s1 where x: "draw_param w v s = Inr (x, s1)" "rfold ?f ps (found @ [(k, x)], s1) = Inr (found', s')"
      by (auto simp: rbind_Inr_iff)
    from x(1) have "param_from (k, v) (k, x)"
      by (auto simp: draw_param_def param_from_def rbind_Inr_iff split: resolved_param.splits if_splits)
    with Cons.IH[OF x(2)] kv show ?case by auto
  qed simp
  from this[of "[]" s found s'] assms show ?thesis by (simp add: action_params_def)
qed

definition call_made :: "string \<Rightarrow> string \<Rightarrow> (string, scalar) dict \<Rightarrow> peer list \<Rightarrow> sim_call option" where
  "call_made invocation sg params aimed = (if list_ex unbindable (map fst params) then None
     else Some \<lparr>cl_invocation = invocation, cl_signature = sg, cl_params = params, cl_targets = aimed\<rparr>)"

lemma recorder_results:
  "fst (recorder_run ctx sg params s) = (if list_ex unbindable (map fst params) then None else Some Succeeded)"
  "snd (snd (recorder_run ctx sg params s))
     = with_call (ic_invocation ctx) (call_made (ic_invocation ctx) sg params (ic_targets ctx)) (snd s)"
  by (simp_all add: recorder_run_def with_call_def call_made_def)

lemma sim_run: "wo_run (sim_world G digest start epoch calls) ctx sg params now s
    = (fst (recorder_run ctx sg params s), now, snd (recorder_run ctx sg params s))"
  by (simp add: sim_world_def case_prod_unfold Let_def)

lemma invoke_called:
  assumes "random_ok G" "dget (rb_action_map b) name = Some (Some act)"
    "invoke (sim_world G digest start epoch calls) p b name act s = Inr s'"
  shows "kept s s' \<or> called p b s s'"
proof -
  let ?w = "sim_world G digest start epoch calls"
  have "random_ok (wo_source ?w)" using assms(1) by (simp add: sim_world_def with_calls_random)
  note a = pick_targets_in[OF this]
  obtain aimed sel where aim: "pick_targets ?w p act (lo_selection s) = (aimed, sel)" by (rule prod.exhaust)
  show ?thesis
  proof (cases "aimed = []")
    case True
    with assms(3) aim show ?thesis by (auto simp: invoke_def kept_def)
  next
    case False
    with assms(3) aim obtain choices chosen sel1 params sel2 where
      c: "weighted (wo_source ?w) (map (\<lambda>(k, x). (k, num x)) choices) sel = Inr (chosen, sel1)"
        "action_params ?w (ra_params act) sel1 = Inr (params, sel2)"
      and s': "\<exists>v. lo_n s' = lo_n s + 1 \<and> lo_records s' = lo_records s @ [v]
        \<and> ir_key v = label_for p b name (invocation_id (pg_instance p) (rb_name b) (lo_n s + 1)) (impl_ref_parse chosen) aimed
        \<and> ir_outcome v = (if list_ex unbindable (map fst params) then Failed else Succeeded)
        \<and> snd (lo_impl s') = with_call (lk_invocation (ir_key v)) (call_made (lk_invocation (ir_key v)) (ra_signature act) params aimed)
            (snd (lo_impl s))"
      by (auto simp: invoke_def Let_def rbind_Inr_iff case_prod_unfold or_raise_def sim_run recorder_results label_for_def
          split: option.splits if_splits)
    from action_params_from[OF c(2)] have names: "map fst params = map fst (ra_params act)"
      by (induction rule: list_all2_induct) (simp_all add: param_from_def)
    from a[OF aim] have "set aimed \<subseteq> set (dget_or (pg_peers p) (ra_tie act) [])" by blast
    from s' obtain v where v: "lo_n s' = lo_n s + 1" "lo_records s' = lo_records s @ [v]"
      "ir_key v = label_for p b name (invocation_id (pg_instance p) (rb_name b) (lo_n s + 1)) (impl_ref_parse chosen) aimed"
      "ir_outcome v = (if list_ex unbindable (map fst params) then Failed else Succeeded)"
      "snd (lo_impl s') = with_call (lk_invocation (ir_key v)) (call_made (lk_invocation (ir_key v)) (ra_signature act) params aimed)
         (snd (lo_impl s))" by blast
    have "noted p b v (call_made (lk_invocation (ir_key v)) (ra_signature act) params aimed)"
      using v(3,4) assms(2) action_params_from[OF c(2)] \<open>set aimed \<subseteq> _\<close>
      by (auto simp: noted_def call_made_def call_ok_def unbound_def label_for_def names)
    moreover have "lk_invocation (ir_key v) = invocation_id (pg_instance p) (rb_name b) (lo_n s + 1)" by (simp add: v(3) label_for_def)
    ultimately have "called p b s s'" using v(1,2,5) unfolding called_def by blast
    then show ?thesis ..
  qed
qed

lemma step_called:
  assumes "random_ok G" "loop_step (sim_world G digest start epoch calls) p b s = Inr (returned, s')"
  shows "kept s s' \<or> called p b s s'"
proof -
  have "calling.invoking p b (sim_world G digest start epoch calls) p b"
    using invoke_called[OF assms(1)] unfolding calling.invoking_def by blast
  from calling.loop_step_rel[OF this assms(2)] show ?thesis .
qed

section \<open>The records of all the programs\<close>

abbreviation record_id :: "invocation_record \<Rightarrow> string" where
  "record_id v \<equiv> lk_invocation (ir_key v)"

lemma invocation_id_apart:
  assumes "invocation_id i b m = invocation_id j c n" "CHR ''/'' \<notin> set b" "CHR ''/'' \<notin> set c"
  shows "i = j \<and> b = c \<and> m = n"
proof -
  from assms(1) have "(i @ ''/'' @ b) @ CHR ''#'' # show_nat m = (j @ ''/'' @ c) @ CHR ''#'' # show_nat n"
    by (simp add: invocation_id_def)
  from last_split_inj[OF _ _ this] have "i @ CHR ''/'' # b = j @ CHR ''/'' # c" "m = n" by auto
  with last_split_inj[OF assms(2,3) this(1)] show ?thesis by simp
qed

lemma invocation_id_inj: "invocation_id i b m = invocation_id i b n \<longleftrightarrow> m = n"
  by (simp add: invocation_id_def)

definition told :: "program \<Rightarrow> resolved_behaviour \<Rightarrow> sim_calls \<Rightarrow> nat \<Rightarrow> invocation_record list \<Rightarrow> sim_calls \<Rightarrow> bool" where
  "told p b before n records calls \<longleftrightarrow>
     map record_id records = map (invocation_id (pg_instance p) (rb_name b)) [1..<Suc n]
     \<and> (\<forall>v\<in>set records. \<exists>found. noted p b v found
         \<and> dget calls (record_id v) = (case found of None \<Rightarrow> dget before (record_id v) | Some c \<Rightarrow> Some c))
     \<and> (\<forall>k. k \<notin> record_id ` set records \<longrightarrow> dget calls k = dget before k)"

lemma reaches_told:
  assumes "random_ok G" "reaches (sim_world G digest start epoch calls) p b s"
  shows "told p b calls (lo_n s) (lo_records s) (snd (lo_impl s))"
  using assms(2)
proof induction
  case (init now)
  show ?case by (simp add: told_def loop_init_def Let_def sim_world_def rng_def with_calls_def)
next
  case (step s returned s')
  from step_called[OF assms(1) step.hyps(2)] consider "kept s s'" | "called p b s s'" by blast
  then show ?case
  proof cases
    case 1
    with step.IH show ?thesis by (simp add: kept_def)
  next
    case 2
    then obtain v found where v: "lo_n s' = lo_n s + 1" "lo_records s' = lo_records s @ [v]"
      "record_id v = invocation_id (pg_instance p) (rb_name b) (lo_n s + 1)"
      "snd (lo_impl s') = with_call (record_id v) found (snd (lo_impl s))" "noted p b v found"
      by (auto simp: called_def)
    have ids: "map record_id (lo_records s) = map (invocation_id (pg_instance p) (rb_name b)) [1..<Suc (lo_n s)]"
      using step.IH by (simp add: told_def)
    have "record_id v \<notin> set (map record_id (lo_records s))"
      unfolding ids v(3) by (auto simp: invocation_id_inj)
    then have fresh: "record_id u \<noteq> record_id v" if "u \<in> set (lo_records s)" for u using that by (force simp: image_iff)
    have old: "dget (snd (lo_impl s)) (record_id v) = dget calls (record_id v)"
      using step.IH \<open>record_id v \<notin> set (map record_id (lo_records s))\<close> unfolding told_def set_map by blast
    have "map record_id (lo_records s') = map (invocation_id (pg_instance p) (rb_name b)) [1..<Suc (lo_n s')]"
      using ids v(1-3) by simp
    moreover have "\<exists>found. noted p b u found \<and> dget (snd (lo_impl s')) (record_id u)
        = (case found of None \<Rightarrow> dget calls (record_id u) | Some c \<Rightarrow> Some c)"
      if u: "u \<in> set (lo_records s')" for u
    proof (cases "u = v")
      case True
      with v(4,5) old show ?thesis by (intro exI[of _ found]) (auto simp: with_call_def split: option.split)
    next
      case False
      with u v(2) have "u \<in> set (lo_records s)" by simp
      with step.IH fresh[of u] v(4) show ?thesis by (auto simp: told_def with_call_def split: option.split)
    qed
    moreover have "\<forall>k. k \<notin> record_id ` set (lo_records s') \<longrightarrow> dget (snd (lo_impl s')) k = dget calls k"
      using step.IH v(2,4) by (auto simp: told_def with_call_def split: option.split)
    ultimately show ?thesis unfolding told_def by blast
  qed
qed

text \<open>What the loops of the behaviours \<open>ran\<close> so far have left.\<close>

definition accounted :: "(program \<times> resolved_behaviour) list \<Rightarrow> invocation_record list \<times> sim_calls \<Rightarrow> bool" where
  "accounted loops acc \<longleftrightarrow> distinct (map record_id (fst acc)) \<and> set (dkeys (snd acc)) = record_id ` {v \<in> set (fst acc). ir_outcome v = Succeeded}
     \<and> (\<forall>v\<in>set (fst acc). \<exists>(p, b)\<in>set loops. (\<exists>n. record_id v = invocation_id (pg_instance p) (rb_name b) n)
        \<and> noted p b v (dget (snd acc) (record_id v)))"

definition apart_from :: "(program \<times> resolved_behaviour) list \<Rightarrow> program \<Rightarrow> resolved_behaviour \<Rightarrow> bool" where
  "apart_from loops p b \<longleftrightarrow> (\<forall>(q, c)\<in>set loops. \<forall>m n.
     invocation_id (pg_instance q) (rb_name c) m \<noteq> invocation_id (pg_instance p) (rb_name b) n)"

lemma simulate_behaviour_run:
  assumes "simulate_behaviour G epoch p b (records, calls) = Inr acc'"
  obtains start s where
    "loop_run (sim_world (sx_source G) (sx_digest G) start epoch calls) p b (sx_fuel G)
       (loop_init (sim_world (sx_source G) (sx_digest G) start epoch calls) p b 0) = Inr (True, s)"
    "acc' = (records @ lo_records s, snd (lo_impl s))"
proof -
  from assms obtain start where run: "(case loop_run (sim_world (sx_source G) (sx_digest G) start epoch calls) p b (sx_fuel G)
      (loop_init (sim_world (sx_source G) (sx_digest G) start epoch calls) p b 0) of
        Inl e \<Rightarrow> Inl (LoopRaised e)
      | Inr (returned, s) \<Rightarrow> if returned then Inr (records @ lo_records s, snd (lo_impl s)) else Inl NotReturned) = Inr acc'"
    by (auto simp: simulate_behaviour_def Let_def rbind_Inr_iff)
  then show thesis by (auto split: sum.splits if_splits intro: that[of start])
qed

lemma simulate_behaviour_accounted:
  assumes "random_ok (sx_source G)" "accounted loops acc" "apart_from loops p b"
    "simulate_behaviour G epoch p b acc = Inr acc'"
  shows "accounted (loops @ [(p, b)]) acc'"
proof -
  obtain records calls where acc: "acc = (records, calls)" by fastforce
  from assms(4) obtain start s where
    s: "loop_run (sim_world (sx_source G) (sx_digest G) start epoch calls) p b (sx_fuel G)
        (loop_init (sim_world (sx_source G) (sx_digest G) start epoch calls) p b 0) = Inr (True, s)"
    and acc': "acc' = (records @ lo_records s, snd (lo_impl s))"
    unfolding acc by (rule simulate_behaviour_run)
  from reaches_told[OF assms(1) loop_run_reaches[OF reaches.init s]]
  have told: "told p b calls (lo_n s) (lo_records s) (snd (lo_impl s))" .
  then have ids: "map record_id (lo_records s) = map (invocation_id (pg_instance p) (rb_name b)) [1..<Suc (lo_n s)]"
    by (simp add: told_def)
  then have in_ids: "record_id ` set (lo_records s) = invocation_id (pg_instance p) (rb_name b) ` {1..<Suc (lo_n s)}"
    by (metis set_map set_upt)
  have new: "distinct (map record_id (lo_records s))" unfolding ids distinct_map by (auto simp: inj_on_def invocation_id_inj)
  have old: "record_id v \<notin> record_id ` set (lo_records s)" if "v \<in> set records" for v
  proof -
    from assms(2) that acc obtain q c n where "(q, c) \<in> set loops" "record_id v = invocation_id (pg_instance q) (rb_name c) n"
      by (auto simp: accounted_def)
    with assms(3) have "record_id v \<noteq> invocation_id (pg_instance p) (rb_name b) m" for m
      unfolding apart_from_def by auto
    then show ?thesis unfolding in_ids by blast
  qed
  have get: "dget (snd (lo_impl s)) k = dget calls k" if "k \<notin> record_id ` set (lo_records s)" for k
    using told that unfolding told_def by blast
  have fresh: "dget calls k = None" if "k \<in> record_id ` set (lo_records s)" for k
  proof -
    from assms(2) acc have "set (dkeys calls) = record_id ` {v \<in> set records. ir_outcome v = Succeeded}" by (simp add: accounted_def)
    then have "set (dkeys calls) \<subseteq> record_id ` set records" by blast
    have "k \<notin> set (dkeys calls)"
    proof
      assume "k \<in> set (dkeys calls)"
      with \<open>set (dkeys calls) \<subseteq> _\<close> obtain v where "v \<in> set records" "k = record_id v" by auto
      with old[of v] that show False by simp
    qed
    then show ?thesis by (simp add: set_dkeys dom_def)
  qed
  have mine: "noted p b v (dget (snd (lo_impl s)) (record_id v))" if v: "v \<in> set (lo_records s)" for v
  proof -
    from told v obtain found where f: "noted p b v found"
      "dget (snd (lo_impl s)) (record_id v) = (case found of None \<Rightarrow> dget calls (record_id v) | Some c \<Rightarrow> Some c)"
      by (auto simp: told_def)
    from fresh[of "record_id v"] v f(2) have "dget (snd (lo_impl s)) (record_id v) = found" by (cases found) auto
    with f(1) show ?thesis by simp
  qed
  have made: "record_id v \<in> dom (dget (snd (lo_impl s))) \<longleftrightarrow> ir_outcome v = Succeeded" if "v \<in> set (lo_records s)" for v
    using mine[OF that] by (auto simp: noted_def split: option.splits)
  have "dom (dget (snd (lo_impl s))) = dom (dget calls) \<union> record_id ` {v \<in> set (lo_records s). ir_outcome v = Succeeded}"
  proof (rule set_eqI)
    fix k
    show "k \<in> dom (dget (snd (lo_impl s))) \<longleftrightarrow> k \<in> dom (dget calls) \<union> record_id ` {v \<in> set (lo_records s). ir_outcome v = Succeeded}"
    proof (cases "k \<in> record_id ` set (lo_records s)")
      case True
      then obtain v where v: "v \<in> set (lo_records s)" "k = record_id v" by blast
      have "u = v" if "u \<in> set (lo_records s)" "record_id u = record_id v" for u
        using that v(1) new by (auto simp: distinct_map dest: inj_onD)
      then have "k \<in> record_id ` {v \<in> set (lo_records s). ir_outcome v = Succeeded} \<longleftrightarrow> ir_outcome v = Succeeded" using v by auto
      with made[OF v(1)] fresh[OF True] v(2) show ?thesis by auto
    next
      case False
      with get[OF False] show ?thesis by (auto simp: dom_def)
    qed
  qed
  moreover have "\<exists>(q, c)\<in>set (loops @ [(p, b)]). (\<exists>n. record_id v = invocation_id (pg_instance q) (rb_name c) n)
      \<and> noted q c v (dget (snd (lo_impl s)) (record_id v))"
    if "v \<in> set (records @ lo_records s)" for v
  proof (cases "v \<in> set records")
    case True
    with assms(2) acc get[of "record_id v"] old[OF True] show ?thesis by (fastforce simp: accounted_def)
  next
    case False
    with that have v: "v \<in> set (lo_records s)" by simp
    then have "record_id v \<in> invocation_id (pg_instance p) (rb_name b) ` {1..<Suc (lo_n s)}" using in_ids by blast
    with mine[OF v] show ?thesis by auto
  qed
  moreover have "distinct (map record_id (records @ lo_records s))"
  proof -
    have "record_id ` set records \<inter> record_id ` set (lo_records s) = {}" using old by fast
    then show ?thesis using assms(2) acc new by (simp add: accounted_def)
  qed
  moreover have "dom (dget calls) = record_id ` {v \<in> set records. ir_outcome v = Succeeded}"
    using assms(2) acc by (simp add: accounted_def set_dkeys)
  then have "dom (dget calls) \<union> record_id ` {v \<in> set (lo_records s). ir_outcome v = Succeeded}
      = record_id ` {v \<in> set (records @ lo_records s). ir_outcome v = Succeeded}" by auto
  ultimately show ?thesis unfolding accounted_def acc' fst_conv snd_conv set_dkeys by simp
qed

text \<open>A loop over the programs and one over each one's behaviours are a loop over the pairs.\<close>

definition loops_of :: "program list \<Rightarrow> (program \<times> resolved_behaviour) list" where
  "loops_of ps = concat (map (\<lambda>p. map (Pair p) (pg_behaviours p)) ps)"

lemma simulate_program_loops:
  "rfold (simulate_program G epoch) ps acc = rfold (\<lambda>(p, b). simulate_behaviour G epoch p b) (loops_of ps) acc"
proof (induction ps arbitrary: acc)
  case (Cons p ps)
  have "rfold (\<lambda>(p, b). simulate_behaviour G epoch p b) (map (Pair p) bs) acc = rfold (simulate_behaviour G epoch p) bs acc" for bs acc
    by (induction bs arbitrary: acc) (auto intro: rbind_cong)
  with Cons show ?case by (auto simp: loops_of_def rfold_append simulate_program_def intro: rbind_cong)
qed (simp add: loops_of_def)

lemma rfold_done:
  assumes "Q [] s" "\<And>ds x rest s s'. xs = ds @ x # rest \<Longrightarrow> Q ds s \<Longrightarrow> f x s = Inr s' \<Longrightarrow> Q (ds @ [x]) s'"
    "rfold f xs s = Inr s'"
  shows "Q xs s'"
proof -
  have "Q ys t" if "xs = ys @ zs" "rfold f ys s = Inr t" for ys zs t
    using that
  proof (induction ys arbitrary: t zs rule: rev_induct)
    case (snoc y ys)
    from snoc.prems(2) obtain u where u: "rfold f ys s = Inr u" "f y u = Inr t" by (auto simp: rfold_append rbind_Inr_iff)
    from snoc.prems(1) have xs: "xs = ys @ y # zs" by simp
    from assms(2)[OF xs snoc.IH[OF xs u(1)] u(2)] show ?case .
  qed (use assms(1) in simp)
  from this[of xs "[]"] assms(3) show ?thesis by simp
qed

definition plain_names :: "program list \<Rightarrow> bool" where
  "plain_names ps \<longleftrightarrow> list_all (\<lambda>p. list_all (\<lambda>b. CHR ''/'' \<notin> set (rb_name b)) (pg_behaviours p)) ps"

lemma in_loops_of: "(p, b) \<in> set (loops_of ps) \<longleftrightarrow> p \<in> set ps \<and> b \<in> set (pg_behaviours p)"
  by (auto simp: loops_of_def)

lemma loops_apart:
  assumes "named_apart ps"
  shows "distinct (map (\<lambda>(p, b). (pg_instance p, rb_name b)) (loops_of ps))"
  using assms
proof (induction ps)
  case (Cons p ps)
  let ?key = "\<lambda>(p, b). (pg_instance p, rb_name b)"
  let ?mine = "map (Pair (pg_instance p)) (map rb_name (pg_behaviours p))"
  from Cons have rest: "distinct (map ?key (loops_of ps))" "pg_instance p \<notin> pg_instance ` set ps"
    "distinct (map rb_name (pg_behaviours p))" by (auto simp: named_apart_def)
  have split: "map ?key (loops_of (p # ps)) = ?mine @ map ?key (loops_of ps)" by (simp add: loops_of_def)
  have "distinct ?mine" using rest(3) unfolding distinct_map[of "Pair (pg_instance p)"] by (simp add: inj_on_def)
  moreover have "x \<notin> set (map ?key (loops_of ps))" if "x \<in> set ?mine" for x
  proof
    assume "x \<in> set (map ?key (loops_of ps))"
    then have "fst x \<in> pg_instance ` set ps" by (auto simp: in_loops_of)
    with rest(2) that show False by auto
  qed
  ultimately show ?case unfolding split distinct_append using rest(1) by blast
qed (simp add: loops_of_def)

lemma simulate_programs_accounted:
  assumes "random_ok (sx_source G)" "named_apart ps" "plain_names ps"
    "rfold (simulate_program G epoch) ps ([], []) = Inr acc"
  shows "accounted (loops_of ps) acc"
proof (rule rfold_done[where Q = accounted])
  show "accounted [] ([], [])" by (simp add: accounted_def dkeys_def)
  show "rfold (\<lambda>(p, b). simulate_behaviour G epoch p b) (loops_of ps) ([], []) = Inr acc"
    using assms(4) by (simp add: simulate_program_loops)
  fix ds x rest acc acc'
  assume xs: "loops_of ps = ds @ x # rest" and acc: "accounted ds acc"
    "(case x of (p, b) \<Rightarrow> simulate_behaviour G epoch p b) acc = Inr acc'"
  obtain p b where x: "x = (p, b)" by fastforce
  have plain: "CHR ''/'' \<notin> set (rb_name c)" if "(q, c) \<in> set (loops_of ps)" for q c
    using assms(3) that by (auto simp: plain_names_def list_all_iff in_loops_of)
  have "apart_from ds p b"
    unfolding apart_from_def
  proof (intro ballI, clarify)
    fix q c m n
    assume qc: "(q, c) \<in> set ds"
      and "invocation_id (pg_instance q) (rb_name c) m = invocation_id (pg_instance p) (rb_name b) n"
    moreover have "CHR ''/'' \<notin> set (rb_name c)" "CHR ''/'' \<notin> set (rb_name b)"
      using plain[of q c] plain[of p b] qc by (simp_all add: xs x)
    ultimately have same: "(pg_instance q, rb_name c) = (pg_instance p, rb_name b)" using invocation_id_apart by blast
    from loops_apart[OF assms(2)] have "(\<lambda>(p, b). (pg_instance p, rb_name b)) (p, b)
        \<notin> (\<lambda>(p, b). (pg_instance p, rb_name b)) ` set ds" unfolding xs x map_append distinct_append by simp
    with imageI[OF qc, of "\<lambda>(p, b). (pg_instance p, rb_name b)"] same show False by simp
  qed
  from simulate_behaviour_accounted[OF assms(1) acc(1) this] acc(2) x show "accounted (ds @ [x]) acc'" by simp
qed

lemma simulated_books:
  assumes "random_ok (sx_source G)" "named_apart (sorted_programs programs)" "plain_names (sorted_programs programs)"
    "simulate_programs G programs epoch = Inr (records, calls)"
  shows "sorted (map by_time records) \<and> distinct (map record_id records) \<and> set (dkeys calls) = record_id ` {v \<in> set records. ir_outcome v = Succeeded}
    \<and> (\<forall>v\<in>set records. \<exists>p\<in>set (sorted_programs programs). \<exists>b\<in>set (pg_behaviours p). noted p b v (dget calls (record_id v)))"
proof -
  from assms(4) obtain rs where rs: "rfold (simulate_program G epoch) (sorted_programs programs) ([], []) = Inr (rs, calls)"
    "records = sort_key by_time rs" by (auto simp: simulate_programs_def rbind_Inr_iff)
  note a = simulate_programs_accounted[OF assms(1-3) rs(1)]
  have "distinct (map record_id records)"
    using a unfolding rs(2) accounted_def distinct_map by simp
  moreover have "\<exists>p\<in>set (sorted_programs programs). \<exists>b\<in>set (pg_behaviours p). noted p b v (dget calls (record_id v))"
    if "v \<in> set records" for v
  proof -
    from a that obtain p b where "(p, b) \<in> set (loops_of (sorted_programs programs))"
      "noted p b v (dget calls (record_id v))" unfolding rs(2) accounted_def by auto
    then show ?thesis unfolding in_loops_of by blast
  qed
  ultimately show ?thesis using a by (simp add: rs(2) accounted_def)
qed

text \<open>C29: A simulation keeps its books: its records are in time order and no two have the same invocation id;
  the recorder holds exactly one call for each that succeeded and none for any other, made for an action
  of a behaviour of one of the programs: the call's signature is the action's, its targets are those
  the record's key names and are peers of the action's tie, and its parameters are the action's, each
  the value given or one of the options it is drawn from. One fails only if its action has a parameter
  with the name of an argument of the recorder.\<close>

theorem simulated_calls:
  assumes "random_ok (sx_source G)" "named_apart (sorted_programs programs)" "plain_names (sorted_programs programs)"
    "simulate_programs G programs epoch = Inr (records, calls)"
  shows "sorted (map by_time records) \<and> distinct (map record_id records) \<and> set (dkeys calls) = record_id ` {v \<in> set records. ir_outcome v = Succeeded}
    \<and> (\<forall>v\<in>set records. \<exists>p\<in>set (sorted_programs programs). \<exists>b\<in>set (pg_behaviours p). noted p b v (dget calls (record_id v)))"
  by (rule simulated_books[OF assms])

section \<open>What is seen is what was done\<close>

text \<open>A connection of an invocation: from an address of the instance (on the segment it shares with the
  target's address, if there is one) to the address of one of the call's targets, at a port the
  call reaches there, when the invocation began.\<close>

definition own_address :: "address_plan \<Rightarrow> string \<Rightarrow> peer \<Rightarrow> string \<Rightarrow> bool" where
  "own_address plan instnc target a \<longleftrightarrow>
     (if \<exists>seg. (seg, pe_address target) \<in> set (dget_or (pl_addresses plan) (pe_instance target) []) \<and> plan_at plan instnc seg \<noteq> None
      then \<exists>seg. (seg, pe_address target) \<in> set (dget_or (pl_addresses plan) (pe_instance target) []) \<and> plan_at plan instnc seg = Some a
      else if dget_or (pl_addresses plan) instnc [] = [] then a = ''0.0.0.0''
      else \<exists>seg. (seg, a) \<in> set (dget_or (pl_addresses plan) instnc []))"

definition conn_of :: "address_plan \<Rightarrow> invocation_record \<Rightarrow> sim_call \<Rightarrow> conn_event \<Rightarrow> bool" where
  "conn_of plan v call e \<longleftrightarrow> (\<exists>t\<in>set (cl_targets call). \<exists>sg ports. dget signatures (cl_signature call) = Some sg
     \<and> sim_ports sg (cl_params call) t = Inr ports \<and> ft_resp_port (ce_five_tuple e) \<in> set ports
     \<and> ft_resp_addr (ce_five_tuple e) = pe_address t
     \<and> own_address plan (lk_instance (ir_key v)) t (ft_orig_addr (ce_five_tuple e))
     \<and> ft_proto (ce_five_tuple e) = transport_str (ts_transport (sg_shape sg))
     \<and> ce_start e = ir_start v \<and> ce_raw e = [(''invocation'', JStr (record_id v))])"

definition conns_in :: "event list \<Rightarrow> conn_event list" where
  "conns_in events = concat (map (\<lambda>e. case e of Conn c \<Rightarrow> [c] | App a \<Rightarrow> []) events)"

definition apps_in :: "event list \<Rightarrow> app_event list" where
  "apps_in events = concat (map (\<lambda>e. case e of Conn c \<Rightarrow> [] | App a \<Rightarrow> [a]) events)"

lemma conns_in_simps [simp]:
  "conns_in [] = []" "conns_in (xs @ ys) = conns_in xs @ conns_in ys" "conns_in [Conn c] = [c]" "conns_in [App a] = []"
  "conns_in (Conn c # ys) = c # conns_in ys" "conns_in (App a # ys) = conns_in ys"
  by (simp_all add: conns_in_def)

lemma apps_in_simps [simp]:
  "apps_in [] = []" "apps_in (xs @ ys) = apps_in xs @ apps_in ys" "apps_in [Conn c] = []" "apps_in [App a] = [a]"
  "apps_in (Conn c # ys) = apps_in ys" "apps_in (App a # ys) = a # apps_in ys"
  by (simp_all add: apps_in_def)

text \<open>How an event of a connection has come to be, and the application events that go with it.\<close>

definition event_of :: "address_plan \<Rightarrow> sim_calls \<Rightarrow> invocation_record set \<Rightarrow> app_event list \<Rightarrow> conn_event \<Rightarrow> bool" where
  "event_of plan calls records apps e \<longleftrightarrow> (\<exists>v\<in>records. \<exists>call sg t ports port n.
     dget calls (record_id v) = Some call \<and> dget signatures (cl_signature call) = Some sg \<and> t \<in> set (cl_targets call)
     \<and> sim_ports sg (cl_params call) t = Inr ports \<and> port \<in> set ports \<and> e = sim_conn plan v sg t port n
     \<and> filter (\<lambda>a. ae_flow a = ce_flow e) apps
        = (if sg_protocol sg = ''http'' \<and> \<not> is_scan sg then [sim_app v call sg t n] else []))"

definition events_ok :: "address_plan \<Rightarrow> sim_calls \<Rightarrow> invocation_record set \<Rightarrow> nat \<times> event list \<Rightarrow> bool" where
  "events_ok plan calls records acc \<longleftrightarrow> map ce_flow (conns_in (snd acc)) = map sim_flow [1..<Suc (fst acc)]
     \<and> (\<forall>e\<in>set (conns_in (snd acc)). event_of plan calls records (apps_in (snd acc)) e)
     \<and> (\<forall>a\<in>set (apps_in (snd acc)). \<exists>e\<in>set (conns_in (snd acc)). ae_flow a = ce_flow e \<and> ae_ts a = ce_start e)"

lemma sim_source_own: "own_address plan instnc t (sim_source plan instnc t)"
proof -
  let ?mine = "dget_or (pl_addresses plan) instnc []"
  let ?theirs = "dget_or (pl_addresses plan) (pe_instance t) []"
  let ?P = "\<lambda>(seg, a). a = pe_address t \<and> seg \<in> set (dkeys ?mine)"
  have mine: "seg \<in> set (dkeys ?mine) \<longleftrightarrow> plan_at plan instnc seg \<noteq> None" for seg
    by (auto simp: set_dkeys plan_at_def)
  show ?thesis
  proof (cases "first_such ?P ?theirs")
    case None
    then have "\<not> (\<exists>seg. (seg, pe_address t) \<in> set ?theirs \<and> plan_at plan instnc seg \<noteq> None)"
      unfolding first_such_None mine by auto
    moreover have "sim_source plan instnc t = (case ?mine of [] \<Rightarrow> ''0.0.0.0'' | (_, a) # _ \<Rightarrow> a)"
      using None by (simp add: sim_source_def Let_def del: first_such_None)
    ultimately show ?thesis by (auto simp: own_address_def split: list.splits)
  next
    case (Some x)
    then obtain seg where x: "x = (seg, pe_address t)" "(seg, pe_address t) \<in> set ?theirs" "plan_at plan instnc seg \<noteq> None"
      using first_such_Some[OF Some] mine by (cases x) auto
    then have "plan_at plan instnc seg = Some (dget_or ?mine seg [])" by (auto simp: plan_at_def dget_or_def)
    with Some x show ?thesis by (auto simp: own_address_def sim_source_def Let_def)
  qed
qed

lemma event_of_conn:
  assumes "event_of plan calls records apps e"
  shows "\<exists>v\<in>records. \<exists>call. dget calls (record_id v) = Some call \<and> conn_of plan v call e"
proof -
  from assms obtain v call sg t ports port n where v: "v \<in> records" "dget calls (record_id v) = Some call"
    "dget signatures (cl_signature call) = Some sg" "t \<in> set (cl_targets call)" "sim_ports sg (cl_params call) t = Inr ports"
    "port \<in> set ports" "e = sim_conn plan v sg t port n" unfolding event_of_def by blast
  then have "conn_of plan v call e"
    by (auto simp: conn_of_def sim_conn_def intro!: bexI[of _ t] exI[of _ ports] sim_source_own)
  with v show ?thesis by blast
qed

lemma sim_flow_inj: "sim_flow m = sim_flow n \<longleftrightarrow> m = n"
  by (simp add: sim_flow_def)

lemma event_of_later:
  assumes "event_of plan calls records apps e" "\<And>a. a \<in> set new \<Longrightarrow> ae_flow a \<noteq> ce_flow e"
  shows "event_of plan calls records (apps @ new) e"
proof -
  have "filter (\<lambda>a. ae_flow a = ce_flow e) (apps @ new) = filter (\<lambda>a. ae_flow a = ce_flow e) apps"
    using assms(2) by (simp add: filter_empty_conv)
  with assms(1) show ?thesis by (simp add: event_of_def)
qed

lemma emit_ok:
  assumes ok: "events_ok plan calls records acc" and v: "v \<in> records" "dget calls (record_id v) = Some call"
    "t \<in> set (cl_targets call)" "dget signatures (cl_signature call) = Some sg" "sim_ports sg (cl_params call) t = Inr ports"
    "port \<in> set ports"
  shows "events_ok plan calls records (emit plan v call sg t port acc)"
proof -
  obtain n events where acc: "acc = (n, events)" by fastforce
  let ?c = "sim_conn plan v sg t port (n + 1)"
  obtain apps where apps: "apps = (if sg_protocol sg = ''http'' \<and> \<not> is_scan sg then [sim_app v call sg t (n + 1)] else [])"
    by blast
  have c: "ce_flow ?c = sim_flow (n + 1)" "ce_start ?c = ir_start v" by (simp_all add: sim_conn_def)
  have flows: "map ce_flow (conns_in events) = map sim_flow [1..<Suc n]" using ok by (simp add: acc events_ok_def)
  have app: "ae_flow a = sim_flow (n + 1) \<and> ae_ts a = ir_start v" if "a \<in> set apps" for a
    using that by (auto simp: apps sim_app_def split: if_splits)
  have old: "ce_flow e \<noteq> sim_flow (n + 1)" if "e \<in> set (conns_in events)" for e
  proof -
    from that have "ce_flow e \<in> set (map sim_flow [1..<Suc n])" unfolding flows[symmetric] by simp
    then show ?thesis by (auto simp: sim_flow_inj)
  qed
  have "ae_flow a \<noteq> sim_flow (n + 1)" if "a \<in> set (apps_in events)" for a
    using ok that old by (fastforce simp: acc events_ok_def)
  then have "filter (\<lambda>a. ae_flow a = ce_flow ?c) (apps_in events @ apps) = apps"
    unfolding c using app by (simp add: filter_empty_conv filter_id_conv)
  with v have "event_of plan calls records (apps_in events @ apps) ?c" unfolding event_of_def apps by blast
  moreover have "event_of plan calls records (apps_in events @ apps) e" if "e \<in> set (conns_in events)" for e
    using ok that app old[OF that] by (intro event_of_later) (auto simp: acc events_ok_def)
  ultimately have made: "\<forall>e\<in>set (conns_in events @ [?c]). event_of plan calls records (apps_in events @ apps) e" by simp
  have "\<exists>e\<in>set (conns_in events @ [?c]). ae_flow a = ce_flow e \<and> ae_ts a = ce_start e" if "a \<in> set (apps_in events @ apps)" for a
  proof (cases "a \<in> set (apps_in events)")
    case True
    with ok show ?thesis by (auto simp: acc events_ok_def)
  next
    case False
    with that have "a \<in> set apps" by simp
    from app[OF this] c show ?thesis by simp
  qed
  moreover have "emit plan v call sg t port acc = (n + 1, events @ Conn ?c # map App apps)"
    by (simp add: acc emit_def Let_def apps)
  moreover have "conns_in (map App apps) = []" "apps_in (map App apps) = apps" by (simp_all add: apps)
  ultimately show ?thesis
    unfolding events_ok_def using made flows c(1) by simp
qed

lemma target_events_ok:
  assumes "events_ok plan calls records acc" "v \<in> records" "dget calls (record_id v) = Some call" "t \<in> set (cl_targets call)"
    "dget signatures (cl_signature call) = Some sg" "target_events plan v call sg t acc = Inr acc'"
  shows "events_ok plan calls records acc'"
proof -
  from assms(6) obtain ports where ports: "sim_ports sg (cl_params call) t = Inr ports"
    "acc' = fold (emit plan v call sg t) (concat (map (replicate (conn_total sg)) ports)) acc"
    by (auto simp: target_events_def rbind_Inr_iff)
  show ?thesis unfolding ports(2)
  proof (rule fold_done_in[where Q = "\<lambda>_. events_ok plan calls records"])
    show "events_ok plan calls records acc" by (rule assms(1))
    fix ds :: "int list" and port acc
    assume "events_ok plan calls records acc" "port \<in> set (concat (map (replicate (conn_total sg)) ports))"
    with emit_ok[OF _ assms(2-5) ports(1)] show "events_ok plan calls records (emit plan v call sg t port acc)" by auto
  qed
qed

lemma record_events_ok:
  assumes "events_ok plan calls records acc" "v \<in> records" "record_events plan calls v acc = Inr acc'"
  shows "events_ok plan calls records acc'"
proof (cases "dget calls (record_id v)")
  case (Some call)
  with assms(3) obtain sg where sg: "dget signatures (cl_signature call) = Some sg"
    "rfold (target_events plan v call sg) (cl_targets call) acc = Inr acc'"
    by (auto simp: record_events_def rbind_Inr_iff)
  show ?thesis
  proof (rule rfold_done[where Q = "\<lambda>_. events_ok plan calls records", OF assms(1) _ sg(2)])
    fix ds t rest acc acc'
    assume t: "cl_targets call = ds @ t # rest" and "events_ok plan calls records acc"
      "target_events plan v call sg t acc = Inr acc'"
    from target_events_ok[OF this(2) assms(2) Some _ sg(1) this(3)] t show "events_ok plan calls records acc'" by simp
  qed
qed (use assms in \<open>simp add: record_events_def\<close>)

lemma sim_events_ok:
  assumes "sim_events plan calls records = Inr events"
  shows "\<exists>n. events_ok plan calls (set records) (n, events)"
proof -
  from assms obtain n where run: "rfold (record_events plan calls) records (0, []) = Inr (n, events)"
    by (auto simp: sim_events_def rbind_Inr_iff)
  have "events_ok plan calls (set records) (n, events)"
  proof (rule rfold_done[where Q = "\<lambda>_. events_ok plan calls (set records)", OF _ _ run])
    show "events_ok plan calls (set records) (0, [])" by (simp add: events_ok_def)
    fix ds v rest acc acc'
    assume v: "records = ds @ v # rest" and "events_ok plan calls (set records) acc" "record_events plan calls v acc = Inr acc'"
    from record_events_ok[OF this(2) _ this(3)] v show "events_ok plan calls (set records) acc'" by simp
  qed
  then show ?thesis ..
qed

text \<open>How many connections an invocation makes: its call's targets, the ports it reaches at each, and the
  connections its signature promises.\<close>

definition target_conns :: "signature \<Rightarrow> (string, scalar) dict \<Rightarrow> peer \<Rightarrow> nat" where
  "target_conns sg params t = (case sim_ports sg params t of Inl _ \<Rightarrow> 0 | Inr ports \<Rightarrow> length ports * conn_total sg)"

definition record_conns :: "sim_calls \<Rightarrow> invocation_record \<Rightarrow> nat" where
  "record_conns calls v =
     (case dget calls (record_id v) of
        None \<Rightarrow> 0
      | Some call \<Rightarrow> (case dget signatures (cl_signature call) of
          None \<Rightarrow> 0 | Some sg \<Rightarrow> sum_list (map (target_conns sg (cl_params call)) (cl_targets call))))"

definition invocations_of :: "event list \<Rightarrow> (string, json) dict list" where
  "invocations_of events = map ce_raw (conns_in events)"

abbreviation raw_of :: "invocation_record \<Rightarrow> (string, json) dict" where
  "raw_of v \<equiv> [(''invocation'', JStr (record_id v))]"

lemma emits_raw:
  "invocations_of (snd (fold (emit plan v call sg t) ports acc)) = invocations_of (snd acc) @ replicate (length ports) (raw_of v)"
proof (induction ports arbitrary: acc)
  case (Cons port ports)
  have "invocations_of (snd (emit plan v call sg t port acc)) = invocations_of (snd acc) @ [raw_of v]"
    by (simp add: emit_def invocations_of_def case_prod_unfold Let_def sim_conn_def)
  with Cons show ?case by simp
qed simp

lemma target_events_raw:
  assumes "target_events plan v call sg t acc = Inr acc'"
  shows "invocations_of (snd acc') = invocations_of (snd acc) @ replicate (target_conns sg (cl_params call) t) (raw_of v)"
proof -
  have "length (concat (map (replicate n) ports)) = length ports * n" for n and ports :: "int list"
    by (induction ports) auto
  with assms show ?thesis
    by (auto simp: target_events_def rbind_Inr_iff emits_raw target_conns_def)
qed

lemma record_events_raw:
  assumes "record_events plan calls v acc = Inr acc'"
  shows "invocations_of (snd acc') = invocations_of (snd acc) @ replicate (record_conns calls v) (raw_of v)"
proof (cases "dget calls (record_id v)")
  case (Some call)
  with assms obtain sg where sg: "dget signatures (cl_signature call) = Some sg"
    "rfold (target_events plan v call sg) (cl_targets call) acc = Inr acc'"
    by (auto simp: record_events_def rbind_Inr_iff)
  have "invocations_of (snd acc')
      = invocations_of (snd acc) @ replicate (sum_list (map (target_conns sg (cl_params call)) (cl_targets call))) (raw_of v)"
    by (rule rfold_done[where Q = "\<lambda>ds acc'. invocations_of (snd acc')
        = invocations_of (snd acc) @ replicate (sum_list (map (target_conns sg (cl_params call)) ds)) (raw_of v)", OF _ _ sg(2)])
      (auto simp: replicate_add dest!: target_events_raw)
  with Some sg(1) show ?thesis by (simp add: record_conns_def)
qed (use assms in \<open>simp add: record_events_def record_conns_def\<close>)

lemma sim_events_raw:
  assumes "sim_events plan calls records = Inr events"
  shows "invocations_of events = concat (map (\<lambda>v. replicate (record_conns calls v) (raw_of v)) records)"
proof -
  from assms obtain n where run: "rfold (record_events plan calls) records (0, []) = Inr (n, events)"
    by (auto simp: sim_events_def rbind_Inr_iff)
  have "invocations_of (snd (n, events)) = concat (map (\<lambda>v. replicate (record_conns calls v) (raw_of v)) records)"
    by (rule rfold_done[where Q = "\<lambda>ds acc. invocations_of (snd acc)
        = concat (map (\<lambda>v. replicate (record_conns calls v) (raw_of v)) ds)", OF _ _ run])
      (auto simp: invocations_of_def[of "[]"] dest!: record_events_raw)
  then show ?thesis by simp
qed

text \<open>C30: What a simulation says a sensor would have seen is what its invocations did: the connections
  are numbered in order, each invocation in turn makes as many as its targets, the ports it reaches
  at them and its signature's shape promise and carries its id, each goes from an address of the
  invoking instance, on the segment it shares with the target if there is one, to the target's
  address at one of those ports when the invocation began, and each application event is of such a connection.\<close>

theorem simulated_events:
  assumes "simulate G sc rs seed duration instances = Inr si"
  shows "map ce_flow (conns_in (si_events si)) = map sim_flow [1..<Suc (length (conns_in (si_events si)))]
    \<and> invocations_of (si_events si) = concat (map (\<lambda>v. replicate (record_conns (si_calls si) v) (raw_of v)) (si_records si))
    \<and> (\<forall>e\<in>set (conns_in (si_events si)). \<exists>v\<in>set (si_records si). \<exists>call.
        dget (si_calls si) (record_id v) = Some call \<and> conn_of (si_plan si) v call e)
    \<and> (\<forall>a\<in>set (apps_in (si_events si)). \<exists>e\<in>set (conns_in (si_events si)). ae_flow a = ce_flow e \<and> ae_ts a = ce_start e)"
proof -
  from assms have "sim_events (si_plan si) (si_calls si) (si_records si) = Inr (si_events si)"
    by (auto simp: simulate_def Let_def rbind_Inr_iff case_prod_unfold)
  from sim_events_ok[OF this] sim_events_raw[OF this] obtain n where
    n: "events_ok (si_plan si) (si_calls si) (set (si_records si)) (n, si_events si)"
      "invocations_of (si_events si) = concat (map (\<lambda>v. replicate (record_conns (si_calls si) v) (raw_of v)) (si_records si))"
    by blast
  have "length (conns_in (si_events si)) = n"
    using n(1) by (auto simp: events_ok_def simp del: upt_Suc dest!: arg_cong[of _ _ length])
  with n event_of_conn show ?thesis unfolding events_ok_def by (simp add: Ball_def) blast
qed

section \<open>A simulation ends\<close>

lemma fst_ex: "\<exists>g. y = (fst y, g)"
  by (rule exI[of _ "snd y"]) simp

lemma with_calls_dwell:
  assumes "dwell (with_calls G calls) d s = Inr (x, s')"
  shows "\<exists>g. dwell G d (fst s) = Inr (x, g)"
proof -
  obtain g c where "s = (g, c)" by fastforce
  with assms show ?thesis
    by (auto simp: dwell_def with_calls_def case_prod_unfold Let_def intro: fst_ex split: ref.splits if_splits)
qed

lemma loop_run_more: "loop_run w p b n s = Inr (True, s') \<Longrightarrow> n \<le> m \<Longrightarrow> loop_run w p b m s = Inr (True, s')"
proof (induction n arbitrary: s m)
  case (Suc n)
  then obtain k where m: "m = Suc k" "n \<le> k" by (cases m) auto
  from Suc.prems(1) obtain r s1 where s1: "loop_step w p b s = Inr (r, s1)"
    "if r then s' = s1 else loop_run w p b n s1 = Inr (True, s')" by (auto simp: rbind_Inr_iff split: if_splits)
  with Suc.IH[of s1 k] m show ?case by (auto split: if_splits)
qed simp

text \<open>A behaviour whose holding times, drawn from \<open>G\<close>, do not get arbitrarily short.\<close>

definition simulable :: "'g random_source \<Rightarrow> program \<Rightarrow> resolved_behaviour \<Rightarrow> bool" where
  "simulable G p b \<longleftrightarrow> validate p = Inr () \<and> runnable p b \<and> rate_nonneg b
     \<and> (\<exists>\<delta>>0. \<forall>d\<in>set (rb_dwell b). \<forall>s x s'. dwell G d s = Inr (x, s') \<longrightarrow> \<delta> \<le> x)"

lemma simulate_behaviour_returns:
  assumes "random_ok (sx_source G)" "b \<in> set (pg_behaviours p)" "simulable (sx_source G) p b" "sx_times G (pg_start p) = Some st"
  shows "\<exists>n acc'. \<forall>fuel\<ge>n. simulate_behaviour (G\<lparr>sx_fuel := fuel\<rparr>) epoch p b acc = Inr acc'"
proof -
  obtain records calls where acc: "acc = (records, calls)" by fastforce
  let ?w = "sim_world (sx_source G) (sx_digest G) (fst st) epoch calls"
  from assms(3) obtain \<delta> where \<delta>: "0 < \<delta>" "\<forall>d\<in>set (rb_dwell b). \<forall>s x s'. dwell (sx_source G) d s = Inr (x, s') \<longrightarrow> \<delta> \<le> x"
    and run: "validate p = Inr ()" "runnable p b" "rate_nonneg b" by (auto simp: simulable_def)
  have "dwells_above ?w b \<delta>"
    using \<delta> with_calls_dwell[of "sx_source G" calls] unfolding dwells_above_def sim_world_def by fastforce
  from loop_returns_run[OF sim_world_ok[OF assms(1)] run(1) assms(2) run(2,3) this] obtain n s where
    ran: "loop_run ?w p b n (loop_init ?w p b 0) = Inr (True, s)" by blast
  have "simulate_behaviour (G\<lparr>sx_fuel := fuel\<rparr>) epoch p b acc = Inr (records @ lo_records s, snd (lo_impl s))"
    if "n \<le> fuel" for fuel
    using loop_run_more[OF ran that] assms(4) acc by (simp add: simulate_behaviour_def or_raise_def case_prod_unfold Let_def)
  then show ?thesis by blast
qed

lemma simulate_loops_return:
  assumes "random_ok (sx_source G)" "\<forall>(p, b)\<in>set loops. b \<in> set (pg_behaviours p) \<and> simulable (sx_source G) p b
    \<and> sx_times G (pg_start p) \<noteq> None"
  shows "\<exists>n acc'. \<forall>fuel\<ge>n. rfold (\<lambda>(p, b). simulate_behaviour (G\<lparr>sx_fuel := fuel\<rparr>) epoch p b) loops acc = Inr acc'"
  using assms(2)
proof (induction loops arbitrary: acc)
  case (Cons x loops)
  obtain p b where x: "x = (p, b)" by fastforce
  with Cons.prems obtain st where pb: "b \<in> set (pg_behaviours p)" "simulable (sx_source G) p b" "sx_times G (pg_start p) = Some st"
    by auto
  from simulate_behaviour_returns[OF assms(1) pb] obtain n acc1 where
    n: "\<forall>fuel\<ge>n. simulate_behaviour (G\<lparr>sx_fuel := fuel\<rparr>) epoch p b acc = Inr acc1" by blast
  from Cons.prems have "\<forall>(p, b)\<in>set loops. b \<in> set (pg_behaviours p) \<and> simulable (sx_source G) p b \<and> sx_times G (pg_start p) \<noteq> None"
    by simp
  from Cons.IH[OF this, of acc1] obtain m acc' where
    m: "\<forall>fuel\<ge>m. rfold (\<lambda>(p, b). simulate_behaviour (G\<lparr>sx_fuel := fuel\<rparr>) epoch p b) loops acc1 = Inr acc'" by blast
  from n m x show ?case by (intro exI[of _ "max n m"] exI[of _ acc']) simp
qed simp

text \<open>C31: A simulation ends: when the holding times of the behaviours do not get arbitrarily short, enough
  passes give a result, the same for every larger bound, for programs the agent would accept whose
  processes and choices are as the checks want them.\<close>

theorem simulation_returns:
  assumes "random_ok (sx_source G)"
    "\<forall>p\<in>set (sorted_programs programs). sx_times G (pg_start p) \<noteq> None \<and> (\<forall>b\<in>set (pg_behaviours p). simulable (sx_source G) p b)"
  shows "\<exists>n records calls. \<forall>fuel\<ge>n. simulate_programs (G\<lparr>sx_fuel := fuel\<rparr>) programs epoch = Inr (records, calls)"
proof -
  have "\<forall>(p, b)\<in>set (loops_of (sorted_programs programs)). b \<in> set (pg_behaviours p) \<and> simulable (sx_source G) p b
      \<and> sx_times G (pg_start p) \<noteq> None"
    using assms(2) by (auto simp: in_loops_of)
  from simulate_loops_return[OF assms(1) this, of epoch "([], [])"] obtain n records calls where
    "\<forall>fuel\<ge>n. rfold (\<lambda>(p, b). simulate_behaviour (G\<lparr>sx_fuel := fuel\<rparr>) epoch p b) (loops_of (sorted_programs programs)) ([], [])
      = Inr (records, calls)" by fastforce
  then show ?thesis
    by (intro exI[of _ n] exI[of _ "sort_key by_time records"] exI[of _ calls])
      (simp add: simulate_programs_def simulate_program_loops)
qed

section \<open>Examples\<close>

definition sim_demo_action :: action where
  "sim_demo_action = \<lparr>act_signature = ''http.get'', act_tie = ''t'',
     act_params = [(''path'', PScalar (SStr ''/news''))], act_select = None\<rparr>"

definition sim_demo_scenario :: scenario where
  "sim_demo_scenario = demo_scenario\<lparr>
     sc_kinds := map (\<lambda>k. if kd_name k = ''c''
       then k\<lparr>kd_behaviours := [\<lparr>beh_name = ''u'', beh_process = demo_process,
         beh_action_map = Inline [(''a'', Some sim_demo_action), (''b'', None)]\<rparr>]\<rparr> else k) demo_kinds,
     sc_bindings := map (\<lambda>b. if bi_kind b = ''c''
       then b\<lparr>bi_impls := [\<lparr>sel_signature = ''http.get'', sel_choices = Inline [(''i'', Fin 1)]\<rparr>]\<rparr>
       else if bi_kind b = ''s''
       then b\<lparr>bi_impls := [\<lparr>sel_signature = ''http.serve'', sel_choices = Inline [(''j'', Fin 1)]\<rparr>]\<rparr> else b) demo_bindings\<rparr>"

definition sim_demo_setting :: "nat sim_setting" where
  "sim_demo_setting = \<lparr>sx_source = demo_random, sx_digest = (\<lambda>_. [1, 2, 3]), sx_times = (\<lambda>_. Some (0, 1000)), sx_fuel = 20\<rparr>"

lemma sim_demo_random: "random_ok (sx_source sim_demo_setting)"
  using demo_random_ok by (simp add: sim_demo_setting_def)

lemma sim_demo_runs:
  "map_sum id (\<lambda>(records, calls). (map record_id records, dkeys calls))
     (simulate_programs sim_demo_setting [(''g/c[0]'', demo_get_program)] 1000)
   = Inr (map (\<lambda>n. ''g/c[0]/b#'' @ [n]) ''1234'', map (\<lambda>n. ''g/c[0]/b#'' @ [n]) ''1234'')"
  "map_sum id (\<lambda>si. map (\<lambda>e. (ft_orig_addr (ce_five_tuple e), ft_resp_addr (ce_five_tuple e), ft_resp_port (ce_five_tuple e), ce_start e))
       (conns_in (si_events si)))
     (simulate sim_demo_setting sim_demo_scenario (dict_resources [] [''cfg'']) None (Some (Fin 4)) None)
   = Inr [(''10.0.0.2'', ''10.0.1.5'', 80, 1000), (''10.0.0.3'', ''10.0.1.5'', 80, 1000),
       (''10.0.0.2'', ''10.0.1.5'', 80, 1003), (''10.0.0.3'', ''10.0.1.5'', 80, 1003)]"
  by code_simp+

lemma map_sum_Inr: "map_sum id f m = Inr y \<Longrightarrow> \<exists>x. m = Inr x \<and> f x = y"
  by (cases m) auto

theorem simulated_calls_witness:
  "\<exists>records calls. simulate_programs sim_demo_setting [(''g/c[0]'', demo_get_program)] 1000 = Inr (records, calls)
    \<and> length records = 4 \<and> length calls = 4 \<and> distinct (map record_id records)
    \<and> set (dkeys calls) = record_id ` {v \<in> set records. ir_outcome v = Succeeded}
    \<and> (\<forall>v\<in>set records. noted demo_get_program demo_get v (dget calls (record_id v)))"
proof -
  from map_sum_Inr[OF sim_demo_runs(1)] obtain records calls where
    run: "simulate_programs sim_demo_setting [(''g/c[0]'', demo_get_program)] 1000 = Inr (records, calls)" "length records = 4" "length calls = 4"
    by (auto simp: dkeys_def dest!: arg_cong[of _ _ length])
  have ps: "sorted_programs [(''g/c[0]'', demo_get_program)] = [demo_get_program]" by (simp add: sorted_programs_def dkeys_def)
  have "named_apart [demo_get_program]" "plain_names [demo_get_program]"
    by (simp_all add: named_apart_def plain_names_def demo_get_program_def demo_get_def dict_ok_def)
  note c = simulated_calls[OF sim_demo_random _ _ run(1), unfolded ps, OF this]
  then have "noted demo_get_program demo_get v (dget calls (record_id v))" if "v \<in> set records" for v
    using that by (auto simp: demo_get_program_def)
  with run c show ?thesis by blast
qed

theorem simulated_events_witness:
  "\<exists>si. simulate sim_demo_setting sim_demo_scenario (dict_resources [] [''cfg'']) None (Some (Fin 4)) None = Inr si
    \<and> map ce_flow (conns_in (si_events si)) = map sim_flow [1, 2, 3, 4]
    \<and> (\<forall>e\<in>set (conns_in (si_events si)). \<exists>v\<in>set (si_records si). \<exists>call. conn_of (si_plan si) v call e)"
proof -
  from map_sum_Inr[OF sim_demo_runs(2)] obtain si where
    si: "simulate sim_demo_setting sim_demo_scenario (dict_resources [] [''cfg'']) None (Some (Fin 4)) None = Inr si"
      "length (conns_in (si_events si)) = 4" by (auto dest!: arg_cong[of _ _ length])
  have "[1..<Suc 4] = [1, 2, 3, 4 :: nat]" by (simp add: upt_rec)
  with simulated_events[OF si(1), unfolded si(2)] si(1) show ?thesis by metis
qed

theorem simulation_returns_witness:
  "\<exists>n records calls. \<forall>fuel\<ge>n.
     simulate_programs (sim_demo_setting\<lparr>sx_fuel := fuel\<rparr>) [(''g/c[0]'', demo_get_program)] 1000 = Inr (records, calls)"
proof -
  have ps: "sorted_programs [(''g/c[0]'', demo_get_program)] = [demo_get_program]" by (simp add: sorted_programs_def dkeys_def)
  have "simulable (sx_source sim_demo_setting) demo_get_program demo_get"
    unfolding simulable_def
  proof (intro conjI demo_validated(1) demo_runnable exI[of _ 30])
    show "rate_nonneg demo_get" by (simp add: rate_nonneg_def demo_get_def)
    show "\<forall>d\<in>set (rb_dwell demo_get). \<forall>s x s'. dwell (sx_source sim_demo_setting) d s = Inr (x, s') \<longrightarrow> 30 \<le> x"
      using demo_dwells by (simp add: dwells_above_def demo_world_def sim_demo_setting_def)
  qed simp
  then have "\<forall>p\<in>set (sorted_programs [(''g/c[0]'', demo_get_program)]). sx_times sim_demo_setting (pg_start p) \<noteq> None
      \<and> (\<forall>b\<in>set (pg_behaviours p). simulable (sx_source sim_demo_setting) p b)"
    unfolding ps by (simp add: sim_demo_setting_def demo_get_program_def)
  from simulation_returns[OF sim_demo_random this] show ?thesis .
qed

end
