(* ===== verification/Guests.thy ===== *)
theory Guests
  imports Substrate Simulation
begin

text \<open>
  The libvirt backend (\<open>backends/infra/libvirt/backend.py\<close>, \<open>iso.py\<close>): a run manifest's hosts as
  guests cloned from templates, with a run ISO each, driven through the guest agent. The
  client, the clock, the wheels, the writing of the ISO and the files are a record of functions
  on a world; \<open>json.dumps\<close> and \<open>json.loads\<close> are parameters. Removing the temporary directory is
  left out.
\<close>

section \<open>Names and files\<close>

definition pool :: string where "pool = ''tiergen''"

fun memory_mib :: "platform \<Rightarrow> nat" where
  "memory_mib Linux = 2048"
| "memory_mib Windows = 4096"

fun disk_gib :: "platform \<Rightarrow> nat" where
  "disk_gib Linux = 20"
| "disk_gib Windows = 64"

definition guest_out :: string where "guest_out = ''/tiergen/out''"

definition guest_mount :: string where "guest_mount = ''/mnt/tiergen''"

definition bootstrap_command :: string where
  "bootstrap_command = ''mkdir -p '' @ guest_mount @ '' && (mountpoint -q '' @ guest_mount @ '' || mount -o ro LABEL=TIERGEN ''
     @ guest_mount @ '') && sh '' @ guest_mount @ ''/bootstrap.sh''"

definition guest_quiesce_script :: string where
  "guest_quiesce_script = ''for d in /sys/class/net/e*; do ethtool -K $(basename $d) tso off gso off tx off >/dev/null 2>&1 || true; done''"

definition domain_name :: "string \<Rightarrow> string \<Rightarrow> string" where
  "domain_name run instnc = ''tiergen-'' @ run @ ''-'' @ flat_id instnc"

definition guest_network_name :: "string \<Rightarrow> string \<Rightarrow> string" where
  "guest_network_name run segment = ''tiergen-'' @ run @ ''-'' @ segment"

definition template_volume :: "string \<Rightarrow> platform \<Rightarrow> string" where
  "template_volume img p = (if agent_image p = Some img then ''template-'' @ platform_str p @ ''-agent.qcow2''
     else ''template-'' @ img @ ''.qcow2'')"

text \<open>\<open>digest3\<close> is the 3-byte \<open>blake2b\<close>.\<close>

definition derived_mac :: "(string \<Rightarrow> nat list) \<Rightarrow> string \<Rightarrow> string \<Rightarrow> string \<Rightarrow> string" where
  "derived_mac digest3 run instnc network =
     ''52:54:00:'' @ join_with '':'' (map (\<lambda>b. [hex_digit (b div 16), hex_digit (b mod 16)]) (digest3 (run @ ''|'' @ instnc @ ''|'' @ network)))"

record guest_attachment =
  ga_network :: string
  ga_address :: string
  ga_prefix :: nat
  ga_mac :: string

record guest_host =
  gh_instance :: string
  gh_hostname :: string
  gh_program :: string
  gh_attachments :: "guest_attachment list"
  gh_routes :: "(string \<times> string) list"
  gh_forwards :: bool
  gh_gate :: "string option"
  gh_out :: string

definition guest_json :: "guest_host \<Rightarrow> json" where
  "guest_json g = JObj
     [(''instance'', JStr (gh_instance g)), (''hostname'', JStr (gh_hostname g)), (''program'', JStr (gh_program g)),
      (''attachments'', JArr (map (\<lambda>a. JObj [(''network'', JStr (ga_network a)), (''address'', JStr (ga_address a)),
         (''prefix'', JInt (int (ga_prefix a))), (''mac'', JStr (ga_mac a))]) (gh_attachments g))),
      (''routes'', JArr (map (\<lambda>(c, v). JObj [(''cidr'', JStr c), (''via'', JStr v)]) (gh_routes g))),
      (''forwards'', JBool (gh_forwards g)),
      (''gate'', case gh_gate g of None \<Rightarrow> JNull | Some s \<Rightarrow> JStr s),
      (''out'', JStr (gh_out g))]"

text \<open>The XML of a domain. The code's literals hold single quotes; here they are written as
  backquotes, which \<open>xml\<close> turns into them.\<close>

definition xml :: "string \<Rightarrow> string" where
  "xml s = replace_char CHR 0x60 [CHR 0x27] s"

definition nic_xml :: "string \<times> string \<Rightarrow> string" where
  "nic_xml = (\<lambda>(bridge, mac). xml ''<interface type=`bridge`><source bridge=`'' @ bridge @ xml ''`/><mac address=`'' @ mac
     @ xml ''`/><model type=`virtio`/></interface>'')"

definition cdrom_xml :: "nat \<times> string \<Rightarrow> string" where
  "cdrom_xml = (\<lambda>(i, iso_name). xml ''<disk type=`volume` device=`cdrom`><driver name=`qemu` type=`raw`/>''
     @ xml ''<source pool=`'' @ pool @ xml ''` volume=`'' @ iso_name @ xml ''`/><target dev=`sd'' @ [''abcdef'' ! i] @ xml ''` bus=`sata`/>''
     @ ''<readonly/>'' @ (if i = 0 then xml ''<boot order=`2`/>'' else '''') @ ''</disk>'')"

definition domain_xml :: "string \<Rightarrow> string \<Rightarrow> platform \<Rightarrow> string \<Rightarrow> string list \<Rightarrow> (string \<times> string) list \<Rightarrow> string" where
  "domain_xml name description p disk isos attachments =
     (let nics = concat (map nic_xml attachments);
          cdroms = concat (map cdrom_xml (enumerate0 isos));
          hyperv = (if p = Windows then xml (''<hyperv mode=`custom`><relaxed state=`on`/><vapic state=`on`/>''
            @ ''<spinlocks state=`on` retries=`8191`/><vpindex state=`on`/><synic state=`on`/>'' @ ''<stimer state=`on`/></hyperv>'') else '''');
          tick = (if p = Windows then xml ''<clock offset=`utc`><timer name=`hypervclock` present=`yes`/></clock>''
            else xml ''<clock offset=`utc`/>'')
      in xml ''<domain type=`kvm`><name>'' @ name @ ''</name><description>'' @ description @ ''</description>''
         @ xml ''<memory unit=`MiB`>'' @ show_nat (memory_mib p) @ ''</memory><vcpu>'' @ show_nat 2 @ ''</vcpu>''
         @ xml ''<os firmware=`efi`><type arch=`x86_64` machine=`q35`>hvm</type>''
         @ xml ''<firmware><feature enabled=`no` name=`secure-boot`/></firmware></os>''
         @ ''<features><acpi/><apic/>'' @ hyperv @ xml ''</features><cpu mode=`host-passthrough`/>''
         @ tick @ ''<on_poweroff>destroy</on_poweroff><on_crash>destroy</on_crash>''
         @ ''<devices><emulator>/usr/bin/qemu-system-x86_64</emulator>''
         @ xml ''<disk type=`volume` device=`disk`><driver name=`qemu` type=`qcow2`/>''
         @ xml ''<source pool=`'' @ pool @ xml ''` volume=`'' @ disk @ xml ''`/><target dev=`vda` bus=`virtio`/>''
         @ xml ''<boot order=`1`/></disk>''
         @ cdroms @ nics
         @ xml ''<channel type=`unix`><target type=`virtio` name=`org.qemu.guest_agent.0`/></channel>''
         @ xml ''<serial type=`pty`/><console type=`pty`/>''
         @ xml ''<rng model=`virtio`><backend model=`random`>/dev/urandom</backend></rng>''
         @ ''</devices></domain>'')"

text \<open>What a run's ISO holds: entries copied from the run directory, files written, the bootstrap
  script and wheels.\<close>

datatype staged = FromRun string | Written string | BootstrapScript | Wheel string

definition staged_entry :: "string \<Rightarrow> bool" where
  "staged_entry name \<longleftrightarrow> name \<notin> {''out'', ''capture'', ''attrib'', ''sensors'', ''fit'', ''run.json''} \<and> \<not> starts_with ''state.'' name"

definition stage_run :: "string list \<Rightarrow> (string \<times> staged) list" where
  "stage_run entries = map (\<lambda>e. (''run/'' @ e, FromRun e)) (filter staged_entry entries)"

section \<open>The client\<close>

record exec_result =
  ex_code :: int
  ex_out :: string
  ex_err :: string

record 'w guest_client =
  gc_connect :: "('w, unit) action"
  gc_ensure_pool :: "string \<Rightarrow> string \<Rightarrow> ('w, unit) action"
  gc_volumes :: "string \<Rightarrow> ('w, string list) action"
  gc_bridge_exists :: "string \<Rightarrow> ('w, bool) action"
  gc_create_network :: "string \<Rightarrow> string \<Rightarrow> ('w, unit) action"
  gc_clone :: "string \<Rightarrow> string \<Rightarrow> string \<Rightarrow> nat \<Rightarrow> ('w, unit) action"
  gc_upload :: "string \<Rightarrow> string \<Rightarrow> string \<Rightarrow> string \<Rightarrow> ('w, unit) action"
  gc_create_domain :: "string \<Rightarrow> ('w, string) action"
  gc_agent_ready :: "string \<Rightarrow> rat \<Rightarrow> ('w, bool) action"
  gc_guest_time :: "string \<Rightarrow> ('w, rat) action"
  gc_guest_exec :: "string \<Rightarrow> string \<Rightarrow> string list \<Rightarrow> ('w, exec_result) action"
  gc_guest_write :: "string \<Rightarrow> string \<Rightarrow> string \<Rightarrow> ('w, unit) action"
  gc_guest_read :: "string \<Rightarrow> string \<Rightarrow> ('w, nat list) action"
  gc_domains :: "('w, (string, string) dict) action"
  gc_destroy_domain :: "string \<Rightarrow> ('w, unit) action"
  gc_delete_volume :: "string \<Rightarrow> string \<Rightarrow> ('w, unit) action"
  gc_networks :: "('w, string list) action"
  gc_destroy_network :: "string \<Rightarrow> ('w, unit) action"
  gc_clock :: "('w, rat) action"
  gc_tmpdir :: "('w, string) action"
  gc_mkdir :: "string \<Rightarrow> ('w, unit) action"
  gc_make_dirs :: "string \<Rightarrow> ('w, unit) action"
  gc_entries :: "string \<Rightarrow> ('w, string list) action"
  gc_build_wheels :: "string \<Rightarrow> ('w, string list) action"
  gc_write_iso :: "string \<Rightarrow> (string \<times> staged) list \<Rightarrow> ('w, unit) action"
  gc_unpack :: "string \<Rightarrow> nat list \<Rightarrow> ('w, unit) action"
  gc_write_file :: "string \<Rightarrow> nat list \<Rightarrow> ('w, unit) action"

text \<open>What else the backend is made with: the pool's path, the agent's time limit, \<open>json.dumps\<close>,
  with an indent and without, \<open>json.loads\<close>, and the digest.\<close>

record guest_config =
  gf_pool_path :: string
  gf_timeout :: rat
  gf_dumps_indented :: "json \<Rightarrow> string"
  gf_dumps :: "json \<Rightarrow> string"
  gf_loads :: "string \<Rightarrow> json option"
  gf_digest3 :: "string \<Rightarrow> nat list"

section \<open>Up\<close>

definition act_of :: "msg + 'a \<Rightarrow> ('w, 'a) action" where
  "act_of x = (case x of Inl e \<Rightarrow> act_raise (Failure e) | Inr y \<Rightarrow> act_return y)"

definition require_template :: "string list \<Rightarrow> host_spec \<Rightarrow> ('w, unit) action" where
  "require_template have h = (let template = template_volume (hs_image h) (hs_platform h) in
     if template \<in> set have then act_return ()
     else act_raise (Failure [L ''template '', R template, L '' is missing from pool '', R pool,
       L ''; build it with scripts/templates/build.py'']))"

definition guest_network_up :: "'w guest_client \<Rightarrow> string \<Rightarrow> network_spec \<Rightarrow> run_state \<Rightarrow> ('w, run_state) action" where
  "guest_network_up V run n st =
     act_bind (gc_bridge_exists V (ns_bridge n)) (\<lambda>there.
     act_bind (act_when (\<not> there) (gc_create_network V (guest_network_name run (ns_name n)) (ns_bridge n))) (\<lambda>_.
     act_return (st\<lparr>rst_bridges := dset (ns_name n) (ns_bridge n) (rst_bridges st)\<rparr>)))"

definition guest_attachments :: "guest_config \<Rightarrow> string \<Rightarrow> (string, nat) dict \<Rightarrow> host_spec \<Rightarrow> msg + guest_attachment list" where
  "guest_attachments G run prefixes h =
     rmap (\<lambda>a. rbind (or_raise [R (at_network a)] (dget prefixes (at_network a))) (\<lambda>p.
       Inr \<lparr>ga_network = at_network a, ga_address = at_address a, ga_prefix = p,
         ga_mac = (case at_mac a of None \<Rightarrow> derived_mac (gf_digest3 G) run (hs_instance h) (at_network a)
           | Some mac \<Rightarrow> if mac = [] then derived_mac (gf_digest3 G) run (hs_instance h) (at_network a) else mac)\<rparr>)) (hs_attachments h)"

definition run_iso :: "guest_config \<Rightarrow> 'w guest_client \<Rightarrow> string \<Rightarrow> string \<Rightarrow> string list \<Rightarrow> host_spec \<Rightarrow> guest_attachment list
    \<Rightarrow> ('w, string) action" where
  "run_iso G V tmp run_dir wheels h attachments =
     act_bind (gc_mkdir V (tmp @ ''/stage-'' @ flat_id (hs_instance h))) (\<lambda>_.
     act_bind (gc_entries V run_dir) (\<lambda>entries.
     let guest = \<lparr>gh_instance = hs_instance h, gh_hostname = hs_hostname h,
           gh_program = ''program.'' @ flat_id (hs_instance h) @ ''.json'', gh_attachments = attachments,
           gh_routes = map (\<lambda>r. (ro_cidr r, ro_via r)) (hs_routes h), gh_forwards = hs_forwards h, gh_gate = hs_gate h, gh_out = guest_out\<rparr>;
         iso_path = tmp @ ''/'' @ flat_id (hs_instance h) @ ''.iso''
     in act_bind (gc_write_iso V iso_path
          (stage_run entries @ [(''host.json'', Written (gf_dumps_indented G (guest_json guest) @ [CHR 0x0A])), (''bootstrap.sh'', BootstrapScript)]
           @ map (\<lambda>w. (''wheels/'' @ w, Wheel w)) wheels)) (\<lambda>_. act_return iso_path)))"

definition guest_description :: "guest_config \<Rightarrow> string \<Rightarrow> string \<Rightarrow> string" where
  "guest_description G run instnc = gf_dumps G (JObj [(run_label, JStr run), (instance_label, JStr instnc)])"

definition guest_up :: "guest_config \<Rightarrow> 'w guest_client \<Rightarrow> string \<Rightarrow> string \<Rightarrow> string \<Rightarrow> string list \<Rightarrow> (string, nat) dict \<Rightarrow> (string, string) dict
    \<Rightarrow> host_spec \<Rightarrow> run_state \<Rightarrow> ('w, run_state) action" where
  "guest_up G V run run_dir tmp wheels prefixes bridges h st =
     (let name = domain_name run (hs_instance h) in
      act_bind (act_of (guest_attachments G run prefixes h)) (\<lambda>attachments.
      act_bind (run_iso G V tmp run_dir wheels h attachments) (\<lambda>iso_path.
      act_bind (gc_clone V pool (name @ ''.qcow2'') (template_volume (hs_image h) (hs_platform h)) (disk_gib (hs_platform h))) (\<lambda>_.
      act_bind (gc_upload V pool (name @ ''-run.iso'') iso_path ''raw'') (\<lambda>_.
      act_bind (act_of (rmap (\<lambda>a. rbind (or_raise [R (ga_network a)] (dget bridges (ga_network a))) (\<lambda>b. Inr (b, ga_mac a))) attachments)) (\<lambda>nics.
      act_bind (gc_create_domain V (domain_xml name (guest_description G run (hs_instance h)) (hs_platform h)
          (name @ ''.qcow2'') [name @ ''-run.iso''] nics)) (\<lambda>uuid.
      act_return (st\<lparr>rst_hosts := dset (hs_instance h) \<lparr>hst_name = name, hst_id = uuid, hst_clock_offset = None\<rparr> (rst_hosts st)\<rparr>))))))))"

definition state_of_host :: "run_state \<Rightarrow> host_spec \<Rightarrow> ('w, host_state) action" where
  "state_of_host st h = act_of (or_raise [R (hs_instance h)] (dget (rst_hosts st) (hs_instance h)))"

text \<open>\<open>done.err.strip() or done.out.strip()\<close>.\<close>

definition said :: "exec_result \<Rightarrow> string" where
  "said r = (let e = strip_if str_space (ex_err r) in if e \<noteq> [] then e else strip_if str_space (ex_out r))"

definition guest_ready :: "guest_config \<Rightarrow> 'w guest_client \<Rightarrow> host_spec \<Rightarrow> run_state \<Rightarrow> ('w, run_state) action" where
  "guest_ready G V h st =
     act_bind (state_of_host st h) (\<lambda>hst.
     let name = hst_name hst in
     act_bind (gc_agent_ready V name (gf_timeout G)) (\<lambda>ready.
     if \<not> ready then act_raise (Failure [S name, L '': the guest agent did not answer within '', FG (Fin (gf_timeout G)),
         L '' s; does the template run qemu-guest-agent?''])
     else act_bind (gc_clock V) (\<lambda>before.
     act_bind (gc_guest_time V name) (\<lambda>guest.
     act_bind (gc_clock V) (\<lambda>after.
     let st = st\<lparr>rst_hosts := dset (hs_instance h)
           \<lparr>hst_name = name, hst_id = hst_id hst, hst_clock_offset = Some ((before + after) / 2 - guest)\<rparr> (rst_hosts st)\<rparr> in
     if \<not> hs_agent h then act_return st
     else act_bind (gc_guest_exec V name ''/bin/sh'' [''-c'', bootstrap_command]) (\<lambda>r.
       if ex_code r \<noteq> 0 then act_raise (Failure [S name, L '': the bootstrap failed ('', I (ex_code r), L ''): '', S (said r)])
       else act_return st))))))"

definition open_guest_gate :: "'w guest_client \<Rightarrow> run_state \<Rightarrow> host_spec \<Rightarrow> ('w, unit) action" where
  "open_guest_gate V st h = (case hs_gate h of None \<Rightarrow> act_return ()
     | Some g \<Rightarrow> act_bind (state_of_host st h) (\<lambda>hst. gc_guest_write V (hst_name hst) g (''go'' @ [CHR 0x0A])))"

definition guests_start :: "'w guest_client \<Rightarrow> run_manifest \<Rightarrow> run_state \<Rightarrow> ('w, unit) action" where
  "guests_start V m st = act_bind (gc_connect V) (\<lambda>_. act_each (open_guest_gate V st) (rm_hosts m))"

text \<open>\<open>_remove\<close>. A description that is JSON but no object has no \<open>get\<close>.\<close>

fun json_type :: "json \<Rightarrow> string" where
  "json_type JNull = ''NoneType''"
| "json_type (JBool _) = ''bool''"
| "json_type (JInt _) = ''int''"
| "json_type (JFloat _) = ''float''"
| "json_type (JStr _) = ''str''"
| "json_type (JArr _) = ''list''"
| "json_type (JObj _) = ''dict''"

definition read_description :: "guest_config \<Rightarrow> string \<Rightarrow> json option" where
  "read_description G d = gf_loads G (if d = [] then ''{}'' else d)"

definition owns :: "guest_config \<Rightarrow> string \<Rightarrow> string \<Rightarrow> bool" where
  "owns G run d = (case read_description G d of Some (JObj labels) \<Rightarrow> dget labels run_label = Some (JStr run) | _ \<Rightarrow> False)"

definition unlabelled :: "guest_config \<Rightarrow> string \<Rightarrow> bool" where
  "unlabelled G d = (case read_description G d of None \<Rightarrow> False | Some (JObj labels) \<Rightarrow> False | Some j \<Rightarrow> True)"

definition destroy_own :: "guest_config \<Rightarrow> 'w guest_client \<Rightarrow> string \<Rightarrow> string \<times> string \<Rightarrow> ('w, unit) action" where
  "destroy_own G V run = (\<lambda>(name, description). case read_description G description of
       None \<Rightarrow> act_return ()
     | Some (JObj labels) \<Rightarrow> act_when (dget labels run_label = Some (JStr run)) (gc_destroy_domain V name)
     | Some j \<Rightarrow> act_raise (Failure [R (json_type j), L '' object has no attribute '', R ''get'']))"

definition run_prefix :: "string \<Rightarrow> string" where
  "run_prefix run = ''tiergen-'' @ run @ ''-''"

definition guests_remove :: "guest_config \<Rightarrow> 'w guest_client \<Rightarrow> string \<Rightarrow> ('w, unit) action" where
  "guests_remove G V run =
     act_bind (gc_domains V) (\<lambda>domains.
     act_bind (act_each (destroy_own G V run) domains) (\<lambda>_.
     act_bind (gc_volumes V pool) (\<lambda>volumes.
     act_bind (act_each (\<lambda>v. act_when (starts_with (run_prefix run) v) (gc_delete_volume V pool v)) volumes) (\<lambda>_.
     act_bind (gc_networks V) (\<lambda>networks.
     act_each (\<lambda>n. act_when (starts_with (run_prefix run) n) (gc_destroy_network V n)) networks)))))"

definition bring_guests_up :: "guest_config \<Rightarrow> 'w guest_client \<Rightarrow> run_manifest \<Rightarrow> string \<Rightarrow> bool \<Rightarrow> (string, nat) dict
    \<Rightarrow> run_state \<Rightarrow> ('w, run_state) action" where
  "bring_guests_up G V m run_dir start prefixes st =
     act_bind (act_fold (guest_network_up V (rm_run m)) (rm_networks m) st) (\<lambda>st.
     act_bind (gc_tmpdir V) (\<lambda>tmp.
     act_bind (gc_mkdir V (tmp @ ''/wheels'')) (\<lambda>_.
     act_bind (if list_ex hs_agent (rm_hosts m) then gc_build_wheels V (tmp @ ''/wheels'') else act_return []) (\<lambda>wheels.
     act_bind (act_fold (guest_up G V (rm_run m) run_dir tmp wheels prefixes
         (dict_of (map (\<lambda>n. (ns_name n, ns_bridge n)) (rm_networks m)))) (rm_hosts m) st) (\<lambda>st.
     act_bind (act_fold (guest_ready G V) (rm_hosts m) st) (\<lambda>st.
     act_bind (act_when start (guests_start V m st)) (\<lambda>_. act_return st)))))))"

definition guests_up :: "guest_config \<Rightarrow> 'w guest_client \<Rightarrow> run_manifest \<Rightarrow> string \<Rightarrow> bool \<Rightarrow> ('w, run_state) action" where
  "guests_up G V m run_dir start =
     act_bind (gc_connect V) (\<lambda>_.
     act_bind (gc_ensure_pool V pool (gf_pool_path G)) (\<lambda>_.
     act_bind (gc_volumes V pool) (\<lambda>have.
     act_bind (act_each (require_template have) (rm_hosts m)) (\<lambda>_.
     act_bind (act_of (rmap (\<lambda>n. rbind (ip_network (ns_cidr n)) (\<lambda>net. Inr (ns_name n, net_prefix net))) (rm_networks m))) (\<lambda>prefixes.
     or_undo (bring_guests_up G V m run_dir start (dict_of prefixes)
         \<lparr>rst_run = rm_run m, rst_backend = ''libvirt'', rst_hosts = [], rst_bridges = [], rst_images = []\<rparr>)
       (guests_remove G V (rm_run m)))))))"

section \<open>While it runs, and down\<close>

definition guests_quiesce :: "'w guest_client \<Rightarrow> run_manifest \<Rightarrow> run_state \<Rightarrow> ('w, unit) action" where
  "guests_quiesce V m st = act_bind (gc_connect V) (\<lambda>_.
     act_each (\<lambda>h. act_when (hs_platform h = Linux)
       (act_bind (state_of_host st h) (\<lambda>hst.
        act_bind (gc_guest_exec V (hst_name hst) ''/bin/sh'' [''-c'', guest_quiesce_script]) (\<lambda>_. act_return ())))) (rm_hosts m))"

definition collect_guest :: "'w guest_client \<Rightarrow> run_state \<Rightarrow> string \<Rightarrow> host_spec \<Rightarrow> ('w, unit) action" where
  "collect_guest V st run_dir h = act_when (hs_agent h)
     (act_bind (state_of_host st h) (\<lambda>hst. let name = hst_name hst; out = run_dir @ ''/out/'' @ flat_id (hs_instance h) in
      act_bind (gc_make_dirs V out) (\<lambda>_.
      act_bind (gc_guest_exec V name ''/bin/sh'' [''-c'', ''tar -czf /tiergen/out.tgz -C '' @ guest_out @ '' .'']) (\<lambda>r.
      if ex_code r \<noteq> 0 then act_raise (Failure [S name, L '': cannot pack its outputs: '', S (strip_if str_space (ex_err r))])
      else act_bind (gc_guest_read V name ''/tiergen/out.tgz'') (\<lambda>packed.
      act_bind (gc_unpack V out packed) (\<lambda>_.
      act_bind (gc_guest_read V name ''/tiergen/bootstrap.log'') (\<lambda>log.
      gc_write_file V (out @ ''/bootstrap.log'') log)))))))"

definition guests_collect :: "'w guest_client \<Rightarrow> run_manifest \<Rightarrow> run_state \<Rightarrow> string \<Rightarrow> ('w, unit) action" where
  "guests_collect V m st run_dir = act_bind (gc_connect V) (\<lambda>_. act_each (collect_guest V st run_dir) (rm_hosts m))"

definition guests_down :: "guest_config \<Rightarrow> 'w guest_client \<Rightarrow> run_manifest \<Rightarrow> ('w, unit) action" where
  "guests_down G V m = act_bind (gc_connect V) (\<lambda>_. guests_remove G V (rm_run m))"

section \<open>What libvirt holds\<close>

datatype guest_sort = DomainSort | VolumeSort | GuestNetSort

text \<open>A view of the world: the domains with their descriptions, the pool's volumes and the networks, by
  name. What the backend relies on: a domain's XML without markup in its strings defines that
  domain with that description, or raises; the rest is as for a daemon. \<open>loads\<close> reads back what
  \<open>dumps\<close> writes.\<close>

definition plain_text :: "string \<Rightarrow> bool" where
  "plain_text s \<longleftrightarrow> CHR ''<'' \<notin> set s \<and> CHR ''&'' \<notin> set s"

definition libvirt_ok :: "('w, guest_sort \<times> string, string) view \<Rightarrow> 'w guest_client \<Rightarrow> bool" where
  "libvirt_ok view V \<longleftrightarrow>
     leaves_held view (gc_connect V) \<and> (\<forall>p x. leaves_held view (gc_ensure_pool V p x)) \<and> (\<forall>b. leaves_held view (gc_bridge_exists V b))
     \<and> (\<forall>n x. leaves_held view (gc_agent_ready V n x)) \<and> (\<forall>n. leaves_held view (gc_guest_time V n))
     \<and> (\<forall>n c x. leaves_held view (gc_guest_exec V n c x)) \<and> (\<forall>n p x. leaves_held view (gc_guest_write V n p x))
     \<and> leaves_held view (gc_clock V) \<and> leaves_held view (gc_tmpdir V) \<and> (\<forall>p. leaves_held view (gc_mkdir V p))
     \<and> (\<forall>p. leaves_held view (gc_entries V p)) \<and> (\<forall>p. leaves_held view (gc_build_wheels V p))
     \<and> (\<forall>p x. leaves_held view (gc_write_iso V p x))
     \<and> (\<forall>n b. creates view (GuestNetSort, n) '''' (gc_create_network V n b))
     \<and> (\<forall>n b c. creates view (VolumeSort, n) '''' (gc_clone V pool n b c))
     \<and> (\<forall>n p f. creates view (VolumeSort, n) '''' (gc_upload V pool n p f))
     \<and> (\<forall>n d p disk isos nics. plain_text n \<longrightarrow> plain_text d
          \<longrightarrow> creates view (DomainSort, n) d (gc_create_domain V (domain_xml n d p disk isos nics)))
     \<and> (\<forall>n. removes view (DomainSort, n) (gc_destroy_domain V n)) \<and> (\<forall>n. removes view (VolumeSort, n) (gc_delete_volume V pool n))
     \<and> (\<forall>n. removes view (GuestNetSort, n) (gc_destroy_network V n))
     \<and> leaves_held view (gc_domains V) \<and> leaves_held view (gc_volumes V pool) \<and> leaves_held view (gc_networks V)
     \<and> (\<forall>w ds w'. gc_domains V w = (Inr ds, w') \<longrightarrow> dict_ok ds \<and> (\<forall>n. dget ds n = view w (DomainSort, n)))
     \<and> (\<forall>w vs w'. gc_volumes V pool w = (Inr vs, w') \<longrightarrow> set vs = {n. view w (VolumeSort, n) \<noteq> None})
     \<and> (\<forall>w ns w'. gc_networks V w = (Inr ns, w') \<longrightarrow> set ns = {n. view w (GuestNetSort, n) \<noteq> None})"

definition json_ok :: "guest_config \<Rightarrow> bool" where
  "json_ok G \<longleftrightarrow> (\<forall>run i. gf_dumps G (JObj [(run_label, JStr run), (instance_label, JStr i)]) \<noteq> []
     \<and> gf_loads G (gf_dumps G (JObj [(run_label, JStr run), (instance_label, JStr i)])) = Some (JObj [(run_label, JStr run), (instance_label, JStr i)]))"

text \<open>What the cleanup of a run takes: the domains with the run's label, and every volume and network
  whose name has the run's prefix.\<close>

definition claims :: "guest_config \<Rightarrow> string \<Rightarrow> guest_sort \<times> string \<Rightarrow> string \<Rightarrow> bool" where
  "claims G run = (\<lambda>(srt, n) v. if srt = DomainSort then owns G run v else starts_with (run_prefix run) n)"

lemma destroy_own_cases:
  assumes "libvirt_ok view V"
  shows "owns G run (snd x) \<Longrightarrow> removes view (DomainSort, fst x) (destroy_own G V run x)"
    "\<not> owns G run (snd x) \<Longrightarrow> leaves_held view (destroy_own G V run x)"
  using assms
  by (auto simp: destroy_own_def owns_def libvirt_ok_def act_when_def case_prod_unfold leaves_intros split: option.splits json.splits)

lemma prefixed_clears:
  assumes "leaves_held view listed" "\<And>n. removes view (srt, n) (f n)" "srt \<noteq> DomainSort"
    "\<And>w xs w'. listed w = (Inr xs, w') \<Longrightarrow> set xs = {n. view w (srt, n) \<noteq> None}"
  shows "clears view (claims G run) {srt} (act_bind listed (act_each (\<lambda>n. act_when (starts_with (run_prefix run) n) (f n))))"
proof (rule clears_listed[where Q = "starts_with (run_prefix run)" and key = "Pair srt"])
  fix w xs w' k v
  assume "listed w = (Inr xs, w')" "view w k = Some v"
  with assms(3) show "k \<in> Pair srt ` {x \<in> set xs. starts_with (run_prefix run) x} \<longleftrightarrow> fst k = srt \<and> claims G run k v"
    by (cases k) (auto simp: assms(4) claims_def image_iff)
qed (use assms(1,2) in \<open>auto simp: act_when_def leaves_intros\<close>)

lemma guests_remove_held:
  assumes "libvirt_ok view V" "guests_remove G V run w = (r, w')"
  shows "spares view (claims G run) w w' \<and> (\<forall>u. r = Inr u \<longrightarrow> view w' = without (claims G run) (view w))"
proof -
  have domains: "clears view (claims G run) {DomainSort} (act_bind (gc_domains V) (act_each (destroy_own G V run)))"
  proof (rule clears_listed[where Q = "\<lambda>x. owns G run (snd x)" and key = "\<lambda>x. (DomainSort, fst x)"])
    fix w ds w' k v
    assume "gc_domains V w = (Inr ds, w')" "view w k = Some v"
    with assms(1) have ds: "dict_ok ds" "\<And>n. dget ds n = view w (DomainSort, n)" unfolding libvirt_ok_def by blast+
    then have "(n, d) \<in> set ds \<longleftrightarrow> view w (DomainSort, n) = Some d" for n d by (metis dict_ok_def map_of_eq_Some_iff)
    with \<open>view w k = Some v\<close> show "k \<in> (\<lambda>x. (DomainSort, fst x)) ` {x \<in> set ds. owns G run (snd x)} \<longleftrightarrow> fst k = DomainSort \<and> claims G run k v"
      by (cases k) (auto simp: claims_def image_iff)
  qed (use assms(1) destroy_own_cases[OF assms(1)] in \<open>auto simp: libvirt_ok_def\<close>)
  have "clears view (claims G run) ({DomainSort} \<union> ({VolumeSort} \<union> {GuestNetSort})) (guests_remove G V run)"
    unfolding guests_remove_def act_bind_assoc[symmetric, of "gc_domains V"] act_bind_assoc[symmetric, of "gc_volumes V pool"]
    by (intro clears_bind domains prefixed_clears) (use assms(1) in \<open>simp_all add: libvirt_ok_def\<close>)
  moreover have "fst k \<in> {DomainSort} \<union> ({VolumeSort} \<union> {GuestNetSort})" for k :: "guest_sort \<times> string" by (cases "fst k") simp_all
  then have "(\<lambda>k v. fst k \<in> {DomainSort} \<union> ({VolumeSort} \<union> {GuestNetSort}) \<and> claims G run k v) = claims G run" by (simp add: fun_eq_iff)
  ultimately show ?thesis using assms(2) unfolding clears_def by presburger
qed

text \<open>A \<open>down\<close> that returns leaves exactly what its run does not claim; one that raises has taken nothing else.\<close>

lemma guests_down_removes:
  assumes "libvirt_ok view V" "guests_down G V m w = (r, w')"
  shows "spares view (claims G (rm_run m)) w w' \<and> (\<forall>u. r = Inr u \<longrightarrow> view w' = without (claims G (rm_run m)) (view w))"
proof -
  obtain x v where x: "gc_connect V w = (x, v)" by fastforce
  moreover have "leaves_held view (gc_connect V)" using assms(1) by (simp add: libvirt_ok_def)
  ultimately have v: "view v = view w" using leaves_snd[of view "gc_connect V" w] by simp
  show ?thesis
  proof (cases x)
    case (Inl e)
    with x v assms(2) show ?thesis by (auto simp: guests_down_def act_bind_def spares_def)
  next
    case (Inr u)
    with x assms(2) have "guests_remove G V (rm_run m) v = (r, w')" by (simp add: guests_down_def act_bind_def)
    from guests_remove_held[OF assms(1) this] v show ?thesis by (simp add: spares_def)
  qed
qed

text \<open>The prefix of one run is also that of another: of run \<open>lab\<close> and run \<open>lab-east\<close> both claim the volumes of the second.\<close>

lemma prefix_shared: "claims G ''lab'' (VolumeSort, domain_name ''lab-east'' ''c[0]'' @ ''.qcow2'') v"
  by (simp add: claims_def run_prefix_def domain_name_def starts_with_def)

text \<open>A domain of anybody whose description is JSON but no object stops the cleanup before anything is removed after it.\<close>

lemma description_stops:
  "unlabelled G d \<Longrightarrow> \<exists>e. destroy_own G V run (n, d) w = (Inl (Failure e), w)"
  by (auto simp: unlabelled_def destroy_own_def act_raise_def split: option.splits json.splits)

end
