(* ===== verification/Vocabulary.thy ===== *)
theory Vocabulary
  imports Simulation
begin

text \<open>
  Which connection is which action (\<open>fit/tiergen/fit/vocabulary.py\<close>): the candidates a program's
  acting states give, by the address its instance sends from, and the match of a connection against
  them. Python's \<open>str\<close> of what is no text, integer or Boolean is a parameter.
\<close>

section \<open>Candidates\<close>

type_synonym wire_end = "string \<times> int option \<times> string"

record candidate =
  cd_instance :: string
  cd_kind :: string
  cd_behaviour :: string
  cd_state :: string
  cd_signature :: string
  cd_tie :: string
  cd_endpoints :: "wire_end list"
  cd_paths :: "string list option"
  cd_many :: bool

record vocabulary =
  vo_by_address :: "(string, candidate list) dict"
  vo_instance_of :: "(string, string) dict"

datatype no_match = UnknownOriginator | NoAction | Ambiguous

definition json_str :: "(json \<Rightarrow> string) \<Rightarrow> json \<Rightarrow> string" where
  "json_str other v = (case v of JStr s \<Rightarrow> s | JInt i \<Rightarrow> show_int i
     | JBool b \<Rightarrow> (if b then ''True'' else ''False'') | _ \<Rightarrow> other v)"

definition param_paths :: "(json \<Rightarrow> string) \<Rightarrow> (string, resolved_param) dict \<Rightarrow> string list option" where
  "param_paths other params =
     (case (case dget params ''path'' of None \<Rightarrow> dget params ''start_path'' | Some v \<Rightarrow> Some v) of
        None \<Rightarrow> None
      | Some (RChoice c) \<Rightarrow> Some (map (\<lambda>x. json_str other (scalar_json x)) (ch_options c))
      | Some (RScalar x) \<Rightarrow> Some [json_str other (scalar_json x)])"

text \<open>Sets of ends and of paths are lists here; only membership is asked of them.\<close>

definition peer_ends :: "signature \<Rightarrow> peer \<Rightarrow> wire_end list" where
  "peer_ends sg peer =
     map (\<lambda>e. (pe_address peer, Some (ep_port e), transport_str (ep_transport e)))
       (filter (\<lambda>e. ep_protocol e \<in> set (sg_endpoints sg)) (pe_served peer))
     @ (case ts_port (sg_shape sg) of
          Some port \<Rightarrow> [(pe_address peer, Some port, transport_str (ts_transport (sg_shape sg)))]
        | None \<Rightarrow> if sg_endpoints sg = [] then [(pe_address peer, None, transport_str (ts_transport (sg_shape sg)))] else [])"

definition candidate_of :: "(json \<Rightarrow> string) \<Rightarrow> program \<Rightarrow> resolved_behaviour \<Rightarrow> string \<Rightarrow> resolved_action \<Rightarrow> signature \<Rightarrow> candidate" where
  "candidate_of other p b state act sg =
     \<lparr>cd_instance = pg_instance p, cd_kind = pg_kind p, cd_behaviour = rb_name b, cd_state = state,
      cd_signature = ra_signature act, cd_tie = ra_tie act,
      cd_endpoints = concat (map (peer_ends sg) (dget_or (pg_peers p) (ra_tie act) [])),
      cd_paths = param_paths other (ra_params act), cd_many = (ts_connections (sg_shape sg) = Many)\<rparr>"

text \<open>The missing signature is the \<open>KeyError\<close>.\<close>

definition behaviour_candidates :: "(json \<Rightarrow> string) \<Rightarrow> program \<Rightarrow> resolved_behaviour \<Rightarrow> string + candidate list" where
  "behaviour_candidates other p b = rbind
     (rmap (\<lambda>(state, act). case act of
          None \<Rightarrow> Inr []
        | Some a \<Rightarrow> rbind (or_raise (ra_signature a) (dget signatures (ra_signature a)))
            (\<lambda>sg. Inr [candidate_of other p b state a sg])) (rb_action_map b))
     (\<lambda>found. Inr (concat found))"

definition program_candidates :: "(json \<Rightarrow> string) \<Rightarrow> program \<Rightarrow> string + candidate list" where
  "program_candidates other p = rbind (rmap (behaviour_candidates other p) (pg_behaviours p)) (\<lambda>found. Inr (concat found))"

definition add_program :: "(json \<Rightarrow> string) \<Rightarrow> (string, (string, string) dict) dict \<Rightarrow> program \<Rightarrow> vocabulary \<Rightarrow> string + vocabulary" where
  "add_program other addresses p vo =
     (let mine = dvalues (dget_or addresses (pg_instance p) [])
      in rbind (program_candidates other p) (\<lambda>candidates.
           Inr \<lparr>vo_by_address = fold (\<lambda>a d. dset a (dget_or d a [] @ candidates) d) mine (vo_by_address vo),
             vo_instance_of = fold (\<lambda>a d. dset a (pg_instance p) d) mine (vo_instance_of vo)\<rparr>))"

definition vocabulary_of :: "(json \<Rightarrow> string) \<Rightarrow> program list \<Rightarrow> (string, (string, string) dict) dict \<Rightarrow> string + vocabulary" where
  "vocabulary_of other programs addresses =
     rfold (add_program other addresses) programs \<lparr>vo_by_address = [], vo_instance_of = []\<rparr>"

section \<open>Matching\<close>

definition conn_hits :: "candidate list \<Rightarrow> conn_event \<Rightarrow> candidate list" where
  "conn_hits found conn =
     (let f = ce_five_tuple conn;
          hits = filter (\<lambda>c. (ft_resp_addr f, Some (ft_resp_port f), ft_proto f) \<in> set (cd_endpoints c)) found
      in if hits = [] then filter (\<lambda>c. (ft_resp_addr f, None, ft_proto f) \<in> set (cd_endpoints c)) found else hits)"

definition app_paths :: "(json \<Rightarrow> string) \<Rightarrow> app_event list \<Rightarrow> string list" where
  "app_paths other apps = concat (map (\<lambda>a. case dget (ae_fields a) ''uri'' of None \<Rightarrow> [] | Some v \<Rightarrow> [json_str other v]) apps)"

definition allows_paths :: "string list \<Rightarrow> candidate \<Rightarrow> bool" where
  "allows_paths asked c \<longleftrightarrow> (case cd_paths c of None \<Rightarrow> True | Some ps \<Rightarrow> \<exists>p\<in>set asked. p \<in> set ps)"

definition match_conn :: "(json \<Rightarrow> string) \<Rightarrow> vocabulary \<Rightarrow> conn_event \<Rightarrow> app_event list \<Rightarrow> no_match + candidate" where
  "match_conn other vo conn apps =
     (case dget (vo_by_address vo) (ft_orig_addr (ce_five_tuple conn)) of
        None \<Rightarrow> Inl UnknownOriginator
      | Some found \<Rightarrow>
          let hits = conn_hits found conn;
              asked = app_paths other apps;
              narrowed = filter (allows_paths asked) hits
          in if 1 < length hits \<and> asked \<noteq> [] \<and> length narrowed = 1 then Inr (hd narrowed)
             else let hits = (if 1 < length hits \<and> narrowed \<noteq> [] then narrowed else hits)
               in if hits = [] then Inl NoAction else if 1 < length hits then Inl Ambiguous else Inr (hd hits))"

section \<open>Every acting state is a candidate\<close>

lemma add_candidates_other:
  "a \<notin> set mine \<Longrightarrow> dget (fold (\<lambda>a d. dset a (dget_or d a [] @ cs) d) mine d) a = dget d a"
  by (induction mine arbitrary: d) auto

lemma add_candidates:
  assumes "a \<in> set mine"
  shows "\<exists>found. dget (fold (\<lambda>a d. dset a (dget_or d a [] @ cs) d) mine d) a = Some found
     \<and> set found = set (dget_or d a []) \<union> set cs"
  using assms
proof (induction mine arbitrary: d)
  case (Cons x mine)
  let ?d = "dset x (dget_or d x [] @ cs) d"
  show ?case
  proof (cases "a \<in> set mine")
    case True
    from Cons.IH[OF this, of ?d] obtain found where
      "dget (fold (\<lambda>a d. dset a (dget_or d a [] @ cs) d) mine ?d) a = Some found" "set found = set (dget_or ?d a []) \<union> set cs"
      by blast
    then show ?thesis by (cases "a = x") simp_all
  next
    case False
    with Cons.prems add_candidates_other[OF False, of cs ?d] show ?thesis by simp
  qed
qed simp

definition offers :: "(json \<Rightarrow> string) \<Rightarrow> (string, (string, string) dict) dict \<Rightarrow> program list \<Rightarrow> vocabulary \<Rightarrow> bool" where
  "offers other addresses ps vo \<longleftrightarrow> (\<forall>p\<in>set ps. \<forall>a\<in>set (dvalues (dget_or addresses (pg_instance p) [])).
     \<exists>cs found. program_candidates other p = Inr cs \<and> dget (vo_by_address vo) a = Some found \<and> set cs \<subseteq> set found)"

lemma vocabulary_offers:
  assumes "vocabulary_of other programs addresses = Inr vo"
  shows "offers other addresses programs vo"
proof (rule rfold_done[where Q = "offers other addresses", OF _ _ assms[unfolded vocabulary_of_def]])
  show "offers other addresses [] \<lparr>vo_by_address = [], vo_instance_of = []\<rparr>" by (simp add: offers_def)
  fix ds p rest vo vo'
  assume old: "offers other addresses ds vo" and new: "add_program other addresses p vo = Inr vo'"
  let ?mine = "dvalues (dget_or addresses (pg_instance p) [])"
  from new obtain cs where cs: "program_candidates other p = Inr cs"
    "vo_by_address vo' = fold (\<lambda>a d. dset a (dget_or d a [] @ cs) d) ?mine (vo_by_address vo)"
    by (auto simp: add_program_def Let_def rbind_Inr_iff)
  have "\<exists>found'. dget (vo_by_address vo') a = Some found' \<and> set found \<subseteq> set found'"
    if "dget (vo_by_address vo) a = Some found" for a found
    using add_candidates[of a ?mine cs "vo_by_address vo"] add_candidates_other[of a ?mine cs "vo_by_address vo"] that cs(2) by (cases "a \<in> set ?mine") (auto simp: dget_or_def)
  then have "\<exists>cs found. program_candidates other q = Inr cs \<and> dget (vo_by_address vo') a = Some found \<and> set cs \<subseteq> set found"
    if "q \<in> set ds" "a \<in> set (dvalues (dget_or addresses (pg_instance q) []))" for q a
    using old that unfolding offers_def by (meson order_trans)
  moreover have "\<exists>cs found. program_candidates other p = Inr cs \<and> dget (vo_by_address vo') a = Some found \<and> set cs \<subseteq> set found"
    if "a \<in> set ?mine" for a
    using add_candidates[OF that, of cs "vo_by_address vo"] cs by auto
  ultimately show "offers other addresses (ds @ [p]) vo'" by (auto simp: offers_def)
qed

lemma candidates_include:
  assumes "program_candidates other p = Inr cs" "b \<in> set (pg_behaviours p)" "(st, Some act) \<in> set (rb_action_map b)"
  shows "\<exists>sg. dget signatures (ra_signature act) = Some sg \<and> candidate_of other p b st act sg \<in> set cs"
proof -
  from assms(1) obtain found where found: "rmap (behaviour_candidates other p) (pg_behaviours p) = Inr found" "cs = concat found"
    by (auto simp: program_candidates_def rbind_Inr_iff)
  from rmap_each[OF found(1) assms(2)] obtain mine where mine: "mine \<in> set found" "behaviour_candidates other p b = Inr mine" by blast
  let ?f = "\<lambda>(state, act). case act of
          None \<Rightarrow> Inr []
        | Some a \<Rightarrow> rbind (or_raise (ra_signature a) (dget signatures (ra_signature a)))
            (\<lambda>sg. Inr [candidate_of other p b state a sg])"
  from mine(2) obtain parts where parts: "rmap ?f (rb_action_map b) = Inr parts" "mine = concat parts"
    by (auto simp: behaviour_candidates_def rbind_Inr_iff)
  from rmap_each[OF parts(1) assms(3)] obtain part where part: "part \<in> set parts" "?f (st, Some act) = Inr part" by blast
  from part(2) obtain sg where "dget signatures (ra_signature act) = Some sg" "part = [candidate_of other p b st act sg]"
    by (auto simp: rbind_Inr_iff)
  moreover from this part(1) have "candidate_of other p b st act sg \<in> set mine"
    unfolding parts(2) set_concat by (intro UN_I[of part]) simp_all
  ultimately show ?thesis using mine(1) found(2) by auto
qed

section \<open>A connection of the simulation is its action's\<close>

lemma single: "length xs = 1 \<Longrightarrow> c \<in> set xs \<Longrightarrow> hd xs = c"
  by (cases xs) auto

lemma match_includes:
  assumes found: "dget (vo_by_address vo) (ft_orig_addr (ce_five_tuple e)) = Some found" "c \<in> set found"
    and ends: "(ft_resp_addr (ce_five_tuple e), Some (ft_resp_port (ce_five_tuple e)), ft_proto (ce_five_tuple e)) \<in> set (cd_endpoints c)"
    and allowed: "allows_paths (app_paths other apps) c"
  shows "match_conn other vo e apps = Inl Ambiguous \<or> match_conn other vo e apps = Inr c"
proof -
  let ?hits = "conn_hits found e"
  let ?narrowed = "filter (allows_paths (app_paths other apps)) ?hits"
  have hit: "c \<in> set ?hits" using found(2) ends by (auto simp: conn_hits_def Let_def filter_empty_conv)
  with allowed have narrow: "c \<in> set ?narrowed" by simp
  from hit have ne: "?hits \<noteq> []" by auto
  from narrow have ne2: "?narrowed \<noteq> []" by (cases ?narrowed) simp_all
  show ?thesis
  proof (cases "length ?hits = 1")
    case True
    with single[OF this hit] ne show ?thesis by (simp add: match_conn_def found(1) Let_def)
  next
    case False
    with ne have many: "1 < length ?hits" by (cases ?hits) auto
    show ?thesis
    proof (cases "length ?narrowed = 1")
      case True
      with single[OF this narrow] ne ne2 many show ?thesis
        by (cases "app_paths other apps = []") (simp_all add: match_conn_def found(1) Let_def)
    next
      case False
      with ne2 have "1 < length ?narrowed" by (cases ?narrowed) auto
      with False ne ne2 many show ?thesis by (simp add: match_conn_def found(1) Let_def)
    qed
  qed
qed

lemma params_get:
  assumes "list_all2 param_from ps xs"
  shows "case dget ps k of None \<Rightarrow> dget xs k = None | Some v \<Rightarrow> \<exists>x. dget xs k = Some x \<and> param_from (k, v) (k, x)"
  using assms
proof (induction rule: list_all2_induct)
  case (Cons kv ps kx xs)
  obtain j v where kv: "kv = (j, v)" by fastforce
  with Cons.hyps(1) obtain x where kx: "kx = (j, x)" by (cases kx) (auto simp: param_from_def)
  show ?case
  proof (cases "j = k")
    case True
    with Cons.hyps(1) show ?thesis unfolding kv kx by (simp split: option.splits)
  next
    case False
    with Cons.IH show ?thesis unfolding kv kx by (simp split: option.splits)
  qed
qed simp

text \<open>The endpoints of an action's peers are of the transport its signature takes.\<close>

definition transports_agree :: "program \<Rightarrow> bool" where
  "transports_agree p \<longleftrightarrow> (\<forall>b\<in>set (pg_behaviours p). \<forall>(st, act)\<in>set (rb_action_map b). case act of None \<Rightarrow> True
     | Some a \<Rightarrow> (case dget signatures (ra_signature a) of None \<Rightarrow> True
       | Some sg \<Rightarrow> list_all (\<lambda>peer. list_all (\<lambda>e. ep_protocol e \<in> set (sg_endpoints sg)
            \<longrightarrow> ep_transport e = ts_transport (sg_shape sg)) (pe_served peer)) (dget_or (pg_peers p) (ra_tie a) [])))"

lemma ends_reached:
  assumes "sim_ports sg params t = Inr ports" "port \<in> set ports" "\<not> is_scan sg"
    "list_all (\<lambda>e. ep_protocol e \<in> set (sg_endpoints sg) \<longrightarrow> ep_transport e = ts_transport (sg_shape sg)) (pe_served t)"
  shows "(pe_address t, Some port, transport_str (ts_transport (sg_shape sg))) \<in> set (peer_ends sg t)"
proof (cases "ts_port (sg_shape sg)")
  case (Some p)
  with assms(1,2) show ?thesis by (auto simp: sim_ports_def peer_ends_def)
next
  case None
  with assms(3) have "sg_endpoints sg \<noteq> []" by (simp add: is_scan_def)
  with None assms(1,2) obtain e where "first_such (\<lambda>e. ep_protocol e \<in> set (sg_endpoints sg)) (pe_served t) = Some e" "port = ep_port e"
    by (auto simp: sim_ports_def split: option.splits)
  with first_such_Some[OF this(1)] assms(4) show ?thesis by (force simp: peer_ends_def list_all_iff)
qed

lemma uri_allowed:
  assumes params: "list_all2 param_from (ra_params act) (cl_params call)"
    and read: "(sg_protocol sg = ''http'' \<and> \<not> is_scan sg) \<or> dget (cl_params call) ''path'' = None \<and> dget (cl_params call) ''start_path'' = None"
    and apps: "apps = (if sg_protocol sg = ''http'' \<and> \<not> is_scan sg then [sim_app v call sg t n] else [])"
  shows "allows_paths (app_paths other apps) (candidate_of other p b st act sg)"
proof -
  note path = params_get[OF params, of "''path''"] and start = params_get[OF params, of "''start_path''"]
  have given: "json_str other (scalar_json x) \<in> (case v of RScalar y \<Rightarrow> {json_str other (scalar_json y)}
      | RChoice c \<Rightarrow> (\<lambda>y. json_str other (scalar_json y)) ` set (ch_options c))" if "param_from (k, v) (k, x)" for k v x
    using that by (auto simp: param_from_def split: resolved_param.splits)
  show ?thesis
  proof (cases "sg_protocol sg = ''http'' \<and> \<not> is_scan sg")
    case True
    with path start show ?thesis
      by (auto simp: apps allows_paths_def candidate_of_def param_paths_def app_paths_def sim_app_def split: option.splits resolved_param.splits
          dest!: given)
  next
    case False
    with read path start show ?thesis
      by (auto simp: allows_paths_def candidate_of_def param_paths_def split: option.splits)
  qed
qed

lemma own_address_listed:
  assumes "own_address plan instnc t a" "dget_or (pl_addresses plan) instnc [] \<noteq> []"
  shows "a \<in> set (dvalues (dget_or (pl_addresses plan) instnc []))"
  using assms by (auto simp: own_address_def plan_at_def dvalues_def split: if_splits dest!: dget_Some_in intro: rev_image_eqI)

text \<open>A call the fit can tell apart on the wire: no scan, and its path, if it has one, is in the application event.\<close>

definition readable :: "sim_call \<Rightarrow> bool" where
  "readable call \<longleftrightarrow> (case dget signatures (cl_signature call) of None \<Rightarrow> False
     | Some sg \<Rightarrow> \<not> is_scan sg \<and> (sg_protocol sg = ''http''
         \<or> dget (cl_params call) ''path'' = None \<and> dget (cl_params call) ''start_path'' = None))"


section \<open>Examples\<close>

definition read_demo :: "sim_error + simulated" where
  "read_demo = simulate sim_demo_setting sim_demo_scenario (dict_resources [] [''cfg'']) None (Some (Fin 2)) None"

definition demo_apps :: "simulated \<Rightarrow> app_event list" where
  "demo_apps si = filter (\<lambda>a. ae_flow a = ce_flow (hd (conns_in (si_events si)))) (apps_in (si_events si))"

definition demo_readable :: "simulated \<Rightarrow> bool" where
  "demo_readable si \<longleftrightarrow>
     (let ps = sorted_programs (si_programs si); es = conns_in (si_events si); vs = si_records si
      in es \<noteq> [] \<and> vs \<noteq> [] \<and> named_apart ps \<and> plain_names ps
         \<and> list_all (\<lambda>p. dget_or (pl_addresses (si_plan si)) (pg_instance p) [] \<noteq> [] \<and> transports_agree p) ps
         \<and> ce_raw (hd es) = raw_of (hd vs)
         \<and> (case dget (si_calls si) (record_id (hd vs)) of None \<Rightarrow> False | Some call \<Rightarrow> readable call)
         \<and> (case vocabulary_of (\<lambda>_. []) ps (pl_addresses (si_plan si)) of Inl _ \<Rightarrow> False
            | Inr vo \<Rightarrow> (case match_conn (\<lambda>_. []) vo (hd es) (demo_apps si) of Inl _ \<Rightarrow> False
                | Inr c \<Rightarrow> cd_state c = ''a'')))"

lemma read_demo_ok: "let r = read_demo in case r of Inl _ \<Rightarrow> False | Inr si \<Rightarrow> demo_readable si"
  by code_simp


end
