(* ===== verification/Streams.thy ===== *)
theory Streams
  imports Sampling Assembly
begin

text \<open>
  Connections as one stream per host (\<open>stats/tiergen/stats/streams.py\<close>) and the parts of the two-sample
  tests that decide (\<open>two_sample.py\<close>, \<open>report.py\<close>, \<open>calibrate.py\<close>). The statistics themselves are
  computed by numpy and are parameters, as is its permutation of host labels; what a zone makes of
  a timestamp is a function to local time.
\<close>

section \<open>Streams\<close>

record event_stream =
  es_host :: string
  es_times :: "rat list"
  es_marks :: "string list"
  es_window :: "rat \<times> rat"

definition service :: "conn_event \<Rightarrow> string" where
  "service c = ft_proto (ce_five_tuple c) @ ''/'' @ show_int (ft_resp_port (ce_five_tuple c))"

definition in_window :: "rat \<times> rat \<Rightarrow> conn_event \<Rightarrow> bool" where
  "in_window window c \<longleftrightarrow> fst window \<le> ce_start c \<and> ce_start c < snd window"

type_synonym seen_hosts = "(string, (rat \<times> string) list) dict"

definition see_conn :: "rat \<times> rat \<Rightarrow> (conn_event \<Rightarrow> string) \<Rightarrow> string list option \<Rightarrow> conn_event \<Rightarrow> seen_hosts \<Rightarrow> seen_hosts" where
  "see_conn window mark hosts c found =
     (let host = ft_orig_addr (ce_five_tuple c)
      in if in_window window c \<and> (hosts = None \<or> host \<in> set (dkeys found))
         then dappend host (ce_start c, mark c) found else found)"

definition stream_of :: "rat \<times> rat \<Rightarrow> string \<Rightarrow> (rat \<times> string) list \<Rightarrow> event_stream" where
  "stream_of window host events =
     (let events = sort events
      in \<lparr>es_host = host, es_times = map fst events, es_marks = map snd events, es_window = window\<rparr>)"

definition hosts_seen :: "conn_event list \<Rightarrow> rat \<times> rat \<Rightarrow> (conn_event \<Rightarrow> string) \<Rightarrow> string list option \<Rightarrow> seen_hosts" where
  "hosts_seen conns window mark hosts =
     fold (see_conn window mark hosts) conns (case hosts of None \<Rightarrow> [] | Some hs \<Rightarrow> dict_of (map (\<lambda>h. (h, [])) hs))"

definition streams :: "conn_event list \<Rightarrow> rat \<times> rat \<Rightarrow> (conn_event \<Rightarrow> string) \<Rightarrow> string list option \<Rightarrow> event_stream list" where
  "streams conns window mark hosts =
     (let found = hosts_seen conns window mark hosts
      in map (\<lambda>h. stream_of window h (dget_or found h [])) (sort (dkeys found)))"

definition gaps :: "event_stream \<Rightarrow> rat list" where
  "gaps s = map (\<lambda>(a, b). b - a) (zip (es_times s) (tl (es_times s)))"

definition pooled_gaps :: "event_stream list \<Rightarrow> rat list" where
  "pooled_gaps found = concat (map gaps (filter (\<lambda>s. 1 < length (es_times s)) found))"

definition counted :: "'a::linorder list \<Rightarrow> ('a, nat) dict" where
  "counted xs = map (\<lambda>x. (x, count_list xs x)) (sorted_set xs)"

definition mix :: "event_stream list \<Rightarrow> (string, nat) dict" where
  "mix found = counted (concat (map es_marks found))"

definition pairs_of :: "event_stream \<Rightarrow> (string \<times> string) list" where
  "pairs_of s = zip (es_marks s) (tl (es_marks s))"

definition transitions :: "event_stream list \<Rightarrow> (string \<times> string, nat) dict" where
  "transitions found = counted (concat (map pairs_of found))"

section \<open>Hours\<close>

definition bump :: "nat \<Rightarrow> rat \<Rightarrow> rat list \<Rightarrow> rat list" where
  "bump h x counts = counts[h := counts ! h + x]"

definition hour_step :: "(rat \<Rightarrow> int) \<Rightarrow> rat \<Rightarrow> rat \<Rightarrow> rat" where
  "hour_step tz t until = min (3600 - into_hour (tz t)) (until - t)"

definition micros_left :: "rat \<Rightarrow> rat \<Rightarrow> nat" where
  "micros_left t until = nat \<lceil>(until - t) * 1000000\<rceil>"

lemma micros_left_step:
  assumes "t < until"
  shows "micros_left (t + hour_step tz t until) until < micros_left t until"
proof (cases "hour_step tz t until = until - t")
  case True
  with assms show ?thesis by (simp add: micros_left_def)
next
  case False
  then have "1 / 1000000 \<le> hour_step tz t until" using into_hour_bound[of "tz t"] by (auto simp: hour_step_def min_def)
  then have "(until - (t + hour_step tz t until)) * 1000000 \<le> (until - t) * 1000000 - 1" by (simp add: algebra_simps)
  then have "\<lceil>(until - (t + hour_step tz t until)) * 1000000\<rceil> \<le> \<lceil>(until - t) * 1000000\<rceil> - 1"
    by (metis ceiling_diff_one ceiling_mono)
  moreover have "0 < \<lceil>(until - t) * 1000000\<rceil>" using assms by simp
  ultimately show ?thesis unfolding micros_left_def by linarith
qed

function exposed :: "(rat \<Rightarrow> int) \<Rightarrow> rat \<Rightarrow> rat \<Rightarrow> rat list \<Rightarrow> rat list" where
  "exposed tz t until exposure =
     (if t < until
      then let step = hour_step tz t until
           in exposed tz (t + step) until (bump (hour_of (tz t)) (step / 3600) exposure)
      else exposure)"
  by pat_completeness auto
termination
  by (relation "measure (\<lambda>(tz, t, until, exposure). micros_left t until)") (auto simp: micros_left_step)

definition count_hours :: "(rat \<Rightarrow> int) \<Rightarrow> event_stream \<Rightarrow> rat list \<Rightarrow> rat list" where
  "count_hours tz s counts = fold (\<lambda>t. bump (hour_of (tz t)) 1) (es_times s) counts"

definition hourly :: "event_stream list \<Rightarrow> (rat \<Rightarrow> int) \<Rightarrow> rat list \<times> rat list" where
  "hourly found tz = fold (\<lambda>s (counts, exposure).
     (count_hours tz s counts, exposed tz (fst (es_window s)) (snd (es_window s)) exposure)) found
     (replicate 24 0, replicate 24 0)"

section \<open>Deciding\<close>

type_synonym statistic = "event_stream list \<Rightarrow> event_stream list \<Rightarrow> pyfloat"

record test_result =
  tr_name :: string
  tr_statistic :: pyfloat
  tr_p_value :: pyfloat
  tr_hosts :: "nat \<times> nat"
  tr_events :: "nat \<times> nat"
  tr_splits :: nat

definition splits :: "nat \<Rightarrow> nat \<Rightarrow> nat" where
  "splits n_a n_b = (n_a + n_b) choose n_a"

definition can_reject :: "test_result \<Rightarrow> rat \<Rightarrow> bool" where
  "can_reject r alpha \<longleftrightarrow> 1 / of_nat (tr_splits r) < alpha"

text \<open>\<open>shuffle n\<close> is a permutation of the numbers below \<open>n\<close> and the next state of the generator.\<close>

type_synonym 'r shuffler = "nat \<Rightarrow> 'r \<Rightarrow> nat list \<times> 'r"

definition shuffles :: "'r shuffler \<Rightarrow> bool" where
  "shuffles G \<longleftrightarrow> (\<forall>n s. distinct (fst (G n s)) \<and> set (fst (G n s)) = {..<n})"

definition relabelled :: "event_stream list \<Rightarrow> nat list \<Rightarrow> nat \<Rightarrow> event_stream list \<times> event_stream list" where
  "relabelled pool order n = (map ((!) pool) (take n order), map ((!) pool) (drop n order))"

fun exceedances :: "statistic \<Rightarrow> 'r shuffler \<Rightarrow> event_stream list \<Rightarrow> nat \<Rightarrow> pyfloat \<Rightarrow> nat \<Rightarrow> 'r \<Rightarrow> nat \<times> 'r" where
  "exceedances stat G pool n observed 0 s = (0, s)"
| "exceedances stat G pool n observed (Suc rounds) s =
     (let (order, s) = G (length pool) s;
          (left, right) = relabelled pool order n;
          value = stat left right;
          (rest, s) = exceedances stat G pool n observed rounds s
      in ((if value \<noteq> NaN \<and> fl_le observed value then 1 else 0) + rest, s))"

definition permutation_p :: "statistic \<Rightarrow> event_stream list \<Rightarrow> event_stream list \<Rightarrow> 'r shuffler \<Rightarrow> nat \<Rightarrow> 'r
    \<Rightarrow> (pyfloat \<times> pyfloat) \<times> 'r" where
  "permutation_p stat a b G rounds s =
     (let observed = stat a b
      in if observed = NaN then ((observed, NaN), s)
         else let (exceed, s) = exceedances stat G (a @ b) (length a) observed rounds s
           in ((observed, Fin ((of_nat exceed + 1) / (of_nat rounds + 1))), s))"

definition run_test :: "string \<Rightarrow> statistic \<Rightarrow> event_stream list \<Rightarrow> event_stream list \<Rightarrow> 'r shuffler \<Rightarrow> nat \<Rightarrow> 'r
    \<Rightarrow> test_result \<times> 'r" where
  "run_test name stat a b G rounds s =
     (let ((observed, p), s) = permutation_p stat a b G rounds s;
          events = (\<lambda>found. sum_list (map (\<lambda>x. length (es_times x)) found))
      in (\<lparr>tr_name = name, tr_statistic = observed, tr_p_value = p, tr_hosts = (length a, length b),
           tr_events = (events a, events b), tr_splits = splits (length a) (length b)\<rparr>, s))"

definition verdict :: "rat \<Rightarrow> test_result \<Rightarrow> msg" where
  "verdict alpha r =
     (if tr_p_value r = NaN then [L ''not computed'']
      else if \<not> can_reject r alpha then [L ''too few hosts ('', I (int (tr_splits r)), L '' splits)'']
      else if fl_le (tr_p_value r) (Fin alpha) then [L ''rejected''] else [L ''not rejected''])"

fun rejections :: "statistic \<Rightarrow> (event_stream list \<times> event_stream list) list \<Rightarrow> 'r shuffler \<Rightarrow> rat \<Rightarrow> nat \<Rightarrow> 'r \<Rightarrow> nat \<times> 'r" where
  "rejections stat [] G alpha rounds s = (0, s)"
| "rejections stat ((a, b) # rest) G alpha rounds s =
     (let ((observed, p), s) = permutation_p stat a b G rounds s;
          (n, s) = rejections stat rest G alpha rounds s
      in ((if fl_le p (Fin alpha) then 1 else 0) + n, s))"

section \<open>Streams hold the connections\<close>

definition conns_of :: "conn_event list \<Rightarrow> rat \<times> rat \<Rightarrow> string \<Rightarrow> conn_event list" where
  "conns_of conns window host = filter (\<lambda>c. in_window window c \<and> ft_orig_addr (ce_five_tuple c) = host) conns"

definition reported :: "conn_event list \<Rightarrow> rat \<times> rat \<Rightarrow> string list option \<Rightarrow> string set" where
  "reported conns window hosts = (case hosts of
     None \<Rightarrow> (\<lambda>c. ft_orig_addr (ce_five_tuple c)) ` set (filter (in_window window) conns) | Some hs \<Rightarrow> set hs)"

definition seen_ok :: "rat \<times> rat \<Rightarrow> (conn_event \<Rightarrow> string) \<Rightarrow> string list option \<Rightarrow> conn_event list \<Rightarrow> seen_hosts \<Rightarrow> bool" where
  "seen_ok window mark hosts conns found \<longleftrightarrow> dict_ok found \<and> set (dkeys found) = reported conns window hosts
     \<and> (\<forall>h\<in>reported conns window hosts. dget_or found h [] = map (\<lambda>c. (ce_start c, mark c)) (conns_of conns window h))"

lemma set_dkeys_dappend: "set (dkeys (dappend k v d)) = insert k (set (dkeys d))"
  by (auto simp: dappend_def dkeys_dset)

lemma dget_or_absent: "h \<notin> set (dkeys d) \<Longrightarrow> dget_or d h z = z"
  by (auto simp: set_dkeys dget_or_def split: option.splits)

lemma see_conn_ok:
  assumes "seen_ok window mark hosts conns found"
  shows "seen_ok window mark hosts (conns @ [c]) (see_conn window mark hosts c found)"
proof -
  let ?h = "ft_orig_addr (ce_five_tuple c)"
  have keys: "set (dkeys found) = reported conns window hosts" using assms by (simp add: seen_ok_def)
  show ?thesis
  proof (cases "in_window window c \<and> (hosts = None \<or> ?h \<in> set (dkeys found))")
    case False
    with assms keys show ?thesis
      by (cases hosts) (auto simp: seen_ok_def see_conn_def Let_def reported_def conns_of_def)
  next
    case True
    have old: "dget_or found ?h [] = map (\<lambda>c. (ce_start c, mark c)) (conns_of conns window ?h)"
    proof (cases "?h \<in> reported conns window hosts")
      case False
      with True keys have "conns_of conns window ?h = []" by (auto simp: conns_of_def reported_def filter_empty_conv image_iff)
      with False keys show ?thesis by (simp add: dget_or_absent)
    qed (use assms in \<open>simp add: seen_ok_def\<close>)
    have "reported (conns @ [c]) window hosts = insert ?h (reported conns window hosts)"
      using True keys by (cases hosts) (auto simp: reported_def)
    with assms True keys old show ?thesis
      by (auto simp: seen_ok_def see_conn_def Let_def conns_of_def dict_ok_dappend set_dkeys_dappend dget_or_dappend)
  qed
qed

lemma hosts_seen_ok: "seen_ok window mark hosts conns (hosts_seen conns window mark hosts)"
  unfolding hosts_seen_def
proof (rule fold_done[where Q = "seen_ok window mark hosts"])
  show "seen_ok window mark hosts [] (case hosts of None \<Rightarrow> [] | Some hs \<Rightarrow> dict_of (map (\<lambda>h. (h, [])) hs))"
  proof (cases hosts)
    case (Some hs)
    have "dget_or (dict_of (map (\<lambda>h. (h, [])) hs)) h [] = []" for h
      by (auto simp: dget_or_def split: option.splits dest!: dget_Some_in dict_of_in)
    with Some show ?thesis by (auto simp: seen_ok_def reported_def conns_of_def image_image)
  qed (simp add: seen_ok_def reported_def dkeys_def)
qed (rule see_conn_ok)

text \<open>The streams the statistics compare hold the connections of their window and nothing else: one
  stream for each host to report, in order of their addresses, each with exactly the connections the
  host made in the window, in time order, marked as asked.\<close>

lemma streams_partition:
  "sorted (map es_host (streams conns window mark hosts)) \<and> distinct (map es_host (streams conns window mark hosts))
    \<and> set (map es_host (streams conns window mark hosts)) = reported conns window hosts
    \<and> (\<forall>s\<in>set (streams conns window mark hosts). sorted (es_times s) \<and> length (es_marks s) = length (es_times s)
        \<and> mset (zip (es_times s) (es_marks s)) = mset (map (\<lambda>c. (ce_start c, mark c)) (conns_of conns window (es_host s))))"
proof -
  let ?found = "hosts_seen conns window mark hosts"
  note ok = hosts_seen_ok[of window mark hosts conns, unfolded seen_ok_def]
  have host: "es_host (stream_of window h events) = h" for h events by (simp add: stream_of_def Let_def)
  have hosts: "map es_host (streams conns window mark hosts) = sort (dkeys ?found)"
    by (simp add: streams_def Let_def comp_def host)
  have times: "sorted (map fst (sort events))" for events :: "(rat \<times> string) list"
  proof -
    have "sorted_wrt (\<le>) (sort events)" by simp
    then have "sorted_wrt (\<lambda>x y. fst x \<le> fst y) (sort events)"
      by (rule sorted_wrt_mono_rel[rotated]) (auto simp: less_eq_prod_def)
    then show ?thesis by (simp add: sorted_map)
  qed
  have "sorted (es_times s) \<and> length (es_marks s) = length (es_times s)
      \<and> mset (zip (es_times s) (es_marks s)) = mset (map (\<lambda>c. (ce_start c, mark c)) (conns_of conns window (es_host s)))"
    if "s \<in> set (streams conns window mark hosts)" for s
  proof -
    from that obtain h where h: "h \<in> set (dkeys ?found)" "s = stream_of window h (dget_or ?found h [])"
      by (auto simp: streams_def Let_def)
    with ok have "dget_or ?found h [] = map (\<lambda>c. (ce_start c, mark c)) (conns_of conns window h)" by blast
    with h(2) times show ?thesis by (simp add: stream_of_def Let_def zip_map_fst_snd)
  qed
  with hosts ok show ?thesis by (simp add: dict_ok_def dkeys_def)
qed

section \<open>Every hour is counted\<close>

lemma bump_sum: "h < length counts \<Longrightarrow> sum_list (bump h x counts) = sum_list counts + x"
  unfolding bump_def
proof (induction counts arbitrary: h)
  case (Cons c counts)
  then show ?case by (cases h) auto
qed simp

lemma bump_length [simp]: "length (bump h x counts) = length counts"
  by (simp add: bump_def)

lemma hour_of_bound: "hour_of local < 24"
  by (auto simp: hour_of_def nat_less_iff)

lemma exposed_total:
  "length exposure = 24 \<Longrightarrow> length (exposed tz t until exposure) = 24
     \<and> sum_list (exposed tz t until exposure) = sum_list exposure + max 0 (until - t) / 3600"
proof (induction tz t until exposure rule: exposed.induct)
  case (1 tz t until exposure)
  show ?case
  proof (cases "t < until")
    case True
    have step: "0 \<le> hour_step tz t until" "hour_step tz t until \<le> until - t"
      using True into_hour_bound[of "tz t"] by (auto simp: hour_step_def)
    have "sum_list (bump (hour_of (tz t)) (hour_step tz t until / 3600) exposure) = sum_list exposure + hour_step tz t until / 3600"
      using 1 by (simp add: bump_sum hour_of_bound)
    with 1 True step show ?thesis
      by (subst (1 2) exposed.simps) (simp add: Let_def max_def diff_divide_distrib add_divide_distrib)
  next
    case False
    with 1 show ?thesis by (subst (1 2) exposed.simps) simp
  qed
qed

lemma count_hours_total:
  "length counts = 24 \<Longrightarrow> length (count_hours tz s counts) = 24
     \<and> sum_list (count_hours tz s counts) = sum_list counts + of_nat (length (es_times s))"
proof -
  have "length (fold (\<lambda>t. bump (hour_of (tz t)) 1) ts counts) = 24
      \<and> sum_list (fold (\<lambda>t. bump (hour_of (tz t)) 1) ts counts) = sum_list counts + of_nat (length ts)" if "length counts = 24" for ts
    using that by (induction ts arbitrary: counts) (auto simp: bump_sum hour_of_bound)
  then show "length counts = 24 \<Longrightarrow> ?thesis" by (simp add: count_hours_def)
qed

text \<open>No event and no exposure is lost between the hours: the counts by local hour sum to the events of
  the streams and the exposures to the host-hours of their windows, whatever the zone does.\<close>

lemma hourly_totals:
  "sum_list (fst (hourly found tz)) = of_nat (sum_list (map (\<lambda>s. length (es_times s)) found))
    \<and> sum_list (snd (hourly found tz)) = sum_list (map (\<lambda>s. max 0 (snd (es_window s) - fst (es_window s)) / 3600) found)"
proof -
  let ?Q = "\<lambda>(ds :: event_stream list) (acc :: rat list \<times> rat list). length (fst acc) = 24 \<and> length (snd acc) = 24
    \<and> sum_list (fst acc) = of_nat (sum_list (map (\<lambda>s. length (es_times s)) ds))
    \<and> sum_list (snd acc) = sum_list (map (\<lambda>s. max 0 (snd (es_window s) - fst (es_window s)) / 3600) ds)"
  have "?Q found (hourly found tz)" unfolding hourly_def
  proof (rule fold_done[where Q = ?Q])
    fix ds :: "event_stream list" and s :: event_stream and acc assume "?Q ds acc"
    with count_hours_total[of "fst acc" tz s] exposed_total[of "snd acc" tz "fst (es_window s)" "snd (es_window s)"]
    show "?Q (ds @ [s]) (case acc of (counts, exposure) \<Rightarrow>
        (count_hours tz s counts, exposed tz (fst (es_window s)) (snd (es_window s)) exposure))"
      by (simp add: case_prod_unfold)
  qed (simp add: sum_list_replicate)
  then show ?thesis by simp
qed

section \<open>P-values\<close>

lemma exceedances_bound: "fst (exceedances stat G pool n observed rounds s) \<le> rounds"
proof (induction rounds arbitrary: s)
  case (Suc rounds)
  obtain order s1 where g: "G (length pool) s = (order, s1)" by fastforce
  from Suc.IH[of s1] show ?case by (auto simp: g relabelled_def Let_def case_prod_unfold)
qed simp

text \<open>A p-value is at least one over the rounds plus one, the observed labelling counting as one of them.\<close>

lemma permutation_p_bounds:
  assumes "permutation_p stat a b G rounds s = ((observed, Fin q), s')"
  shows "1 / (of_nat rounds + 1) \<le> q \<and> q \<le> 1"
proof -
  let ?n = "fst (exceedances stat G (a @ b) (length a) observed rounds s)"
  from assms have "q = (of_nat ?n + 1) / (of_nat rounds + 1)"
    by (auto simp: permutation_p_def Let_def case_prod_unfold split: if_splits)
  with exceedances_bound[of stat G "a @ b" "length a" observed rounds s] show ?thesis
    by (simp add: divide_right_mono)
qed

text \<open>Hosts are relabelled, events are not: every round splits the same streams into groups of the same sizes.\<close>

lemma relabelled_pool:
  assumes "shuffles G" "relabelled (a @ b) (fst (G (length (a @ b)) s)) (length a) = (left, right)"
  shows "mset left + mset right = mset (a @ b) \<and> length left = length a"
proof -
  let ?pool = "a @ b" and ?order = "fst (G (length (a @ b)) s)"
  from assms(1) have order: "distinct ?order" "set ?order = {..<length ?pool}" by (auto simp: shuffles_def)
  then have "length ?order = length ?pool" by (metis card_lessThan distinct_card)
  moreover have "mset left + mset right = mset (map ((!) ?pool) ?order)"
    using assms(2) by (auto simp: relabelled_def simp flip: mset_append map_append)
  moreover have "mset ?order = mset [0..<length ?pool]"
    using mset_set_set[OF order(1)] order(2) by (simp add: atLeast0LessThan)
  then have "mset (map ((!) ?pool) ?order) = mset (map ((!) ?pool) [0..<length ?pool])" by (simp only: mset_map)
  moreover have "mset (map ((!) ?pool) [0..<length ?pool]) = mset ?pool" by (simp only: map_nth)
  ultimately have "mset left + mset right = mset ?pool" by (simp only:)
  with \<open>length ?order = length ?pool\<close> assms(2) show ?thesis by (auto simp: relabelled_def)
qed

end
