(* ===== verification/Estimate.thy ===== *)
theory Estimate
  imports Sampling
begin

text \<open>
  The dwell families (\<open>stats/tiergen/stats/estimate.py\<close>: the three estimators, the choice between them).
  Floating point is a parameter: how a sum, difference, product or quotient is rounded, the logarithm and the power
  of \<open>math\<close> and of numpy, the square root and numpy's sum of an array. Python's own operators raise where they
  do: a division by zero, a logarithm of nothing positive, a power that overflows. Zeros are unsigned.
  The intervals and the bootstrap are left out.
\<close>

section \<open>Floating point\<close>

datatype fit_error = FitLoop agent_error | ZeroDivision | MathDomain | MathOverflow | NotReal | NoFamily string | NoFits

record float_ops =
  fo_round :: "rat \<Rightarrow> pyfloat"
  fo_log :: "pyfloat \<Rightarrow> pyfloat"
  fo_pow :: "pyfloat \<Rightarrow> pyfloat \<Rightarrow> pyfloat"
  fo_np_log :: "pyfloat \<Rightarrow> pyfloat"
  fo_np_pow :: "pyfloat \<Rightarrow> pyfloat \<Rightarrow> pyfloat"
  fo_sqrt :: "pyfloat \<Rightarrow> pyfloat"
  fo_sum :: "pyfloat list \<Rightarrow> pyfloat"

definition rounded :: "float_ops \<Rightarrow> pyfloat \<Rightarrow> pyfloat" where
  "rounded F x = (case x of Fin q \<Rightarrow> fo_round F q | _ \<Rightarrow> x)"

definition same_sign :: "pyfloat \<Rightarrow> pyfloat \<Rightarrow> bool" where
  "same_sign x y \<longleftrightarrow> fl_lt x (Fin 0) = fl_lt y (Fin 0)"

definition fl_mul :: "pyfloat \<Rightarrow> pyfloat \<Rightarrow> pyfloat" where
  "fl_mul x y =
     (case (x, y) of
        (NaN, _) \<Rightarrow> NaN
      | (_, NaN) \<Rightarrow> NaN
      | (Fin a, Fin b) \<Rightarrow> Fin (a * b)
      | _ \<Rightarrow> if x = Fin 0 \<or> y = Fin 0 then NaN else if same_sign x y then PInf else NInf)"

definition fl_div :: "pyfloat \<Rightarrow> pyfloat \<Rightarrow> pyfloat" where
  "fl_div x y =
     (case (x, y) of
        (NaN, _) \<Rightarrow> NaN
      | (_, NaN) \<Rightarrow> NaN
      | (Fin a, Fin b) \<Rightarrow> if b \<noteq> 0 then Fin (a / b) else if a = 0 then NaN else if 0 < a then PInf else NInf
      | (Fin _, _) \<Rightarrow> Fin 0
      | (_, Fin _) \<Rightarrow> if same_sign x y then PInf else NInf
      | _ \<Rightarrow> NaN)"

definition f_add :: "float_ops \<Rightarrow> pyfloat \<Rightarrow> pyfloat \<Rightarrow> pyfloat" where
  "f_add F x y = rounded F (fl_add x y)"

definition f_sub :: "float_ops \<Rightarrow> pyfloat \<Rightarrow> pyfloat \<Rightarrow> pyfloat" where
  "f_sub F x y = rounded F (fl_sub x y)"

definition f_mul :: "float_ops \<Rightarrow> pyfloat \<Rightarrow> pyfloat \<Rightarrow> pyfloat" where
  "f_mul F x y = rounded F (fl_mul x y)"

text \<open>An array divided elementwise never raises; Python's own division does.\<close>

definition f_div :: "float_ops \<Rightarrow> pyfloat \<Rightarrow> pyfloat \<Rightarrow> pyfloat" where
  "f_div F x y = rounded F (fl_div x y)"

definition quotient :: "float_ops \<Rightarrow> pyfloat \<Rightarrow> pyfloat \<Rightarrow> fit_error + pyfloat" where
  "quotient F x y = (if y = Fin 0 then Inl ZeroDivision else Inr (f_div F x y))"

definition math_log :: "float_ops \<Rightarrow> pyfloat \<Rightarrow> fit_error + pyfloat" where
  "math_log F x = (if fl_le x (Fin 0) then Inl MathDomain else Inr (fo_log F x))"

definition py_power :: "float_ops \<Rightarrow> pyfloat \<Rightarrow> pyfloat \<Rightarrow> fit_error + pyfloat" where
  "py_power F x y =
     (if x = Fin 0 \<and> fl_lt y (Fin 0) then Inl ZeroDivision
      else if fl_lt x (Fin 0) then Inl NotReal
      else let r = fo_pow F x y
           in if fl_isfinite x \<and> fl_isfinite y \<and> \<not> fl_isfinite r then Inl MathOverflow else Inr r)"

text \<open>\<open>max(x, y)\<close> is its first argument unless the second is greater.\<close>

definition py_max :: "pyfloat \<Rightarrow> pyfloat \<Rightarrow> pyfloat" where
  "py_max x y = (if fl_lt x y then y else x)"

section \<open>numpy's mean and deviation\<close>

definition np_mean :: "float_ops \<Rightarrow> pyfloat list \<Rightarrow> pyfloat" where
  "np_mean F xs = f_div F (fo_sum F xs) (Fin (of_nat (length xs)))"

definition np_std :: "float_ops \<Rightarrow> pyfloat list \<Rightarrow> pyfloat" where
  "np_std F xs = (let m = np_mean F xs
     in fo_sqrt F (np_mean F (map (\<lambda>x. let d = f_sub F x m in f_mul F d d) xs)))"

section \<open>The families\<close>

record dwell =
  dw_family :: string
  dw_params :: "pyfloat list"
  dw_loglik :: pyfloat
  dw_n :: nat

definition aic :: "float_ops \<Rightarrow> dwell \<Rightarrow> pyfloat" where
  "aic F d =
     (let k = (if dw_family d = ''exponential'' then 1
        else if dw_family d = ''lognormal'' \<or> dw_family d = ''weibull'' then 2 else dw_n d)
      in f_sub F (Fin (of_nat (2 * k))) (f_mul F (Fin 2) (dw_loglik d)))"

definition fit_exponential :: "float_ops \<Rightarrow> pyfloat list \<Rightarrow> fit_error + dwell" where
  "fit_exponential F x =
     (let mean = np_mean F x
      in rbind (math_log F mean) (\<lambda>l.
        Inr \<lparr>dw_family = ''exponential'', dw_params = [mean],
          dw_loglik = f_mul F (Fin (- of_nat (length x))) (f_add F l (Fin 1)), dw_n = length x\<rparr>))"

text \<open>\<open>math.sqrt(2 * math.pi)\<close>\<close>

definition root_two_pi :: pyfloat where
  "root_two_pi = Fin (25066282746310002 / 10000000000000000)"

definition fit_lognormal :: "float_ops \<Rightarrow> pyfloat list \<Rightarrow> fit_error + dwell" where
  "fit_lognormal F x =
     (let logs = map (fo_np_log F) x; mu = np_mean F logs; sigma = np_std F logs; n = Fin (of_nat (length x))
      in if sigma = Fin 0
         then Inr \<lparr>dw_family = ''lognormal'', dw_params = [mu, Fin 0], dw_loglik = NInf, dw_n = length x\<rparr>
         else rbind (math_log F (f_mul F sigma root_two_pi)) (\<lambda>l.
           Inr \<lparr>dw_family = ''lognormal'', dw_params = [mu, sigma],
             dw_loglik = f_sub F (f_sub F (fl_neg (fo_sum F logs)) (f_mul F n l)) (f_div F n (Fin 2)), dw_n = length x\<rparr>))"

text \<open>One step of Newton's method on the shape.\<close>

definition newton_step :: "float_ops \<Rightarrow> pyfloat list \<Rightarrow> pyfloat list \<Rightarrow> pyfloat \<Rightarrow> pyfloat \<Rightarrow> fit_error + pyfloat" where
  "newton_step F x logs mean_log k =
     (let xk = map (\<lambda>v. fo_np_pow F v k) x;
          xkl = map (\<lambda>(a, b). f_mul F a b) (zip xk logs);
          s0 = fo_sum F xk; s1 = fo_sum F xkl; s2 = fo_sum F (map (\<lambda>(a, b). f_mul F a b) (zip xkl logs))
      in rbind (quotient F s1 s0) (\<lambda>ratio. rbind (quotient F (Fin 1) k) (\<lambda>inverse.
         rbind (quotient F (f_sub F (f_mul F s2 s0) (f_mul F s1 s1)) (f_mul F s0 s0)) (\<lambda>spread.
         rbind (quotient F (Fin 1) (f_mul F k k)) (\<lambda>square.
         rbind (quotient F (f_sub F (f_sub F ratio inverse) mean_log) (f_add F spread square)) (\<lambda>step.
           Inr (py_max (f_sub F k step) (Fin (1 / 1000)))))))))"

text \<open>At most \<open>iterations\<close> steps, fewer when one moves the shape by less than \<open>1e-10\<close>.\<close>

fun newton :: "float_ops \<Rightarrow> pyfloat list \<Rightarrow> pyfloat list \<Rightarrow> pyfloat \<Rightarrow> nat \<Rightarrow> pyfloat \<Rightarrow> fit_error + pyfloat" where
  "newton F x logs mean_log 0 k = Inr k"
| "newton F x logs mean_log (Suc n) k = rbind (newton_step F x logs mean_log k) (\<lambda>k'.
     if fl_lt (fl_abs (f_sub F k' k)) (Fin (1 / 10000000000)) then Inr k' else newton F x logs mean_log n k')"

definition fit_weibull :: "float_ops \<Rightarrow> nat \<Rightarrow> pyfloat list \<Rightarrow> fit_error + dwell" where
  "fit_weibull F iterations x =
     (let logs = map (fo_np_log F) x; n = Fin (of_nat (length x))
      in rbind (newton F x logs (np_mean F logs) iterations (Fin 1)) (\<lambda>k.
         rbind (quotient F (Fin 1) k) (\<lambda>inverse.
         rbind (py_power F (np_mean F (map (\<lambda>v. fo_np_pow F v k) x)) inverse) (\<lambda>scale.
         rbind (math_log F k) (\<lambda>log_k. rbind (math_log F scale) (\<lambda>log_scale.
           let scaled = map (\<lambda>v. fo_np_pow F (f_div F v scale) k) x
           in Inr \<lparr>dw_family = ''weibull'', dw_params = [k, scale],
                dw_loglik = f_sub F (f_add F (f_sub F (f_mul F n log_k) (f_mul F (f_mul F n k) log_scale))
                  (f_mul F (f_sub F k (Fin 1)) (fo_sum F logs))) (fo_sum F scaled), dw_n = length x\<rparr>))))))"

definition families :: "(string, float_ops \<Rightarrow> pyfloat list \<Rightarrow> fit_error + dwell) dict" where
  "families = [(''exponential'', fit_exponential), (''lognormal'', fit_lognormal), (''weibull'', \<lambda>F. fit_weibull F 100)]"

text \<open>\<open>min(fits, key=...)\<close>: the first that no other is less than; a \<open>nan\<close> is less than nothing.\<close>

definition lesser :: "float_ops \<Rightarrow> dwell \<Rightarrow> dwell \<Rightarrow> dwell" where
  "lesser F d best = (if fl_lt (aic F d) (aic F best) then d else best)"

definition fit_dwell :: "float_ops \<Rightarrow> string list \<Rightarrow> rat list \<Rightarrow> fit_error + dwell" where
  "fit_dwell F names samples =
     (let x = map Fin (filter (\<lambda>v. 0 < v) samples)
      in if length x < 5 then Inr \<lparr>dw_family = ''empirical'', dw_params = x, dw_loglik = NaN, dw_n = length x\<rparr>
         else rbind (rmap (\<lambda>name. rbind (or_raise (NoFamily name) (dget families name)) (\<lambda>fit. fit F x)) names) (\<lambda>fits.
           if fits = [] then Inl NoFits else Inr (fold (lesser F) (tl fits) (hd fits))))"

section \<open>What is chosen\<close>

lemma lesser_member: "fold (lesser F) ds d \<in> insert d (set ds)"
  by (induction ds arbitrary: d) (auto simp: lesser_def)

text \<open>Nothing is fitted to fewer than five gaps; otherwise the fit is one of a family asked for, and of the number
  of positive gaps.\<close>

lemma family_fits:
  assumes "dget families name = Some fit" "fit F x = Inr d"
  shows "dw_family d = name \<and> dw_n d = length x"
  using assms by (auto simp: families_def fit_exponential_def fit_lognormal_def fit_weibull_def Let_def rbind_Inr_iff
    split: if_splits)

lemma fit_dwell_chooses:
  assumes "fit_dwell F names samples = Inr d"
  shows "dw_n d = length (filter (\<lambda>v. 0 < v) samples)
    \<and> (if dw_n d < 5 then dw_family d = ''empirical'' \<and> dw_params d = map Fin (filter (\<lambda>v. 0 < v) samples)
       else dw_family d \<in> set names)"
proof (cases "length (filter (\<lambda>v. 0 < v) samples) < 5")
  case True
  with assms show ?thesis by (auto simp: fit_dwell_def Let_def)
next
  case False
  let ?x = "map Fin (filter (\<lambda>v. 0 < v) samples)"
  from False assms obtain fits where fits:
    "rmap (\<lambda>name. rbind (or_raise (NoFamily name) (dget families name)) (\<lambda>fit. fit F ?x)) names = Inr fits"
    "fits \<noteq> []" "d = fold (lesser F) (tl fits) (hd fits)"
    by (auto simp: fit_dwell_def Let_def rbind_Inr_iff split: if_splits)
  from lesser_member[of F "tl fits" "hd fits"] fits(2,3) have "d \<in> set fits" by (cases fits) auto
  with rmap_in[OF fits(1)] obtain name where "name \<in> set names"
    "rbind (or_raise (NoFamily name) (dget families name)) (\<lambda>fit. fit F ?x) = Inr d" by blast
  with False show ?thesis by (auto simp: rbind_Inr_iff or_raise_def dest!: family_fits split: option.splits)
qed

lemma fit_dwell_raises:
  "fit_dwell F names samples = Inl e \<Longrightarrow> 5 \<le> length (filter (\<lambda>v. 0 < v) samples)"
  by (auto simp: fit_dwell_def Let_def not_less split: if_splits)

lemma not_less_trans:
  "x \<noteq> NaN \<Longrightarrow> y \<noteq> NaN \<Longrightarrow> z \<noteq> NaN \<Longrightarrow> \<not> fl_lt x y \<Longrightarrow> \<not> fl_lt y z \<Longrightarrow> \<not> fl_lt x z"
  by (cases x; cases y; cases z) auto

lemma not_less_self: "\<not> fl_lt x x"
  by (cases x) auto

lemma less_not_less: "fl_lt x y \<Longrightarrow> \<not> fl_lt y x"
  by (cases x; cases y) auto

text \<open>None of the fits has a lesser criterion than the one chosen, where every criterion is a number.\<close>

lemma lesser_least:
  assumes "\<forall>d\<in>insert d (set ds). aic F d \<noteq> NaN"
  shows "\<forall>d'\<in>insert d (set ds). \<not> fl_lt (aic F d') (aic F (fold (lesser F) ds d))"
  using assms
proof (induction ds arbitrary: d)
  case (Cons e ds)
  let ?b = "lesser F e d"
  have b: "?b \<in> {d, e}" "\<not> fl_lt (aic F d) (aic F ?b)" "\<not> fl_lt (aic F e) (aic F ?b)"
    by (auto simp: lesser_def not_less_self less_not_less)
  with Cons have rest: "\<forall>d'\<in>insert ?b (set ds). \<not> fl_lt (aic F d') (aic F (fold (lesser F) ds ?b))" by auto
  have number: "aic F (fold (lesser F) ds ?b) \<noteq> NaN" "aic F ?b \<noteq> NaN"
    using lesser_member[of F ds ?b] b(1) Cons.prems by auto
  have "\<not> fl_lt (aic F d') (aic F (fold (lesser F) ds ?b))" if "d' \<in> {d, e}" for d'
    using not_less_trans[OF _ number(2,1), of "aic F d'"] that b(2,3) rest Cons.prems by auto
  with rest show ?case by auto
qed (simp add: not_less_self)

section \<open>Equal gaps\<close>

text \<open>Five gaps of half a second. Every step doubles the shape, until the powers of the gaps are too small for a
  double and the estimator divides by zero. Arithmetic here is exact but for such underflow, and any number does for the logarithm of a half.\<close>

definition underflow :: "rat \<Rightarrow> pyfloat" where
  "underflow q = (if \<bar>q\<bar> \<le> 1 / 2 ^ 1075 then Fin 0 else Fin q)"

definition exact_ops :: float_ops where
  "exact_ops = \<lparr>fo_round = underflow, fo_log = (\<lambda>_. Fin (- 1)), fo_pow = (\<lambda>x y. underflow (num x ^ nat \<lfloor>num y\<rfloor>)),
     fo_np_log = (\<lambda>_. Fin (- 1)), fo_np_pow = (\<lambda>x y. underflow (num x ^ nat \<lfloor>num y\<rfloor>)), fo_sqrt = id,
     fo_sum = fl_sum\<rparr>"

lemma underflow_exact: "1 / 2 ^ 1075 < \<bar>q\<bar> \<Longrightarrow> underflow q = Fin q"
  by (simp add: underflow_def)

definition halves :: "pyfloat list" where
  "halves = replicate 5 (Fin (1 / 2))"

definition half_logs :: "pyfloat list" where
  "half_logs = replicate 5 (Fin (- 1))"

lemma five: "halves = [Fin (1 / 2), Fin (1 / 2), Fin (1 / 2), Fin (1 / 2), Fin (1 / 2)]"
  "half_logs = [Fin (- 1), Fin (- 1), Fin (- 1), Fin (- 1), Fin (- 1)]"
  by (simp_all add: halves_def half_logs_def numeral_eq_Suc)

lemma newton_doubles:
  assumes "1 \<le> m" "m \<le> 512"
  shows "newton_step exact_ops halves half_logs (Fin (- 1)) (Fin (of_nat m)) = Inr (Fin (of_nat (2 * m)))"
proof -
  obtain y :: rat where y: "y = (1 / 2) ^ m" by blast
  obtain k :: rat where k: "k = of_nat m" by blast
  obtain e :: rat where e: "e = 1 / 2 ^ 1024" by blast
  have k_bounds: "1 \<le> k" "k \<le> 512" using assms by (simp_all add: k)
  have e_pos: "0 < e" by (simp add: e)
  have tiny: "1 / 2 ^ 1075 < e" "e < 1 / 262144" by (simp_all add: e)
  have "(1 / 2 :: rat) ^ 1024 \<le> (1 / 2) ^ (m + m)" using assms by (intro power_decreasing) simp_all
  then have yy: "e \<le> y * y" by (simp add: e y power_add power_one_over)
  have y01: "0 < y" "y \<le> 1" by (simp_all add: y power_le_one)
  then have "y * y \<le> y" by (simp add: mult_le_one)
  with yy have y_big: "e \<le> y" by linarith
  have "k * k \<le> 512 * 512" using k_bounds by (intro mult_mono) simp_all
  moreover have "1 \<le> k * k" using mult_mono[of 1 k 1 k] k_bounds by simp
  ultimately have inv: "1 / 262144 \<le> 1 / (k * k)" "1 \<le> k * k" by (simp_all add: field_simps)
  have "1 / 512 \<le> 1 / k" using k_bounds by (simp add: field_simps)
  then have inv_k: "1 / 262144 \<le> 1 / k" by linarith
  have u: "underflow q = Fin q" if "e \<le> \<bar>q\<bar>" for q
    using that tiny(1) by (intro underflow_exact) linarith
  have pow: "fo_np_pow exact_ops (Fin (1 / 2)) (Fin k) = Fin y"
    using y_big y01 by (simp add: exact_ops_def num_def k y[symmetric] u)
  have ops: "fo_round exact_ops = underflow" "fo_sum exact_ops = fl_sum" by (simp_all add: exact_ops_def)
  have r: "rounded exact_ops (Fin q) = Fin q" if "e \<le> \<bar>q\<bar>" for q using u[OF that] by (simp add: rounded_def ops)
  have r0: "rounded exact_ops (Fin 0) = Fin 0" by (simp add: rounded_def ops underflow_def)
  have big: "e \<le> \<bar>q\<bar>" if "1 / 262144 \<le> \<bar>q\<bar>" for q using that tiny(2) by linarith
  have ylog: "f_mul exact_ops (Fin y) (Fin (- 1)) = Fin (- y)" "f_mul exact_ops (Fin (- y)) (Fin (- 1)) = Fin y"
    using y_big y01 by (simp_all add: f_mul_def fl_mul_def r)
  have sums: "fl_sum [Fin a, Fin a, Fin a, Fin a, Fin a] = Fin (5 * a)" for a by (simp add: fl_sum_def)
  have q1: "quotient exact_ops (Fin (- 5 * y)) (Fin (5 * y)) = Inr (Fin (- 1))"
    using y01 tiny(2) by (simp add: quotient_def f_div_def fl_div_def r)
  have q2: "quotient exact_ops (Fin 1) (Fin k) = Inr (Fin (1 / k))" "quotient exact_ops (Fin 1) (Fin (k * k)) = Inr (Fin (1 / (k * k)))"
    using k_bounds inv inv_k big[of "1 / k"] big[of "1 / (k * k)"] by (simp_all add: quotient_def f_div_def fl_div_def r)
  have "e \<le> 25 * (y * y)" using yy e_pos by linarith
  then have r25: "rounded exact_ops (Fin (25 * (y * y))) = Fin (25 * (y * y))" by (intro r) simp
  have e25: "5 * y * (5 * y) = 25 * (y * y)" "- 5 * y * (- 5 * y) = 25 * (y * y)" by simp_all
  have prods: "f_mul exact_ops (Fin (5 * y)) (Fin (5 * y)) = Fin (25 * (y * y))"
     "f_mul exact_ops (Fin (- 5 * y)) (Fin (- 5 * y)) = Fin (25 * (y * y))" "f_mul exact_ops (Fin k) (Fin k) = Fin (k * k)"
    unfolding f_mul_def fl_mul_def prod.case pyfloat.case e25 using r25 inv big[of "k * k"] by (simp_all add: r)
  have spread: "quotient exact_ops (f_sub exact_ops (Fin (25 * (y * y))) (Fin (25 * (y * y)))) (Fin (25 * (y * y))) = Inr (Fin 0)"
    using y01 by (simp add: f_sub_def quotient_def f_div_def fl_div_def r0)
  have f: "f_sub exact_ops (f_sub exact_ops (Fin (- 1)) (Fin (1 / k))) (Fin (- 1)) = Fin (- (1 / k))"
    proof -
    have "1 / 262144 \<le> \<bar>- 1 - 1 / k\<bar>" "1 / 262144 \<le> \<bar>- (1 / k)\<bar>" using inv_k by linarith+
    from this[THEN big, THEN r] show ?thesis by (simp add: f_sub_def)
  qed
  have df: "f_add exact_ops (Fin 0) (Fin (1 / (k * k))) = Fin (1 / (k * k))"
    using inv big[of "1 / (k * k)"] by (simp add: f_add_def r)
  have step: "quotient exact_ops (Fin (- (1 / k))) (Fin (1 / (k * k))) = Inr (Fin (- k))"
    using k_bounds big[of "- k"] by (simp add: quotient_def f_div_def fl_div_def r)
  have last: "py_max (f_sub exact_ops (Fin k) (Fin (- k))) (Fin (1 / 1000)) = Fin (2 * k)"
    using k_bounds big[of "2 * k"] by (simp add: f_sub_def r py_max_def)
  have two_k: "Fin (of_nat (2 * m)) = Fin (2 * k)" by (simp add: k)
  show ?thesis
    unfolding newton_step_def Let_def five k[symmetric] two_k
    by (simp add: pow ylog ops sums q1[simplified] q2 prods[simplified] spread f df step last)
qed

text \<open>From shape 1 on, ten steps reach 1024, where the square of the sum is no double any more.\<close>

lemma newton_reaches: "n \<le> 10 \<Longrightarrow> newton exact_ops halves half_logs (Fin (- 1)) (i + n) (Fin 1)
    = newton exact_ops halves half_logs (Fin (- 1)) i (Fin (of_nat (2 ^ n)))"
proof (induction n arbitrary: i)
  case (Suc n)
  have m: "1 \<le> (2 :: nat) ^ n" "(2 :: nat) ^ n \<le> 512"
    using Suc.prems power_increasing[of n 9 "2 :: nat"] by simp_all
  have sub: "f_sub exact_ops (Fin (of_nat (2 * 2 ^ n))) (Fin (of_nat (2 ^ n))) = Fin (of_nat (2 ^ n))"
    proof -
    have "1 / 2 ^ 1075 < \<bar>of_nat (2 ^ n) :: rat\<bar>"
      by (rule less_le_trans[of _ 1]) (simp_all add: self_le_power)
    from underflow_exact[OF this] show ?thesis by (simp add: f_sub_def rounded_def exact_ops_def)
  qed
  have far: "\<not> fl_lt (fl_abs (Fin (of_nat (2 ^ n)))) (Fin (1 / 10000000000))"
    proof -
    have "1 \<le> (2 :: rat) ^ n" by simp
    then have "\<not> (2 :: rat) ^ n < 1 / 10000000000" by linarith
    then show ?thesis by simp
  qed
  from Suc.IH[of "Suc i"] Suc.prems have "newton exact_ops halves half_logs (Fin (- 1)) (i + Suc n) (Fin 1)
      = newton exact_ops halves half_logs (Fin (- 1)) (Suc i) (Fin (of_nat (2 ^ n)))" by simp
  also have "\<dots> = newton exact_ops halves half_logs (Fin (- 1)) i (Fin (of_nat (2 * 2 ^ n)))"
    using far unfolding newton.simps newton_doubles[OF m] rbind_simps sub by (simp only: if_False)
  finally show ?case by simp
qed simp

lemma newton_divides: "newton_step exact_ops halves half_logs (Fin (- 1)) (Fin 1024) = Inl ZeroDivision"
proof -
  have "underflow ((1 / 2) ^ 1024) = Fin (1 / 2 ^ 1024)" by (simp add: underflow_def power_one_over)
  then have pow: "fo_np_pow exact_ops (Fin (1 / 2)) (Fin 1024) = Fin (1 / 2 ^ 1024)"
    by (simp add: exact_ops_def num_def)
  have sums: "fo_sum exact_ops [Fin a, Fin a, Fin a, Fin a, Fin a] = Fin (5 * a)" for a by (simp add: fl_sum_def exact_ops_def)
  have square: "f_mul exact_ops (Fin (5 * (1 / 2 ^ 1024))) (Fin (5 * (1 / 2 ^ 1024))) = Fin 0"
    by (simp add: f_mul_def fl_mul_def rounded_def exact_ops_def underflow_def)
  have "quotient exact_ops x (Fin 0) = Inl ZeroDivision" for x by (simp add: quotient_def)
  moreover have "quotient exact_ops x (Fin (5 * (1 / 2 ^ 1024))) = Inr (f_div exact_ops x (Fin (5 * (1 / 2 ^ 1024))))"
    "quotient exact_ops x (Fin 1024) = Inr (f_div exact_ops x (Fin 1024))" for x
    by (simp_all add: quotient_def)
  ultimately show ?thesis
    unfolding newton_step_def Let_def five list.map zip_Cons_Cons zip_Nil prod.case pow sums square by (simp only: rbind_simps)
qed

lemma equal_gaps_divide: "fit_dwell exact_ops (map fst families) (replicate 5 (1 / 2)) = Inl ZeroDivision"
proof -
  have logs: "map (fo_np_log exact_ops) halves = half_logs" "np_mean exact_ops half_logs = Fin (- 1)"
    unfolding five by (simp_all add: exact_ops_def np_mean_def fl_sum_def f_div_def fl_div_def rounded_def underflow_def)
  have "newton exact_ops halves half_logs (Fin (- 1)) 100 (Fin 1) = newton exact_ops halves half_logs (Fin (- 1)) (Suc 89) (Fin 1024)"
    using newton_reaches[of 10 90] by simp
  also have "\<dots> = Inl ZeroDivision" unfolding newton.simps newton_divides by simp
  finally have weibull: "fit_weibull exact_ops 100 halves = Inl ZeroDivision"
    by (simp add: fit_weibull_def Let_def logs)
  have x: "map Fin (filter (\<lambda>v. 0 < v) (replicate 5 (1 / 2))) = halves" by (simp add: halves_def filter_replicate)
  have "np_mean exact_ops halves = Fin (1 / 2)"
    unfolding five by (simp add: exact_ops_def np_mean_def fl_sum_def f_div_def fl_div_def rounded_def underflow_def)
  then have "\<exists>d. fit_exponential exact_ops halves = Inr d" by (simp add: fit_exponential_def math_log_def Let_def)
  moreover have "f_sub exact_ops (Fin (- 1)) (Fin (- 1)) = Fin 0" "f_mul exact_ops (Fin 0) (Fin 0) = Fin 0"
    by (simp_all add: f_sub_def f_mul_def fl_mul_def rounded_def exact_ops_def underflow_def)
  then have "np_std exact_ops half_logs = Fin 0"
    unfolding np_std_def Let_def logs
    by (simp add: five np_mean_def f_div_def fl_div_def rounded_def exact_ops_def underflow_def fl_sum_def)
  then have "\<exists>d. fit_lognormal exact_ops halves = Inr d" by (simp add: fit_lognormal_def logs Let_def)
  ultimately obtain d d' where "fit_exponential exact_ops halves = Inr d" "fit_lognormal exact_ops halves = Inr d'" by blast
  with weibull show ?thesis
    unfolding fit_dwell_def Let_def x by (simp add: halves_def families_def or_raise_def)
qed

end
