(* ===== verification/Fit.thy ===== *)
theory Fit
  imports Streams Agent_Runs Estimate
begin

text \<open>
  One behaviour fitted from its instances' streams (\<open>fit/tiergen/fit/behaviour.py\<close>, the transition
  counts of \<open>stats/tiergen/stats/estimate.py\<close>), and the fitted scenario (\<open>emit.py\<close>). Numbers are exact where the
  arrays of numpy hold floats, but in the dwell estimators, which are their own theory and may raise. The Wilson
  intervals, which only the report prints, are left out.
\<close>

section \<open>The operational clock\<close>

function operational :: "(rat \<Rightarrow> int) \<Rightarrow> rat list \<Rightarrow> rat \<Rightarrow> rat \<Rightarrow> rat \<Rightarrow> agent_error + rat" where
  "operational tz curve t until passed =
     (if t < until
      then let step = hour_step tz t until; h = hour_of (tz t)
           in if h < length curve then operational tz curve (t + step) until (passed + step * curve ! h)
              else Inl IndexErr
      else Inr passed)"
  by pat_completeness auto
termination
  by (relation "measure (\<lambda>(tz, curve, t, until, passed). micros_left t until)") (auto simp: micros_left_step)

declare operational.simps [simp del]

section \<open>The rate curve\<close>

record rate_curve =
  rc_values :: "rat list"
  rc_observed :: "bool list"
  rc_counts :: "rat list"
  rc_exposure :: "rat list"

text \<open>The rates of the hours with exposure; the others are \<open>nan\<close> to numpy, and its peak and mean pass over them.\<close>

definition hour_rates :: "rat list \<Rightarrow> rat list \<Rightarrow> rat option list" where
  "hour_rates counts exposure = map (\<lambda>(c, e). if 0 < e then Some (c / e) else None) (zip counts exposure)"

definition peak_rate :: "rat option list \<Rightarrow> rat" where
  "peak_rate rates = (let seen = List.map_filter id rates
     in if seen \<noteq> [] \<and> 0 < Max (set seen) then Max (set seen) else 1)"

definition fill_rate :: "rat option list \<Rightarrow> rat" where
  "fill_rate values = (let seen = List.map_filter id values
     in if seen \<noteq> [] then sum_list seen / of_nat (length seen) else 1)"

definition fit_curve :: "event_stream list \<Rightarrow> (rat \<Rightarrow> int) \<Rightarrow> rate_curve" where
  "fit_curve found tz =
     (let (counts, exposure) = hourly found tz;
          rates = hour_rates counts exposure;
          peak = peak_rate rates;
          scaled = map (map_option (\<lambda>r. r / peak)) rates;
          fill = fill_rate scaled
      in \<lparr>rc_values = map (\<lambda>v. case v of Some x \<Rightarrow> x | None \<Rightarrow> fill) scaled,
          rc_observed = map (\<lambda>e. 0 < e) exposure, rc_counts = counts, rc_exposure = exposure\<rparr>)"

section \<open>Transitions\<close>

definition index_dict :: "string list \<Rightarrow> (string, nat) dict" where
  "index_dict states = dict_of (map (\<lambda>(i, s). (s, i)) (enumerate0 states))"

definition add_pair :: "(string, nat) dict \<Rightarrow> (string \<times> string) \<times> nat \<Rightarrow> nat list list \<Rightarrow> nat list list" where
  "add_pair index entry counts =
     (case entry of ((a, b), n) \<Rightarrow>
        (case (dget index a, dget index b) of
           (Some i, Some j) \<Rightarrow> counts[i := (counts ! i)[j := counts ! i ! j + n]]
         | _ \<Rightarrow> counts))"

definition transition_counts :: "event_stream list \<Rightarrow> string list \<Rightarrow> nat list list" where
  "transition_counts found states =
     fold (add_pair (index_dict states)) (transitions found) (replicate (length states) (replicate (length states) 0))"

text \<open>\<open>None\<close> for \<open>nan\<close>: a row never left has no probabilities.\<close>

definition row_probabilities :: "nat list \<Rightarrow> rat option list" where
  "row_probabilities row = map (\<lambda>n. if sum_list row \<noteq> 0 then Some (of_nat n / of_nat (sum_list row)) else None) row"

record fitted =
  fi_kind :: string
  fi_behaviour :: string
  fi_states :: "string list"
  fi_initial :: "rat option list"
  fi_counts :: "nat list list"
  fi_dwell :: "dwell list"
  fi_curve :: rate_curve
  fi_instances :: nat
  fi_events :: nat
  fi_placeholders :: "msg list"

definition first_marks :: "event_stream list \<Rightarrow> string list" where
  "first_marks found = map (\<lambda>s. hd (es_marks s)) (filter (\<lambda>s. es_times s \<noteq> []) found)"

definition fit_initial :: "event_stream list \<Rightarrow> string list \<Rightarrow> rat option list" where
  "fit_initial found states = (let firsts = first_marks found
     in map (\<lambda>s. if firsts \<noteq> [] then Some (of_nat (count_list firsts s) / of_nat (length firsts)) else None) states)"

definition gap_times :: "event_stream \<Rightarrow> (string \<times> rat \<times> rat) list" where
  "gap_times s = zip (butlast (es_marks s)) (zip (butlast (es_times s)) (tl (es_times s)))"

definition gaps_by_state :: "event_stream list \<Rightarrow> string list \<Rightarrow> rat list \<Rightarrow> (rat \<Rightarrow> int) \<Rightarrow> agent_error + (string, rat list) dict" where
  "gaps_by_state found states curve tz =
     rfold (\<lambda>(mark, t, until) d.
       if mark \<in> set (dkeys d) then rbind (operational tz curve t until 0) (\<lambda>x. Inr (dappend mark x d)) else Inr d)
       (concat (map gap_times found)) (dict_of (map (\<lambda>s. (s, [])) states))"

definition placeholders :: "string list \<Rightarrow> nat list list \<Rightarrow> dwell list \<Rightarrow> msg list" where
  "placeholders states counts dwells =
     map (\<lambda>(i, s). [L ''transitions from '', S s, L '' never observed: uniform row''])
       (filter (\<lambda>(i, s). sum_list (counts ! i) = 0) (enumerate0 states))
     @ map (\<lambda>(s, d). [L ''dwell of '', S s, L ('' never observed: exponential with the window'' @ [CHR 0x27] @ ''s length as mean'')])
       (filter (\<lambda>(s, d). dw_n d = 0) (zip states dwells))"

definition from_loop :: "agent_error + 'a \<Rightarrow> fit_error + 'a" where
  "from_loop r = (case r of Inl e \<Rightarrow> Inl (FitLoop e) | Inr x \<Rightarrow> Inr x)"

definition all_families :: "string list" where
  "all_families = dkeys families"

definition fit_behaviour :: "float_ops \<Rightarrow> string \<Rightarrow> string \<Rightarrow> string list
    \<Rightarrow> event_stream list \<Rightarrow> (rat \<Rightarrow> int) \<Rightarrow> fit_error + fitted" where
  "fit_behaviour F kind beh states found tz =
     (let curve = fit_curve found tz; counts = transition_counts found states
      in rbind (from_loop (gaps_by_state found states (rc_values curve) tz)) (\<lambda>gaps.
         rbind (rmap (\<lambda>s. fit_dwell F all_families (dget_or gaps s [])) states) (\<lambda>dwells.
           Inr \<lparr>fi_kind = kind, fi_behaviour = beh, fi_states = states, fi_initial = fit_initial found states,
                fi_counts = counts, fi_dwell = dwells, fi_curve = curve, fi_instances = length found,
                fi_events = sum_list (map (\<lambda>s. length (es_times s)) found),
                fi_placeholders = placeholders states counts dwells\<rparr>)))"

text \<open>What is written for the agent: a row never left is uniform, a dwell never observed exponential with
  the length of the window as its mean.\<close>

definition fitted_rows :: "fitted \<Rightarrow> rat list list" where
  "fitted_rows f = map (\<lambda>row. if sum_list row = 0 then map (\<lambda>_. 1 / of_nat (length (fi_states f))) row
     else map (\<lambda>n. of_nat n / of_nat (sum_list row)) row) (fi_counts f)"

definition fitted_dwells :: "fitted \<Rightarrow> distribution list" where
  "fitted_dwells f =
     (let hours = sum_list (rc_exposure (fi_curve f)) / of_nat (max (fi_instances f) 1); window = max 1 (hours * 3600)
      in map (\<lambda>d. if dw_n d = 0 then \<lparr>dist_family = ''exponential'', dist_params = Inline [Fin window]\<rparr>
           else \<lparr>dist_family = dw_family d, dist_params = Inline (dw_params d)\<rparr>) (fi_dwell f))"

section \<open>The fitted scenario\<close>

definition fitted_stem :: "string \<Rightarrow> string \<Rightarrow> string" where
  "fitted_stem kind beh = kind @ ''.'' @ beh"

definition part_name :: "string \<Rightarrow> string \<Rightarrow> string \<Rightarrow> string" where
  "part_name kind beh part = fitted_stem kind beh @ ''.'' @ part"

definition refer :: "(string \<times> string) list \<Rightarrow> string \<Rightarrow> behaviour \<Rightarrow> behaviour" where
  "refer fits kind b =
     (if (kind, beh_name b) \<in> set fits
      then let name = part_name kind (beh_name b)
           in b\<lparr>beh_process := \<lparr>sm_states = Res (name ''states''), sm_initial = Res (name ''initial''),
                 sm_transitions = Res (name ''transitions''), sm_dwell = Res (name ''dwell''), sm_rate = Some (name ''rate'')\<rparr>,
               beh_action_map := Res (name ''action_map'')\<rparr>
      else b)"

definition fit_role :: "string \<Rightarrow> sensor_spec \<Rightarrow> sensor_spec" where
  "fit_role sensor s = (if ss_name s = sensor then s\<lparr>ss_role := (if ss_role s = RoleLabel then RoleBoth else RoleFit)\<rparr> else s)"

definition fitted_scenario :: "scenario \<Rightarrow> (string \<times> string) list \<Rightarrow> string \<Rightarrow> scenario" where
  "fitted_scenario sc fits sensor = sc\<lparr>sc_name := sc_name sc @ ''_fitted'',
     sc_kinds := map (\<lambda>k. k\<lparr>kd_behaviours := map (refer fits (kd_name k)) (kd_behaviours k)\<rparr>) (sc_kinds sc),
     sc_sensors := map (fit_role sensor) (sc_sensors sc),
     sc_fit_provenance := (if list_ex (\<lambda>s. ss_name s = sensor) (sc_sensors sc) then Some (Res ''fit_provenance'') else None)\<rparr>"

section \<open>The clock of the fit is the clock of the run\<close>

text \<open>Local time as the loop reads it, of scenario seconds.\<close>

definition scenario_time :: "int \<Rightarrow> rat \<Rightarrow> int" where
  "scenario_time start t = start + round_even (t * 1000000)"

lemma operational_step:
  assumes "t < until" "length curve = 24"
  shows "operational tz curve t until acc
    = operational tz curve (t + hour_step tz t until) until (acc + hour_step tz t until * curve ! hour_of (tz t))"
  using assms hour_of_bound[of "tz t"] by (subst operational.simps) (simp add: Let_def)

lemma operational_done: "until \<le> t \<Longrightarrow> operational tz curve t until acc = Inr acc"
  by (subst operational.simps) simp

lemma pass_operational:
  assumes "pass t limit start (Some c) factor elapsed left = Inr (e, l)" "length c = 24"
    "speeds_below (Some c) cap" "0 \<le> factor" "0 \<le> left" "elapsed \<le> limit"
  shows "\<exists>v. operational (scenario_time start) (map num c) (t + elapsed) (t + e) acc = Inr (acc + v) \<and> left - l = factor * v"
  using assms
proof (induction t limit start "Some c" factor elapsed left arbitrary: acc rule: pass.induct)
  case (1 t limit start factor elapsed left)
  let ?local = "start + round_even ((t + elapsed) * 1000000)"
  let ?tz = "scenario_time start"
  have local: "?tz (t + elapsed) = ?local" by (simp add: scenario_time_def)
  note unf = pass.simps[of t limit start "Some c" factor elapsed left]
  show ?case
  proof (cases "0 < left \<and> elapsed < limit")
    case False
    with "1.prems"(1) have "e = elapsed" "l = left" by (auto simp: unf)
    then show ?thesis by (intro exI[of _ 0]) (simp add: operational_done)
  next
    case True
    obtain m where mm: "m = num (c ! hour_of ?local)" by blast
    let ?rate = "factor * m"
    let ?b = "boundary ?local (limit - elapsed)"
    have m: "multiplier (Some c) ?local = Inr m" using "1.prems"(2) by (simp add: mm multiplier_def hour_of_bound)
    from True boundary_pos have b: "0 < ?b" "?b \<le> limit - elapsed" by auto
    have curve: "length (map num c) = 24" "map num c ! hour_of ?local = m"
      using "1.prems"(2) by (simp_all add: mm hour_of_bound)
    show ?thesis
    proof (cases "0 < ?rate \<and> left / ?rate \<le> ?b")
      case fin: True
      with "1.prems"(1) True m have e: "e = elapsed + left / ?rate" "l = 0"
        by (auto simp: unf pass.simps[of t limit start "Some c" factor "elapsed + left / ?rate" 0] Let_def)
      have pos: "0 < left / ?rate" using fin True by simp
      have step: "hour_step ?tz (t + elapsed) (t + e) = left / ?rate"
        using fin by (auto simp: hour_step_def local e(1) boundary_def)
      have "t + elapsed < t + e" using pos e(1) by simp
      from operational_step[OF this curve(1), of ?tz acc] have
        "operational ?tz (map num c) (t + elapsed) (t + e) acc = Inr (acc + left / ?rate * m)"
        unfolding step local curve(2) by (simp add: operational_done e(1))
      moreover have "left = factor * (left / ?rate * m)" using fin by auto
      ultimately show ?thesis using e(2) by (intro exI[of _ "left / ?rate * m"]) simp
    next
      case cont: False
      with "1.prems"(1) True m have p: "pass t limit start (Some c) factor (elapsed + ?b) (left - ?b * ?rate) = Inr (e, l)"
        by (auto simp: unf Let_def)
      have "0 \<le> ?rate" using multiplier_below[OF "1.prems"(3) m] "1.prems"(4) by simp
      have left: "0 \<le> left - ?b * ?rate"
      proof (cases "0 < ?rate")
        case True
        with cont have "?b < left / ?rate" by linarith
        then have "?b * ?rate < left" using True by (simp only: pos_less_divide_eq)
        then show ?thesis by linarith
      next
        case False
        with \<open>0 \<le> ?rate\<close> have "?rate = 0" by linarith
        with \<open>0 < left \<and> elapsed < limit\<close> show ?thesis by (simp only: mult_zero_right) simp
      qed
      have limit: "elapsed + ?b \<le> limit" using b by simp
      from pass_bounds[OF p "1.prems"(3,4) left limit] have e: "elapsed + ?b \<le> e" "e \<le> limit" by auto
      then have step: "hour_step ?tz (t + elapsed) (t + e) = ?b"
        by (auto simp: hour_step_def local boundary_def min_def)
      from True cont m have guard: "0 < left \<and> elapsed < limit" by blast
      from "1.hyps"(2)[OF guard refl m refl refl cont p "1.prems"(2-4) left limit]
      obtain v where v: "operational ?tz (map num c) (t + (elapsed + ?b)) (t + e) (acc + ?b * m) = Inr (acc + ?b * m + v)"
        "left - ?b * ?rate - l = factor * v" by blast
      have "t + elapsed < t + e" using e(1) b(1) by linarith
      from operational_step[OF this curve(1), of ?tz acc] v(1) have
        "operational ?tz (map num c) (t + elapsed) (t + e) acc = Inr (acc + (?b * m + v))"
        unfolding step local curve(2) by (simp add: add.assoc)
      moreover have "left - l = factor * (?b * m + v)" using v(2) by (simp add: algebra_simps)
      ultimately show ?thesis by blast
    qed
  qed
qed

text \<open>C33: The fit reads holding times off the clock the run kept: for a curve of 24 entries that is nowhere
  negative, the operational seconds the loop has let pass in some wall time are the speed factor times
  the operational seconds the fit finds in that wall time under the same curve.\<close>

theorem clocks_agree:
  assumes "advance wanted t limit start (Some c) factor = Inr (wall, passed)" "length c = 24"
    "speeds_below (Some c) cap" "0 \<le> factor" "0 \<le> wanted" "0 \<le> limit"
  shows "\<exists>v. operational (scenario_time start) (map num c) t (t + wall) 0 = Inr v \<and> passed = factor * v"
proof -
  from assms(1) obtain l where p: "pass t limit start (Some c) factor 0 wanted = Inr (wall, l)" "passed = wanted - max l 0"
    by (auto simp: advance_def rbind_Inr_iff)
  from pass_bounds[OF p(1) assms(3-6)] have "0 \<le> l" by simp
  with pass_operational[OF p(1) assms(2-6), of 0] p(2) show ?thesis by auto
qed

section \<open>What the fit writes can be run\<close>

text \<open>The fitted parts as the agent reads them back.\<close>

definition option_float :: "rat option \<Rightarrow> pyfloat" where
  "option_float x = (case x of None \<Rightarrow> NaN | Some q \<Rightarrow> Fin q)"

definition written :: "fitted \<Rightarrow> (string, resolved_action option) dict \<Rightarrow> resolved_behaviour" where
  "written f action_map =
     \<lparr>rb_name = fi_behaviour f, rb_states = fi_states f, rb_initial = map option_float (fi_initial f),
      rb_transitions = map (map Fin) (fitted_rows f), rb_dwell = fitted_dwells f,
      rb_rate = Some (map Fin (rc_values (fi_curve f))),
      rb_action_map = map (\<lambda>s. (s, case dget action_map s of None \<Rightarrow> None | Some a \<Rightarrow> a)) (fi_states f)\<rparr>"

definition nonneg24 :: "rat list \<Rightarrow> bool" where
  "nonneg24 xs \<longleftrightarrow> length xs = 24 \<and> (\<forall>x\<in>set xs. 0 \<le> x)"

lemma bump_nonneg: "nonneg24 xs \<Longrightarrow> 0 \<le> x \<Longrightarrow> nonneg24 (bump (hour_of t) x xs)"
  using hour_of_bound[of t] by (auto simp: nonneg24_def bump_def dest!: set_update_subset_insert[THEN subsetD])

lemma exposed_nonneg: "nonneg24 xs \<Longrightarrow> nonneg24 (exposed tz t until xs)"
proof (induction tz t until xs rule: exposed.induct)
  case (1 tz t until xs)
  show ?case
  proof (cases "t < until")
    case True
    then have "0 \<le> hour_step tz t until" using into_hour_bound[of "tz t"] by (simp add: hour_step_def)
    with 1 True show ?thesis by (subst exposed.simps) (simp add: Let_def bump_nonneg)
  next
    case False
    with 1 show ?thesis by (subst exposed.simps) simp
  qed
qed

lemma hourly_nonneg: "nonneg24 (fst (hourly found tz)) \<and> nonneg24 (snd (hourly found tz))"
  unfolding hourly_def
proof (rule fold_done[where Q = "\<lambda>ds acc. nonneg24 (fst acc) \<and> nonneg24 (snd acc)"])
  fix ds :: "event_stream list" and s :: event_stream and acc
  assume acc: "nonneg24 (fst acc) \<and> nonneg24 (snd acc)"
  have "nonneg24 (fold (\<lambda>t. bump (hour_of (tz t)) 1) ts xs)" if "nonneg24 xs" for ts xs
    using that by (induction ts arbitrary: xs) (auto simp: bump_nonneg)
  with acc exposed_nonneg show "nonneg24 (fst (case acc of (counts, exposure) \<Rightarrow>
        (count_hours tz s counts, exposed tz (fst (es_window s)) (snd (es_window s)) exposure)))
      \<and> nonneg24 (snd (case acc of (counts, exposure) \<Rightarrow>
        (count_hours tz s counts, exposed tz (fst (es_window s)) (snd (es_window s)) exposure)))"
    by (simp add: case_prod_unfold count_hours_def)
qed (simp add: nonneg24_def)

lemma mean_unit:
  assumes "\<forall>x\<in>set xs. 0 \<le> x \<and> x \<le> 1" "xs \<noteq> []"
  shows "0 \<le> sum_list xs / of_nat (length xs) \<and> sum_list xs / of_nat (length xs) \<le> (1 :: rat)"
proof -
  from assms(1) have "0 \<le> sum_list xs \<and> sum_list xs \<le> of_nat (length xs)" by (induction xs) auto
  with assms(2) show ?thesis by (auto simp: divide_le_eq)
qed

lemma map_filter_id: "x \<in> set (List.map_filter id xs) \<longleftrightarrow> Some x \<in> set xs"
  by (induction xs) (auto simp: List.map_filter_simps split: option.splits)

lemma fit_curve_unit: "length (rc_values (fit_curve found tz)) = 24 \<and> (\<forall>v\<in>set (rc_values (fit_curve found tz)). 0 \<le> v \<and> v \<le> 1)"
proof -
  obtain counts exposure where h: "hourly found tz = (counts, exposure)" by fastforce
  with hourly_nonneg[of found tz] have n: "nonneg24 counts" "nonneg24 exposure" by auto
  let ?rates = "hour_rates counts exposure" and ?scaled = "map (map_option (\<lambda>r. r / peak_rate (hour_rates counts exposure))) (hour_rates counts exposure)"
  have rate: "0 \<le> r" if "Some r \<in> set ?rates" for r
  proof -
    from that obtain c e where "(c, e) \<in> set (zip counts exposure)" "0 < e" "r = c / e"
      by (auto simp: hour_rates_def split: if_splits)
    with n(1) show ?thesis by (auto simp: nonneg24_def dest: set_zip_leftD)
  qed
  have top_rate: "r \<le> peak_rate ?rates" if r: "Some r \<in> set ?rates" for r
  proof -
    have seen: "r \<in> set (List.map_filter id ?rates)" using r by (auto simp: List.map_filter_def image_iff)
    show ?thesis
    proof (cases "0 < Max (set (List.map_filter id ?rates))")
      case True
      with seen show ?thesis by (auto simp: peak_rate_def Let_def)
    next
      case False
      have "r \<le> Max (set (List.map_filter id ?rates))" using seen by simp
      with False have "r \<le> 1" by linarith
      with False show ?thesis by (simp add: peak_rate_def Let_def)
    qed
  qed
  have peak: "0 < peak_rate ?rates" by (simp add: peak_rate_def Let_def)
  have unit: "0 \<le> x \<and> x \<le> 1" if "Some x \<in> set ?scaled" for x
  proof -
    from that obtain y where y: "y \<in> set ?rates" "Some x = map_option (\<lambda>r. r / peak_rate ?rates) y"
      unfolding set_map by blast
    from y(2) obtain r where "y = Some r" "x = r / peak_rate ?rates" by (cases y) simp_all
    with y(1) rate peak top_rate show ?thesis by simp
  qed
  have "0 \<le> fill_rate ?scaled \<and> fill_rate ?scaled \<le> 1"
  proof (cases "List.map_filter id ?scaled = []")
    case False
    have "\<forall>x\<in>set (List.map_filter id ?scaled). 0 \<le> x \<and> x \<le> 1"
    proof
      fix x assume "x \<in> set (List.map_filter id ?scaled)"
      then have "Some x \<in> set ?scaled" unfolding map_filter_id by simp
      then show "0 \<le> x \<and> x \<le> 1" by (rule unit)
    qed
    from mean_unit[OF this False] False show ?thesis by (simp only: fill_rate_def Let_def if_True not_False_eq_True)
  qed (simp add: fill_rate_def)
  moreover have "length ?rates = 24" using n by (simp add: hour_rates_def nonneg24_def)
  ultimately show ?thesis
    using unit rate top_rate peak by (auto simp: fit_curve_def h Let_def split: option.splits)
qed


definition square :: "nat \<Rightarrow> 'a list list \<Rightarrow> bool" where
  "square n m \<longleftrightarrow> length m = n \<and> list_all (\<lambda>row. length row = n) m"

lemma square_counts: "square (length states) (transition_counts found states)"
proof -
  have "length (m[i := (m ! i)[j := v]] ! k) = length (m ! k)" for m :: "nat list list" and i j k v
    by (cases "i = k"; cases "i < length m") (simp_all add: list_update_beyond)
  then have "square n (add_pair index e m)" if "square n m" for n index e m
    using that by (auto simp: square_def add_pair_def list_all_length split: prod.splits option.splits)
  then have "square n (fold (add_pair index) es m)" if "square n m" for n index es m
    using that by (induction es arbitrary: m) simp_all
  from this[of "length states" "replicate (length states) (replicate (length states) 0)"] show ?thesis
    by (simp add: transition_counts_def square_def list_all_iff)
qed

lemma sum_of_nat_rat: "sum_list (map of_nat xs) = (of_nat (sum_list xs) :: rat)"
  by (induction xs) simp_all

lemma sum_shares:
  assumes "sum_list xs \<noteq> (0 :: nat)"
  shows "sum_list (map (\<lambda>n. of_nat n / of_nat (sum_list xs)) xs) = (1 :: rat)"
proof -
  have "sum_list (map (\<lambda>n. of_nat n / of_nat m) xs) = (of_nat (sum_list xs) / of_nat m :: rat)" for m
    by (induction xs) (simp_all add: add_divide_distrib)
  with assms show ?thesis by simp
qed

lemma fitted_row_sums:
  assumes "square (length (fi_states f)) (fi_counts f)" "fi_states f \<noteq> []" "row \<in> set (fitted_rows f)"
  shows "length row = length (fi_states f) \<and> sum_list row = 1 \<and> (\<forall>x\<in>set row. 0 \<le> x)"
proof -
  from assms(3) obtain r where r: "r \<in> set (fi_counts f)"
    "row = (if sum_list r = 0 then map (\<lambda>_. 1 / of_nat (length (fi_states f))) r
       else map (\<lambda>n. of_nat n / of_nat (sum_list r)) r)"
    unfolding fitted_rows_def set_map by blast
  from r(1) assms(1) have l: "length r = length (fi_states f)" by (simp add: square_def list_all_iff)
  have "sum_list (map (\<lambda>_. 1 / of_nat (length (fi_states f))) r) = (1 :: rat)"
    using l assms(2) by (simp add: map_replicate_const sum_list_replicate)
  with l sum_shares[of r] show ?thesis unfolding r(2) by auto
qed

lemma sum_bumped: "distinct ys \<Longrightarrow> x \<in> set ys
    \<Longrightarrow> sum_list (map (\<lambda>y. if x = y then f y + 1 else f y) ys) = sum_list (map f ys) + (1 :: nat)"
proof (induction ys)
  case (Cons y ys)
  have "sum_list (map (\<lambda>y. if x = y then f y + 1 else f y) ys) = sum_list (map f ys)" if "x \<notin> set ys"
    using that by (intro arg_cong[where f = sum_list] map_cong) auto
  with Cons show ?case by (cases "x = y") auto
qed simp

lemma counts_of_states:
  "distinct states \<Longrightarrow> set xs \<subseteq> set states \<Longrightarrow> sum_list (map (count_list xs) states) = length xs"
proof (induction xs)
  case (Cons x xs)
  have "count_list (x # xs) = (\<lambda>s. if x = s then count_list xs s + 1 else count_list xs s)" by (simp add: fun_eq_iff)
  with Cons sum_bumped[of states x "count_list xs"] show ?case by simp
qed (simp add: sum_list_0 map_replicate_const)

lemma initial_sums:
  assumes "distinct states" "set (first_marks found) \<subseteq> set states" "first_marks found \<noteq> []"
  shows "sum_list (map (\<lambda>x. num (option_float x)) (fit_initial found states)) = 1"
    and "\<forall>x\<in>set (fit_initial found states). 0 \<le> num (option_float x)"
proof -
  have "sum_list (map (\<lambda>s. of_nat (count_list xs s) / of_nat m) states)
      = (of_nat (sum_list (map (count_list xs) states)) / of_nat m :: rat)" for xs :: "string list" and m
    by (induction states) (simp_all add: add_divide_distrib)
  with assms show "sum_list (map (\<lambda>x. num (option_float x)) (fit_initial found states)) = 1"
    by (simp add: fit_initial_def Let_def option_float_def num_def comp_def counts_of_states)
  show "\<forall>x\<in>set (fit_initial found states). 0 \<le> num (option_float x)"
    using assms(3) by (auto simp: fit_initial_def Let_def option_float_def num_def)
qed


lemma first_marks_within:
  assumes "\<forall>s\<in>set found. length (es_marks s) = length (es_times s) \<and> set (es_marks s) \<subseteq> set states"
  shows "set (first_marks found) \<subseteq> set states"
proof
  fix m assume "m \<in> set (first_marks found)"
  then obtain s where s: "s \<in> set found" "es_times s \<noteq> []" "m = hd (es_marks s)" by (auto simp: first_marks_def)
  with assms have "es_marks s \<noteq> []" "set (es_marks s) \<subseteq> set states" by auto
  with s(3) show "m \<in> set states" by auto
qed

lemma operational_returns:
  "length curve = 24 \<Longrightarrow> \<exists>v. operational tz curve t until passed = Inr v"
proof (induction tz curve t until passed rule: operational.induct)
  case (1 tz curve t until passed)
  show ?case
  proof (cases "t < until")
    case True
    with 1 hour_of_bound[of "tz t"] show ?thesis by (simp add: operational_step)
  qed (simp add: operational_done)
qed

lemma gaps_return: "length curve = 24 \<Longrightarrow> \<exists>d. gaps_by_state found states curve tz = Inr d"
proof -
  assume c: "length curve = 24"
  have "\<exists>d. rfold (\<lambda>(mark, t, until) d. if mark \<in> set (dkeys d)
      then rbind (operational tz curve t until 0) (\<lambda>x. Inr (dappend mark x d)) else Inr d) xs d0 = Inr d" for xs d0
  proof (induction xs arbitrary: d0)
    case (Cons x xs)
    obtain mark t until where x: "x = (mark, t, until)" using prod_cases3 by blast
    from operational_returns[OF c, of tz t until 0] obtain v where "operational tz curve t until 0 = Inr v" by blast
    with Cons show ?case by (simp add: x)
  qed simp
  then show ?thesis by (simp add: gaps_by_state_def)
qed

text \<open>The gaps of one state on which an estimator raised: five or more of them are positive.\<close>

definition unfitted :: "float_ops \<Rightarrow> event_stream list \<Rightarrow> string list \<Rightarrow> (rat \<Rightarrow> int) \<Rightarrow> fit_error \<Rightarrow> bool" where
  "unfitted F found states tz e \<longleftrightarrow> (\<exists>s gaps. s \<in> set states
     \<and> gaps_by_state found states (rc_values (fit_curve found tz)) tz = Inr gaps
     \<and> 5 \<le> length (filter (\<lambda>x. 0 < x) (dget_or gaps s [])) \<and> fit_dwell F all_families (dget_or gaps s []) = Inl e)"

text \<open>What is fitted can be run: for distinct acting states and streams of their marks, at least one
  with an event, the fit returns unless an estimator raises on the gaps of a state, and the parts written
  for the agent have an initial distribution and one row per state that are
  nonnegative and sum to one, one dwell per state, and 24 rates between zero and one, so the agent's
  draws from them never fail.\<close>

lemma fitted_runs:
  assumes "distinct states"
    "\<forall>s\<in>set found. length (es_marks s) = length (es_times s) \<and> set (es_marks s) \<subseteq> set states"
    "\<exists>s\<in>set found. es_times s \<noteq> []"
  shows "case fit_behaviour F kind beh states found tz of Inl e \<Rightarrow> unfitted F found states tz e
    | Inr f \<Rightarrow> process_ok (written f action_map) \<and> rate_nonneg (written f action_map)
    \<and> length (rb_dwell (written f action_map)) = length states
    \<and> sum_list (map num (rb_initial (written f action_map))) = 1
    \<and> (\<forall>row\<in>set (rb_transitions (written f action_map)). sum_list (map num row) = 1)
    \<and> (\<forall>c. rb_rate (written f action_map) = Some c \<longrightarrow> length c = 24 \<and> (\<forall>x\<in>set c. 0 \<le> num x \<and> num x \<le> 1))"
proof -
  from fit_curve_unit[of found tz] gaps_return[of "rc_values (fit_curve found tz)" found states tz]
  obtain gaps where gaps: "gaps_by_state found states (rc_values (fit_curve found tz)) tz = Inr gaps" by blast
  show ?thesis
  proof (cases "fit_behaviour F kind beh states found tz")
    case (Inl e)
    then have "rmap (\<lambda>s. fit_dwell F all_families (dget_or gaps s [])) states = Inl e"
      by (cases "rmap (\<lambda>s. fit_dwell F all_families (dget_or gaps s [])) states")
        (simp_all add: fit_behaviour_def Let_def gaps from_loop_def)
    from rmap_Inl[OF this] obtain s where s: "s \<in> set states" "fit_dwell F all_families (dget_or gaps s []) = Inl e" by blast
    from fit_dwell_raises[OF s(2)] s gaps show ?thesis unfolding Inl unfitted_def by auto
  next
    case (Inr f)
    then have f: "fi_states f = states" "fi_initial f = fit_initial found states"
      "fi_counts f = transition_counts found states" "fi_curve f = fit_curve found tz" "length (fi_dwell f) = length states"
      by (auto simp: fit_behaviour_def Let_def rbind_Inr_iff gaps from_loop_def rmap_Inr_iff list_all2_lengthD)
    from assms(3) have firsts: "first_marks found \<noteq> []" by (auto simp: first_marks_def filter_empty_conv)
    with first_marks_within[OF assms(2)] have ne: "states \<noteq> []" by auto
    note initial = initial_sums[OF assms(1) first_marks_within[OF assms(2)] firsts]
    have rows: "length row = length states \<and> sum_list row = 1 \<and> (\<forall>x\<in>set row. 0 \<le> x)" if "row \<in> set (fitted_rows f)" for row
      using fitted_row_sums[OF _ _ that] square_counts ne by (simp add: f)
    have len: "length (fitted_rows f) = length states" "length (fit_initial found states) = length states"
      using square_counts[of states found] by (simp_all add: fitted_rows_def f square_def fit_initial_def Let_def)
    have id: "map num (map Fin xs) = xs" for xs by (simp add: num_def comp_def)
    show ?thesis unfolding Inr sum.case
      using initial rows len fit_curve_unit[of found tz] by (simp add: written_def process_ok_def row_ok_def rate_nonneg_def
        f list_all_iff id num_def comp_def fitted_dwells_def Let_def)
  qed
qed

theorem clocks_agree_witness:
  "\<exists>v. operational (scenario_time 0) (replicate 24 1) 0 100 0 = Inr v \<and> 100 = 1 * v"
proof -
  have "advance 100 0 1000 0 (Some (replicate 24 (Fin 1))) 1 = Inr (100, 100)" by code_simp
  from clocks_agree[OF this, of 1] show ?thesis by (simp add: num_def speeds_below_def)
qed

end
