(* ===== verification/Dsl.thy ===== *)
theory Dsl
  imports Checks_Model
begin

text \<open>
  The builders a scenario file is written with (\<open>core/tiergen/core/dsl.py\<close>). A handle on a kind
  carries the identity of its \<open>ActorKind\<close> object, since \<open>in\<close> asks for identity before equality; equality of
  two kinds is that of Python: numbers compare across their types, dicts compare without their order. A
  NaN equals nothing but itself, the same object, since tuples compare identical objects as equal;
  \<open>nan\<close> says whether the NaNs are one object, as when every one is \<open>math.nan\<close>, or each its own. What \<open>datetime.fromisoformat(start).utcoffset()\<close> gives is a parameter.
\<close>

section \<open>Handles\<close>

record kind_handle =
  kh_id :: nat
  kh_ir :: actor_kind

definition kh_name :: "kind_handle \<Rightarrow> string" where
  "kh_name k = kd_name (kh_ir k)"

record group_handle =
  gh_ir :: group
  gh_kinds :: "kind_handle list"

definition gh_path :: "group_handle \<Rightarrow> string" where
  "gh_path g = gr_path (gh_ir g)"

record binding_spec =
  bs_host :: host
  bs_impls :: "impl_selection list"
  bs_mac_oui :: "string option"
  bs_credentials :: "string option"

text \<open>The unions of a handle and a name, and of one value and a sequence of them.\<close>

datatype kind_ref = KHandle kind_handle | KName string
datatype group_ref = GHandle group_handle | GPath string
datatype segment_ref = SegObject segment | SegName string
datatype 'a one_or_many = One 'a | Many_of "'a list"

primrec listed :: "'a one_or_many \<Rightarrow> 'a list" where
  "listed (One x) = [x]"
| "listed (Many_of xs) = xs"

primrec name_of :: "kind_ref \<Rightarrow> string" where
  "name_of (KHandle k) = kh_name k"
| "name_of (KName n) = n"

primrec path_of :: "group_ref \<Rightarrow> string" where
  "path_of (GHandle g) = gh_path g"
| "path_of (GPath p) = p"

primrec segment_name :: "segment_ref \<Rightarrow> string" where
  "segment_name (SegObject s) = seg_name s"
| "segment_name (SegName n) = n"

section \<open>Builders\<close>

definition or_empty :: "('k, 'v) dict option \<Rightarrow> ('k, 'v) dict" where
  "or_empty d = (case d of None \<Rightarrow> [] | Some d \<Rightarrow> d)"

definition dsl_resource :: "string \<Rightarrow> string" where
  "dsl_resource name = name"

definition dsl_endpoint :: "string \<Rightarrow> int \<Rightarrow> transport \<Rightarrow> endpoint" where
  "dsl_endpoint protocol port transport = \<lparr>ep_protocol = protocol, ep_port = port, ep_transport = transport\<rparr>"

definition dsl_tie :: "string \<Rightarrow> kind_ref \<Rightarrow> multiplicity \<Rightarrow> tie" where
  "dsl_tie name target multiplicity = \<lparr>tie_name = name, tie_target_kind = name_of target, tie_multiplicity = multiplicity\<rparr>"

definition dsl_dist :: "string \<Rightarrow> pyfloat list ref \<Rightarrow> distribution" where
  "dsl_dist family params = \<lparr>dist_family = family, dist_params = params\<rparr>"

definition dsl_choice :: "scalar list \<Rightarrow> pyfloat list \<Rightarrow> choice" where
  "dsl_choice options weights = \<lparr>ch_options = options, ch_weights = weights\<rparr>"

definition dsl_choice_from :: "string \<Rightarrow> param_value" where
  "dsl_choice_from resource = PChoiceRef resource"

definition dsl_action :: "string \<Rightarrow> string \<Rightarrow> (string, param_value) dict option \<Rightarrow> select_mode option \<Rightarrow> action" where
  "dsl_action sg tie params mode =
     \<lparr>act_signature = sg, act_tie = tie, act_params = or_empty params, act_select = mode\<rparr>"

definition dsl_semi_markov :: "string \<Rightarrow> string list ref \<Rightarrow> pyfloat list ref \<Rightarrow> pyfloat list list ref \<Rightarrow> distribution list ref
    \<Rightarrow> (string, action option) dict ref \<Rightarrow> string option \<Rightarrow> behaviour" where
  "dsl_semi_markov name states initial transitions dwell action_map rate =
     \<lparr>beh_name = name,
      beh_process = \<lparr>sm_states = states, sm_initial = initial, sm_transitions = transitions, sm_dwell = dwell, sm_rate = rate\<rparr>,
      beh_action_map = action_map\<rparr>"

text \<open>\<open>fresh\<close> is the identity the new object gets.\<close>

definition dsl_kind :: "nat \<Rightarrow> string \<Rightarrow> platform list \<Rightarrow> endpoint list \<Rightarrow> tie list \<Rightarrow> behaviour list \<Rightarrow> bool \<Rightarrow> kind_handle" where
  "dsl_kind fresh name platforms serves ties behaviours forwards =
     \<lparr>kh_id = fresh, kh_ir = \<lparr>kd_name = name, kd_serves = serves, kd_ties = ties, kd_behaviours = behaviours,
        kd_platforms = platforms, kd_forwards = forwards\<rparr>\<rparr>"

definition dsl_host :: "platform \<Rightarrow> host_type \<Rightarrow> string option \<Rightarrow> string \<Rightarrow> string option \<Rightarrow> host" where
  "dsl_host platform host_type ref backend manifest =
     \<lparr>ho_platform = platform, ho_host_type = host_type, ho_backend = backend,
      ho_ref = (case ref of None \<Rightarrow> ''default'' | Some r \<Rightarrow> r), ho_manifest = manifest\<rparr>"

definition dsl_segment :: "string \<Rightarrow> string \<Rightarrow> plane option \<Rightarrow> int option \<Rightarrow> segment" where
  "dsl_segment name cidr plane vlan =
     \<lparr>seg_name = name, seg_cidr = cidr, seg_plane = (case plane of None \<Rightarrow> DataPlane | Some p \<Rightarrow> p), seg_vlan = vlan\<rparr>"

definition dsl_capture_point :: "string \<Rightarrow> segment_ref one_or_many \<Rightarrow> bool \<Rightarrow> capture_point" where
  "dsl_capture_point name segments tagged =
     \<lparr>cp_name = name, cp_segments = map segment_name (listed segments), cp_tagged = tagged\<rparr>"

definition dsl_topology :: "segment list \<Rightarrow> capture_point list \<Rightarrow> (string, string) dict option \<Rightarrow> topology" where
  "dsl_topology segments capture_points addresses =
     \<lparr>top_segments = segments, top_capture_points = capture_points, top_addresses = or_empty addresses\<rparr>"

definition tie_key :: "kind_handle \<Rightarrow> tie \<Rightarrow> string" where
  "tie_key kind tie = kh_name kind @ ''.'' @ tie_name tie"

definition wire_tie :: "string list \<Rightarrow> string \<Rightarrow> kind_handle \<Rightarrow> tie \<Rightarrow> (string, string list) dict \<Rightarrow> (string, string list) dict" where
  "wire_tie held path kind tie wired =
     (if tie_key kind tie \<notin> set (dkeys wired) \<and> tie_target_kind tie \<in> set held
      then dset (tie_key kind tie) [path] wired else wired)"

definition wire_kind :: "string list \<Rightarrow> string \<Rightarrow> kind_handle \<Rightarrow> (string, string list) dict \<Rightarrow> (string, string list) dict" where
  "wire_kind held path kind wired = fold (wire_tie held path kind) (kd_ties (kh_ir kind)) wired"

definition said_wiring :: "(string, group_ref one_or_many) dict option \<Rightarrow> (string, string list) dict" where
  "said_wiring wiring = dict_of (map (\<lambda>(key, v). (key, map path_of (listed v))) (or_empty wiring))"

text \<open>A mapping from handles is its items, in order.\<close>

definition dsl_group :: "string \<Rightarrow> (kind_handle \<times> int) list \<Rightarrow> (kind_ref \<times> segment_ref list) list
    \<Rightarrow> (string, group_ref one_or_many) dict option \<Rightarrow> group_ref option \<Rightarrow> group_handle" where
  "dsl_group name instances attachments wiring parent =
     (let path = (case parent of None \<Rightarrow> name | Some p \<Rightarrow> path_of p @ ''/'' @ name);
          held = dict_of (map (\<lambda>(k, n). (kh_name k, n)) instances);
          wired = fold (wire_kind (dkeys held) path) (map fst instances) (said_wiring wiring)
      in \<lparr>gh_ir = \<lparr>gr_name = name, gr_parent = map_option path_of parent, gr_instances = held,
             gr_attachments = dict_of (map (\<lambda>(k, nets). (name_of k, map segment_name nets)) attachments),
             gr_wiring = wired\<rparr>,
          gh_kinds = map fst instances\<rparr>)"

definition dsl_binding :: "host \<Rightarrow> (string, (string, pyfloat) dict ref) dict option \<Rightarrow> string option \<Rightarrow> string option \<Rightarrow> binding_spec" where
  "dsl_binding host impls mac_oui credentials =
     \<lparr>bs_host = host, bs_impls = map (\<lambda>(sg, choices). \<lparr>sel_signature = sg, sel_choices = choices\<rparr>) (or_empty impls),
      bs_mac_oui = mac_oui, bs_credentials = credentials\<rparr>"

text \<open>\<open>name or impl\<close>: an empty name counts as none.\<close>

definition dsl_sensor :: "string \<Rightarrow> string \<Rightarrow> string \<Rightarrow> sensor_mode \<Rightarrow> string list \<Rightarrow> sensor_role \<Rightarrow> string option \<Rightarrow> sensor_spec" where
  "dsl_sensor impl version config mode caps role name =
     \<lparr>ss_name = (case name of None \<Rightarrow> impl | Some n \<Rightarrow> if n = [] then impl else n), ss_impl = impl, ss_version = version,
      ss_config = config, ss_mode = mode, ss_capabilities = caps, ss_role = role\<rparr>"

definition dsl_fit_provenance :: "string \<Rightarrow> string list \<Rightarrow> (string, pyfloat) dict \<Rightarrow> fit_provenance" where
  "dsl_fit_provenance sensor capabilities_used coverage =
     \<lparr>fp_sensor = sensor, fp_capabilities_used = capabilities_used, fp_coverage = coverage\<rparr>"

definition dsl_hours :: "rat \<Rightarrow> rat" where
  "dsl_hours n = n * 3600"

definition dsl_at :: "pyfloat \<Rightarrow> group_ref \<Rightarrow> schedule_op \<Rightarrow> event_arg \<Rightarrow> kind_ref option \<Rightarrow> int option \<Rightarrow> schedule_event" where
  "dsl_at at_s target op arg kind index =
     (let base = path_of target;
          target = (case kind of None \<Rightarrow> base
            | Some k \<Rightarrow> (let own = base @ ''/'' @ name_of k
                in case index of None \<Rightarrow> own | Some i \<Rightarrow> own @ ''['' @ show_int i @ '']''))
      in \<lparr>ev_at_s = at_s, ev_target = target, ev_op = op, ev_arg = arg\<rparr>)"

section \<open>Equality of kinds\<close>

definition dict_eq :: "('v \<Rightarrow> 'v \<Rightarrow> bool) \<Rightarrow> ('k, 'v) dict \<Rightarrow> ('k, 'v) dict \<Rightarrow> bool" where
  "dict_eq eq d e \<longleftrightarrow> length d = length e
     \<and> list_all (\<lambda>(k, v). case dget e k of None \<Rightarrow> False | Some w \<Rightarrow> eq v w) d"

fun ref_eq :: "('a \<Rightarrow> 'a \<Rightarrow> bool) \<Rightarrow> 'a ref \<Rightarrow> 'a ref \<Rightarrow> bool" where
  "ref_eq eq (Inline a) (Inline b) = eq a b"
| "ref_eq eq (Res a) (Res b) = (a = b)"
| "ref_eq eq _ _ = False"

fun scalar_number :: "scalar \<Rightarrow> pyfloat option" where
  "scalar_number (SStr _) = None"
| "scalar_number (SInt i) = Some (Fin (of_int i))"
| "scalar_number (SFloat x) = Some x"
| "scalar_number (SBool b) = Some (Fin (if b then 1 else 0))"

definition float_eq :: "bool \<Rightarrow> pyfloat \<Rightarrow> pyfloat \<Rightarrow> bool" where
  "float_eq nan x y \<longleftrightarrow> fl_eq x y \<or> nan \<and> x = NaN \<and> y = NaN"

definition scalar_eq :: "bool \<Rightarrow> scalar \<Rightarrow> scalar \<Rightarrow> bool" where
  "scalar_eq nan a b = (case (scalar_number a, scalar_number b) of (Some x, Some y) \<Rightarrow> float_eq nan x y | _ \<Rightarrow> a = b)"

definition choice_eq :: "bool \<Rightarrow> choice \<Rightarrow> choice \<Rightarrow> bool" where
  "choice_eq nan a b \<longleftrightarrow> list_all2 (scalar_eq nan) (ch_options a) (ch_options b) \<and> list_all2 (float_eq nan) (ch_weights a) (ch_weights b)"

fun param_eq :: "bool \<Rightarrow> param_value \<Rightarrow> param_value \<Rightarrow> bool" where
  "param_eq nan (PScalar a) (PScalar b) = scalar_eq nan a b"
| "param_eq nan (PChoice a) (PChoice b) = choice_eq nan a b"
| "param_eq nan (PChoiceRef a) (PChoiceRef b) = (a = b)"
| "param_eq nan _ _ = False"

definition action_eq :: "bool \<Rightarrow> action \<Rightarrow> action \<Rightarrow> bool" where
  "action_eq nan a b \<longleftrightarrow> act_signature a = act_signature b \<and> act_tie a = act_tie b
     \<and> dict_eq (param_eq nan) (act_params a) (act_params b) \<and> act_select a = act_select b"

definition dist_eq :: "bool \<Rightarrow> distribution \<Rightarrow> distribution \<Rightarrow> bool" where
  "dist_eq nan a b \<longleftrightarrow> dist_family a = dist_family b \<and> ref_eq (list_all2 (float_eq nan)) (dist_params a) (dist_params b)"

definition process_eq :: "bool \<Rightarrow> semi_markov \<Rightarrow> semi_markov \<Rightarrow> bool" where
  "process_eq nan a b \<longleftrightarrow> sm_states a = sm_states b \<and> ref_eq (list_all2 (float_eq nan)) (sm_initial a) (sm_initial b)
     \<and> ref_eq (list_all2 (list_all2 (float_eq nan))) (sm_transitions a) (sm_transitions b)
     \<and> ref_eq (list_all2 (dist_eq nan)) (sm_dwell a) (sm_dwell b) \<and> sm_rate a = sm_rate b"

definition behaviour_eq :: "bool \<Rightarrow> behaviour \<Rightarrow> behaviour \<Rightarrow> bool" where
  "behaviour_eq nan a b \<longleftrightarrow> beh_name a = beh_name b \<and> process_eq nan (beh_process a) (beh_process b)
     \<and> ref_eq (dict_eq (rel_option (action_eq nan))) (beh_action_map a) (beh_action_map b)"

definition kind_eq :: "bool \<Rightarrow> actor_kind \<Rightarrow> actor_kind \<Rightarrow> bool" where
  "kind_eq nan a b \<longleftrightarrow> kd_name a = kd_name b \<and> kd_serves a = kd_serves b \<and> kd_ties a = kd_ties b
     \<and> list_all2 (behaviour_eq nan) (kd_behaviours a) (kd_behaviours b) \<and> kd_platforms a = kd_platforms b
     \<and> kd_forwards a = kd_forwards b"

definition same_kind :: "bool \<Rightarrow> kind_handle \<Rightarrow> kind_handle \<Rightarrow> bool" where
  "same_kind nan a b \<longleftrightarrow> kh_id a = kh_id b \<or> kind_eq nan (kh_ir a) (kh_ir b)"

section \<open>The scenario\<close>

datatype dsl_error = TwoKinds "string list" | NotIso string | NoOffset string

text \<open>\<open>offset_of\<close> is \<open>None\<close> where \<open>fromisoformat\<close> raises, else the offset in seconds, if there is one.\<close>

definition iso_start :: "(string \<Rightarrow> rat option option) \<Rightarrow> string \<Rightarrow> dsl_error + string" where
  "iso_start offset_of start =
     (case offset_of start of None \<Rightarrow> Inl (NotIso start) | Some None \<Rightarrow> Inl (NoOffset start) | Some (Some _) \<Rightarrow> Inr start)"

definition kinds_of :: "group_handle list \<Rightarrow> kind_handle list" where
  "kinds_of groups = concat (map gh_kinds groups)"

definition keep_kind :: "bool \<Rightarrow> kind_handle \<Rightarrow> kind_handle list \<Rightarrow> kind_handle list" where
  "keep_kind nan k kinds = (if list_ex (same_kind nan k) kinds then kinds else kinds @ [k])"

definition mentioned :: "group_handle list \<Rightarrow> (kind_handle \<times> binding_spec) list \<Rightarrow> kind_handle list" where
  "mentioned groups bindings = kinds_of groups @ map fst bindings"

definition dsl_binding_of :: "kind_handle \<times> binding_spec \<Rightarrow> binding" where
  "dsl_binding_of = (\<lambda>(k, spec). \<lparr>bi_kind = kh_name k, bi_host = bs_host spec, bi_impls = bs_impls spec,
     bi_mac_oui = bs_mac_oui spec, bi_credentials = bs_credentials spec\<rparr>)"

definition dsl_scenario :: "bool \<Rightarrow> (string \<Rightarrow> rat option option) \<Rightarrow> string \<Rightarrow> group_handle list \<Rightarrow> (kind_handle \<times> binding_spec) list
    \<Rightarrow> topology ref \<Rightarrow> egress_policy \<Rightarrow> string \<Rightarrow> pyfloat \<Rightarrow> string list \<Rightarrow> sensor_spec list \<Rightarrow> int
    \<Rightarrow> (string, string) dict option \<Rightarrow> schedule_event list \<Rightarrow> fit_provenance ref option \<Rightarrow> pyfloat option \<Rightarrow> dsl_error + scenario" where
  "dsl_scenario nan offset_of name groups bindings topo egress start duration points sensors seed overrides schedule provenance floor_s =
     (let kinds = fold (keep_kind nan) (mentioned groups bindings) [];
          names = map kh_name kinds;
          duplicates = sorted_set (filter (\<lambda>n. 1 < count_list names n) names)
      in if duplicates \<noteq> [] then Inl (TwoKinds duplicates)
         else rbind (iso_start offset_of start) (\<lambda>start. Inr
           \<lparr>sc_name = name, sc_kinds = map kh_ir kinds, sc_groups = map gh_ir groups, sc_bindings = map dsl_binding_of bindings,
            sc_topology = topo, sc_egress = egress, sc_egress_overrides = or_empty overrides, sc_schedule = schedule,
            sc_start = start, sc_duration_s = duration, sc_capture_points = points, sc_sensors = sensors,
            sc_fit_provenance = provenance, sc_seed = seed,
            sc_coverage_floor = (case floor_s of None \<Rightarrow> Fin (1 / 2) | Some x \<Rightarrow> x)\<rparr>))"


section \<open>Wiring\<close>

lemma wire_tie_get: "dget (wire_tie held path k t wired) key
    = (if key = tie_key k t \<and> dget wired key = None \<and> tie_target_kind t \<in> set held then Some [path] else dget wired key)"
  by (auto simp: wire_tie_def set_dkeys dom_def)

lemma wire_ties_get:
  "dget (fold (\<lambda>(k, t). wire_tie held path k t) xs wired) key = (case dget wired key of Some v \<Rightarrow> Some v
     | None \<Rightarrow> if \<exists>(k, t)\<in>set xs. tie_key k t = key \<and> tie_target_kind t \<in> set held then Some [path] else None)"
proof (induction xs arbitrary: wired)
  case (Cons x xs)
  obtain k t where x: "x = (k, t)" by fastforce
  show ?case by (auto simp: x Cons.IH wire_tie_get split: option.splits)
qed (simp split: option.splits)

lemma wire_kinds_flat: "fold (wire_kind held path) ks wired
    = fold (\<lambda>(k, t). wire_tie held path k t) (concat (map (\<lambda>k. map (Pair k) (kd_ties (kh_ir k))) ks)) wired"
proof (induction ks arbitrary: wired)
  case (Cons k ks)
  have "wire_kind held path k wired = fold (\<lambda>(k, t). wire_tie held path k t) (map (Pair k) (kd_ties (kh_ir k))) wired"
    by (simp add: wire_kind_def fold_map comp_def)
  with Cons show ?case by simp
qed simp

lemma group_wiring:
  assumes "h = dsl_group name instances attachments wiring parent"
  shows "dget (gr_wiring (gh_ir h)) key = (case dget (said_wiring wiring) key of Some v \<Rightarrow> Some v
     | None \<Rightarrow> if \<exists>k\<in>set (gh_kinds h). \<exists>t\<in>set (kd_ties (kh_ir k)).
          tie_key k t = key \<and> tie_target_kind t \<in> set (dkeys (gr_instances (gh_ir h)))
        then Some [gh_path h] else None)"
  unfolding assms
  by (cases parent) (auto simp: dsl_group_def Let_def wire_kinds_flat wire_ties_get gh_path_def gr_path_def
    simp del: set_dkeys_dict_of split: option.splits)

section \<open>Kinds\<close>

definition identified :: "kind_handle list \<Rightarrow> bool" where
  "identified ks \<longleftrightarrow> (\<forall>a\<in>set ks. \<forall>b\<in>set ks. kh_id a = kh_id b \<longrightarrow> a = b)"

definition kept_of :: "bool \<Rightarrow> kind_handle list \<Rightarrow> kind_handle list \<Rightarrow> bool" where
  "kept_of nan ks kept \<longleftrightarrow> set kept \<subseteq> set ks \<and> (\<forall>k\<in>set ks. \<exists>j\<in>set kept. same_kind nan k j)
     \<and> sorted_wrt (\<lambda>a b. \<not> same_kind nan b a) kept"

lemma kinds_kept: "kept_of nan ks (fold (keep_kind nan) ks [])"
proof (rule fold_done[where Q = "kept_of nan"])
  fix ks k kept assume "kept_of nan ks kept"
  then show "kept_of nan (ks @ [k]) (keep_kind nan k kept)"
    by (auto simp: kept_of_def keep_kind_def list_ex_iff sorted_wrt_append same_kind_def)
qed (simp add: kept_of_def)

lemma kept_found:
  assumes "kept_of nan ks kept" "k \<in> set ks"
  obtains j where "j \<in> set kept" "same_kind nan k j" "j \<in> set ks"
  using assms unfolding kept_of_def by blast

lemma shared_name:
  "1 < count_list (map f xs) n \<Longrightarrow> sorted_wrt P xs \<Longrightarrow> \<exists>a\<in>set xs. \<exists>b\<in>set xs. f a = n \<and> f b = n \<and> P a b"
proof (induction xs)
  case (Cons x xs)
  show ?case
  proof (cases "f x = n \<and> count_list (map f xs) n = 1")
    case True
    then have "n \<in> set (map f xs)" by (metis count_list_0_iff zero_neq_one)
    with True Cons.prems(2) show ?thesis by auto
  next
    case False
    with Cons show ?thesis by (auto split: if_splits)
  qed
qed simp

lemma no_shared_name: "\<forall>n\<in>set xs. \<not> 1 < count_list xs n \<Longrightarrow> distinct xs"
proof (induction xs)
  case (Cons x xs)
  from Cons.prems have "count_list xs x = 0" by auto
  with Cons show ?case by (auto simp: count_list_0_iff split: if_splits)
qed simp

lemma same_kind_facts:
  assumes "same_kind nan a b" "identified ks" "a \<in> set ks" "b \<in> set ks"
  shows "kh_name b = kh_name a \<and> kd_ties (kh_ir b) = kd_ties (kh_ir a) \<and> (kh_ir b = kh_ir a \<or> kind_eq nan (kh_ir a) (kh_ir b))"
  using assms by (auto simp: same_kind_def identified_def kh_name_def kind_eq_def)

lemma scenario_kinds:
  assumes "identified (mentioned groups bindings)"
    "dsl_scenario nan offset_of name groups bindings topo egress start duration points sensors seed overrides schedule provenance floor_s = Inr s"
  obtains kept where "kept_of nan (mentioned groups bindings) kept" "sc_kinds s = map kh_ir kept" "distinct (map kh_name kept)"
    "sc_groups s = map gh_ir groups" "sc_bindings s = map dsl_binding_of bindings"
proof -
  let ?kept = "fold (keep_kind nan) (mentioned groups bindings) []"
  from assms(2) have "sorted_set (filter (\<lambda>n. 1 < count_list (map kh_name ?kept) n) (map kh_name ?kept)) = []"
    and s: "sc_kinds s = map kh_ir ?kept" "sc_groups s = map gh_ir groups" "sc_bindings s = map dsl_binding_of bindings"
    by (auto simp: dsl_scenario_def Let_def rbind_Inr_iff split: if_splits)
  then have "distinct (map kh_name ?kept)" by (intro no_shared_name) (simp add: sorted_set_Nil_iff filter_empty_conv)
  with that kinds_kept s show ?thesis by blast
qed

text \<open>C34: A scenario that is built has one kind of each name, and every kind its groups hold or its bindings
  bind is among them with its own contents, whatever handle it came by. One that is refused for its
  kinds names only names that two different kinds share, and otherwise lacks a start with an offset.\<close>

theorem scenario_assembled:
  assumes "identified (mentioned groups bindings)"
  shows "case dsl_scenario nan offset_of name groups bindings topo egress start duration points sensors seed overrides schedule provenance floor_s of
      Inl (TwoKinds ns) \<Rightarrow> ns \<noteq> [] \<and> (\<forall>n\<in>set ns. \<exists>a\<in>set (mentioned groups bindings). \<exists>b\<in>set (mentioned groups bindings).
        kh_name a = n \<and> kh_name b = n \<and> \<not> same_kind nan a b)
    | Inl _ \<Rightarrow> \<forall>off. offset_of start \<noteq> Some (Some off)
    | Inr s \<Rightarrow> distinct (map kd_name (sc_kinds s)) \<and> sc_groups s = map gh_ir groups
        \<and> (\<forall>k\<in>set (mentioned groups bindings). \<exists>j\<in>set (sc_kinds s). kd_name j = kh_name k \<and> (j = kh_ir k \<or> kind_eq nan (kh_ir k) j))
        \<and> set (map bi_kind (sc_bindings s)) \<subseteq> set (map kd_name (sc_kinds s))"
    (is "case ?r of Inl e \<Rightarrow> ?bad e | Inr s \<Rightarrow> ?good s")
proof (cases ?r)
  case (Inr s)
  obtain kept where k: "kept_of nan (mentioned groups bindings) kept" "sc_kinds s = map kh_ir kept" "distinct (map kh_name kept)"
    "sc_groups s = map gh_ir groups" "sc_bindings s = map dsl_binding_of bindings"
    using scenario_kinds[OF assms Inr] by blast
  have found: "\<exists>j\<in>set (sc_kinds s). kd_name j = kh_name k \<and> (j = kh_ir k \<or> kind_eq nan (kh_ir k) j)"
    if "k \<in> set (mentioned groups bindings)" for k
  proof -
    from kept_found[OF k(1) that] obtain j
      where "j \<in> set kept" "same_kind nan k j" "j \<in> set (mentioned groups bindings)" by blast
    with same_kind_facts[OF _ assms that] k(2) show ?thesis by (force simp: kh_name_def)
  qed
  have "kh_name (fst b) \<in> set (map kd_name (sc_kinds s))" if "b \<in> set bindings" for b
    using found[of "fst b"] that by (force simp: mentioned_def)
  then have "set (map bi_kind (sc_bindings s)) \<subseteq> set (map kd_name (sc_kinds s))"
    by (auto simp: k(5) dsl_binding_of_def split: prod.splits)
  moreover have "distinct (map kd_name (sc_kinds s))" using k(3) by (simp add: k(2) comp_def kh_name_def[abs_def])
  ultimately show ?thesis using found k(4) by (simp add: Inr)
next
  case (Inl e)
  let ?kept = "fold (keep_kind nan) (mentioned groups bindings) []"
  let ?dup = "filter (\<lambda>n. 1 < count_list (map kh_name ?kept) n) (map kh_name ?kept)"
  note kept = kinds_kept[of nan "mentioned groups bindings", unfolded kept_of_def]
  have shared: "\<exists>a\<in>set (mentioned groups bindings). \<exists>b\<in>set (mentioned groups bindings).
      kh_name a = n \<and> kh_name b = n \<and> \<not> same_kind nan a b" if "n \<in> set ?dup" for n
  proof -
    from that have "1 < count_list (map kh_name ?kept) n" by simp
    from shared_name[OF this] kept show ?thesis by blast
  qed
  from Inl have "e = TwoKinds (sorted_set ?dup) \<and> sorted_set ?dup \<noteq> []
      \<or> (e = NotIso start \<or> e = NoOffset start) \<and> (\<forall>off. offset_of start \<noteq> Some (Some off))"
    by (auto simp: dsl_scenario_def Let_def rbind_Inl_iff iso_start_def split: if_splits option.splits)
  with shared show ?thesis by (auto simp: Inl)
qed

text \<open>C35: The one convenience of \<open>group\<close> does what it says: in a scenario that is built, a tie check 1 expects to be
  wired in a group is wired as the author said; one the author left out is wired to the group itself
  when the group holds instances of the tie's target kind, and is left unwired otherwise. The group
  must not list the target kind with a count that is not positive, and ties under one key must have
  one target kind.\<close>

theorem unwired_ties:
  assumes "identified (mentioned groups bindings)"
    "dsl_scenario nan offset_of name groups bindings topo egress start duration points sensors seed overrides schedule provenance floor_s = Inr s"
    "h \<in> set groups" "h = dsl_group group_name instances attachments wiring parent"
    "kinds = dict_of (map (\<lambda>k. (kd_name k, k)) (sc_kinds s))"
    "dget (expected_ties kinds (held_kinds (dkeys kinds) (gh_ir h))) key = Some tie"
    "\<forall>n. dget (gr_instances (gh_ir h)) (tie_target_kind tie) = Some n \<longrightarrow> 0 < n"
    "\<forall>k\<in>set (gh_kinds h). \<forall>t\<in>set (kd_ties (kh_ir k)). tie_key k t = key \<longrightarrow> tie_target_kind t = tie_target_kind tie"
  shows "dget (gr_wiring (gh_ir h)) key = (case dget (said_wiring wiring) key of
      Some ps \<Rightarrow> Some ps
    | None \<Rightarrow> if \<exists>n>0. dget (gr_instances (gh_ir h)) (tie_target_kind tie) = Some n then Some [gh_path h] else None)"
proof -
  from assms(6) obtain kname k where k: "kname \<in> set (held_kinds (dkeys kinds) (gh_ir h))" "dget kinds kname = Some k"
    "tie \<in> set (kd_ties k)" "key = kname @ ''.'' @ tie_name tie"
    by (auto simp: expected_ties_def dest!: dget_Some_in dict_of_in split: option.splits) metis
  from k(1) have "kname \<in> set (dkeys (gr_instances (gh_ir h)))" by (force simp: held_kinds_def dkeys_def)
  then obtain own where own: "own \<in> set (gh_kinds h)" "kh_name own = kname"
    unfolding assms(4) by (fastforce simp: dsl_group_def Let_def)
  from own(1) assms(3) have m: "own \<in> set (mentioned groups bindings)" by (auto simp: mentioned_def kinds_of_def)
  obtain kept where kept: "kept_of nan (mentioned groups bindings) kept" "sc_kinds s = map kh_ir kept" "distinct (map kh_name kept)"
    using scenario_kinds[OF assms(1,2)] by blast
  from kept_found[OF kept(1) m] obtain j
    where j: "j \<in> set kept" "same_kind nan own j" "j \<in> set (mentioned groups bindings)" by blast
  note same = same_kind_facts[OF j(2) assms(1) m j(3)]
  have "(kname, k) \<in> set (map (\<lambda>k. (kd_name k, k)) (sc_kinds s))"
    using k(2) by (auto simp: assms(5) dest!: dget_Some_in dict_of_in)
  then have "k \<in> kh_ir ` set kept" "kd_name k = kname" by (auto simp: kept(2))
  then have "k = kh_ir j" using j(1) kept(3) same own(2)
    by (auto simp: distinct_map inj_on_def kh_name_def)
  with same k(3) have "tie \<in> set (kd_ties (kh_ir own))" by simp
  with own k(4) have "tie_key own tie = key" by (simp add: tie_key_def)
  with own(1) \<open>tie \<in> set (kd_ties (kh_ir own))\<close> have "(\<exists>k\<in>set (gh_kinds h). \<exists>t\<in>set (kd_ties (kh_ir k)). tie_key k t = key
      \<and> tie_target_kind t \<in> set (dkeys (gr_instances (gh_ir h)))) \<longleftrightarrow> tie_target_kind tie \<in> set (dkeys (gr_instances (gh_ir h)))"
    using assms(8) by metis
  moreover have "tie_target_kind tie \<in> set (dkeys (gr_instances (gh_ir h)))
      \<longleftrightarrow> (\<exists>n>0. dget (gr_instances (gh_ir h)) (tie_target_kind tie) = Some n)"
    using assms(7) by (auto simp: set_dkeys dom_def)
  ultimately show ?thesis unfolding group_wiring[OF assms(4)] by (simp only:)
qed

text \<open>A client tied to a server of its own group, and the scenario of that group.\<close>

definition dsl_server :: kind_handle where
  "dsl_server = dsl_kind 0 ''web'' [Linux] [dsl_endpoint ''http'' 80 Tcp] [] [] False"

definition dsl_client :: kind_handle where
  "dsl_client = dsl_kind 1 ''user'' [Linux] [] [dsl_tie ''site'' (KHandle dsl_server) Single] [] False"

definition dsl_office :: group_handle where
  "dsl_office = dsl_group ''office'' [(dsl_client, 3), (dsl_server, 1)]
     [(KHandle dsl_client, [SegName ''lan'']), (KHandle dsl_server, [SegName ''lan''])] None None"

definition dsl_demo :: "dsl_error + scenario" where
  "dsl_demo = dsl_scenario True (\<lambda>_. Some (Some 0)) ''demo'' [dsl_office]
     [(dsl_client, dsl_binding (dsl_host Linux Container None ''docker'' None) None None None)]
     (Res ''net'') EgressNone ''2026-01-05T08:00:00+00:00'' (Fin 3600) [''lan''] [] 7 None [] None None"

lemma dsl_demo_parts: "identified (mentioned [dsl_office]
    [(dsl_client, dsl_binding (dsl_host Linux Container None ''docker'' None) None None None)])"
  "\<exists>s. dsl_demo = Inr s \<and> sc_kinds s = [kh_ir dsl_client, kh_ir dsl_server]"
  "gr_wiring (gh_ir dsl_office) = [(''user.site'', [''office''])]"
  "dget (expected_ties (dict_of (map (\<lambda>k. (kd_name k, k)) [kh_ir dsl_client, kh_ir dsl_server])) (held_kinds
     (dkeys (dict_of (map (\<lambda>k. (kd_name k, k)) [kh_ir dsl_client, kh_ir dsl_server]))) (gh_ir dsl_office))) ''user.site''
     = Some (dsl_tie ''site'' (KHandle dsl_server) Single)"
  subgoal by (simp add: identified_def mentioned_def kinds_of_def dsl_office_def dsl_group_def Let_def dsl_client_def dsl_server_def dsl_kind_def)
  subgoal by (simp add: dsl_demo_def dsl_scenario_def Let_def mentioned_def kinds_of_def dsl_office_def dsl_group_def keep_kind_def
    same_kind_def dsl_client_def dsl_server_def dsl_kind_def kind_eq_def kh_name_def iso_start_def sorted_set_def)
  by code_simp+

theorem scenario_assembled_witness:
  "\<exists>s. dsl_demo = Inr s \<and> distinct (map kd_name (sc_kinds s)) \<and> set (map bi_kind (sc_bindings s)) \<subseteq> set (map kd_name (sc_kinds s))"
proof -
  obtain s where s: "dsl_demo = Inr s" using dsl_demo_parts(2) by blast
  from scenario_assembled[OF dsl_demo_parts(1), where nan = True and offset_of = "\<lambda>_. Some (Some 0)" and name = "''demo''" and topo = "Res ''net''"
      and egress = EgressNone and start = "''2026-01-05T08:00:00+00:00''" and duration = "Fin 3600" and points = "[''lan'']"
      and sensors = "[]" and seed = 7 and overrides = None and schedule = "[]" and provenance = None and floor_s = None,
      folded dsl_demo_def, unfolded s sum.case] s show ?thesis by blast
qed

theorem unwired_ties_witness:
  "dget (said_wiring None) ''user.site'' = None \<and> dget (gr_wiring (gh_ir dsl_office)) ''user.site'' = Some [gh_path dsl_office]"
proof -
  obtain s where s: "dsl_demo = Inr s" "sc_kinds s = [kh_ir dsl_client, kh_ir dsl_server]" using dsl_demo_parts(2) by blast
  have inst: "gr_instances (gh_ir dsl_office) = [(''user'', 3), (''web'', 1)]" "tie_target_kind (dsl_tie ''site'' (KHandle dsl_server) Single) = ''web''"
    by code_simp+
  have one: "\<forall>k\<in>set (gh_kinds dsl_office). \<forall>t\<in>set (kd_ties (kh_ir k)). tie_key k t = ''user.site''
      \<longrightarrow> tie_target_kind t = tie_target_kind (dsl_tie ''site'' (KHandle dsl_server) Single)"
    by (simp add: dsl_office_def dsl_group_def dsl_client_def dsl_server_def dsl_kind_def dsl_tie_def Let_def)
  note wired = unwired_ties[OF dsl_demo_parts(1) s(1)[unfolded dsl_demo_def] list.set_intros(1) dsl_office_def refl,
    unfolded s(2), OF dsl_demo_parts(4), OF _ one]
  have said: "dget (said_wiring None) ''user.site'' = None" by (simp add: said_wiring_def or_empty_def dict_of_def)
  have "dget (gr_wiring (gh_ir dsl_office)) ''user.site'' = Some [gh_path dsl_office]"
    using wired unfolding inst by (simp add: said)
  with said show ?thesis ..
qed

text \<open>A kind listed with a count of 0 is held, so a tie to it is wired all the same.\<close>

lemma zero_count_wired:
  "gr_wiring (gh_ir (dsl_group ''office'' [(dsl_client, 3), (dsl_server, 0)] [] None None)) = [(''user.site'', [''office''])]"
  by code_simp

end
