(* ===== verification/Ingest.thy ===== *)
theory Ingest
  imports Vocabulary Fit
begin

text \<open>
  A sensor's events labelled by the vocabulary into one stream per instance and behaviour
  (\<open>fit/tiergen/fit/ingest.py\<close>), and the fits of those streams (\<open>fit.py\<close> without its files). Reading the event
  files is left out; a set of keys is a list here, of which only membership is asked.
\<close>

section \<open>Events\<close>

definition shift_event :: "rat \<Rightarrow> event \<Rightarrow> event" where
  "shift_event shift e = (if shift = 0 then e
     else case e of Conn c \<Rightarrow> Conn (c\<lparr>ce_start := ce_start c + shift\<rparr>) | App a \<Rightarrow> App (a\<lparr>ae_ts := ae_ts a + shift\<rparr>))"

type_synonym conn_key = "string \<times> int \<times> string \<times> int \<times> string \<times> int"

definition conn_key :: "conn_event \<Rightarrow> conn_key" where
  "conn_key c = (let f = ce_five_tuple c
     in (ft_orig_addr f, ft_orig_port f, ft_resp_addr f, ft_resp_port f, ft_proto f, round_even (ce_start c * 1000)))"

definition keep_conn :: "conn_event \<Rightarrow> conn_key list \<times> conn_event list \<Rightarrow> conn_key list \<times> conn_event list" where
  "keep_conn c = (\<lambda>(seen, kept). if conn_key c \<in> set seen then (seen, kept) else (seen @ [conn_key c], kept @ [c]))"

definition dedupe :: "conn_event list \<Rightarrow> conn_event list" where
  "dedupe conns = snd (fold keep_conn (sort_key ce_start conns) ([], []))"

type_synonym flow_apps = "(sensor_flow_id, app_event list) dict"

definition sort_event :: "event \<Rightarrow> conn_event list \<times> flow_apps \<Rightarrow> conn_event list \<times> flow_apps" where
  "sort_event e = (\<lambda>(conns, apps). case e of Conn c \<Rightarrow> (conns @ [c], apps) | App a \<Rightarrow> (conns, dappend (ae_flow a) a apps))"

section \<open>Labelling\<close>

record unmapped =
  un_by_reason :: "(string, nat) dict"
  un_originators :: "(string, nat) dict"

record labelled =
  lb_streams :: "(string \<times> string, event_stream list) dict"
  lb_window :: "rat \<times> rat"
  lb_connections :: nat
  lb_unmapped :: unmapped
  lb_app_coverage :: "rat option"

type_synonym instance_key = "string \<times> string \<times> string"

record labelling =
  lg_by_instance :: "(instance_key, (rat \<times> string \<times> bool) list) dict"
  lg_reasons :: "(string, nat) dict"
  lg_originators :: "(string, nat) dict"
  lg_http :: nat
  lg_with_app :: nat

definition no_match_str :: "no_match \<Rightarrow> string" where
  "no_match_str r = (case r of UnknownOriginator \<Rightarrow> ''unknown originator'' | NoAction \<Rightarrow> ''no action'' | Ambiguous \<Rightarrow> ''ambiguous'')"

definition count_up :: "'k \<Rightarrow> ('k, nat) dict \<Rightarrow> ('k, nat) dict" where
  "count_up k d = dset k (dget_or d k 0 + 1) d"

definition own_key :: "candidate \<Rightarrow> instance_key" where
  "own_key cd = (cd_kind cd, cd_behaviour cd, cd_instance cd)"

definition looks_http :: "conn_event \<Rightarrow> app_event list \<Rightarrow> bool" where
  "looks_http c mine \<longleftrightarrow> ft_resp_port (ce_five_tuple c) \<in> {80, 8080, 8000, 443} \<or> list_ex (\<lambda>a. ae_protocol a = ''http'') mine"

definition label_conn :: "(json \<Rightarrow> string) \<Rightarrow> vocabulary \<Rightarrow> flow_apps \<Rightarrow> rat \<times> rat \<Rightarrow> conn_event \<Rightarrow> labelling \<Rightarrow> labelling" where
  "label_conn other vo apps window c s =
     (if \<not> in_window window c then s
      else let mine = dget_or apps (ce_flow c) [];
               s = (if looks_http c mine
                    then s\<lparr>lg_http := lg_http s + 1, lg_with_app := lg_with_app s + (if mine \<noteq> [] then 1 else 0)\<rparr> else s)
        in case match_conn other vo c mine of
             Inl r \<Rightarrow> s\<lparr>lg_reasons := count_up (no_match_str r) (lg_reasons s),
                lg_originators := (if r = UnknownOriginator then count_up (ft_orig_addr (ce_five_tuple c)) (lg_originators s)
                   else lg_originators s)\<rparr>
           | Inr cd \<Rightarrow> s\<lparr>lg_by_instance := dappend (own_key cd) (ce_start c, cd_state cd, cd_many cd) (lg_by_instance s)\<rparr>)"

definition merge_many :: "rat \<times> string \<times> bool \<Rightarrow> (rat \<times> string) list \<Rightarrow> (rat \<times> string) list" where
  "merge_many = (\<lambda>(t, state, many) kept.
     if many \<and> kept \<noteq> [] \<and> snd (last kept) = state \<and> t - fst (last kept) < 1 then kept else kept @ [(t, state)])"

definition instance_stream :: "rat \<times> rat \<Rightarrow> string \<Rightarrow> (rat \<times> string \<times> bool) list \<Rightarrow> event_stream" where
  "instance_stream window instnc events =
     (let kept = fold merge_many (sort events) []
      in \<lparr>es_host = instnc, es_times = map fst kept, es_marks = map snd kept, es_window = window\<rparr>)"

definition all_candidates :: "vocabulary \<Rightarrow> candidate list" where
  "all_candidates vo = concat (dvalues (vo_by_address vo))"

type_synonym labelled_streams = "(string \<times> string, event_stream list) dict"

definition behaviour_key :: "candidate \<Rightarrow> string \<times> string" where
  "behaviour_key cd = (cd_kind cd, cd_behaviour cd)"

definition open_behaviour :: "candidate \<Rightarrow> labelled_streams \<Rightarrow> labelled_streams" where
  "open_behaviour cd d = (if behaviour_key cd \<in> set (dkeys d) then d else dset (behaviour_key cd) [] d)"

definition add_active :: "rat \<times> rat \<Rightarrow> instance_key \<times> (rat \<times> string \<times> bool) list \<Rightarrow> labelled_streams \<Rightarrow> labelled_streams" where
  "add_active window = (\<lambda>((kind, beh, instnc), events). dappend (kind, beh) (instance_stream window instnc events))"

definition add_idle :: "rat \<times> rat \<Rightarrow> candidate \<Rightarrow> instance_key list \<times> labelled_streams \<Rightarrow> instance_key list \<times> labelled_streams" where
  "add_idle window cd = (\<lambda>(seen, d).
     if own_key cd \<in> set seen then (seen, d)
     else (seen @ [own_key cd], dappend (behaviour_key cd)
       \<lparr>es_host = cd_instance cd, es_times = [], es_marks = [], es_window = window\<rparr> d))"

definition seen_streams :: "labelled_streams \<Rightarrow> instance_key list" where
  "seen_streams d = concat (map (\<lambda>((k, b), ss). map (\<lambda>s. (k, b, es_host s)) ss) d)"

definition active_streams :: "vocabulary \<Rightarrow> rat \<times> rat \<Rightarrow> (instance_key, (rat \<times> string \<times> bool) list) dict \<Rightarrow> labelled_streams" where
  "active_streams vo window found =
     fold (add_active window) (sort_key fst found) (fold open_behaviour (all_candidates vo) [])"

definition streams_by_behaviour :: "vocabulary \<Rightarrow> rat \<times> rat \<Rightarrow> (instance_key, (rat \<times> string \<times> bool) list) dict \<Rightarrow> labelled_streams" where
  "streams_by_behaviour vo window found =
     (let active = active_streams vo window found
      in map (\<lambda>(key, ss). (key, sort_key es_host ss)) (snd (fold (add_idle window) (all_candidates vo) (seen_streams active, active))))"

definition span_of :: "conn_event list \<Rightarrow> rat \<times> rat" where
  "span_of conns = (if conns \<noteq> [] then (ce_start (hd conns), ce_start (last conns) + 1 / 1000) else (0, 0))"

definition label_conns :: "(json \<Rightarrow> string) \<Rightarrow> vocabulary \<Rightarrow> flow_apps \<Rightarrow> rat \<times> rat \<Rightarrow> conn_event list \<Rightarrow> labelling" where
  "label_conns other vo apps window conns = fold (label_conn other vo apps window) conns
     \<lparr>lg_by_instance = [], lg_reasons = [], lg_originators = [], lg_http = 0, lg_with_app = 0\<rparr>"

definition most_common :: "('k, nat) dict \<Rightarrow> ('k, nat) dict" where
  "most_common d = sort_key (\<lambda>(k, n). - int n) d"

definition label_events :: "(json \<Rightarrow> string) \<Rightarrow> event list \<Rightarrow> vocabulary \<Rightarrow> (rat \<times> rat) option \<Rightarrow> labelled" where
  "label_events other events vo window =
     (let (conns, apps) = fold sort_event events ([], []);
          conns = dedupe conns;
          window = (case window of None \<Rightarrow> span_of conns | Some w \<Rightarrow> w);
          found = label_conns other vo apps window conns
      in \<lparr>lb_streams = streams_by_behaviour vo window (lg_by_instance found), lb_window = window, lb_connections = length conns,
          lb_unmapped = \<lparr>un_by_reason = sort_key fst (lg_reasons found), un_originators = most_common (lg_originators found)\<rparr>,
          lb_app_coverage = (if lg_http found \<noteq> 0 then Some (of_nat (lg_with_app found) / of_nat (lg_http found)) else None)\<rparr>)"

definition candidates_of :: "vocabulary \<Rightarrow> string \<Rightarrow> string \<Rightarrow> candidate list" where
  "candidates_of vo kind beh = dvalues (fold (\<lambda>c found. if cd_state c \<in> set (dkeys found) then found else dset (cd_state c) c found)
     (filter (\<lambda>c. behaviour_key c = (kind, beh)) (all_candidates vo)) [])"

section \<open>The fits of a run\<close>

definition named_behaviour :: "program list \<Rightarrow> string \<Rightarrow> string \<Rightarrow> resolved_behaviour option" where
  "named_behaviour programs kind beh = first_such (\<lambda>b. rb_name b = beh)
     (concat (map pg_behaviours (filter (\<lambda>p. pg_kind p = kind) programs)))"

definition state_order :: "program list \<Rightarrow> string \<Rightarrow> string \<Rightarrow> string list" where
  "state_order programs kind beh = (case named_behaviour programs kind beh of None \<Rightarrow> [] | Some b \<Rightarrow> rb_states b)"

definition written_map :: "program list \<Rightarrow> string \<Rightarrow> string \<Rightarrow> (string, resolved_action option) dict" where
  "written_map programs kind beh = (case named_behaviour programs kind beh of None \<Rightarrow> [] | Some b \<Rightarrow> rb_action_map b)"

definition fit_states :: "program list \<Rightarrow> vocabulary \<Rightarrow> string \<Rightarrow> string \<Rightarrow> string list" where
  "fit_states programs vo kind beh =
     filter (\<lambda>s. list_ex (\<lambda>c. cd_state c = s) (candidates_of vo kind beh)) (state_order programs kind beh)"

text \<open>A behaviour with no acting state or no event is passed over.\<close>

definition fit_one :: "float_ops \<Rightarrow> program list \<Rightarrow> vocabulary \<Rightarrow> (rat \<Rightarrow> int)
    \<Rightarrow> (string \<times> string) \<times> event_stream list \<Rightarrow> fit_error + (fitted \<times> (string, resolved_action option) dict) option" where
  "fit_one F programs vo tz = (\<lambda>((kind, beh), ss). let states = fit_states programs vo kind beh
     in if states = [] \<or> list_all (\<lambda>s. es_times s = []) ss then Inr None
        else rbind (fit_behaviour F kind beh states ss tz) (\<lambda>f. Inr (Some (f, written_map programs kind beh))))"

definition fit_streams :: "float_ops \<Rightarrow> program list \<Rightarrow> vocabulary \<Rightarrow> (rat \<Rightarrow> int) \<Rightarrow> labelled
    \<Rightarrow> fit_error + (fitted \<times> (string, resolved_action option) dict) list" where
  "fit_streams F programs vo tz lab =
     rbind (rmap (fit_one F programs vo tz) (sort_key fst (lb_streams lab))) (\<lambda>found. Inr (List.map_filter id found))"


section \<open>One copy of a connection\<close>

lemma round_even_near: "\<bar>of_int (round_even x) - x\<bar> \<le> 1 / 2"
  using floor_correct[of x] by (auto simp: round_even_def Let_def abs_le_iff)

text \<open>Two connections of one key have one five-tuple and start within a millisecond of each other; not every two that do
  have one key, as the start is rounded.\<close>

definition same_conn :: "conn_event \<Rightarrow> conn_event \<Rightarrow> bool" where
  "same_conn c d \<longleftrightarrow> ce_five_tuple c = ce_five_tuple d \<and> \<bar>ce_start c - ce_start d\<bar> \<le> 1 / 1000"

lemma same_key: "conn_key c = conn_key d \<Longrightarrow> same_conn c d"
proof -
  assume k: "conn_key c = conn_key d"
  then have "ce_five_tuple c = ce_five_tuple d" by (simp add: conn_key_def Let_def)
  moreover from k have "round_even (ce_start c * 1000) = round_even (ce_start d * 1000)" by (simp add: conn_key_def Let_def)
  with round_even_near[of "ce_start c * 1000"] round_even_near[of "ce_start d * 1000"]
  have "\<bar>ce_start c * 1000 - ce_start d * 1000\<bar> \<le> 1" by linarith
  then have "\<bar>ce_start c - ce_start d\<bar> \<le> 1 / 1000" by linarith
  ultimately show ?thesis by (simp add: same_conn_def)
qed

lemma dedupe_kept:
  "distinct (map conn_key (dedupe conns)) \<and> set (dedupe conns) \<subseteq> set conns
    \<and> sorted (map ce_start (dedupe conns)) \<and> conn_key ` set (dedupe conns) = conn_key ` set conns"
proof -
  have "\<exists>k. fold keep_conn xs ([], []) = (map conn_key k, k) \<and> distinct (map conn_key k) \<and> set k \<subseteq> set xs
      \<and> sorted (map ce_start k) \<and> conn_key ` set k = conn_key ` set xs" if "sorted (map ce_start xs)" for xs
    using that
  proof (induction xs rule: rev_induct)
    case (snoc c xs)
    then obtain k where k: "fold keep_conn xs ([], []) = (map conn_key k, k)" "distinct (map conn_key k)" "set k \<subseteq> set xs"
      "sorted (map ce_start k)" "conn_key ` set k = conn_key ` set xs" by (auto simp: sorted_append)
    from snoc.prems k(3) have later: "\<forall>d\<in>set k. ce_start d \<le> ce_start c" by (auto simp: sorted_append)
    have step: "fold keep_conn (xs @ [c]) ([], []) = (if conn_key c \<in> conn_key ` set k then (map conn_key k, k)
        else (map conn_key (k @ [c]), k @ [c]))"
      by (simp add: k(1)) (simp add: keep_conn_def)
    show ?case
    proof (cases "conn_key c \<in> conn_key ` set k")
      case True
      with k(2-) step show ?thesis by (intro exI[of _ k]) (auto simp del: fold_append)
    next
      case False
      with k(2-) later step show ?thesis by (intro exI[of _ "k @ [c]"]) (auto simp: sorted_append simp del: fold_append)
    qed
  qed simp
  from this[of "sort_key ce_start conns"] show ?thesis by (auto simp: dedupe_def)
qed

section \<open>Which connection went where\<close>

definition placed :: "(json \<Rightarrow> string) \<Rightarrow> vocabulary \<Rightarrow> flow_apps \<Rightarrow> rat \<times> rat \<Rightarrow> conn_event list \<Rightarrow> (conn_event \<times> candidate) list" where
  "placed other vo apps window conns = concat (map (\<lambda>c. if in_window window c
     then (case match_conn other vo c (dget_or apps (ce_flow c) []) of Inl _ \<Rightarrow> [] | Inr cd \<Rightarrow> [(c, cd)]) else []) conns)"

lemma placed_snoc: "placed other vo apps window (cs @ [c]) = placed other vo apps window cs
    @ (if in_window window c then (case match_conn other vo c (dget_or apps (ce_flow c) []) of Inl _ \<Rightarrow> [] | Inr cd \<Rightarrow> [(c, cd)]) else [])"
  by (simp add: placed_def)

lemma label_conns_placed:
  "lg_by_instance (label_conns other vo apps window conns)
    = fold (\<lambda>(k, v) d. dappend k v d) (map (\<lambda>(c, cd). (own_key cd, (ce_start c, cd_state cd, cd_many cd))) (placed other vo apps window conns)) []"
  unfolding label_conns_def
  by (rule fold_done[where Q = "\<lambda>done s. lg_by_instance s = fold (\<lambda>(k, v) d. dappend k v d)
      (map (\<lambda>(c, cd). (own_key cd, (ce_start c, cd_state cd, cd_many cd))) (placed other vo apps window done)) []"])
    (auto simp: placed_def label_conn_def Let_def split: sum.splits)

definition counts_kept :: "nat \<Rightarrow> labelling \<Rightarrow> bool" where
  "counts_kept n s \<longleftrightarrow> sum_list (map snd (lg_reasons s)) = n
     \<and> sum_list (map snd (lg_originators s)) = dget_or (lg_reasons s) ''unknown originator'' 0
     \<and> dict_ok (lg_reasons s) \<and> dict_ok (lg_originators s) \<and> lg_with_app s \<le> lg_http s"

lemma count_up_get: "dget_or (count_up k d) k' 0 = (if k' = k then dget_or d k 0 + 1 else dget_or d k' 0)"
  by (simp add: count_up_def)

lemma dict_ok_count_up: "dict_ok d \<Longrightarrow> dict_ok (count_up k d)"
  by (simp add: count_up_def)

lemma count_up_sum: "dict_ok d \<Longrightarrow> sum_list (map snd (count_up k d)) = sum_list (map snd d) + 1"
  unfolding count_up_def dict_ok_def
proof (induction d)
  case (Cons e d)
  then show ?case by (cases e) (auto simp: dget_or_def dset_fresh)
qed (simp add: dget_or_def)

lemma label_conns_counts:
  "\<exists>n. counts_kept n (label_conns other vo apps window conns)
    \<and> n + length (placed other vo apps window conns) = length (filter (in_window window) conns)"
  unfolding label_conns_def
proof (rule fold_done[where Q = "\<lambda>done s. \<exists>n. counts_kept n s \<and> n + length (placed other vo apps window done) = length (filter (in_window window) done)"])
  fix ds c s assume "\<exists>n. counts_kept n s \<and> n + length (placed other vo apps window ds) = length (filter (in_window window) ds)"
  then obtain n where n: "counts_kept n s" "n + length (placed other vo apps window ds) = length (filter (in_window window) ds)"
    by blast
  obtain r where r: "r = match_conn other vo c (dget_or apps (ce_flow c) [])" by blast
  show "\<exists>n. counts_kept n (label_conn other vo apps window c s)
      \<and> n + length (placed other vo apps window (ds @ [c])) = length (filter (in_window window) (ds @ [c]))"
  proof (cases "in_window window c")
    case True
    show ?thesis
    proof (cases r)
      case (Inl reason)
      then have m: "match_conn other vo c (dget_or apps (ce_flow c) []) = Inl reason" by (simp add: r)
      have "counts_kept (n + 1) (label_conn other vo apps window c s)"
        using n(1) True by (cases reason) (simp_all add: counts_kept_def label_conn_def Let_def m count_up_sum count_up_get
          dict_ok_count_up no_match_str_def)
      with n(2) True show ?thesis by (intro exI[of _ "n + 1"]) (simp add: placed_snoc m)
    next
      case (Inr cd)
      then have m: "match_conn other vo c (dget_or apps (ce_flow c) []) = Inr cd" by (simp add: r)
      have "counts_kept n (label_conn other vo apps window c s)"
        using n(1) True by (simp add: counts_kept_def label_conn_def Let_def m)
      with n(2) True show ?thesis by (intro exI[of _ n]) (simp add: placed_snoc m)
    qed
  qed (use n in \<open>auto simp: label_conn_def placed_snoc\<close>)
qed (simp add: counts_kept_def placed_def dget_or_def)

section \<open>Merging\<close>

text \<open>What is kept of the events of an instance: nothing but those events, none more often; every event of an
  action that makes one connection; of an action that makes many, all but some that follow another event
  of their state within a second, and no two in a row within a second of each other.\<close>

definition stamped :: "rat \<times> string \<times> bool \<Rightarrow> rat \<times> string" where
  "stamped = (\<lambda>(t, m, many). (t, m))"

definition stands_alone :: "(rat \<times> string \<times> bool) list \<Rightarrow> (rat \<times> string) list \<Rightarrow> nat \<Rightarrow> bool" where
  "stands_alone events merged i \<longleftrightarrow> snd (merged ! i) \<noteq> snd (merged ! Suc i)
     \<or> 1 \<le> fst (merged ! Suc i) - fst (merged ! i) \<or> (fst (merged ! Suc i), snd (merged ! Suc i), False) \<in> set events"

definition folded_away :: "(rat \<times> string \<times> bool) list \<Rightarrow> rat \<Rightarrow> string \<Rightarrow> bool" where
  "folded_away events t m \<longleftrightarrow> (\<exists>(t', m', many)\<in>set events. m' = m \<and> t' < t \<and> t - t' < 1)"

definition merged_from :: "(rat \<times> string \<times> bool) list \<Rightarrow> (rat \<times> string) list \<Rightarrow> bool" where
  "merged_from events merged \<longleftrightarrow> sorted (map fst merged)
     \<and> mset merged \<subseteq># mset (map stamped events)
     \<and> mset (map stamped (filter (\<lambda>(t, m, many). \<not> many) events)) \<subseteq># mset merged
     \<and> (\<forall>(t, m, many)\<in>set events. (t, m) \<in> set merged \<or> folded_away events t m)
     \<and> (\<forall>i. Suc i < length merged \<longrightarrow> stands_alone events merged i)"

lemma sub_add: "A \<subseteq># B \<Longrightarrow> A \<subseteq># add_mset x B"
  by (rule subset_mset.order_trans[of A B]) simp_all

lemma more_events: "set events \<subseteq> set wider \<Longrightarrow> folded_away events t m \<Longrightarrow> folded_away wider t m"
  "set events \<subseteq> set wider \<Longrightarrow> stands_alone events merged i \<Longrightarrow> stands_alone wider merged i"
  unfolding folded_away_def stands_alone_def by blast+

lemma merge_many_from:
  assumes "sorted (map fst events)"
  shows "merged_from events (fold merge_many events [])"
  using assms
proof (induction events rule: rev_induct)
  case (snoc e events)
  obtain t m many where e: "e = (t, m, many)" using prod_cases3 by blast
  obtain kept where kept: "kept = fold merge_many events []" by blast
  from snoc have from_: "merged_from events kept" by (simp add: sorted_append kept)
  note parts = from_[unfolded merged_from_def]
  have more: "set events \<subseteq> set (events @ [e])" by auto
  have kept_in: "set kept \<subseteq> stamped ` set events" using parts set_mset_mono[of "mset kept" "mset (map stamped events)"] by simp
  from snoc.prems have before: "\<forall>x\<in>set events. fst x \<le> t" by (auto simp: sorted_append e)
  then have late: "\<forall>x\<in>set kept. fst x \<le> t" using kept_in by (fastforce simp: stamped_def)
  have old: "(t', m') \<in> set kept \<or> folded_away (events @ [e]) t' m'" if "(t', m', many') \<in> set events" for t' m' many'
    using parts that more_events(1)[OF more] by blast
  have apart: "stands_alone (events @ [e]) kept i" if "Suc i < length kept" for i
    using parts that more_events(2)[OF more] by blast
  show ?case
  proof (cases "many \<and> kept \<noteq> [] \<and> snd (last kept) = m \<and> t - fst (last kept) < 1")
    case True
    then have l: "(fst (last kept), m) \<in> set kept" by (metis last_in_set prod.collapse)
    then obtain many' where "(fst (last kept), m, many') \<in> set events" using kept_in by (auto simp: stamped_def)
    moreover have "fst (last kept) \<le> t" using late l by auto
    ultimately have "(t, m) \<in> set kept \<or> folded_away events t m"
      using True l by (cases "fst (last kept) = t") (auto simp: folded_away_def intro!: bexI[of _ "(fst (last kept), m, many')"])
    then have new: "(t, m) \<in> set kept \<or> folded_away (events @ [e]) t m" using more_events(1)[OF more] by blast
    have "fold merge_many (events @ [e]) [] = kept" using True by (simp add: merge_many_def e kept)
    moreover have "mset kept \<subseteq># mset (map stamped (events @ [e]))"
      using parts by (simp add: sub_add)
    moreover have "filter (\<lambda>(t, m, many). \<not> many) (events @ [e]) = filter (\<lambda>(t, m, many). \<not> many) events"
      using True by (simp add: e)
    ultimately show ?thesis using parts old apart new unfolding merged_from_def by (auto simp: e)
  next
    case False
    have "fold merge_many (events @ [e]) [] = kept @ [(t, m)]" using False by (simp add: merge_many_def e kept)
    moreover have "mset (kept @ [(t, m)]) \<subseteq># mset (map stamped (events @ [e]))"
      using parts by (simp add: e stamped_def)
    moreover have "mset (map stamped (filter (\<lambda>(t, m, many). \<not> many) (events @ [e]))) \<subseteq># mset (kept @ [(t, m)])"
      using parts by (simp add: e stamped_def sub_add)
    moreover have "sorted (map fst (kept @ [(t, m)]))" using parts late by (auto simp: sorted_append)
    moreover have "stands_alone (events @ [e]) (kept @ [(t, m)]) i" if i: "Suc i < length (kept @ [(t, m)])" for i
    proof (cases "Suc i < length kept")
      case True
      with apart[OF True] show ?thesis by (simp add: stands_alone_def nth_append)
    next
      case False
      with i have last_kept: "Suc i = length kept" by simp
      then have "kept \<noteq> []" "kept ! i = last kept" by auto (metis diff_Suc_1 last_conv_nth list.size(3) nat.distinct(1))
      note last_kept = this last_kept
      have "(t, m, False) \<in> set (events @ [e]) \<or> snd (last kept) \<noteq> m \<or> 1 \<le> t - fst (last kept)"
        using \<open>\<not> (many \<and> kept \<noteq> [] \<and> snd (last kept) = m \<and> t - fst (last kept) < 1)\<close> last_kept(1) by (auto simp: e)
      with last_kept show ?thesis by (auto simp: stands_alone_def nth_append)
    qed
    ultimately show ?thesis using old unfolding merged_from_def by (auto simp: e)
  qed
qed (simp add: merged_from_def)

section \<open>One stream per instance\<close>

lemma open_gets: "dget_or (fold open_behaviour cs d) key [] = dget_or d key []"
  by (induction cs arbitrary: d) (auto simp: open_behaviour_def dget_or_absent)

lemma open_ok: "dict_ok d \<Longrightarrow> dict_ok (fold open_behaviour cs d)"
  by (induction cs arbitrary: d) (auto simp: open_behaviour_def)

lemma add_active_grouped: "fold (add_active window) items d
    = fold (\<lambda>(k, v) d. dappend k v d) (map (\<lambda>((k, b, i), evs). ((k, b), instance_stream window i evs)) items) d"
  by (induction items arbitrary: d) (auto simp: add_active_def)

lemma active_ok: "dict_ok (active_streams vo window found)"
  by (simp add: active_streams_def add_active_grouped grouped_ok open_ok)

lemma own_items: "map snd (filter (\<lambda>x. fst x = (k, b)) (map (\<lambda>((k, b, i), evs). ((k, b), f i evs)) xs))
    = map (\<lambda>((k, b, i), evs). f i evs) (filter (\<lambda>((k', b', i), evs). (k', b') = (k, b)) xs)"
  by (induction xs) auto

lemma active_gets: "dget_or (active_streams vo window found) (k, b) []
    = map (\<lambda>((k, b, i), evs). instance_stream window i evs) (filter (\<lambda>((k', b', i), evs). (k', b') = (k, b)) (sort_key fst found))"
  unfolding active_streams_def add_active_grouped grouped_get own_items open_gets by (simp add: dget_or_def)

lemma instance_stream_host [simp]: "es_host (instance_stream window i evs) = i"
  by (simp add: instance_stream_def Let_def)

lemma active_hosts:
  assumes "dict_ok found"
  shows "distinct (map es_host (dget_or (active_streams vo window found) (k, b) []))"
    and "i \<in> set (map es_host (dget_or (active_streams vo window found) (k, b) [])) \<longleftrightarrow> (k, b, i) \<in> set (dkeys found)"
proof -
  let ?own = "filter (\<lambda>((k', b', i), evs). (k', b') = (k, b)) (sort_key fst found)"
  have keys: "map es_host (dget_or (active_streams vo window found) (k, b) []) = map (\<lambda>x. snd (snd (fst x))) ?own"
    by (auto simp: active_gets intro!: map_cong split: prod.splits)
  have "distinct (map fst (sort_key fst found))"
    using assms by (simp add: dict_ok_def distinct_map card_distinct inj_on_def)
  then have "inj_on fst (set ?own)" "distinct ?own" by (auto simp: distinct_map inj_on_def)
  then have "inj_on (\<lambda>x. snd (snd (fst x))) (set ?own)" by (force simp: inj_on_def)
  with \<open>distinct ?own\<close> show "distinct (map es_host (dget_or (active_streams vo window found) (k, b) []))"
    unfolding keys by (simp add: distinct_map)
  show "i \<in> set (map es_host (dget_or (active_streams vo window found) (k, b) [])) \<longleftrightarrow> (k, b, i) \<in> set (dkeys found)"
    unfolding keys by (force simp: dkeys_def)
qed

lemma in_seen_streams:
  assumes "dict_ok d"
  shows "(k, b, i) \<in> set (seen_streams d) \<longleftrightarrow> i \<in> set (map es_host (dget_or d (k, b) []))"
proof -
  have "set (seen_streams d) = (\<Union>e\<in>set d. (\<lambda>s. (fst (fst e), snd (fst e), es_host s)) ` set (snd e))"
    by (simp add: seen_streams_def case_prod_unfold)
  then have "(k, b, i) \<in> set (seen_streams d) \<longleftrightarrow> (\<exists>ss. ((k, b), ss) \<in> set d \<and> i \<in> set (map es_host ss))"
    by (simp add: image_iff Bex_def split_paired_Ex) blast
  then show ?thesis unfolding dget_in_iff[OF assms] by (cases "dget d (k, b)") (simp_all add: dget_or_def)
qed

definition idle_stream :: "rat \<times> rat \<Rightarrow> string \<Rightarrow> event_stream" where
  "idle_stream window i = \<lparr>es_host = i, es_times = [], es_marks = [], es_window = window\<rparr>"

definition hosts_for :: "candidate list \<Rightarrow> string \<times> string \<Rightarrow> string set" where
  "hosts_for cs key = cd_instance ` {c \<in> set cs. behaviour_key c = key}"

lemma hosts_for_snoc: "hosts_for (cs @ [c]) key = (if behaviour_key c = key then insert (cd_instance c) (hosts_for cs key) else hosts_for cs key)"
  by (auto simp: hosts_for_def)

definition idled :: "rat \<times> rat \<Rightarrow> labelled_streams \<Rightarrow> candidate list \<Rightarrow> instance_key list \<times> labelled_streams \<Rightarrow> bool" where
  "idled window d0 cs acc \<longleftrightarrow>
     (\<forall>k b i. (k, b, i) \<in> set (fst acc) \<longleftrightarrow> i \<in> set (map es_host (dget_or (snd acc) (k, b) [])))
     \<and> (\<forall>key. distinct (map es_host (dget_or (snd acc) key []))
        \<and> set (map es_host (dget_or (snd acc) key [])) = set (map es_host (dget_or d0 key [])) \<union> hosts_for cs key
        \<and> (\<forall>s\<in>set (dget_or (snd acc) key []). s \<in> set (dget_or d0 key [])
             \<or> s = idle_stream window (es_host s) \<and> es_host s \<notin> set (map es_host (dget_or d0 key []))))"

lemma idles:
  assumes "dict_ok d0" "\<And>key. distinct (map es_host (dget_or d0 key []))"
  shows "idled window d0 cs (fold (add_idle window) cs (seen_streams d0, d0))"
proof (rule fold_done[where Q = "idled window d0"])
  show "idled window d0 [] (seen_streams d0, d0)" using assms by (simp add: idled_def in_seen_streams hosts_for_def)
next
  fix ds c acc assume old: "idled window d0 ds acc"
  obtain seen d where acc: "acc = (seen, d)" by fastforce
  have seen: "own_key c \<in> set seen \<longleftrightarrow> cd_instance c \<in> set (map es_host (dget_or d (behaviour_key c) []))"
    using old by (simp add: idled_def acc own_key_def behaviour_key_def)
  show "idled window d0 (ds @ [c]) (add_idle window c acc)"
  proof (cases "own_key c \<in> set seen")
    case True
    with seen have known: "cd_instance c \<in> set (map es_host (dget_or d (behaviour_key c) []))" by simp
    have "set (map es_host (dget_or d key [])) = set (map es_host (dget_or d0 key [])) \<union> hosts_for ds key" for key
      using old by (simp add: idled_def acc del: split_paired_All set_map)
    with known have same: "set (map es_host (dget_or d0 key [])) \<union> hosts_for ds key
        = set (map es_host (dget_or d0 key [])) \<union> hosts_for (ds @ [c]) key" for key
      unfolding hosts_for_snoc by (cases "behaviour_key c = key") (auto simp del: set_map)
    from old have "idled window d0 (ds @ [c]) acc" unfolding idled_def same .
    with True show ?thesis by (simp add: add_idle_def acc)
  next
    case False
    have new: "add_idle window c acc = (seen @ [own_key c], dappend (behaviour_key c) (idle_stream window (cd_instance c)) d)"
      using False by (simp add: add_idle_def acc idle_stream_def)
    have host: "es_host (idle_stream window i) = i" for i by (simp add: idle_stream_def)
    have fresh: "cd_instance c \<notin> set (map es_host (dget_or d (behaviour_key c) []))" using False seen by simp
    note parts = old[unfolded idled_def acc fst_conv snd_conv]
    have was: "distinct (map es_host (dget_or d key []))"
      "set (map es_host (dget_or d key [])) = set (map es_host (dget_or d0 key [])) \<union> hosts_for ds key"
      "\<forall>s\<in>set (dget_or d key []). s \<in> set (dget_or d0 key [])
         \<or> s = idle_stream window (es_host s) \<and> es_host s \<notin> set (map es_host (dget_or d0 key []))" for key
      using parts by blast+
    let ?d = "dappend (behaviour_key c) (idle_stream window (cd_instance c)) d"
    have now: "dget_or ?d key [] = dget_or d key [] @ (if key = behaviour_key c then [idle_stream window (cd_instance c)] else [])" for key
      by (simp add: dget_or_dappend)
    have "(k, b, i) \<in> set (seen @ [own_key c]) \<longleftrightarrow> (k, b, i) \<in> set seen \<or> (k, b) = behaviour_key c \<and> i = cd_instance c" for k b i
      by (auto simp: own_key_def behaviour_key_def)
    then have "\<forall>k b i. (k, b, i) \<in> set (seen @ [own_key c]) \<longleftrightarrow> i \<in> set (map es_host (dget_or ?d (k, b) []))"
      unfolding conjunct1[OF parts, rule_format] by (auto simp: now host)
    moreover have "distinct (map es_host (dget_or ?d key []))" for key
      using was(1)[of key] fresh by (cases "key = behaviour_key c") (simp_all add: now host)
    moreover have "set (map es_host (dget_or ?d key [])) = set (map es_host (dget_or d0 key [])) \<union> hosts_for (ds @ [c]) key" for key
      using was(2)[of key] by (cases "key = behaviour_key c") (simp_all add: now host hosts_for_snoc)
    moreover have "\<forall>s\<in>set (dget_or ?d key []). s \<in> set (dget_or d0 key [])
         \<or> s = idle_stream window (es_host s) \<and> es_host s \<notin> set (map es_host (dget_or d0 key []))" for key
      using was(3)[of key] was(2)[of key] fresh by (cases "key = behaviour_key c") (auto simp: now host)
    ultimately show ?thesis unfolding new idled_def fst_conv snd_conv by blast
  qed
qed

lemma streams_gets: "dget_or (streams_by_behaviour vo window found) key []
    = sort_key es_host (dget_or (snd (fold (add_idle window) (all_candidates vo)
        (seen_streams (active_streams vo window found), active_streams vo window found))) key [])"
  by (auto simp: streams_by_behaviour_def Let_def dget_or_def map_of_map split: option.splits)

text \<open>What a stream may and must hold of the connections placed with its instance: its events are such
  connections, in time order, each as the state it was taken for and none more often; every connection of an action that makes
  one is there; of an action that makes many, one that is not there has another of its state less than a second
  before it, and two that follow each other are at least a second apart.\<close>

definition own_of :: "(conn_event \<times> candidate) list \<Rightarrow> string \<times> string \<Rightarrow> string \<Rightarrow> (conn_event \<times> candidate) list" where
  "own_of matched key i = filter (\<lambda>(c, cd). behaviour_key cd = key \<and> cd_instance cd = i) matched"

definition mark_of :: "conn_event \<times> candidate \<Rightarrow> rat \<times> string" where
  "mark_of = (\<lambda>(c, cd). (ce_start c, cd_state cd))"

definition one_only :: "(conn_event \<times> candidate) list \<Rightarrow> (conn_event \<times> candidate) list" where
  "one_only own = filter (\<lambda>(c, cd). \<not> cd_many cd) own"

definition tells :: "(conn_event \<times> candidate) list \<Rightarrow> string \<times> string \<Rightarrow> event_stream \<Rightarrow> bool" where
  "tells matched key s \<longleftrightarrow>
     (let own = own_of matched key (es_host s); told = zip (es_times s) (es_marks s)
      in sorted (es_times s) \<and> length (es_marks s) = length (es_times s)
         \<and> mset told \<subseteq># mset (map mark_of own) \<and> mset (map mark_of (one_only own)) \<subseteq># mset told
         \<and> (\<forall>(t, m)\<in>set (map mark_of own). (t, m) \<in> set told
              \<or> (\<exists>t'. (t', m) \<in> set (map mark_of own) \<and> t' < t \<and> t - t' < 1))
         \<and> (\<forall>i. Suc i < length told \<longrightarrow> snd (told ! i) \<noteq> snd (told ! Suc i)
              \<or> 1 \<le> fst (told ! Suc i) - fst (told ! i) \<or> told ! Suc i \<in> set (map mark_of (one_only own))))"

lemma tells_lengths: "tells matched key s \<Longrightarrow> length (es_marks s) = length (es_times s)"
  by (simp add: tells_def Let_def)

lemma tells_marks:
  assumes "tells matched key s" "(t, m) \<in> set (zip (es_times s) (es_marks s))"
  shows "\<exists>c cd. (c, cd) \<in> set matched \<and> cd_state cd = m \<and> behaviour_key cd = key"
proof -
  from assms(1) have "mset (zip (es_times s) (es_marks s)) \<subseteq># mset (map mark_of (own_of matched key (es_host s)))"
    unfolding tells_def Let_def by blast
  from set_mset_mono[OF this] assms(2) have "(t, m) \<in> set (map mark_of (own_of matched key (es_host s)))" by auto
  then show ?thesis by (auto simp: mark_of_def own_of_def)
qed

lemma instance_stream_tells:
  assumes "evs = map (\<lambda>(c, cd). (ce_start c, cd_state cd, cd_many cd)) (own_of matched (k, b) i)"
  shows "tells matched (k, b) (instance_stream window i evs)"
proof -
  let ?own = "own_of matched (k, b) i"
  have "sorted (map fst (sort evs))"
  proof -
    have "sorted_wrt (\<le>) (sort evs)" by simp
    then have "sorted_wrt (\<lambda>x y. fst x \<le> fst y) (sort evs)"
      by (rule sorted_wrt_mono_rel[rotated]) (auto simp: less_eq_prod_def)
    then show ?thesis by (simp add: sorted_map)
  qed
  then have m: "merged_from (sort evs) (fold merge_many (sort evs) [])" by (rule merge_many_from)
  obtain kp where kp: "kp = fold merge_many (sort evs) []" by blast
  have s: "es_times (instance_stream window i evs) = map fst kp" "es_marks (instance_stream window i evs) = map snd kp"
    by (simp_all add: instance_stream_def Let_def kp)
  have marks: "map stamped evs = map mark_of ?own" unfolding assms by (simp add: stamped_def mark_of_def case_prod_unfold)
  have ones: "map stamped (filter (\<lambda>(t, m, many). \<not> many) evs) = map mark_of (one_only ?own)"
    unfolding assms one_only_def filter_map by (simp add: stamped_def mark_of_def case_prod_unfold comp_def)
  have sorts: "mset (map stamped (sort evs)) = mset (map mark_of ?own)"
    "mset (map stamped (filter (\<lambda>(t, m, many). \<not> many) (sort evs))) = mset (map mark_of (one_only ?own))"
    unfolding marks[symmetric] ones[symmetric] by (simp_all add: mset_map mset_filter)
  note parts = m[folded kp, unfolded merged_from_def sorts set_sort]
  have away: "\<exists>t'. (t', m) \<in> set (map mark_of ?own) \<and> t' < t \<and> t - t' < 1" if "folded_away (sort evs) t m" for t m
    using that unfolding folded_away_def marks[symmetric] by (force simp: stamped_def)
  have alone: "snd (kp ! j) \<noteq> snd (kp ! Suc j) \<or> 1 \<le> fst (kp ! Suc j) - fst (kp ! j) \<or> kp ! Suc j \<in> set (map mark_of (one_only ?own))"
    if "Suc j < length kp" for j
  proof -
    from parts that have "stands_alone (sort evs) kp j" by blast
    then show ?thesis unfolding stands_alone_def ones[symmetric]
      by (cases "kp ! Suc j") (force simp: stamped_def)
  qed
  have all: "(t, m) \<in> set kp \<or> (\<exists>t'. (t', m) \<in> set (map mark_of ?own) \<and> t' < t \<and> t - t' < 1)"
    if "(t, m) \<in> set (map mark_of ?own)" for t m
  proof -
    from that obtain many where "(t, m, many) \<in> set evs" unfolding marks[symmetric] by (auto simp: stamped_def)
    with parts have "(t, m) \<in> set kp \<or> folded_away (sort evs) t m" by blast
    with away show ?thesis by blast
  qed
  have "sorted (map fst kp)" "mset kp \<subseteq># mset (map mark_of ?own)" "mset (map mark_of (one_only ?own)) \<subseteq># mset kp"
    using parts by blast+
  moreover have "\<forall>(t, m)\<in>set (map mark_of ?own). (t, m) \<in> set kp
      \<or> (\<exists>t'. (t', m) \<in> set (map mark_of ?own) \<and> t' < t \<and> t - t' < 1)" using all by blast
  ultimately show ?thesis
    unfolding tells_def Let_def s instance_stream_host zip_map_fst_snd length_map using alone by blast
qed

definition placed_of :: "(json \<Rightarrow> string) \<Rightarrow> event list \<Rightarrow> vocabulary \<Rightarrow> rat \<times> rat \<Rightarrow> (conn_event \<times> candidate) list" where
  "placed_of other events vo window =
     (let (conns, apps) = fold sort_event events ([], []) in placed other vo apps window (dedupe conns))"

lemma match_candidate:
  assumes "match_conn other vo c apps = Inr cd"
  shows "cd \<in> set (all_candidates vo)"
proof -
  from assms obtain found where f: "dget (vo_by_address vo) (ft_orig_addr (ce_five_tuple c)) = Some found"
    by (auto simp: match_conn_def split: option.splits)
  have hits: "set (conn_hits found c) \<subseteq> set found" by (auto simp: conn_hits_def Let_def)
  have "cd \<in> set (conn_hits found c)"
    using assms by (auto simp: match_conn_def f Let_def length_Suc_conv neq_Nil_conv split: if_splits dest!: filter_eq_ConsD)
  with hits f show ?thesis by (force simp: all_candidates_def dvalues_def dest: dget_Some_in)
qed

lemma placed_in:
  assumes "(c, cd) \<in> set (placed other vo apps window conns)"
  shows "cd \<in> set (all_candidates vo) \<and> c \<in> set conns \<and> in_window window c"
  using assms by (auto simp: placed_def split: if_splits sum.splits intro: match_candidate[OF sym])

definition told :: "(conn_event \<times> candidate) list \<Rightarrow> vocabulary \<Rightarrow> string \<times> string \<Rightarrow> event_stream list \<Rightarrow> bool" where
  "told matched vo key ss \<longleftrightarrow> sorted (map es_host ss) \<and> distinct (map es_host ss)
     \<and> set (map es_host ss) = hosts_for (all_candidates vo) key \<and> (\<forall>s\<in>set ss. tells matched key s)"

lemma streams_told:
  assumes "found = lg_by_instance (label_conns other vo apps window conns)" "matched = placed other vo apps window conns"
  shows "told matched vo (k, b) (dget_or (streams_by_behaviour vo window found) (k, b) [])"
proof -
  let ?d0 = "active_streams vo window found"
  obtain seen d where d: "fold (add_idle window) (all_candidates vo) (seen_streams ?d0, ?d0) = (seen, d)" by fastforce
  have grouped: "found = fold (\<lambda>(k, v) d. dappend k v d) (map (\<lambda>(c, cd). (own_key cd, (ce_start c, cd_state cd, cd_many cd))) matched) []"
    by (simp add: assms label_conns_placed)
  have ok: "dict_ok found" unfolding grouped by (rule grouped_ok) simp
  have dist: "distinct (map es_host (dget_or ?d0 key []))" for key by (cases key) (simp add: active_hosts(1)[OF ok])
  have idled: "idled window ?d0 (all_candidates vo) (seen, d)" using idles[OF active_ok dist, where window = window] d by metis
  note parts = idled[unfolded idled_def fst_conv snd_conv, THEN conjunct2, rule_format, of "(k, b)"]
  have hosts0: "i \<in> set (map es_host (dget_or ?d0 (k, b) [])) \<longleftrightarrow> (\<exists>(c, cd)\<in>set matched. own_key cd = (k, b, i))" for i
  proof -
    have "set (dkeys found) = own_key ` snd ` set matched"
      unfolding grouped dkeys_def set_map grouped_keys by (simp add: image_image case_prod_unfold)
    then show ?thesis unfolding active_hosts(2)[OF ok] by force
  qed
  have "set (map es_host (dget_or ?d0 (k, b) [])) \<subseteq> hosts_for (all_candidates vo) (k, b)"
  proof
    fix i assume "i \<in> set (map es_host (dget_or ?d0 (k, b) []))"
    then obtain c cd where "(c, cd) \<in> set matched" "own_key cd = (k, b, i)" unfolding hosts0 by blast
    with placed_in[of c cd other vo apps window conns] show "i \<in> hosts_for (all_candidates vo) (k, b)"
      by (auto simp: assms hosts_for_def own_key_def behaviour_key_def)
  qed
  with parts have hosts: "set (map es_host (dget_or d (k, b) [])) = hosts_for (all_candidates vo) (k, b)" by blast
  have active: "tells matched (k, b) s" if "s \<in> set (dget_or ?d0 (k, b) [])" for s
  proof -
    from that obtain i evs where e: "((k, b, i), evs) \<in> set found" "s = instance_stream window i evs"
      by (auto simp: active_gets)
    from e(1) have "evs = map snd (filter (\<lambda>x. fst x = (k, b, i)) (map (\<lambda>(c, cd). (own_key cd, (ce_start c, cd_state cd, cd_many cd))) matched))"
      unfolding grouped by (rule grouped_entry)
    then have "evs = map (\<lambda>(c, cd). (ce_start c, cd_state cd, cd_many cd)) (own_of matched (k, b) i)"
      by (simp add: filter_map own_of_def own_key_def behaviour_key_def comp_def case_prod_unfold)
    then show ?thesis unfolding e(2) by (rule instance_stream_tells)
  qed
  have idle: "tells matched (k, b) s" if "s = idle_stream window (es_host s)" "es_host s \<notin> set (map es_host (dget_or ?d0 (k, b) []))" for s
  proof -
    have "es_times s = []" "es_marks s = []" by (subst that(1), simp add: idle_stream_def)+
    moreover from that(2) have "own_key cd \<noteq> (k, b, es_host s)" if "(c, cd) \<in> set matched" for c cd
      using that unfolding hosts0 by blast
    then have "own_of matched (k, b) (es_host s) = []"
      by (auto simp: own_of_def own_key_def behaviour_key_def filter_empty_conv)
    ultimately show ?thesis by (simp add: tells_def one_only_def)
  qed
  have "\<forall>s\<in>set (dget_or d (k, b) []). tells matched (k, b) s" using parts active idle by blast
  with hosts parts show ?thesis unfolding streams_gets d by (simp add: told_def distinct_map)
qed

text \<open>C36: The fit is given what the sensors saw, instance by instance: for every kind and behaviour there is one
  stream for each instance the vocabulary knows it of, active or not. Its events are connections placed
  with its instance, in time order, each as the state it was taken for and none more often. Every such connection of an
  action that makes one is an event. Of an action that makes many, a connection is left out only if another one of its state
  was placed less than a second before, and two events of the state in a row are at least a second apart.\<close>

theorem labelled_streams:
  "let lab = label_events other events vo window; ss = dget_or (lb_streams lab) key []
   in sorted (map es_host ss) \<and> distinct (map es_host ss) \<and> set (map es_host ss) = hosts_for (all_candidates vo) key
     \<and> (\<forall>s\<in>set ss. tells (placed_of other events vo (lb_window lab)) key s)"
proof -
  obtain conns apps where split: "fold sort_event events ([], []) = (conns, apps)" by fastforce
  obtain k b where key: "key = (k, b)" by fastforce
  show ?thesis
    using streams_told[OF refl refl, where vo = vo and k = k and b = b and other = other and apps = apps and conns = "dedupe conns"]
    by (simp add: told_def label_events_def placed_of_def split Let_def key)
qed

section \<open>Every connection is counted\<close>

lemma sum_sorted_dict: "sum_list (map snd (sort_key f d)) = sum_list (map (snd :: 'k \<times> nat \<Rightarrow> nat) d)"
  by (metis mset_map mset_sort sum_mset_sum_list)

lemma dget_or_sorted: "dict_ok d \<Longrightarrow> dget_or (sort_key f d) k v = dget_or d k v"
proof -
  assume "dict_ok d"
  then have "distinct (map fst d)" "distinct (map fst (sort_key f d))"
    by (simp_all add: dict_ok_def distinct_map card_distinct inj_on_def)
  from map_of_inject_set[OF this] show ?thesis by (simp add: dget_or_def)
qed

lemma sort_events: "fst (fold sort_event events ([], [])) = concat (map (\<lambda>e. case e of Conn c \<Rightarrow> [c] | App _ \<Rightarrow> []) events)"
  by (rule fold_done[where Q = "\<lambda>ds acc. fst acc = concat (map (\<lambda>e. case e of Conn c \<Rightarrow> [c] | App _ \<Rightarrow> []) ds)"])
    (auto simp: sort_event_def split: event.splits)

lemma span_all:
  assumes "sorted (map ce_start conns)"
  shows "filter (in_window (span_of conns)) conns = conns"
proof -
  have "\<forall>c\<in>set conns. ce_start (hd conns) \<le> ce_start c \<and> ce_start c \<le> ce_start (last conns)"
    using assms by (induction conns) auto
  then have "\<forall>c\<in>set conns. in_window (span_of conns) c" by (force simp: in_window_def span_of_def)
  then show ?thesis by simp
qed

text \<open>C37: No connection the fit reads is lost without a count. What is kept are connections of the events, no two with one
  five-tuple and one start to the millisecond, and every connection of the events has a kept one of its
  five-tuple that starts within a millisecond of it. Each kept one inside the window is either placed with a candidate
  or counted under the one reason it was not, the unknown originators by their address as well.\<close>

theorem labelled_accounted:
  "let lab = label_events other events vo window; conns = dedupe (concat (map (\<lambda>e. case e of Conn c \<Rightarrow> [c] | App _ \<Rightarrow> []) events))
   in lb_connections lab = length conns \<and> distinct (map conn_key conns)
     \<and> (\<forall>c\<in>set conns. Conn c \<in> set events) \<and> (\<forall>c. Conn c \<in> set events \<longrightarrow> (\<exists>d\<in>set conns. same_conn c d))
     \<and> sum_list (map snd (un_by_reason (lb_unmapped lab))) + length (placed_of other events vo (lb_window lab))
       = (case window of None \<Rightarrow> length conns | Some w \<Rightarrow> length (filter (in_window w) conns))
     \<and> sum_list (map snd (un_originators (lb_unmapped lab))) = dget_or (un_by_reason (lb_unmapped lab)) ''unknown originator'' 0"
proof -
  obtain conns apps where split: "fold sort_event events ([], []) = (conns, apps)" by fastforce
  then have conns: "concat (map (\<lambda>e. case e of Conn c \<Rightarrow> [c] | App _ \<Rightarrow> []) events) = conns"
    using sort_events[of events] by simp
  have "set conns = {c. Conn c \<in> set events}" by (force simp: conns[symmetric] split: event.splits)
  with dedupe_kept[of conns] have kept: "distinct (map conn_key (dedupe conns))"
    "\<forall>c\<in>set (dedupe conns). Conn c \<in> set events" "sorted (map ce_start (dedupe conns))"
    and keys: "conn_key ` set (dedupe conns) = conn_key ` {c. Conn c \<in> set events}" by auto
  have copy: "\<exists>d\<in>set (dedupe conns). same_conn c d" if "Conn c \<in> set events" for c
  proof -
    from that have "conn_key c \<in> conn_key ` set (dedupe conns)" unfolding keys by blast
    then show ?thesis using same_key by blast
  qed
  obtain w where w: "w = (case window of None \<Rightarrow> span_of (dedupe conns) | Some w \<Rightarrow> w)" by blast
  from span_all[OF kept(3)] have all: "length (filter (in_window w) (dedupe conns))
      = (case window of None \<Rightarrow> length (dedupe conns) | Some w \<Rightarrow> length (filter (in_window w) (dedupe conns)))"
    by (simp add: w split: option.splits)
  obtain n where "counts_kept n (label_conns other vo apps w (dedupe conns))"
    "n + length (placed other vo apps w (dedupe conns)) = length (filter (in_window w) (dedupe conns))"
    using label_conns_counts by blast
  with kept(1,2) all copy show ?thesis
    by (simp add: conns Let_def label_events_def placed_of_def split w[symmetric] counts_kept_def sum_sorted_dict
      dget_or_sorted most_common_def)
qed

section \<open>Every fit can be run\<close>

text \<open>Programs of one kind have one process for each behaviour: the fit reads it from the first of them.\<close>

definition programs_alike :: "program list \<Rightarrow> bool" where
  "programs_alike programs \<longleftrightarrow> list_all (\<lambda>p. list_all (\<lambda>b. distinct (rb_states b)
     \<and> set (dkeys (rb_action_map b)) \<subseteq> set (rb_states b)
     \<and> named_behaviour programs (pg_kind p) (rb_name b) = Some b) (pg_behaviours p)) programs"

definition comes_from :: "program list \<Rightarrow> candidate \<Rightarrow> bool" where
  "comes_from programs cd \<longleftrightarrow> (\<exists>p\<in>set programs. \<exists>b\<in>set (pg_behaviours p).
     cd_kind cd = pg_kind p \<and> cd_behaviour cd = rb_name b \<and> cd_state cd \<in> set (dkeys (rb_action_map b)))"

lemma program_candidates_from:
  assumes "program_candidates other p = Inr cs" "cd \<in> set cs"
  shows "comes_from [p] cd"
proof -
  from assms obtain found where "rmap (behaviour_candidates other p) (pg_behaviours p) = Inr found" "cs = concat found"
    by (auto simp: program_candidates_def rbind_Inr_iff)
  with assms(2) obtain b bs where b: "b \<in> set (pg_behaviours p)" "behaviour_candidates other p b = Inr bs" "cd \<in> set bs"
    by (auto dest: rmap_in)
  from b(2,3) obtain ones where "rmap (\<lambda>(state, act). case act of None \<Rightarrow> Inr []
      | Some a \<Rightarrow> rbind (or_raise (ra_signature a) (dget signatures (ra_signature a)))
          (\<lambda>sg. Inr [candidate_of other p b state a sg])) (rb_action_map b) = Inr ones" "cd \<in> set (concat ones)"
    by (auto simp: behaviour_candidates_def rbind_Inr_iff)
  then obtain state act one where "(state, act) \<in> set (rb_action_map b)" "cd \<in> set one"
    "(case act of None \<Rightarrow> Inr [] | Some a \<Rightarrow> rbind (or_raise (ra_signature a) (dget signatures (ra_signature a)))
        (\<lambda>sg. Inr [candidate_of other p b state a sg])) = Inr one"
    by (auto dest!: rmap_in)
  then have "cd_kind cd = pg_kind p \<and> cd_behaviour cd = rb_name b \<and> cd_state cd \<in> set (dkeys (rb_action_map b))"
    by (force simp: candidate_of_def rbind_Inr_iff dkeys_def split: option.splits)
  with b(1) show ?thesis by (auto simp: comes_from_def)
qed

lemma set_dset: "set (dset k v d) \<subseteq> insert (k, v) (set d)"
  by (induction d) auto

lemma added_values:
  "set (concat (dvalues (fold (\<lambda>a d. dset a (dget_or d a [] @ cs) d) mine d))) \<subseteq> set (concat (dvalues d)) \<union> set cs"
proof (induction mine arbitrary: d)
  case (Cons a mine)
  have "set (dget_or d a []) \<subseteq> set (concat (dvalues d))"
    by (cases "dget d a") (auto simp: dvalues_def dget_or_def dest!: dget_Some_in)
  then have "set (concat (dvalues (dset a (dget_or d a [] @ cs) d))) \<subseteq> set (concat (dvalues d)) \<union> set cs"
    using set_dset[of a "dget_or d a [] @ cs" d] by (force simp: dvalues_def)
  with Cons.IH[of "dset a (dget_or d a [] @ cs) d"] show ?case by auto
qed simp

lemma vocabulary_from:
  assumes "vocabulary_of other programs addresses = Inr vo" "cd \<in> set (all_candidates vo)"
  shows "comes_from programs cd"
proof -
  have "\<forall>cd\<in>set (all_candidates vo). comes_from programs cd"
  proof (rule rfold_done[where Q = "\<lambda>ds vo. \<forall>cd\<in>set (all_candidates vo). comes_from ds cd", OF _ _ assms(1)[unfolded vocabulary_of_def]])
    fix ds p rest vo vo'
    assume old: "\<forall>cd\<in>set (all_candidates vo). comes_from ds cd" and new: "add_program other addresses p vo = Inr vo'"
    from new obtain cs where cs: "program_candidates other p = Inr cs"
      "vo_by_address vo' = fold (\<lambda>a d. dset a (dget_or d a [] @ cs) d) (dvalues (dget_or addresses (pg_instance p) [])) (vo_by_address vo)"
      by (auto simp: add_program_def Let_def rbind_Inr_iff)
    have "set (all_candidates vo') \<subseteq> set (all_candidates vo) \<union> set cs"
      unfolding all_candidates_def cs(2) by (rule added_values)
    with old program_candidates_from[OF cs(1)] show "\<forall>cd\<in>set (all_candidates vo'). comes_from (ds @ [p]) cd"
      by (fastforce simp: comes_from_def)
  qed (simp add: all_candidates_def dvalues_def)
  with assms(2) show ?thesis by blast
qed

lemma candidate_states: "cd_state ` set (candidates_of vo kind beh) = cd_state ` {c \<in> set (all_candidates vo). behaviour_key c = (kind, beh)}"
proof -
  have "\<forall>(k, c)\<in>set d. cd_state c = k \<Longrightarrow> cd_state ` set (dvalues (fold (\<lambda>c found. if cd_state c \<in> set (dkeys found) then found
      else dset (cd_state c) c found) cs d)) = set (dkeys d) \<union> cd_state ` set cs" for cs :: "candidate list" and d
  proof (induction cs arbitrary: d)
    case Nil
    then show ?case by (force simp: dvalues_def dkeys_def)
  next
    case (Cons c cs)
    show ?case
    proof (cases "cd_state c \<in> set (dkeys d)")
      case False
      then have "dset (cd_state c) c d = d @ [(cd_state c, c)]" by (intro dset_fresh) (simp add: dkeys_def)
      with Cons.prems False Cons.IH[of "dset (cd_state c) c d"] show ?thesis by (simp add: dkeys_def)
    qed (use Cons in auto)
  qed
  from this[of "[]"] have "cd_state ` set (dvalues (fold (\<lambda>c found. if cd_state c \<in> set (dkeys found) then found
      else dset (cd_state c) c found) cs [])) = cd_state ` set cs" for cs :: "candidate list"
    by (simp add: dkeys_def)
  then show ?thesis unfolding candidates_of_def by simp
qed

lemma streams_ok: "dict_ok (streams_by_behaviour vo window found)"
proof -
  have "dict_ok (snd (fold (add_idle window) cs acc))" if "dict_ok (snd acc)" for cs acc
    using that by (induction cs arbitrary: acc) (auto simp: add_idle_def dict_ok_dappend split: prod.splits)
  from this[of "(seen_streams (active_streams vo window found), active_streams vo window found)" "all_candidates vo"]
  have "dict_ok (snd (fold (add_idle window) (all_candidates vo)
      (seen_streams (active_streams vo window found), active_streams vo window found)))" by (simp add: active_ok)
  then show ?thesis by (simp add: streams_by_behaviour_def Let_def dict_ok_def comp_def case_prod_unfold)
qed

lemma fit_states_runs:
  assumes "programs_alike programs" "vocabulary_of other programs addresses = Inr vo" "told matched vo (kind, beh) ss"
    "\<forall>(c, cd)\<in>set matched. cd \<in> set (all_candidates vo)"
  shows "\<forall>s\<in>set ss. length (es_marks s) = length (es_times s) \<and> set (es_marks s) \<subseteq> set (fit_states programs vo kind beh)"
    and "distinct (fit_states programs vo kind beh)"
proof -
  have alike: "distinct (rb_states b) \<and> set (dkeys (rb_action_map b)) \<subseteq> set (rb_states b)
      \<and> named_behaviour programs (pg_kind p) (rb_name b) = Some b" if "p \<in> set programs" "b \<in> set (pg_behaviours p)" for p b
    using assms(1) that by (auto simp: programs_alike_def list_all_iff)
  have "set (es_marks s) \<subseteq> set (fit_states programs vo kind beh)" if "s \<in> set ss" for s
  proof
    fix m assume m: "m \<in> set (es_marks s)"
    from assms(3) that have t: "tells matched (kind, beh) s" by (simp add: told_def)
    then have "m \<in> set (map snd (zip (es_times s) (es_marks s)))" using m by (simp add: tells_lengths)
    then obtain t' where "(t', m) \<in> set (zip (es_times s) (es_marks s))" by auto
    from tells_marks[OF t this] obtain c cd where cd: "(c, cd) \<in> set matched" "cd_state cd = m" "behaviour_key cd = (kind, beh)"
      by blast
    from cd(1) assms(4) have known: "cd \<in> set (all_candidates vo)" by blast
    with cd candidate_states[of vo kind beh] have "m \<in> cd_state ` set (candidates_of vo kind beh)" by auto
    moreover from vocabulary_from[OF assms(2) known] obtain p b where "p \<in> set programs" "b \<in> set (pg_behaviours p)"
      "cd_kind cd = pg_kind p" "cd_behaviour cd = rb_name b" "cd_state cd \<in> set (dkeys (rb_action_map b))"
      by (auto simp: comes_from_def)
    with alike cd have "m \<in> set (state_order programs kind beh)" by (fastforce simp: state_order_def behaviour_key_def)
    ultimately show "m \<in> set (fit_states programs vo kind beh)" by (auto simp: fit_states_def list_ex_iff)
  qed
  with assms(3) show "\<forall>s\<in>set ss. length (es_marks s) = length (es_times s) \<and> set (es_marks s) \<subseteq> set (fit_states programs vo kind beh)"
    by (auto simp: told_def tells_lengths)
  show "distinct (fit_states programs vo kind beh)"
  proof (cases "named_behaviour programs kind beh")
    case (Some b)
    then obtain p where "p \<in> set programs" "b \<in> set (pg_behaviours p)"
      by (auto simp: named_behaviour_def dest!: first_such_Some)
    with alike Some show ?thesis by (auto simp: fit_states_def state_order_def)
  qed (simp add: fit_states_def state_order_def)
qed

definition sound_fit :: "labelled_streams \<Rightarrow> fitted \<Rightarrow> (string, resolved_action option) dict \<Rightarrow> bool" where
  "sound_fit table f action_map \<longleftrightarrow> process_ok (written f action_map) \<and> rate_nonneg (written f action_map)
     \<and> length (rb_dwell (written f action_map)) = length (rb_states (written f action_map))
     \<and> sum_list (map num (rb_initial (written f action_map))) = 1
     \<and> (\<forall>row\<in>set (rb_transitions (written f action_map)). sum_list (map num row) = 1)
     \<and> (\<exists>s\<in>set (dget_or table (fi_kind f, fi_behaviour f) []). es_times s \<noteq> [])"

lemma fit_one_runs:
  assumes "distinct (fit_states programs vo kind beh)"
    "\<forall>s\<in>set ss. length (es_marks s) = length (es_times s) \<and> set (es_marks s) \<subseteq> set (fit_states programs vo kind beh)"
    "ss = dget_or table (kind, beh) []"
  shows "case fit_one F programs vo tz ((kind, beh), ss) of
      Inl e \<Rightarrow> unfitted F ss (fit_states programs vo kind beh) tz e
    | Inr None \<Rightarrow> \<forall>s\<in>set ss. es_times s = []
    | Inr (Some (f, m)) \<Rightarrow> sound_fit table f m \<and> fi_kind f = kind \<and> fi_behaviour f = beh"
proof (cases "fit_states programs vo kind beh = [] \<or> list_all (\<lambda>s. es_times s = []) ss")
  case False
  then have some: "\<exists>s\<in>set ss. es_times s \<noteq> []" by (auto simp: list_all_iff)
  note runs = fitted_runs[OF assms(1,2) some, where F = F and kind = kind and beh = beh and tz = tz
      and action_map = "written_map programs kind beh"]
  show ?thesis
  proof (cases "fit_behaviour F kind beh (fit_states programs vo kind beh) ss tz")
    case (Inl e)
    with runs have "unfitted F ss (fit_states programs vo kind beh) tz e" by simp
    with Inl False show ?thesis by (simp add: fit_one_def)
  next
    case (Inr f)
    then have f: "fi_kind f = kind" "fi_behaviour f = beh" "fi_states f = fit_states programs vo kind beh"
      by (auto simp: fit_behaviour_def Let_def rbind_Inr_iff)
    with runs some have "sound_fit table f (written_map programs kind beh)"
      unfolding Inr sum.case by (simp add: sound_fit_def assms(3) written_def)
    with f Inr False show ?thesis by (simp add: fit_one_def)
  qed
next
  case True
  then have "\<forall>s\<in>set ss. es_times s = []" using assms(2) by (force simp: list_all_iff)
  with True show ?thesis by (simp add: fit_one_def)
qed

text \<open>C38: What a fit of a run writes can be run, whatever the sensor saw: labelling its
  events with the vocabulary of the run's programs and fitting them raises nothing but what an estimator of
  the dwell families raises on five or more positive gaps of one state, every behaviour with an event is fitted,
  and each fitted behaviour has an initial distribution and rows over its acting states that
  are nonnegative and sum to one, one dwell for each state and a rate curve that is nowhere negative,
  as the agent's loop needs them. Floating point, in the estimators, is any.\<close>

theorem fits_run:
  assumes "programs_alike programs" "vocabulary_of other programs addresses = Inr vo"
  shows "let lab = label_events other events vo window; table = lb_streams lab
    in case fit_streams F programs vo tz lab of
      Inl e \<Rightarrow> \<exists>((kind, beh), ss)\<in>set table. unfitted F ss (fit_states programs vo kind beh) tz e
    | Inr fs \<Rightarrow> (\<forall>(f, action_map)\<in>set fs. sound_fit table f action_map)
        \<and> (\<forall>(key, ss)\<in>set table. (\<exists>s\<in>set ss. es_times s \<noteq> []) \<longrightarrow> (\<exists>(f, m)\<in>set fs. (fi_kind f, fi_behaviour f) = key))"
proof -
  obtain table where table: "table = lb_streams (label_events other events vo window)" by blast
  have one: "case fit_one F programs vo tz ((kind, beh), ss) of
      Inl e \<Rightarrow> unfitted F ss (fit_states programs vo kind beh) tz e
    | Inr None \<Rightarrow> \<forall>s\<in>set ss. es_times s = []
    | Inr (Some (f, m)) \<Rightarrow> sound_fit table f m \<and> fi_kind f = kind \<and> fi_behaviour f = beh"
    if e: "((kind, beh), ss) \<in> set table" for kind beh ss
  proof -
    obtain conns apps where split: "fold sort_event events ([], []) = (conns, apps)" by fastforce
    then obtain w where w: "table = streams_by_behaviour vo w (lg_by_instance (label_conns other vo apps w (dedupe conns)))"
      by (simp add: table label_events_def Let_def)
    have "dget table (kind, beh) = Some ss" using e by (simp add: w dget_in_iff[OF streams_ok])
    then have ss: "ss = dget_or table (kind, beh) []" by (simp add: dget_or_def)
    then have told: "told (placed other vo apps w (dedupe conns)) vo (kind, beh) ss"
      unfolding w by (simp add: streams_told[OF refl refl])
    have known: "\<forall>(c, cd)\<in>set (placed other vo apps w (dedupe conns)). cd \<in> set (all_candidates vo)"
      by (auto dest: placed_in)
    note runs = fit_states_runs[OF assms told known]
    show ?thesis by (rule fit_one_runs[OF runs(2,1) ss])
  qed
  obtain result where result: "rmap (fit_one F programs vo tz) (sort_key fst table) = result" by blast
  show ?thesis
  proof (cases result)
    case (Inl e)
    from rmap_Inl[OF result[unfolded Inl]] obtain kind beh ss where "((kind, beh), ss) \<in> set table"
      "fit_one F programs vo tz ((kind, beh), ss) = Inl e" by force
    with one have "\<exists>((kind, beh), ss)\<in>set table. unfitted F ss (fit_states programs vo kind beh) tz e" by fastforce
    with result Inl show ?thesis by (simp add: fit_streams_def table Let_def)
  next
    case (Inr founds)
    then have founds: "rmap (fit_one F programs vo tz) (sort_key fst table) = Inr founds" using result by simp
    have sound: "sound_fit table f m" if "(f, m) \<in> set (List.map_filter id founds)" for f m
    proof -
      from that have "Some (f, m) \<in> set founds" by (simp add: map_filter_id)
      with rmap_in[OF founds] obtain kind beh ss where "((kind, beh), ss) \<in> set table"
        "fit_one F programs vo tz ((kind, beh), ss) = Inr (Some (f, m))" by force
      with one show ?thesis by fastforce
    qed
    have fitted: "\<exists>(f, m)\<in>set (List.map_filter id founds). (fi_kind f, fi_behaviour f) = key"
      if e: "(key, ss) \<in> set table" and some: "\<exists>s\<in>set ss. es_times s \<noteq> []" for key ss
    proof -
      obtain kind beh where key: "key = (kind, beh)" by fastforce
      from e have "(key, ss) \<in> set (sort_key fst table)" by simp
      then obtain i where i: "i < length (sort_key fst table)" "sort_key fst table ! i = (key, ss)" by (meson in_set_conv_nth)
      from founds have all: "list_all2 (\<lambda>x y. fit_one F programs vo tz x = Inr y) (sort_key fst table) founds"
        by (simp only: rmap_Inr_iff)
      from list_all2_nthD[OF this i(1)] i list_all2_lengthD[OF all]
      have r: "founds ! i \<in> set founds" "fit_one F programs vo tz (key, ss) = Inr (founds ! i)" by simp_all
      with one[of kind beh ss] e some key obtain f m where "founds ! i = Some (f, m)" "(fi_kind f, fi_behaviour f) = key"
        by (fastforce split: option.splits)
      with r(1) show ?thesis by (auto simp: map_filter_id intro!: bexI[of _ "(f, m)"])
    qed
    have "\<forall>(f, m)\<in>set (List.map_filter id founds). sound_fit table f m"
      "\<forall>(key, ss)\<in>set table. (\<exists>s\<in>set ss. es_times s \<noteq> []) \<longrightarrow> (\<exists>(f, m)\<in>set (List.map_filter id founds). (fi_kind f, fi_behaviour f) = key)"
      using sound fitted by blast+
    moreover from founds have "fit_streams F programs vo tz (label_events other events vo window) = Inr (List.map_filter id founds)"
      by (simp add: fit_streams_def table)
    ultimately show ?thesis by (simp only: Let_def table[symmetric] sum.case)
  qed
qed

text \<open>A client of one web server, and what a sensor saw of it: one connection reported by two points, one
  to a stranger.\<close>

definition fit_demo_behaviour :: resolved_behaviour where
  "fit_demo_behaviour = demo_get\<lparr>rb_action_map := [(''get'', Some \<lparr>ra_signature = ''http.get'', ra_tie = ''t'', ra_params = [], ra_select = None\<rparr>)]\<rparr>"

definition fit_demo_program :: program where
  "fit_demo_program = demo_get_program\<lparr>pg_behaviours := [fit_demo_behaviour],
     pg_peers := [(''t'', [\<lparr>pe_instance = ''g/s[0]'', pe_address = ''10.0.0.2'',
       pe_served = [\<lparr>ep_protocol = ''http'', ep_port = 80, ep_transport = Tcp\<rparr>]\<rparr>])]\<rparr>"

definition fit_demo_conn :: "string \<Rightarrow> string \<Rightarrow> rat \<Rightarrow> event" where
  "fit_demo_conn native orig start = Conn \<lparr>ce_flow = \<lparr>sf_sensor = ''z'', sf_capture_point = ''p'', sf_native = native\<rparr>,
     ce_five_tuple = \<lparr>ft_orig_addr = orig, ft_orig_port = 40000, ft_resp_addr = ''10.0.0.2'', ft_resp_port = 80, ft_proto = ''tcp''\<rparr>,
     ce_start = start, ce_duration = None, ce_orig_bytes = None, ce_resp_bytes = None, ce_orig_pkts = None, ce_resp_pkts = None,
     ce_state = CClosed, ce_raw = []\<rparr>"

definition fit_demo_events :: "event list" where
  "fit_demo_events = [fit_demo_conn ''a'' ''10.0.0.1'' 10, fit_demo_conn ''b'' ''10.0.0.1'' 10, fit_demo_conn ''c'' ''10.0.0.1'' 70,
     fit_demo_conn ''d'' ''10.9.9.9'' 75]"

definition fit_demo_vocabulary :: "string + vocabulary" where
  "fit_demo_vocabulary = vocabulary_of (\<lambda>_. []) [fit_demo_program] [(''g/c[0]'', [(''lan'', ''10.0.0.1'')])]"

lemma fit_demo_ok:
  "case fit_demo_vocabulary of Inl _ \<Rightarrow> False
   | Inr vo \<Rightarrow> let lab = label_events (\<lambda>_. []) fit_demo_events vo None in
      map (\<lambda>(k, ss). (k, map (\<lambda>s. (es_host s, es_times s, es_marks s)) ss)) (lb_streams lab)
        = [((''c'', ''b''), [(''g/c[0]'', [10, 70], [''get'', ''get''])])]
      \<and> lb_unmapped lab = \<lparr>un_by_reason = [(''unknown originator'', 1)], un_originators = [(''10.9.9.9'', 1)]\<rparr>
      \<and> lb_connections lab = 3 \<and> map cd_instance (all_candidates vo) = [''g/c[0]'']"
  "programs_alike [fit_demo_program]"
  by code_simp+

theorem labelled_streams_witness:
  "\<exists>vo s. fit_demo_vocabulary = Inr vo \<and> s \<in> set (dget_or (lb_streams (label_events (\<lambda>_. []) fit_demo_events vo None)) (''c'', ''b'') [])
    \<and> es_times s = [10, 70] \<and> tells (placed_of (\<lambda>_. []) fit_demo_events vo (lb_window (label_events (\<lambda>_. []) fit_demo_events vo None))) (''c'', ''b'') s"
proof -
  from fit_demo_ok(1) obtain vo where vo: "fit_demo_vocabulary = Inr vo"
    and streams: "map (\<lambda>(k, ss). (k, map (\<lambda>s. (es_host s, es_times s, es_marks s)) ss)) (lb_streams (label_events (\<lambda>_. []) fit_demo_events vo None))
        = [((''c'', ''b''), [(''g/c[0]'', [10, 70], [''get'', ''get''])])]"
    by (auto simp: Let_def split: sum.splits)
  then obtain s where s: "lb_streams (label_events (\<lambda>_. []) fit_demo_events vo None) = [((''c'', ''b''), [s])]" "es_times s = [10, 70]"
    by (auto simp: map_eq_Cons_conv)
  then have "s \<in> set (dget_or (lb_streams (label_events (\<lambda>_. []) fit_demo_events vo None)) (''c'', ''b'') [])" by (simp add: dget_or_def)
  with vo s(2) labelled_streams[of "\<lambda>_. []" fit_demo_events vo None "(''c'', ''b'')"] show ?thesis unfolding Let_def by blast
qed

theorem labelled_accounted_witness:
  "\<exists>vo c d. fit_demo_vocabulary = Inr vo \<and> fit_demo_conn ''b'' ''10.0.0.1'' 10 = Conn c
    \<and> d \<in> set (dedupe (concat (map (\<lambda>e. case e of Conn c \<Rightarrow> [c] | App _ \<Rightarrow> []) fit_demo_events)))
    \<and> same_conn c d \<and> lb_connections (label_events (\<lambda>_. []) fit_demo_events vo None) = 3"
proof -
  from fit_demo_ok(1) obtain vo where vo: "fit_demo_vocabulary = Inr vo"
    "lb_connections (label_events (\<lambda>_. []) fit_demo_events vo None) = 3"
    by (auto simp: Let_def split: sum.splits)
  obtain c where c: "fit_demo_conn ''b'' ''10.0.0.1'' 10 = Conn c" by (simp add: fit_demo_conn_def)
  then have "Conn c \<in> set fit_demo_events" by (simp add: fit_demo_events_def)
  with labelled_accounted[of "\<lambda>_. []" fit_demo_events vo None]
  obtain d where "d \<in> set (dedupe (concat (map (\<lambda>e. case e of Conn c \<Rightarrow> [c] | App _ \<Rightarrow> []) fit_demo_events)))" "same_conn c d"
    unfolding Let_def by blast
  with vo c show ?thesis by blast
qed

lemma gap_count:
  assumes "gaps_by_state found states curve tz = Inr d"
  shows "length (dget_or d s []) \<le> length (concat (map gap_times found))"
proof (rule rfold_done[where Q = "\<lambda>xs d. length (dget_or d s []) \<le> length xs", OF _ _ assms[unfolded gaps_by_state_def]])
  show "length (dget_or (dict_of (map (\<lambda>s. (s, [] :: rat list)) states)) s []) \<le> length []"
    by (cases "dget (dict_of (map (\<lambda>s. (s, [] :: rat list)) states)) s") (auto simp: dget_or_def dest!: dget_Some_in dict_of_in)
next
  fix ds x rest and d d' :: "(string, rat list) dict"
  assume "length (dget_or d s []) \<le> length (ds :: (string \<times> rat \<times> rat) list)"
    "(case x of (mark, t, until) \<Rightarrow> \<lambda>d. if mark \<in> set (dkeys d)
       then rbind (operational tz curve t until 0) (\<lambda>x. Inr (dappend mark x d)) else Inr d) d = Inr d'"
  then show "length (dget_or d' s []) \<le> length (ds @ [x])"
    by (auto simp: rbind_Inr_iff dget_or_dappend split: prod.splits if_splits)
qed

theorem fits_run_witness:
  "\<exists>vo fs. fit_demo_vocabulary = Inr vo
    \<and> fit_streams exact_ops [fit_demo_program] vo (scenario_time 0) (label_events (\<lambda>_. []) fit_demo_events vo None) = Inr fs
    \<and> fs \<noteq> [] \<and> (\<forall>(f, m)\<in>set fs. process_ok (written f m))"
proof -
  from fit_demo_ok(1) obtain vo where vo: "fit_demo_vocabulary = Inr vo"
    and "map (\<lambda>(k, ss). (k, map (\<lambda>s. (es_host s, es_times s, es_marks s)) ss)) (lb_streams (label_events (\<lambda>_. []) fit_demo_events vo None))
        = [((''c'', ''b''), [(''g/c[0]'', [10, 70], [''get'', ''get''])])]"
    by (auto simp: Let_def split: sum.splits)
  then obtain s where s: "lb_streams (label_events (\<lambda>_. []) fit_demo_events vo None) = [((''c'', ''b''), [s])]"
    "es_times s = [10, 70]" "es_marks s = [''get'', ''get'']"
    by (auto simp: map_eq_Cons_conv)
  have "length (concat (map gap_times [s])) = 1" by (simp add: gap_times_def s)
  then have one: "length (dget_or gaps st []) \<le> 1" if "gaps_by_state [s] states curve tz = Inr gaps" for states curve tz gaps st
    using gap_count[OF that, of st] by linarith
  have few: "\<not> unfitted exact_ops [s] states tz e" for states tz e
  proof
    assume "unfitted exact_ops [s] states tz e"
    then obtain st gaps where "gaps_by_state [s] states (rc_values (fit_curve [s] tz)) tz = Inr gaps"
      "5 \<le> length (filter (\<lambda>x. 0 < x) (dget_or gaps st []))" by (auto simp: unfitted_def)
    with one[of states "rc_values (fit_curve [s] tz)" tz gaps st] length_filter_le[of "\<lambda>x. 0 < x" "dget_or gaps st []"] show False by linarith
  qed
  note run = fits_run[OF fit_demo_ok(2) vo[unfolded fit_demo_vocabulary_def], where events = fit_demo_events and window = None
      and F = exact_ops and tz = "scenario_time 0", unfolded Let_def s]
  show ?thesis
  proof (cases "fit_streams exact_ops [fit_demo_program] vo (scenario_time 0) (label_events (\<lambda>_. []) fit_demo_events vo None)")
    case (Inl e)
    with run few show ?thesis by simp
  next
    case (Inr fs)
    with run s(2) have "fs \<noteq> []" "\<forall>(f, m)\<in>set fs. process_ok (written f m)" by (auto simp: sound_fit_def)
    with vo Inr show ?thesis by blast
  qed
qed

end
