(* ===== verification/Sensors.thy ===== *)
theory Sensors
  imports Vocabulary
begin

unbundle bit_operations_syntax

text \<open>
  What the sensors wrote as events of the common model: Zeek's logs in both their formats
  (\<open>backends/sensor/_base/zeeklog.py\<close>, \<open>zeek/runtime.py\<close>), Suricata's \<open>eve.json\<close> (\<open>suricata/runtime.py\<close>) and the
  driver over every sensor and capture point (\<open>drive.py\<close>). Python's reading of a float, an integer, a
  timestamp, a JSON line and an escape are parameters; a float that is not finite, which the driver's
  writer refuses, is refused where it is read. Running the sensor's image is left out: its logs are given.
\<close>

section \<open>Parsing\<close>

datatype sensor_error = NoLog string | NoKey string | BadValue string | BadRow | NoSeparator | NotObject | NotFinite | NoDigest string

record readers =
  rd_float :: "string \<Rightarrow> rat option"
  rd_int :: "string \<Rightarrow> int option"
  rd_hex :: "string \<Rightarrow> int option"
  rd_stamp :: "string \<Rightarrow> rat option"
  rd_json :: "string \<Rightarrow> json option"
  rd_unescape :: "string \<Rightarrow> string option"
  rd_str :: "json \<Rightarrow> string"

definition or_bad :: "string \<Rightarrow> 'a option \<Rightarrow> sensor_error + 'a" where
  "or_bad s r = or_raise (BadValue s) r"

fun split_str :: "string \<Rightarrow> string \<Rightarrow> string \<Rightarrow> string list" where
  "split_str sep part [] = [part]"
| "split_str sep part (c # s) =
     (if starts_with sep (c # s) then part # split_str sep [] (drop (length sep - 1) s) else split_str sep (part @ [c]) s)"

definition py_split :: "string \<Rightarrow> string \<Rightarrow> sensor_error + string list" where
  "py_split sep s = (if sep = [] then Inl NoSeparator else Inr (split_str sep [] s))"

fun cut_at :: "string \<Rightarrow> string \<Rightarrow> string \<Rightarrow> string \<times> string" where
  "cut_at sep part [] = (part, [])"
| "cut_at sep part (c # s) = (if starts_with sep (c # s) then (part, drop (length sep - 1) s) else cut_at sep (part @ [c]) s)"

definition py_partition :: "string \<Rightarrow> string \<Rightarrow> sensor_error + string \<times> string" where
  "py_partition sep s = (if sep = [] then Inl NoSeparator else Inr (cut_at sep [] s))"

section \<open>Zeek's log files\<close>

definition is_many :: "string \<Rightarrow> bool" where
  "is_many kind \<longleftrightarrow> starts_with ''set['' kind \<or> starts_with ''vector['' kind"

definition inner_kind :: "string \<Rightarrow> string" where
  "inner_kind kind = butlast (tl (dropWhile (\<lambda>c. c \<noteq> CHR ''['') kind))"

lemma inner_kind_shorter: "is_many kind \<Longrightarrow> length (inner_kind kind) < length kind"
proof -
  assume "is_many kind"
  then have "kind \<noteq> []" by (auto simp: is_many_def starts_with_def)
  moreover have "length (dropWhile (\<lambda>c. c \<noteq> CHR ''['') kind) \<le> length kind" by (rule length_dropWhile_le)
  ultimately show ?thesis by (cases kind) (auto simp: inner_kind_def)
qed

function convert :: "readers \<Rightarrow> string \<Rightarrow> string \<Rightarrow> string \<Rightarrow> sensor_error + json" where
  "convert rd sep kind value =
     (if kind \<in> {''time'', ''interval'', ''double''} then rbind (or_bad value (rd_float rd value)) (\<lambda>x. Inr (JFloat (Fin x)))
      else if kind \<in> {''count'', ''int'', ''port''} then rbind (or_bad value (rd_int rd value)) (\<lambda>i. Inr (JInt i))
      else if kind = ''bool'' then Inr (JBool (value = ''T''))
      else if is_many kind
      then rbind (py_split sep value) (\<lambda>vs. rbind (rmap (convert rd sep (inner_kind kind)) vs) (\<lambda>xs. Inr (JArr xs)))
      else Inr (JStr value))"
  by pat_completeness auto
termination by (relation "measure (\<lambda>(rd, sep, kind, value). length kind)") (auto simp: inner_kind_shorter)

declare convert.simps [simp del]

record zeek_header =
  zh_separator :: string
  zh_set_separator :: string
  zh_empty :: string
  zh_unset :: string
  zh_fields :: "string list"
  zh_types :: "string list"

definition zeek_start :: zeek_header where
  "zeek_start = \<lparr>zh_separator = [CHR 0x09], zh_set_separator = '','', zh_empty = ''(empty)'', zh_unset = ''-'', zh_fields = [], zh_types = []\<rparr>"

definition header_line :: "readers \<Rightarrow> string \<Rightarrow> zeek_header \<Rightarrow> sensor_error + zeek_header" where
  "header_line rd line h =
     rbind (py_partition (if zh_separator h \<noteq> [CHR 0x09] \<or> CHR 0x09 \<in> set line then zh_separator h else '' '') (tl line)) (\<lambda>(key, rest).
       if key = ''separator'' then rbind (or_bad rest (rd_unescape rd rest)) (\<lambda>s. Inr (h\<lparr>zh_separator := s\<rparr>))
       else if key = ''set_separator'' then Inr (h\<lparr>zh_set_separator := rest\<rparr>)
       else if key = ''empty_field'' then Inr (h\<lparr>zh_empty := rest\<rparr>)
       else if key = ''unset_field'' then Inr (h\<lparr>zh_unset := rest\<rparr>)
       else if key = ''fields'' then rbind (py_split (zh_separator h) rest) (\<lambda>fs. Inr (h\<lparr>zh_fields := fs\<rparr>))
       else if key = ''types'' then rbind (py_split (zh_separator h) rest) (\<lambda>ts. Inr (h\<lparr>zh_types := ts\<rparr>))
       else Inr h)"

definition cell :: "readers \<Rightarrow> zeek_header \<Rightarrow> string \<Rightarrow> string \<Rightarrow> sensor_error + json" where
  "cell rd h kind value =
     (if value = zh_unset h then Inr JNull
      else if value = zh_empty h then Inr (if is_many kind then JArr [] else JStr [])
      else convert rd (zh_set_separator h) kind value)"

type_synonym json_record = "(string, json) dict"

fun row_record :: "readers \<Rightarrow> zeek_header \<Rightarrow> string list \<Rightarrow> string list \<Rightarrow> string list \<Rightarrow> json_record \<Rightarrow> sensor_error + json_record" where
  "row_record rd h [] [] [] r = Inr r"
| "row_record rd h (f # fs) (k # ks) (v # vs) r = rbind (cell rd h k v) (\<lambda>x. row_record rd h fs ks vs (dset f x r))"
| "row_record rd h _ _ _ r = Inl BadRow"

definition ascii_line :: "readers \<Rightarrow> string \<Rightarrow> zeek_header \<times> json_record list \<Rightarrow> sensor_error + zeek_header \<times> json_record list" where
  "ascii_line rd line = (\<lambda>(h, found).
     if starts_with ''#'' line then rbind (header_line rd line h) (\<lambda>h. Inr (h, found))
     else if line = [] then Inr (h, found)
     else rbind (py_split (zh_separator h) line) (\<lambda>values.
       rbind (row_record rd h (zh_fields h) (zh_types h) values []) (\<lambda>r. Inr (h, found @ [r]))))"

definition is_blank :: "string \<Rightarrow> bool" where
  "is_blank line \<longleftrightarrow> list_all str_space line"

lemma join_with_chars: "set (join_with sep ps) \<subseteq> set sep \<union> \<Union> (set ` set ps)"
  by (induction sep ps rule: join_with.induct) auto

text \<open>A file opened as text: a carriage return, alone or before a line feed, ends a line too.\<close>

fun newlines :: "string \<Rightarrow> string" where
  "newlines [] = []"
| "newlines [c] = [if c = CHR 0x0D then CHR 0x0A else c]"
| "newlines (c # d # s) =
     (if c = CHR 0x0D \<and> d = CHR 0x0A then CHR 0x0A # newlines s
      else (if c = CHR 0x0D then CHR 0x0A else c) # newlines (d # s))"

definition lines_of_text :: "string \<Rightarrow> string list" where
  "lines_of_text content = split_on (CHR 0x0A) (newlines content)"

lemma newlines_plain: "CHR 0x0D \<notin> set s \<Longrightarrow> newlines s = s"
  by (induction s rule: newlines.induct) auto

lemma lines_of_joined:
  assumes "\<forall>l\<in>set ls. CHR 0x0A \<notin> set l \<and> CHR 0x0D \<notin> set l" "ls \<noteq> []"
  shows "lines_of_text (join_with [CHR 0x0A] ls) = ls"
proof -
  have "CHR 0x0D \<notin> set (join_with [CHR 0x0A] ls)"
    using assms(1) join_with_chars[of "[CHR 0x0A]" ls] by auto
  moreover have "split_on (CHR 0x0A) (join_with [CHR 0x0A] ls) = ls"
    using assms by (intro split_on_join) auto
  ultimately show ?thesis by (simp add: lines_of_text_def newlines_plain)
qed

definition json_object :: "readers \<Rightarrow> string \<Rightarrow> sensor_error + json_record" where
  "json_object rd line = rbind (or_bad line (rd_json rd line)) (\<lambda>v. case v of JObj r \<Rightarrow> Inr r | _ \<Rightarrow> Inl NotObject)"

definition read_zeek_log :: "readers \<Rightarrow> string \<Rightarrow> sensor_error + json_record list" where
  "read_zeek_log rd content =
     (let lines = lines_of_text content
      in if starts_with ''{'' content then rmap (json_object rd) (filter (\<lambda>l. \<not> is_blank l) lines)
         else rbind (rfold (ascii_line rd) lines (zeek_start, [])) (\<lambda>(h, found). Inr found))"

section \<open>Zeek's events\<close>

definition states :: "(string, conn_state) dict" where
  "states = [(''S0'', CAttempted), (''S1'', CEstablished), (''S2'', CEstablished), (''S3'', CEstablished), (''SF'', CClosed),
     (''REJ'', CRejected), (''RSTO'', CReset), (''RSTR'', CReset), (''RSTOS0'', CReset), (''RSTRH'', CReset), (''SH'', COther),
     (''SHR'', COther), (''OTH'', COther)]"

definition app_logs :: "(string \<times> string \<times> (string \<times> string) list) list" where
  "app_logs = [
     (''http'', ''http'', [(''user_agent'', ''user_agent''), (''method'', ''method''), (''host'', ''host''), (''uri'', ''uri''),
        (''status_code'', ''status_code'')]),
     (''ssl'', ''tls'', [(''server_name'', ''server_name''), (''version'', ''version''), (''ja3'', ''ja3''), (''ja4'', ''ja4''),
        (''subject'', ''subject''), (''issuer'', ''issuer'')]),
     (''dns'', ''dns'', [(''query'', ''query''), (''qtype'', ''qtype_name''), (''rcode'', ''rcode_name'')]),
     (''ssh'', ''ssh'', [(''client'', ''client''), (''server'', ''server'')]),
     (''smb_mapping'', ''smb'', [(''path'', ''path''), (''share_type'', ''share_type'')])]"

definition truncated :: "rat \<Rightarrow> int" where
  "truncated q = (if 0 \<le> q then \<lfloor>q\<rfloor> else \<lceil>q\<rceil>)"

text \<open>\<open>_int\<close> and \<open>_float\<close>; a missing value is \<open>None\<close> like an unset one.\<close>

definition int_value :: "json option \<Rightarrow> sensor_error + int option" where
  "int_value v = (case v of Some (JInt i) \<Rightarrow> Inr (Some i) | Some (JFloat (Fin q)) \<Rightarrow> Inr (Some (truncated q))
     | Some (JFloat _) \<Rightarrow> Inl NotFinite | _ \<Rightarrow> Inr None)"

definition float_value :: "json option \<Rightarrow> sensor_error + rat option" where
  "float_value v = (case v of Some (JInt i) \<Rightarrow> Inr (Some (of_int i)) | Some (JFloat (Fin q)) \<Rightarrow> Inr (Some q)
     | Some (JFloat _) \<Rightarrow> Inl NotFinite | _ \<Rightarrow> Inr None)"

definition need :: "json_record \<Rightarrow> string \<Rightarrow> sensor_error + json" where
  "need r k = or_raise (NoKey k) (dget r k)"

definition need_str :: "readers \<Rightarrow> json_record \<Rightarrow> string \<Rightarrow> sensor_error + string" where
  "need_str rd r k = rbind (need r k) (\<lambda>v. Inr (json_str (rd_str rd) v))"

definition need_int :: "readers \<Rightarrow> json_record \<Rightarrow> string \<Rightarrow> sensor_error + int" where
  "need_int rd r k = rbind (need_str rd r k) (\<lambda>s. or_bad s (rd_int rd s))"

definition need_float :: "readers \<Rightarrow> json_record \<Rightarrow> string \<Rightarrow> sensor_error + rat" where
  "need_float rd r k = rbind (need_str rd r k) (\<lambda>s. or_bad s (rd_float rd s))"

record sensor_at =
  sa_name :: string
  sa_point :: string

definition flow :: "sensor_at \<Rightarrow> string \<Rightarrow> sensor_flow_id" where
  "flow sensor native = \<lparr>sf_sensor = sa_name sensor, sf_capture_point = sa_point sensor, sf_native = native\<rparr>"

definition state_of :: "readers \<Rightarrow> json option \<Rightarrow> conn_state" where
  "state_of rd v = dget_or states (case v of None \<Rightarrow> ''None'' | Some v \<Rightarrow> json_str (rd_str rd) v) COther"

definition zeek_conn :: "readers \<Rightarrow> sensor_at \<Rightarrow> json_record \<Rightarrow> sensor_error + event" where
  "zeek_conn rd sensor r =
     rbind (need_str rd r ''uid'') (\<lambda>uid.
     rbind (need_str rd r ''id.orig_h'') (\<lambda>oh. rbind (need_int rd r ''id.orig_p'') (\<lambda>op.
     rbind (need_str rd r ''id.resp_h'') (\<lambda>rh. rbind (need_int rd r ''id.resp_p'') (\<lambda>rp.
     rbind (need_str rd r ''proto'') (\<lambda>proto. rbind (need_float rd r ''ts'') (\<lambda>ts.
     rbind (float_value (dget r ''duration'')) (\<lambda>duration.
     rbind (int_value (dget r ''orig_bytes'')) (\<lambda>ob. rbind (int_value (dget r ''resp_bytes'')) (\<lambda>rb.
     rbind (int_value (dget r ''orig_pkts'')) (\<lambda>pk. rbind (int_value (dget r ''resp_pkts'')) (\<lambda>rk.
       Inr (Conn \<lparr>ce_flow = flow sensor uid,
         ce_five_tuple = \<lparr>ft_orig_addr = oh, ft_orig_port = op, ft_resp_addr = rh, ft_resp_port = rp, ft_proto = proto\<rparr>,
         ce_start = ts, ce_duration = duration, ce_orig_bytes = ob, ce_resp_bytes = rb, ce_orig_pkts = pk, ce_resp_pkts = rk,
         ce_state = state_of rd (dget r ''conn_state''), ce_raw = r\<rparr>)))))))))))))"

type_synonym numbered = "(string, nat) dict \<times> event list"

text \<open>The next index of a flow and the event that takes it.\<close>

definition number_event :: "string \<Rightarrow> (nat \<Rightarrow> app_event) \<Rightarrow> numbered \<Rightarrow> numbered" where
  "number_event native event_at = (\<lambda>(indexes, events).
     (dset native (dget_or indexes native 0 + 1) indexes, events @ [App (event_at (dget_or indexes native 0))]))"

definition column_fields :: "(string \<times> string) list \<Rightarrow> json_record \<Rightarrow> (string, json) dict" where
  "column_fields columns r = concat (map (\<lambda>(name, column). case dget r column of None \<Rightarrow> []
     | Some v \<Rightarrow> if v = JNull then [] else [(name, v)]) columns)"

definition zeek_app :: "readers \<Rightarrow> sensor_at \<Rightarrow> string \<Rightarrow> (string \<times> string) list \<Rightarrow> json_record \<Rightarrow> numbered \<Rightarrow> sensor_error + numbered" where
  "zeek_app rd sensor protocol columns r s =
     rbind (need_str rd r ''uid'') (\<lambda>uid. rbind (need_float rd r ''ts'') (\<lambda>ts.
       Inr (number_event uid (\<lambda>i. \<lparr>ae_flow = flow sensor uid, ae_index = int i, ae_ts = ts, ae_protocol = protocol,
         ae_fields = column_fields columns r, ae_raw = r\<rparr>) s)))"

definition zeek_log :: "readers \<Rightarrow> sensor_at \<Rightarrow> (string, string) dict \<Rightarrow> string \<times> string \<times> (string \<times> string) list
    \<Rightarrow> numbered \<Rightarrow> sensor_error + numbered" where
  "zeek_log rd sensor logs = (\<lambda>(log, protocol, columns) s.
     case dget logs (log @ ''.log'') of None \<Rightarrow> Inr s
     | Some content \<Rightarrow> rbind (read_zeek_log rd content) (\<lambda>rs. rfold (zeek_app rd sensor protocol columns) rs s))"

definition zeek_ingest :: "readers \<Rightarrow> sensor_at \<Rightarrow> (string, string) dict \<Rightarrow> sensor_error + event list" where
  "zeek_ingest rd sensor logs =
     (case dget logs ''conn.log'' of None \<Rightarrow> Inl (NoLog ''conn.log'')
      | Some content \<Rightarrow> rbind (read_zeek_log rd content) (\<lambda>rs. rbind (rmap (zeek_conn rd sensor) rs) (\<lambda>conns.
          rbind (rfold (zeek_log rd sensor logs) app_logs ([], conns)) (\<lambda>(indexes, events). Inr events))))"

section \<open>Suricata's events\<close>

definition app_types :: "(string \<times> string \<times> (string \<times> string list) list) list" where
  "app_types = [
     (''http'', ''http'', [(''user_agent'', [''http_user_agent'']), (''method'', [''http_method'']), (''host'', [''hostname'']),
        (''uri'', [''url'']), (''status_code'', [''status''])]),
     (''tls'', ''tls'', [(''server_name'', [''sni'']), (''version'', [''version'']), (''ja3'', [''ja3'', ''hash'']), (''ja4'', [''ja4'']),
        (''subject'', [''subject'']), (''issuer'', [''issuerdn'']), (''fingerprint'', [''fingerprint''])]),
     (''dns'', ''dns'', [(''query'', [''rrname'']), (''qtype'', [''rrtype'']), (''rcode'', [''rcode''])]),
     (''ssh'', ''ssh'', [(''client'', [''client'', ''software_version'']), (''server'', [''server'', ''software_version''])]),
     (''smb'', ''smb'', [(''dialect'', [''dialect'']), (''command'', [''command''])])]"

text \<open>Python's truth of a value, and \<open>v or absent\<close> on what \<open>get\<close> returns.\<close>

fun truthy :: "json \<Rightarrow> bool" where
  "truthy JNull = False"
| "truthy (JBool b) = b"
| "truthy (JInt i) = (i \<noteq> 0)"
| "truthy (JFloat x) = (x \<noteq> Fin 0)"
| "truthy (JStr s) = (s \<noteq> [])"
| "truthy (JArr xs) = (xs \<noteq> [])"
| "truthy (JObj d) = (d \<noteq> [])"

definition truthy_opt :: "json option \<Rightarrow> bool" where
  "truthy_opt v = (case v of None \<Rightarrow> False | Some v \<Rightarrow> truthy v)"

definition or_else :: "json option \<Rightarrow> json \<Rightarrow> json" where
  "or_else v absent = (case v of None \<Rightarrow> absent | Some w \<Rightarrow> if truthy w then w else absent)"

definition as_object :: "json \<Rightarrow> sensor_error + json_record" where
  "as_object v = (case v of JObj r \<Rightarrow> Inr r | _ \<Rightarrow> Inl NotObject)"

definition tcp_state :: "json_record \<Rightarrow> int \<Rightarrow> conn_state" where
  "tcp_state tcp to_client =
     (if truthy_opt (dget tcp ''fin'') then CClosed
      else if truthy_opt (dget tcp ''rst'') then (if to_client AND 0x12 \<noteq> 0x12 then CRejected else CReset)
      else if truthy_opt (dget tcp ''syn'') \<and> to_client = 0 then CAttempted
      else if truthy_opt (dget tcp ''ack'') then CEstablished else COther)"

definition suricata_state :: "readers \<Rightarrow> json_record \<Rightarrow> sensor_error + conn_state" where
  "suricata_state rd r =
     (if dget r ''proto'' = Some (JStr ''TCP'')
      then rbind (as_object (or_else (dget r ''tcp'') (JObj []))) (\<lambda>tcp.
        let flags = json_str (rd_str rd) (or_else (dget tcp ''tcp_flags_tc'') (JStr ''0''))
        in rbind (or_bad flags (rd_hex rd flags)) (\<lambda>to_client. Inr (tcp_state tcp to_client)))
      else rbind (as_object (or_else (dget r ''flow'') (JObj []))) (\<lambda>fl.
        let seen = json_str (rd_str rd) (or_else (dget fl ''pkts_toclient'') (JInt 0))
        in rbind (or_bad seen (rd_int rd seen)) (\<lambda>n. Inr (if 0 < n then CClosed else CAttempted))))"

fun dig :: "json \<Rightarrow> string list \<Rightarrow> json option" where
  "dig obj [] = (if obj = JNull then None else Some obj)"
| "dig obj (key # path) = (case obj of JObj d \<Rightarrow> (case dget d key of None \<Rightarrow> dig JNull path | Some v \<Rightarrow> dig v path) | _ \<Rightarrow> None)"

definition stamp :: "readers \<Rightarrow> json_record \<Rightarrow> string \<Rightarrow> sensor_error + rat" where
  "stamp rd r k = rbind (need_str rd r k) (\<lambda>s. or_bad s (rd_stamp rd s))"

definition int_or_zero :: "readers \<Rightarrow> json_record \<Rightarrow> string \<Rightarrow> sensor_error + int" where
  "int_or_zero rd r k = (if dget r k = None then need_int rd (dset k (JInt 0) r) k else need_int rd r k)"

definition suricata_flow :: "readers \<Rightarrow> sensor_at \<Rightarrow> string \<Rightarrow> json_record \<Rightarrow> sensor_error + event" where
  "suricata_flow rd sensor native r =
     rbind (rbind (need r ''flow'') as_object) (\<lambda>fl.
     rbind (stamp rd fl ''start'') (\<lambda>start.
     rbind (if truthy_opt (dget fl ''end'') then rbind (stamp rd fl ''end'') (\<lambda>e. Inr (Some (e - start))) else Inr None) (\<lambda>duration.
     rbind (need_str rd r ''src_ip'') (\<lambda>oh. rbind (int_or_zero rd r ''src_port'') (\<lambda>op.
     rbind (need_str rd r ''dest_ip'') (\<lambda>rh. rbind (int_or_zero rd r ''dest_port'') (\<lambda>rp.
     rbind (need_str rd r ''proto'') (\<lambda>proto.
     rbind (need_int rd fl ''bytes_toserver'') (\<lambda>ob. rbind (need_int rd fl ''bytes_toclient'') (\<lambda>rb.
     rbind (need_int rd fl ''pkts_toserver'') (\<lambda>pk. rbind (need_int rd fl ''pkts_toclient'') (\<lambda>rk.
     rbind (suricata_state rd r) (\<lambda>state.
       Inr (Conn \<lparr>ce_flow = flow sensor native,
         ce_five_tuple = \<lparr>ft_orig_addr = oh, ft_orig_port = op, ft_resp_addr = rh, ft_resp_port = rp, ft_proto = map lower_char proto\<rparr>,
         ce_start = start, ce_duration = duration, ce_orig_bytes = Some ob, ce_resp_bytes = Some rb, ce_orig_pkts = Some pk,
         ce_resp_pkts = Some rk, ce_state = state, ce_raw = r\<rparr>))))))))))))))"

definition dug_fields :: "(string \<times> string list) list \<Rightarrow> json option \<Rightarrow> (string, json) dict" where
  "dug_fields wanted body = concat (map (\<lambda>(name, path). case dig (case body of None \<Rightarrow> JNull | Some v \<Rightarrow> v) path of
     None \<Rightarrow> [] | Some v \<Rightarrow> [(name, v)]) wanted)"

definition suricata_line :: "readers \<Rightarrow> sensor_at \<Rightarrow> string \<Rightarrow> numbered \<Rightarrow> sensor_error + numbered" where
  "suricata_line rd sensor line s =
     (if is_blank line then Inr s
      else rbind (json_object rd line) (\<lambda>r.
        let kind = (case dget r ''event_type'' of None \<Rightarrow> ''None'' | Some v \<Rightarrow> json_str (rd_str rd) v)
        in case dget r ''flow_id'' of None \<Rightarrow> Inr s
           | Some v \<Rightarrow> let native = json_str (rd_str rd) v
             in if kind = ''flow'' then rbind (suricata_flow rd sensor native r) (\<lambda>e. Inr (fst s, snd s @ [e]))
                else case dget app_types kind of None \<Rightarrow> Inr s
                  | Some (protocol, wanted) \<Rightarrow> rbind (stamp rd r ''timestamp'') (\<lambda>ts.
                      Inr (number_event native (\<lambda>i. \<lparr>ae_flow = flow sensor native, ae_index = int i, ae_ts = ts, ae_protocol = protocol,
                        ae_fields = dug_fields wanted (dget r kind), ae_raw = r\<rparr>) s))))"

definition suricata_ingest :: "readers \<Rightarrow> sensor_at \<Rightarrow> (string, string) dict \<Rightarrow> sensor_error + event list" where
  "suricata_ingest rd sensor logs =
     (case dget logs ''eve.json'' of None \<Rightarrow> Inl (NoLog ''eve.json'')
      | Some content \<Rightarrow> rbind (rfold (suricata_line rd sensor) (lines_of_text content) ([], [])) (\<lambda>(indexes, events). Inr events))"

section \<open>Every sensor over every point\<close>

record reading =
  re_sensor :: string
  re_point :: string
  re_connections :: nat
  re_app_events :: nat

text \<open>\<open>sensor_run\<close> is \<open>make(spec, point).run(...)\<close> followed by \<open>ingest\<close>: the digest of the image and the events.\<close>

type_synonym sensor_run = "sensor_spec \<Rightarrow> string \<Rightarrow> sensor_error + string \<times> event list"

record driven =
  dr_readings :: "reading list"
  dr_digests :: "(string, string) dict"
  dr_written :: "((string \<times> string), event list) dict"
  dr_images :: "(string, string \<times> string) dict"

definition read_point :: "sensor_run \<Rightarrow> sensor_spec \<Rightarrow> string \<Rightarrow> driven \<Rightarrow> sensor_error + driven" where
  "read_point run spec point s = rbind (run spec point) (\<lambda>(digest, events).
     Inr (s\<lparr>dr_digests := dset (ss_name spec) digest (dr_digests s),
       dr_written := dset (ss_name spec, point) events (dr_written s),
       dr_readings := dr_readings s @ [\<lparr>re_sensor = ss_name spec, re_point = point,
         re_connections = length (filter (\<lambda>e. case e of Conn _ \<Rightarrow> True | App _ \<Rightarrow> False) events),
         re_app_events = length (filter (\<lambda>e. case e of Conn _ \<Rightarrow> False | App _ \<Rightarrow> True) events)\<rparr>]\<rparr>))"

definition read_spec :: "sensor_run \<Rightarrow> string list \<Rightarrow> sensor_spec \<Rightarrow> driven \<Rightarrow> sensor_error + driven" where
  "read_spec run points spec s =
     (if ss_mode spec \<noteq> Offline then Inr s
      else rbind (rfold (read_point run spec) points s) (\<lambda>s.
        case dget (dr_digests s) (ss_name spec) of None \<Rightarrow> Inl (NoDigest (ss_name spec))
        | Some digest \<Rightarrow> Inr (s\<lparr>dr_images := dset (ss_name spec) (ss_impl spec @ '':'' @ ss_version spec, digest) (dr_images s)\<rparr>)))"

definition run_sensors :: "sensor_run \<Rightarrow> sensor_spec list \<Rightarrow> string list \<Rightarrow> sensor_error + driven" where
  "run_sensors run specs points =
     rfold (read_spec run points) specs \<lparr>dr_readings = [], dr_digests = [], dr_written = [], dr_images = []\<rparr>"

section \<open>Application events are numbered\<close>

definition own_apps :: "sensor_flow_id \<Rightarrow> event list \<Rightarrow> app_event list" where
  "own_apps fl events = concat (map (\<lambda>e. case e of App a \<Rightarrow> if ae_flow a = fl then [a] else [] | Conn _ \<Rightarrow> []) events)"

definition event_flow :: "event \<Rightarrow> sensor_flow_id" where
  "event_flow e = (case e of Conn c \<Rightarrow> ce_flow c | App a \<Rightarrow> ae_flow a)"

definition numbered_ok :: "sensor_at \<Rightarrow> numbered \<Rightarrow> bool" where
  "numbered_ok sensor s \<longleftrightarrow> (\<forall>native. map ae_index (own_apps (flow sensor native) (snd s)) = map int [0..<dget_or (fst s) native 0])
     \<and> (\<forall>e\<in>set (snd s). \<exists>native. event_flow e = flow sensor native)"

lemma flow_inj: "flow sensor a = flow sensor b \<longleftrightarrow> a = b"
  by (auto simp: flow_def)

lemma number_event_ok:
  assumes "numbered_ok sensor s" "\<And>i. ae_flow (event_at i) = flow sensor native \<and> ae_index (event_at i) = int i"
  shows "numbered_ok sensor (number_event native event_at s)"
  using assms by (cases s) (auto simp: numbered_ok_def number_event_def own_apps_def event_flow_def flow_inj)

lemma add_conn_ok:
  assumes "numbered_ok sensor (indexes, events)" "ce_flow c = flow sensor native"
  shows "numbered_ok sensor (indexes, events @ [Conn c])"
  using assms by (auto simp: numbered_ok_def own_apps_def event_flow_def)

lemma rfold_keeps:
  assumes "\<And>x s s'. x \<in> set xs \<Longrightarrow> Q s \<Longrightarrow> f x s = Inr s' \<Longrightarrow> Q s'" "Q s" "rfold f xs s = Inr s'"
  shows "Q s'"
  using assms by (induction xs arbitrary: s) (auto simp: rbind_Inr_iff)

lemma zeek_app_ok:
  assumes "numbered_ok sensor s" "zeek_app rd sensor protocol columns r s = Inr s'"
  shows "numbered_ok sensor s'"
proof -
  from assms(2) obtain uid ts where "s' = number_event uid (\<lambda>i. \<lparr>ae_flow = flow sensor uid, ae_index = int i, ae_ts = ts,
      ae_protocol = protocol, ae_fields = column_fields columns r, ae_raw = r\<rparr>) s"
    unfolding zeek_app_def rbind_Inr_iff by blast
  then show ?thesis using assms(1) by (simp add: number_event_ok)
qed

lemma zeek_log_ok:
  assumes "numbered_ok sensor s" "zeek_log rd sensor logs l s = Inr s'"
  shows "numbered_ok sensor s'"
proof -
  obtain log protocol columns where l: "l = (log, protocol, columns)" using prod_cases3 by blast
  show ?thesis
  proof (cases "dget logs (log @ ''.log'')")
    case (Some content)
    with assms(2) obtain rs where "rfold (zeek_app rd sensor protocol columns) rs s = Inr s'"
      by (simp add: zeek_log_def l rbind_Inr_iff) blast
    from rfold_keeps[where Q = "numbered_ok sensor", OF _ assms(1) this] zeek_app_ok show ?thesis by blast
  qed (use assms in \<open>simp add: zeek_log_def l\<close>)
qed

lemma rbind_InrE: "rbind m f = Inr y \<Longrightarrow> (\<And>x. m = Inr x \<Longrightarrow> f x = Inr y \<Longrightarrow> P) \<Longrightarrow> P"
  by (auto simp: rbind_Inr_iff)

lemma zeek_conn_flow: "zeek_conn rd sensor r = Inr e \<Longrightarrow> \<exists>c native. e = Conn c \<and> ce_flow c = flow sensor native"
  by (auto simp: zeek_conn_def rbind_Inr_iff)

lemma suricata_flow_flow: "suricata_flow rd sensor native r = Inr e \<Longrightarrow> \<exists>c. e = Conn c \<and> ce_flow c = flow sensor native"
  unfolding suricata_flow_def
  by (elim rbind_InrE, drule sum.inject(2)[THEN iffD1], rule exI, rule conjI, erule sym, simp only: conn_event.select_convs)

lemma suricata_line_ok:
  assumes "numbered_ok sensor s" "suricata_line rd sensor line s = Inr s'"
  shows "numbered_ok sensor s'"
proof (cases "is_blank line")
  case False
  with assms(2) obtain r where r: "json_object rd line = Inr r"
    by (auto simp: suricata_line_def rbind_Inr_iff)
  obtain kind where kind: "kind = (case dget r ''event_type'' of None \<Rightarrow> ''None'' | Some v \<Rightarrow> json_str (rd_str rd) v)" by blast
  show ?thesis
  proof (cases "dget r ''flow_id''")
    case None
    with assms False r show ?thesis by (simp add: suricata_line_def Let_def)
  next
    case (Some v)
    obtain native where native: "native = json_str (rd_str rd) v" by blast
    note line = assms(2)[unfolded suricata_line_def, simplified False r Some rbind_simps if_False option.case Let_def, folded kind native]
    show ?thesis
    proof (cases "kind = ''flow''")
      case True
      with line obtain c where "s' = (fst s, snd s @ [Conn c])" "ce_flow c = flow sensor native"
        by (auto simp: rbind_Inr_iff dest!: suricata_flow_flow)
      with assms(1) show ?thesis by (cases s) (simp add: add_conn_ok)
    next
      case other: False
      show ?thesis
      proof (cases "dget app_types kind")
        case None
        with line other assms(1) show ?thesis by simp
      next
        case (Some e)
        obtain protocol wanted where e: "e = (protocol, wanted)" by fastforce
        from line other Some e obtain ts where "s' = number_event native (\<lambda>i. \<lparr>ae_flow = flow sensor native, ae_index = int i,
            ae_ts = ts, ae_protocol = protocol, ae_fields = dug_fields wanted (dget r kind), ae_raw = r\<rparr>) s"
          by (simp add: rbind_Inr_iff) blast
        then show ?thesis using assms(1) by (simp add: number_event_ok)
      qed
    qed
  qed
qed (use assms in \<open>simp add: suricata_line_def\<close>)

lemma conns_ok: "rmap (zeek_conn rd sensor) rs = Inr conns \<Longrightarrow> numbered_ok sensor ([], conns)"
proof -
  assume conns: "rmap (zeek_conn rd sensor) rs = Inr conns"
  have e: "\<exists>c native. e = Conn c \<and> ce_flow c = flow sensor native" if "e \<in> set conns" for e
    using rmap_in[OF conns that] zeek_conn_flow by blast
  then have "own_apps fl conns = []" for fl by (fastforce simp: own_apps_def)
  with e show ?thesis by (fastforce simp: numbered_ok_def dget_or_def event_flow_def)
qed

text \<open>C39: The flow and the index of an application event tell it from every other: whatever a sensor wrote, the
  events read from it carry the sensor and the capture point in their flow ids, and the application
  events of a flow are numbered from 0 in the order they are read, over all of Zeek's logs as over
  Suricata's one.\<close>

theorem app_events_numbered:
  assumes "zeek_ingest rd sensor logs = Inr events \<or> suricata_ingest rd sensor logs = Inr events"
  shows "(\<forall>native. \<exists>n. map ae_index (own_apps (flow sensor native) events) = map int [0..<n])
    \<and> (\<forall>e\<in>set events. sf_sensor (event_flow e) = sa_name sensor \<and> sf_capture_point (event_flow e) = sa_point sensor)"
proof -
  have "\<exists>indexes. numbered_ok sensor (indexes, events)"
    using assms
  proof
    assume "zeek_ingest rd sensor logs = Inr events"
    then obtain conns rs indexes where "rmap (zeek_conn rd sensor) rs = Inr conns"
      "rfold (zeek_log rd sensor logs) app_logs ([], conns) = Inr (indexes, events)"
      by (auto simp: zeek_ingest_def rbind_Inr_iff split: option.splits)
    then have "numbered_ok sensor (indexes, events)"
      using rfold_keeps[where Q = "numbered_ok sensor" and f = "zeek_log rd sensor logs"] zeek_log_ok conns_ok by metis
    then show ?thesis by blast
  next
    assume "suricata_ingest rd sensor logs = Inr events"
    then obtain content indexes where "rfold (suricata_line rd sensor) (lines_of_text content) ([], []) = Inr (indexes, events)"
      by (auto simp: suricata_ingest_def rbind_Inr_iff split: option.splits)
    moreover have "numbered_ok sensor ([], [])" by (simp add: numbered_ok_def own_apps_def dget_or_def)
    ultimately have "numbered_ok sensor (indexes, events)"
      using rfold_keeps[where Q = "numbered_ok sensor" and f = "suricata_line rd sensor"] suricata_line_ok by metis
    then show ?thesis by blast
  qed
  then obtain indexes where "numbered_ok sensor (indexes, events)" by blast
  then show ?thesis by (fastforce simp: numbered_ok_def flow_def)
qed

section \<open>A log read back\<close>

lemma starts_with_char: "starts_with [c] (d # s) \<longleftrightarrow> d = c"
  by (auto simp: starts_with_def)

lemma split_str_char: "split_str [c] part s = (part @ hd (split_on c s)) # tl (split_on c s)"
proof (induction s arbitrary: part)
  case (Cons d s)
  obtain q qs where "split_on c s = q # qs" using split_on_not_Nil by (cases "split_on c s") auto
  with Cons show ?case by (simp add: starts_with_char)
qed simp

lemma py_split_join:
  assumes "ps \<noteq> []" "\<forall>p\<in>set ps. c \<notin> set p"
  shows "py_split [c] (join_with [c] ps) = Inr ps"
  using assms by (simp add: py_split_def split_str_char split_on_join)

lemma cut_at_char: "c \<notin> set p \<Longrightarrow> cut_at [c] part (p @ c # s) = (part @ p, s)"
  by (induction p arbitrary: part) (auto simp: starts_with_char)

lemma cut_at_end: "c \<notin> set p \<Longrightarrow> cut_at [c] part p = (part @ p, [])"
  by (induction p arbitrary: part) (auto simp: starts_with_char)

text \<open>The file Zeek's ASCII writer writes with its defaults: the header that names the columns, the rows, and the
  closing line.\<close>

definition zeek_lines :: "string \<Rightarrow> string list \<Rightarrow> string list \<Rightarrow> string list list \<Rightarrow> string list" where
  "zeek_lines escaped names types rows =
     [''#separator '' @ escaped, ''#set_separator'' @ CHR 0x09 # '','', ''#empty_field'' @ CHR 0x09 # ''(empty)'',
      ''#unset_field'' @ CHR 0x09 # ''-'', ''#fields'' @ CHR 0x09 # join_with [CHR 0x09] names,
      ''#types'' @ CHR 0x09 # join_with [CHR 0x09] types]
     @ map (join_with [CHR 0x09]) rows @ [''#close'' @ CHR 0x09 # ''end'']"

definition zeek_columns :: "string list \<Rightarrow> string list \<Rightarrow> zeek_header" where
  "zeek_columns names types = zeek_start\<lparr>zh_fields := names, zh_types := types\<rparr>"

text \<open>Text that can stand in a line of such a file, and a row that is no comment and no empty line.\<close>

definition plain_texts :: "string list \<Rightarrow> bool" where
  "plain_texts ps \<longleftrightarrow> ps \<noteq> [] \<and> (\<forall>p\<in>set ps. CHR 0x09 \<notin> set p \<and> CHR 0x0A \<notin> set p \<and> CHR 0x0D \<notin> set p)"

definition plain_row :: "string list \<Rightarrow> bool" where
  "plain_row row \<longleftrightarrow> plain_texts row \<and> row \<noteq> [[]] \<and> \<not> starts_with ''#'' (hd row)"

lemma header_steps:
  assumes "rd_unescape rd escaped = Some [CHR 0x09]" "CHR 0x09 \<notin> set escaped" "plain_texts names" "plain_texts types"
  shows "rfold (ascii_line rd) (take 6 (zeek_lines escaped names types rows)) (zeek_start, []) = Inr (zeek_columns names types, [])"
proof -
  have tab: "cut_at [CHR 0x09] [] (p @ CHR 0x09 # s) = (p, s)" if "CHR 0x09 \<notin> set p" for p s
    using cut_at_char[OF that, of "[]"] by simp
  have start: "ascii_line rd (''#separator '' @ escaped) (zeek_start, found) = Inr (zeek_start, found)" for found
    using assms(1,2) cut_at_char[of "CHR '' ''" "''separator''" "[]" escaped]
    by (simp add: ascii_line_def header_line_def starts_with_def zeek_start_def py_partition_def or_bad_def or_raise_def)
  have fs: "py_split [CHR 0x09] (join_with [CHR 0x09] names) = Inr names" "py_split [CHR 0x09] (join_with [CHR 0x09] types) = Inr types"
    using assms(3,4) by (auto simp: plain_texts_def intro!: py_split_join)
  show ?thesis
    using start tab[of "''set_separator''"] tab[of "''empty_field''"] tab[of "''unset_field''"] tab[of "''fields''"] tab[of "''types''"]
    by (simp add: zeek_lines_def ascii_line_def header_line_def starts_with_def zeek_start_def zeek_columns_def py_partition_def fs)
qed

lemma row_line:
  assumes "plain_row row" "zh_separator h = [CHR 0x09]"
  shows "ascii_line rd (join_with [CHR 0x09] row) (h, found)
    = rbind (row_record rd h (zh_fields h) (zh_types h) row []) (\<lambda>r. Inr (h, found @ [r]))"
proof -
  obtain p ps where row: "row = p # ps" using assms(1) by (cases row) (auto simp: plain_row_def plain_texts_def)
  have "join_with [CHR 0x09] row \<noteq> [] \<and> \<not> starts_with ''#'' (join_with [CHR 0x09] row)"
    using assms(1) by (cases ps; cases p) (auto simp: row plain_row_def starts_with_def)
  moreover have "py_split [CHR 0x09] (join_with [CHR 0x09] row) = Inr row"
    using assms(1) by (auto simp: plain_row_def plain_texts_def intro!: py_split_join)
  ultimately show ?thesis by (simp add: ascii_line_def assms(2))
qed

lemma rows_read:
  assumes "\<forall>row\<in>set rows. plain_row row" "zh_separator h = [CHR 0x09]"
  shows "rfold (ascii_line rd) (map (join_with [CHR 0x09]) rows) (h, found)
    = rbind (rmap (\<lambda>row. row_record rd h (zh_fields h) (zh_types h) row []) rows) (\<lambda>rs. Inr (h, found @ rs))"
  using assms(1)
proof (induction rows arbitrary: found)
  case (Cons row rows)
  then show ?case
    by (simp add: row_line assms(2)) (cases "row_record rd h (zh_fields h) (zh_types h) row []";
      cases "rmap (\<lambda>row. row_record rd h (zh_fields h) (zh_types h) row []) rows"; simp)
qed simp

lemma lines_plain:
  assumes "plain_texts [escaped]" "plain_texts names" "plain_texts types" "\<forall>row\<in>set rows. plain_row row"
    "l \<in> set (zeek_lines escaped names types rows)"
  shows "CHR 0x0A \<notin> set l \<and> CHR 0x0D \<notin> set l"
proof -
  have join: "CHR 0x0A \<notin> set (join_with [CHR 0x09] ps) \<and> CHR 0x0D \<notin> set (join_with [CHR 0x09] ps)" if "plain_texts ps" for ps
    using join_with_chars[of "[CHR 0x09]" ps] that by (auto simp: plain_texts_def)
  from assms(4) have "plain_texts row" if "row \<in> set rows" for row using that by (simp add: plain_row_def)
  moreover have "CHR 0x0A \<notin> set escaped \<and> CHR 0x0D \<notin> set escaped" using assms(1) by (simp add: plain_texts_def)
  ultimately show ?thesis using assms(5) join[OF assms(2)] join[OF assms(3)] join by (auto simp: zeek_lines_def)
qed

lemma log_read:
  assumes "rd_unescape rd escaped = Some [CHR 0x09]" "plain_texts [escaped]"
    "plain_texts names" "plain_texts types" "\<forall>row\<in>set rows. plain_row row"
  shows "read_zeek_log rd (join_with [CHR 0x0A] (zeek_lines escaped names types rows))
    = rmap (\<lambda>row. row_record rd (zeek_columns names types) names types row []) rows"
proof -
  let ?lines = "zeek_lines escaped names types rows" and ?h = "zeek_columns names types"
  have "?lines \<noteq> []" by (simp add: zeek_lines_def)
  with lines_plain[OF assms(2-5)] have lines: "lines_of_text (join_with [CHR 0x0A] ?lines) = ?lines"
    by (intro lines_of_joined) blast+
  have tab: "CHR 0x09 \<notin> set escaped" using assms(2) by (simp add: plain_texts_def)
  have first: "\<not> starts_with ''{'' (join_with [CHR 0x0A] ?lines)" by (simp add: zeek_lines_def starts_with_def)
  have parts: "?lines = take 6 ?lines @ map (join_with [CHR 0x09]) rows @ [''#close'' @ CHR 0x09 # ''end'']"
    by (simp add: zeek_lines_def)
  have h: "zh_separator ?h = [CHR 0x09]" "zh_fields ?h = names" "zh_types ?h = types"
    by (simp_all add: zeek_columns_def zeek_start_def)
  have close: "ascii_line rd (''#close'' @ CHR 0x09 # ''end'') (?h, found) = Inr (?h, found)" for found
    using cut_at_char[of "CHR 0x09" "''close''" "[]" "''end''"]
    by (simp add: ascii_line_def header_line_def starts_with_def py_partition_def h(1))
  have "rfold (ascii_line rd) ?lines (zeek_start, [])
      = rbind (rmap (\<lambda>row. row_record rd ?h names types row []) rows) (\<lambda>rs. Inr (?h, rs))"
    by (subst parts, simp only: rfold_append header_steps[OF assms(1) tab assms(3,4)] rbind_simps rows_read[OF assms(5) h(1)] h(2,3),
      cases "rmap (\<lambda>row. row_record rd ?h names types row []) rows"; simp add: close[simplified])
  with first show ?thesis
    by (cases "rmap (\<lambda>row. row_record rd ?h names types row []) rows") (simp_all add: read_zeek_log_def lines)
qed

lemma row_record_Inr:
  assumes "row_record rd h fs ks vs r = Inr r'" "distinct (map fst r @ fs)"
  shows "\<exists>xs. r' = r @ zip fs xs \<and> length ks = length fs \<and> length vs = length fs \<and> length xs = length fs
    \<and> (\<forall>j<length fs. cell rd h (ks ! j) (vs ! j) = Inr (xs ! j))"
  using assms
proof (induction rd h fs ks vs r rule: row_record.induct)
  case (2 rd h f fs k ks v vs r)
  then obtain x where x: "cell rd h k v = Inr x" "row_record rd h fs ks vs (dset f x r) = Inr r'" by (auto simp: rbind_Inr_iff)
  have "f \<notin> fst ` set r" using "2.prems"(2) by auto
  then have r: "dset f x r = r @ [(f, x)]" by (rule dset_fresh)
  with "2.IH"[OF x] "2.prems"(2) obtain xs where xs: "r' = r @ [(f, x)] @ zip fs xs" "length ks = length fs" "length vs = length fs"
    "length xs = length fs" "\<forall>j<length fs. cell rd h (ks ! j) (vs ! j) = Inr (xs ! j)" by auto
  with x(1) show ?case by (intro exI[of _ "x # xs"]) (auto simp: less_Suc_eq_0_disj)
qed auto

lemma row_record_Inl:
  assumes "row_record rd h fs ks vs r = Inl e"
  shows "\<not> (length ks = length fs \<and> length vs = length fs) \<or> (\<exists>j<length fs. cell rd h (ks ! j) (vs ! j) = Inl e)"
  using assms
proof (induction rd h fs ks vs r rule: row_record.induct)
  case (2 rd h f fs k ks v vs r)
  then show ?case by (cases "cell rd h k v") (auto simp: less_Suc_eq_0_disj)
qed auto

text \<open>C40: A log Zeek's ASCII writer wrote is read back: under a header with its default separators, when no
  name, type or cell holds a tab, a line feed or a carriage return (the writer escapes them), each row gives
  one record, in order, with the named columns and each column's cell read as its type says; reading
  fails only if a row has not as many cells as there are columns or a cell is no value of its type.
  A row of one empty cell, or one whose first cell starts with \<open>#\<close>, is not of this form.\<close>

theorem zeek_log_read_back:
  assumes "rd_unescape rd escaped = Some [CHR 0x09]" "plain_texts [escaped]"
    "plain_texts names" "plain_texts types" "distinct names" "\<forall>row\<in>set rows. plain_row row"
  shows "case read_zeek_log rd (join_with [CHR 0x0A] (zeek_lines escaped names types rows)) of
      Inr rs \<Rightarrow> length rs = length rows \<and> (\<forall>i<length rows. \<exists>xs. rs ! i = zip names xs \<and> length xs = length names
        \<and> length types = length names \<and> length (rows ! i) = length names
        \<and> (\<forall>j<length names. cell rd (zeek_columns names types) (types ! j) (rows ! i ! j) = Inr (xs ! j)))
    | Inl e \<Rightarrow> \<exists>row\<in>set rows. length types \<noteq> length names \<or> length row \<noteq> length names
        \<or> (\<exists>j<length names. cell rd (zeek_columns names types) (types ! j) (row ! j) = Inl e)"
proof (cases "read_zeek_log rd (join_with [CHR 0x0A] (zeek_lines escaped names types rows))")
  case (Inl e)
  with log_read[OF assms(1-4,6)] have "rmap (\<lambda>row. row_record rd (zeek_columns names types) names types row []) rows = Inl e" by simp
  from rmap_Inl[OF this] obtain row where "row \<in> set rows" "row_record rd (zeek_columns names types) names types row [] = Inl e"
    by blast
  with row_record_Inl[OF this(2)] show ?thesis unfolding Inl by auto
next
  case (Inr rs)
  with log_read[OF assms(1-4,6)] have "rmap (\<lambda>row. row_record rd (zeek_columns names types) names types row []) rows = Inr rs" by simp
  then have rs: "length rs = length rows"
    "\<And>i. i < length rows \<Longrightarrow> row_record rd (zeek_columns names types) names types (rows ! i) [] = Inr (rs ! i)"
    by (simp_all add: rmap_Inr_iff list_all2_conv_all_nth)
  have "\<exists>xs. rs ! i = zip names xs \<and> length xs = length names \<and> length types = length names \<and> length (rows ! i) = length names
      \<and> (\<forall>j<length names. cell rd (zeek_columns names types) (types ! j) (rows ! i ! j) = Inr (xs ! j))" if "i < length rows" for i
    using row_record_Inr[OF rs(2)[OF that]] assms(5) by auto
  with rs(1) show ?thesis unfolding Inr by simp
qed

section \<open>What the sensors claim\<close>

text \<open>The capabilities of the two descriptors and the fields their runtimes fill.\<close>

definition zeek_capabilities :: "capability list" where
  "zeek_capabilities = [AppEvents, TlsJa4, TlsJa3, HttpUserAgent, SshStrings, SmbDialect, X509]"

definition suricata_capabilities :: "capability list" where
  "suricata_capabilities = [AppEvents, TlsJa4, TlsJa3, HttpUserAgent]"

definition claimed :: "capability list \<Rightarrow> string list" where
  "claimed caps = concat (map (\<lambda>c. map cf_name (sch_fields (schema_of c))) caps)"

lemma unmapped_claims:
  "filter (\<lambda>f. f \<notin> set (concat (map (\<lambda>(_, _, columns). map fst columns) app_logs))) (claimed zeek_capabilities) = [''dialect'', ''fingerprint'']"
  "filter (\<lambda>f. f \<notin> set (concat (map (\<lambda>(_, _, wanted). map fst wanted) app_types))) (claimed suricata_capabilities) = []"
  by code_simp+

lemma column_fields_names: "set (dkeys (column_fields columns r)) \<subseteq> fst ` set columns"
proof (induction columns)
  case (Cons c columns)
  have "column_fields (c # columns) r = (case dget r (snd c) of None \<Rightarrow> []
      | Some v \<Rightarrow> if v = JNull then [] else [(fst c, v)]) @ column_fields columns r"
    by (simp add: column_fields_def case_prod_unfold)
  with Cons show ?case by (auto simp: dkeys_def split: option.splits)
qed (simp add: column_fields_def dkeys_def)

text \<open>Without a captured point the digest of a sensor's image is asked for and was never set.\<close>

lemma no_point_no_digest:
  "ss_mode spec = Offline \<Longrightarrow> run_sensors run (spec # specs) [] = Inl (NoDigest (ss_name spec))"
  by (simp add: run_sensors_def read_spec_def)

section \<open>An example\<close>

definition demo_readers :: readers where
  "demo_readers = \<lparr>rd_float = (\<lambda>s. Some (of_nat (read_nat s))), rd_int = (\<lambda>s. Some (int (read_nat s))), rd_hex = (\<lambda>s. Some 0),
     rd_stamp = (\<lambda>s. Some 0), rd_json = (\<lambda>s. None), rd_unescape = (\<lambda>s. Some [CHR 0x09]), rd_str = (\<lambda>v. [])\<rparr>"

definition demo_conn_log :: string where
  "demo_conn_log = join_with [CHR 0x0A] (zeek_lines ''x09''
     [''ts'', ''uid'', ''id.orig_h'', ''id.orig_p'', ''id.resp_h'', ''id.resp_p'', ''proto'', ''duration'', ''conn_state'']
     [''time'', ''string'', ''addr'', ''port'', ''addr'', ''port'', ''enum'', ''interval'', ''string'']
     [[''10'', ''C1'', ''10.0.0.1'', ''40000'', ''10.0.0.2'', ''80'', ''tcp'', ''-'', ''SF'']])"

definition demo_http_log :: string where
  "demo_http_log = join_with [CHR 0x0A] (zeek_lines ''x09'' [''ts'', ''uid'', ''uri''] [''time'', ''string'', ''string'']
     [[''11'', ''C1'', ''/a''], [''12'', ''C1'', ''/b'']])"

definition demo_zeek :: "sensor_error + event list" where
  "demo_zeek = zeek_ingest demo_readers \<lparr>sa_name = ''z'', sa_point = ''p''\<rparr> [(''conn.log'', demo_conn_log), (''http.log'', demo_http_log)]"

lemma demo_zeek_reads:
  "case demo_zeek of Inl _ \<Rightarrow> False | Inr events \<Rightarrow>
     map ae_index (own_apps (flow \<lparr>sa_name = ''z'', sa_point = ''p''\<rparr> ''C1'') events) = [0, 1] \<and> length events = 3"
  by code_simp

theorem app_events_numbered_witness:
  "\<exists>events. demo_zeek = Inr events \<and> length events = 3
    \<and> (\<exists>n. map ae_index (own_apps (flow \<lparr>sa_name = ''z'', sa_point = ''p''\<rparr> ''C1'') events) = map int [0..<n])"
proof -
  from demo_zeek_reads obtain events where e: "demo_zeek = Inr events" "length events = 3" by (auto split: sum.splits)
  with app_events_numbered[of demo_readers "\<lparr>sa_name = ''z'', sa_point = ''p''\<rparr>"
    "[(''conn.log'', demo_conn_log), (''http.log'', demo_http_log)]" events] show ?thesis by (auto simp: demo_zeek_def)
qed

theorem zeek_log_read_back_witness:
  "\<exists>rs. read_zeek_log demo_readers demo_http_log = Inr rs \<and> length rs = 2"
proof -
  have plain: "plain_texts [''ts'', ''uid'', ''uri'']" "plain_texts [''time'', ''string'', ''string'']"
    "\<forall>row\<in>set [[''11'', ''C1'', ''/a''], [''12'', ''C1'', ''/b'']]. plain_row row"
    by (simp_all add: plain_texts_def plain_row_def starts_with_def)
  let ?names = "[''ts'', ''uid'', ''uri'']" and ?types = "[''time'', ''string'', ''string'']"
    and ?rows = "[[''11'', ''C1'', ''/a''], [''12'', ''C1'', ''/b'']]"
  have cells: "cell demo_readers (zeek_columns ?names ?types) k v \<noteq> Inl e" if "k \<in> set ?types" for k v e
  proof -
    have "convert demo_readers sep ''string'' v = Inr (JStr v)" for sep
      by (subst convert.simps) (simp add: is_many_def starts_with_def)
    moreover have "\<exists>x. convert demo_readers sep ''time'' v = Inr x" for sep
      by (subst convert.simps) (simp add: or_bad_def or_raise_def demo_readers_def)
    ultimately have "\<exists>x. convert demo_readers sep k v = Inr x" for sep using that by auto
    from this[of "zh_set_separator (zeek_columns ?names ?types)"] show ?thesis by (auto simp: cell_def)
  qed
  have hyps: "rd_unescape demo_readers ''x09'' = Some [CHR 0x09]" "plain_texts [''x09'']" "distinct ?names"
    by (simp_all add: demo_readers_def plain_texts_def)
  note result = zeek_log_read_back[OF hyps(1,2) plain(1,2) hyps(3) plain(3), folded demo_http_log_def]
  show ?thesis
  proof (cases "read_zeek_log demo_readers demo_http_log")
    case (Inl e)
    from result[unfolded Inl sum.case] obtain row where row: "row \<in> set ?rows"
      "length ?types \<noteq> length ?names \<or> length row \<noteq> length ?names
       \<or> (\<exists>j<length ?names. cell demo_readers (zeek_columns ?names ?types) (?types ! j) (row ! j) = Inl e)" by (rule bexE)
    from row(1) have "length row = length ?names" by auto
    with row(2) obtain j where "j < length ?types" "cell demo_readers (zeek_columns ?names ?types) (?types ! j) (row ! j) = Inl e"
      by (simp only: list.size) blast
    with cells[OF nth_mem] show ?thesis by blast
  next
    case (Inr rs)
    with result show ?thesis by simp
  qed
qed

end
