(* ===== verification/Spec2Isabelle.thy ===== *)
theory Spec2Isabelle
  imports Prelude IR Demo Instances Ipaddr Addressing Routing Codec IRCodec Resolve Interfaces Program Check_Context Checks_Model Checks_Hosts Checks_Network Checks_Names Run_Checks Events Collector Assembly Pcapng Sampling Agent Agent_Runs Agent_Checks Manifests Capture Scheduler Substrate Simulation Guests Vocabulary Streams Estimate Fit Dsl Ingest Sensors
begin

text \<open>
  A verification library for tiergen, a generator of labelled network traffic. A scenario (the
  IR) names kinds of actors, the groups that hold their instances, the ties between them, the
  processes they run and the network they run on. The program checks a scenario, plans its
  addresses and routes, projects it onto one program per instance, runs the programs while the
  network is captured, and joins what the agents, the kernel and the sensors recorded into
  labels. A simulator runs the same programs without a network, and a fit turns what a sensor saw
  back into a scenario. The library models that chain from the scenario to the labels and back, in the order of the
  code, and proves what makes each part and the whole correct. Paths below are under
  \<open>src/\<close>; every definition carries the name of the function it models where it can.

  \<^bold>\<open>Data and wire format.\<close>
  \<^item> \<open>Prelude\<close>: errors as sums, dictionaries in insertion order, Python's strings, floats with
    their non-finite values, messages. \<open>IR\<close> and \<open>Events\<close>: the records of
    \<open>core/ir.py\<close>, \<open>records.py\<close>, \<open>events.py\<close>, \<open>labels.py\<close> and
    \<open>interfaces/attribution.py\<close>, one record field per dataclass field, one datatype
    constructor per literal.
  \<^item> \<open>Codec\<close> (\<open>core/codec.py\<close>): encoding and annotation-driven decoding. \<open>IRCodec\<close>: the
    annotations of the IR, \<open>Scenario.to_json\<close> and \<open>from_json\<close>. The locale \<open>wire\<close> states
    what a class owes the codec; it is interpreted on the scenario, the kind and the
    implementation descriptor. What decodes is typed and finite; what is encoded decodes back;
    unknown keys and missing fields are refused.
  \<^item> \<open>Resolve\<close> (\<open>core/resources.py\<close>, \<open>resolve.py\<close>): the resource stores and the typed
    accessors over them. \<open>Interfaces\<close> (\<open>protocols\<close>, \<open>impls/_base\<close>, \<open>interfaces\<close>):
    the signature tables, implementation descriptors and their manifest, backend and sensor
    descriptors, run manifests, entry points.

  \<^item> \<open>Dsl\<close> (\<open>core/dsl.py\<close>): the builders a scenario file calls. An assembled scenario has one
    kind of each name and every kind its groups hold or bindings bind, and a tie is wired as said or to its own group.

  \<^bold>\<open>Planning.\<close>
  \<^item> \<open>Instances\<close> (\<open>core/groups.py\<close>): instance ids, the instances below a group, tie targets
    and schedule targets. \<open>Ipaddr\<close>: the part of Python's \<open>ipaddress\<close> the plan uses, both
    families. \<open>Addressing\<close> (\<open>core/addressing.py\<close>): the address plan, over the locale
    \<open>host_supply\<close>, which says what a supply of free hosts owes the plan. \<open>Routing\<close>
    (\<open>core/routing.py\<close>): distances, static routes and reachability, over the locale
    \<open>routing_tables\<close>. Addresses are unique, host addresses and complete; a route leads to its
    segment; breadth-first distances are shortest.
  \<^item> \<open>Program\<close> (\<open>core/program.py\<close>): the projected programs, with every way building one
    fails.

  \<^bold>\<open>Checks.\<close>
  \<^item> \<open>Check_Context\<close>, \<open>Checks_Model\<close> (checks 1 to 4), \<open>Checks_Hosts\<close> (5 to 8),
    \<open>Checks_Network\<close> (9 and 10), \<open>Checks_Names\<close> (11 to 16) and \<open>Run_Checks\<close>
    (\<open>check/\<close>): each check is the list of its diagnostics, messages included. The theorems
    of \<open>Run_Checks\<close> say what a scenario without errors has: its programs build, its ties are
    wired and deliver, its processes are stochastic and connected, its schedule selects.

  \<^bold>\<open>Building and running.\<close>
  \<^item> \<open>Manifests\<close> (\<open>backends/infra/_base/manifest.py\<close>): the run manifests, one per
    infrastructure backend, shown to share the instances out.
  \<^item> \<open>Capture\<close> (\<open>runtime/capture/points.py\<close>, \<open>offsets.py\<close>): the bridges and VLANs of the
    capture points and the clock offsets of the hosts.
  \<^item> \<open>Scheduler\<close> (\<open>runtime/scheduler/scheduler.py\<close>): a whole run over ports that may raise at
    any call, as steps on the run directory, the undo steps and the calls made. The locale
    \<open>run_relation\<close> (over \<open>state_relation\<close> of the prelude) says what a relation between states
    needs for every composition of steps to keep it; it is interpreted on the bookkeeping of what
    came up, and what came up goes down, once and in reverse.
  \<^item> \<open>Sampling\<close> (\<open>core/sampling.py\<close>, \<open>runtime/behaviour/sampling.py\<close>): seeds, weighted
    draws, holding times and the time change of the rate curve. \<open>Agent\<close>
    (\<open>runtime/agent_linux/program.py\<close>, \<open>runtime/behaviour/loop.py\<close>): the validation of a
    program and the loop of one behaviour as a step on its state, with an inductive set of
    reachable states. Its records are numbered and justified by the program. \<open>Agent_Runs\<close>: no
    pass of the loop raises, and the loop returns, on a measure of the events, the time and the
    first state still to come. \<open>Agent_Checks\<close>: a scenario the checks find no error in gives
    programs the loop runs, and the labels the assembly makes of the loops' records are true of
    the programs.

  \<^bold>\<open>Observation.\<close>
  \<^item> \<open>Collector\<close> (\<open>backends/attrib/_base\<close>): the join of the kernel's events into attribution
    records, shown equal to a definition without state.
  \<^item> \<open>Assembly\<close> (\<open>backends/assemble/join.py\<close>): the join of connections, records and
    invocations into labels and flags, with its indexes and its memo, shown equal to judging
    each connection on its own; every connection and every invocation is accounted for, and
    every label is justified.
  \<^item> \<open>Pcapng\<close> (\<open>runtime/capture/pcapng.py\<close>): reading, writing and tagging capture files over
    bytes, with a round trip and, for little-endian sections, the effect of tagging on the packets read back.
  \<^item> \<open>Sensors\<close> (\<open>backends/sensor/_base/zeeklog.py\<close>, \<open>drive.py\<close>, the \<open>runtime.py\<close> of zeek and
    suricata): the logs of both sensors as events and the driver over sensors and capture points. Application
    events are numbered per flow, and a log of the ASCII writer is read back.

  \<^bold>\<open>Simulating and fitting.\<close>
  \<^item> \<open>Simulation\<close> (\<open>sim/simulate.py\<close>): all loops of a scenario under a clock that
    jumps, one recorder shared by them, and the sensor events their calls would give. The records and the
    calls agree, the events are as many and between the addresses the programs say, and the run returns.
  \<^item> \<open>Vocabulary\<close> (\<open>fit/vocabulary.py\<close>): what a connection could be, from the programs. A simulated
    connection that is no scan is matched as its own action or found ambiguous.
  \<^item> \<open>Streams\<close> (\<open>stats/streams.py\<close>, \<open>two_sample.py\<close>): events per host, gaps, counts by hour, and
    the permutation test over a shuffler. \<open>Estimate\<close> (\<open>stats/estimate.py\<close>): the dwell families,
    Newton's method included, and the choice between them, with the errors Python's operators raise. \<open>Fit\<close>
    (\<open>fit/behaviour.py\<close>, \<open>emit.py\<close>): the rate curve, the transition rows, the holding times on the
    operational clock, shown to be the clock of the loop, and the fitted scenario. \<open>Ingest\<close>
    (\<open>fit/ingest.py\<close>, \<open>fit.py\<close>): sensor events labelled into one stream per instance, no
    connection lost without a count, and the fits of a run, which the agent's loop can run again.

  \<open>Demo\<close> holds the small scenario on which the witnesses evaluate the definitions.

  \<^bold>\<open>Parameters.\<close> \<open>blake2b\<close> (the digests of MAC addresses, bridges and seeds),
  \<open>datetime.fromisoformat\<close> (whether a time has an offset), \<open>tomllib\<close> and the entry points of
  the installed packages are arguments of the definitions that use them. Python's \<open>Random\<close> is the
  record \<open>random_source\<close> with the documented ranges as the hypothesis \<open>random_ok\<close>; the agent's
  clock, attribution and implementations are the record \<open>world\<close>, the scheduler's backends,
  capture and clock the record \<open>ports\<close>. The simulator takes the time a scenario starts at,
  the fit the time zone as a function from seconds to local time, the vocabulary the text of a float, the builders the offset
  \<open>fromisoformat\<close> reads and whether every NaN is one object, the sensors
  the record \<open>readers\<close> of Python's parsers, the permutation test its shuffler. The dwell estimators take the record
  \<open>float_ops\<close>: rounding, logarithm, power, square root and numpy's sum. \<open>fits_run\<close> asks nothing of it;
  \<open>exact_ops\<close> is one.

  \<^bold>\<open>Fuel.\<close> The agent's loop, alone and under the simulator, and the scheduler's waiting take fuel: \<open>loop_returns\<close> shows that
  some fuel is enough for the loop, \<open>simulation_returns\<close> for all loops of a simulation, \<open>wait_returns\<close> and \<open>run_ends\<close> for the waiting, whenever a
  sleep takes at least the time asked for. Newton's method makes at most the 100 steps the code allows. Every other recursion is on data or has a measure.

  \<^bold>\<open>Not modelled.\<close> The rounding of floats outside the dwell estimators (finite arithmetic is exact), the \<open>OverflowError\<close> of
  converting a huge integer to a float, the iteration order of sets (Python sorts them wherever it
  shows), characters above 255. The reading of scenario files, the command line and the scripts; the reports and comparisons of a
  fit, Wilson intervals, bootstrap, calibration and prediction; the images of the sensors, whose logs are given; the clients of
  Docker and libvirt, the eBPF collector's process and the implementations that make real traffic: they are input and output or
  statistics around the parts above.
\<close>

end
